(* ===== verification/Prelude.thy ===== *)
theory Prelude
  imports Main "HOL-Library.Word" "HOL-Library.Sublist"
begin

text \<open>
  Shared vocabulary of the development.

  \<^item> \<open>container_simps\<close>, \<open>container_intros\<close>: the facts about ordered containers that the
    component proofs hand to the simplifier.
  \<^item> Ordered containers. \<open>base::flat_set\<close> and \<open>base::flat_map\<close> (lib_base, a submodule of the
    repository) are represented by their contents: the strictly ascending list of the elements,
    respectively of the key/value pairs. \<open>emplace\<close> keeps the element that is already there,
    as the containers of the standard library do.
  \<^item> \<open>lower_bound_by\<close>, \<open>upper_bound_by\<close>: the binary searches of the standard library on a
    partitioned range, as the index they return.
  \<^item> The locales \<open>ordered_set\<close>, \<open>ordered_map\<close> and \<open>guarded_machine\<close>: the contracts the
    components use of an ordered container and of a state machine with an invariant.
\<close>

named_theorems container_simps \<open>facts about ordered containers, as rewrite rules\<close>
named_theorems container_intros \<open>facts about ordered containers, as introduction rules\<close>

section \<open>Arithmetic of the standard library\<close>

text \<open>\<open>std::clamp(v, lo, hi)\<close>: undefined for \<open>hi < lo\<close>, so the callers establish \<open>lo \<le> hi\<close>.\<close>

definition clamp :: "int \<Rightarrow> int \<Rightarrow> int \<Rightarrow> int" where
  "clamp v lo hi = (if v < lo then lo else if hi < v then hi else v)"

lemma clamp_bounds: "lo \<le> hi \<Longrightarrow> lo \<le> clamp v lo hi \<and> clamp v lo hi \<le> hi"
  by (simp add: clamp_def)

lemma clamp_id: "lo \<le> v \<Longrightarrow> v \<le> hi \<Longrightarrow> clamp v lo hi = v"
  by (simp add: clamp_def)

text \<open>The clamped value is the nearest one of the interval.\<close>

lemma clamp_nearest:
  assumes "lo \<le> x" and "x \<le> hi"
  shows "\<bar>clamp v lo hi - v\<bar> \<le> \<bar>x - v\<bar>"
  using assms by (auto simp: clamp_def)

text \<open>Integer division by a positive divisor, as the inequality it stands for.\<close>

lemma int_le_div_iff:
  assumes "0 < (b::int)"
  shows "c \<le> n div b \<longleftrightarrow> c * b \<le> n"
proof
  assume "c \<le> n div b"
  then have "c * b \<le> n div b * b" using assms by (simp add: mult_right_mono)
  also have "\<dots> \<le> n" using div_mult_mod_eq [of n b] pos_mod_sign [of b n] assms by linarith
  finally show "c * b \<le> n" .
next
  assume "c * b \<le> n"
  then have "c * b div b \<le> n div b" using assms by (intro zdiv_mono1)
  then show "c \<le> n div b" using assms by simp
qed

lemma int_div_less_iff: "0 < (b::int) \<Longrightarrow> n div b < c \<longleftrightarrow> n < c * b"
  by (simp add: int_le_div_iff flip: not_le)

lemma prefix_same_length: "prefix xs ys \<Longrightarrow> length xs = length ys \<Longrightarrow> xs = ys"
  by (auto simp: prefix_def)

section \<open>Ordered sets: strictly ascending lists\<close>

abbreviation strict_asc :: "'a::linorder list \<Rightarrow> bool" where
  "strict_asc xs \<equiv> sorted_wrt (<) xs"

fun asc_insert :: "'a::linorder \<Rightarrow> 'a list \<Rightarrow> 'a list" where
  "asc_insert x [] = [x]"
| "asc_insert x (y # ys) =
     (if x < y then x # y # ys else if x = y then y # ys else y # asc_insert x ys)"

definition asc_merge :: "'a::linorder list \<Rightarrow> 'a list \<Rightarrow> 'a list" where
  "asc_merge xs ys = foldl (\<lambda>s y. asc_insert y s) xs ys"

definition asc_remove :: "'a::linorder \<Rightarrow> 'a list \<Rightarrow> 'a list" where
  "asc_remove x xs = filter (\<lambda>y. y \<noteq> x) xs"

lemma set_asc_insert [container_simps]: "set (asc_insert x xs) = insert x (set xs)"
  by (induction xs) auto

lemma strict_asc_insert [container_intros]: "strict_asc xs \<Longrightarrow> strict_asc (asc_insert x xs)"
  by (induction xs) (auto simp: set_asc_insert)

lemma set_asc_merge [container_simps]: "set (asc_merge xs ys) = set xs \<union> set ys"
  unfolding asc_merge_def by (induction ys arbitrary: xs) (auto simp: set_asc_insert)

lemma strict_asc_merge [container_intros]: "strict_asc xs \<Longrightarrow> strict_asc (asc_merge xs ys)"
  unfolding asc_merge_def by (induction ys arbitrary: xs) (auto intro: strict_asc_insert)

lemma set_asc_remove [container_simps]: "set (asc_remove x xs) = set xs - {x}"
  by (auto simp: asc_remove_def)

lemma strict_asc_remove [container_intros]: "strict_asc xs \<Longrightarrow> strict_asc (asc_remove x xs)"
  unfolding asc_remove_def by (rule sorted_wrt_filter)

lemma strict_asc_card: "strict_asc xs \<Longrightarrow> card (set xs) = length xs"
  by (simp add: distinct_card strict_sorted_iff)

lemma length_asc_insert:
  assumes "strict_asc xs"
  shows "length (asc_insert x xs) = (if x \<in> set xs then length xs else Suc (length xs))"
  using strict_asc_card [OF strict_asc_insert [OF assms, of x]] strict_asc_card [OF assms]
  by (auto simp: set_asc_insert insert_absorb card_insert_if)

lemma strict_asc_unique:
  "strict_asc xs \<Longrightarrow> strict_asc ys \<Longrightarrow> set xs = set ys \<Longrightarrow> xs = ys"
  using strict_sorted_equal by blast

lemma strict_asc_append:
  "strict_asc (xs @ ys) \<longleftrightarrow>
     strict_asc xs \<and> strict_asc ys \<and> (\<forall>x\<in>set xs. \<forall>y\<in>set ys. x < y)"
  by (rule sorted_wrt_append)

lemma strict_asc_last: "strict_asc xs \<Longrightarrow> x \<in> set xs \<Longrightarrow> x \<le> last xs"
  by (induction xs) (auto intro: less_imp_le)

lemma strict_asc_hd: "strict_asc xs \<Longrightarrow> x \<in> set xs \<Longrightarrow> hd xs \<le> x"
  by (cases xs) (auto intro: less_imp_le)

text \<open>What the program relies on of an ordered set, as a contract.\<close>

locale ordered_set =
  fixes ins :: "'a::linorder \<Rightarrow> 's \<Rightarrow> 's"
    and del :: "'a \<Rightarrow> 's \<Rightarrow> 's"
    and merge :: "'s \<Rightarrow> 'a list \<Rightarrow> 's"
    and elems :: "'s \<Rightarrow> 'a list"
    and ok :: "'s \<Rightarrow> bool"
  assumes elems_asc: "ok s \<Longrightarrow> strict_asc (elems s)"
    and ok_ins: "ok s \<Longrightarrow> ok (ins x s)"
    and ok_del: "ok s \<Longrightarrow> ok (del x s)"
    and ok_merge: "ok s \<Longrightarrow> ok (merge s xs)"
    and elems_ins: "ok s \<Longrightarrow> set (elems (ins x s)) = insert x (set (elems s))"
    and elems_del: "ok s \<Longrightarrow> set (elems (del x s)) = set (elems s) - {x}"
    and elems_merge: "ok s \<Longrightarrow> set (elems (merge s xs)) = set (elems s) \<union> set xs"
begin

lemma size_card: "ok s \<Longrightarrow> length (elems s) = card (set (elems s))"
  by (simp add: elems_asc strict_asc_card)

lemma size_merge_ge: "ok s \<Longrightarrow> length (elems s) \<le> length (elems (merge s xs))"
  by (simp add: size_card ok_merge elems_merge card_mono)

lemma size_del:
  "ok s \<Longrightarrow> length (elems (del x s)) = length (elems s) - (if x \<in> set (elems s) then 1 else 0)"
  by (simp add: size_card ok_del elems_del)

lemma merge_absorb: "ok s \<Longrightarrow> set xs \<subseteq> set (elems s) \<Longrightarrow> elems (merge s xs) = elems s"
  by (rule strict_asc_unique) (auto simp: elems_asc ok_merge elems_merge)

end

interpretation flat_set: ordered_set asc_insert asc_remove asc_merge "\<lambda>xs. xs" "sorted_wrt (<)"
  by unfold_locales (auto simp: container_simps intro: container_intros)

section \<open>Ordered maps: key/value lists, strictly ascending in the key\<close>

abbreviation asc_keys :: "('k::linorder \<times> 'v) list \<Rightarrow> bool" where
  "asc_keys m \<equiv> strict_asc (map fst m)"

fun amap_emplace :: "'k::linorder \<Rightarrow> 'v \<Rightarrow> ('k \<times> 'v) list \<Rightarrow> ('k \<times> 'v) list" where
  "amap_emplace k v [] = [(k, v)]"
| "amap_emplace k v ((k', v') # m) =
     (if k < k' then (k, v) # (k', v') # m
      else if k = k' then (k', v') # m
      else (k', v') # amap_emplace k v m)"

lemma amap_emplace_ne [simp]: "amap_emplace k v m \<noteq> []"
  by (cases m) (auto split: if_splits)

lemma keys_amap_emplace [container_simps]:
  "map fst (amap_emplace k v m) = asc_insert k (map fst m)"
  by (induction m) auto

lemma asc_keys_emplace [container_intros]: "asc_keys m \<Longrightarrow> asc_keys (amap_emplace k v m)"
  by (simp add: keys_amap_emplace strict_asc_insert)

lemma amap_emplace_lookup [container_simps]:
  assumes "asc_keys m"
  shows "map_of (amap_emplace k v m) =
    (case map_of m k of None \<Rightarrow> (map_of m)(k \<mapsto> v) | Some _ \<Rightarrow> map_of m)"
  using assms
proof (induction m)
  case Nil
  show ?case by simp
next
  case (Cons p m)
  obtain k' v' where p: "p = (k', v')" by (cases p)
  have above: "k'' \<noteq> k" if "k < k'" and "(k'', v'') \<in> set m" for k'' v''
    using Cons.prems p that by (force simp: less_imp_neq)
  have fresh: "map_of m k = None" if "k < k'"
    using above [OF that] by (force simp: map_of_eq_None_iff)
  show ?case
    using Cons fresh by (auto simp: p fun_eq_iff split: option.splits)
qed

lemma set_amap_emplace_new:
  "k \<notin> fst ` set m \<Longrightarrow> set (amap_emplace k v m) = insert (k, v) (set m)"
proof (induction m)
  case Nil
  show ?case by simp
next
  case (Cons p m)
  then show ?case by (cases p) (simp add: insert_commute)
qed

lemma length_amap_emplace:
  assumes "asc_keys m"
  shows "length (amap_emplace k v m) = (if k \<in> fst ` set m then length m else Suc (length m))"
proof -
  have "length (amap_emplace k v m) = length (asc_insert k (map fst m))"
    by (metis keys_amap_emplace length_map)
  with length_asc_insert [OF assms, of k] show ?thesis by simp
qed

locale ordered_map =
  fixes emplace :: "'k::linorder \<Rightarrow> 'v \<Rightarrow> 'm \<Rightarrow> 'm"
    and find :: "'m \<Rightarrow> 'k \<Rightarrow> 'v option"
    and keys :: "'m \<Rightarrow> 'k list"
    and ok :: "'m \<Rightarrow> bool"
  assumes keys_asc: "ok m \<Longrightarrow> strict_asc (keys m)"
    and keys_find: "ok m \<Longrightarrow> k \<in> set (keys m) \<longleftrightarrow> find m k \<noteq> None"
    and ok_emplace: "ok m \<Longrightarrow> ok (emplace k v m)"
    and find_emplace: "ok m \<Longrightarrow> find (emplace k v m) k' =
      (if k' = k \<and> find m k = None then Some v else find m k')"
begin

lemma find_emplace_new: "ok m \<Longrightarrow> find m k = None \<Longrightarrow> find (emplace k v m) k = Some v"
  by (simp add: find_emplace)

lemma find_emplace_other: "ok m \<Longrightarrow> k' \<noteq> k \<Longrightarrow> find (emplace k v m) k' = find m k'"
  by (simp add: find_emplace)

lemma emplace_keeps: "ok m \<Longrightarrow> find m k' = Some w \<Longrightarrow> find (emplace k v m) k' = Some w"
  by (auto simp: find_emplace)

lemma keys_emplace: "ok m \<Longrightarrow> set (keys (emplace k v m)) = insert k (set (keys m))"
  by (auto simp: keys_find ok_emplace find_emplace split: if_splits)

end

interpretation flat_map: ordered_map amap_emplace map_of "map fst" "\<lambda>m. sorted_wrt (<) (map fst m)"
proof unfold_locales
  fix m :: "('a \<times> 'b) list" and k k' v
  assume ok: "asc_keys m"
  show "asc_keys m" by (fact ok)
  show "k \<in> set (map fst m) \<longleftrightarrow> map_of m k \<noteq> None"
    by (simp add: map_of_eq_None_iff)
  show "asc_keys (amap_emplace k v m)" by (rule asc_keys_emplace [OF ok])
  show "map_of (amap_emplace k v m) k' =
      (if k' = k \<and> map_of m k = None then Some v else map_of m k')"
    by (auto simp: amap_emplace_lookup [OF ok] split: option.splits)
qed

section \<open>Binary searches\<close>

definition lower_bound_by :: "('e \<Rightarrow> 'k::linorder) \<Rightarrow> 'k \<Rightarrow> 'e list \<Rightarrow> nat" where
  "lower_bound_by f k xs = length (takeWhile (\<lambda>x. f x < k) xs)"

definition upper_bound_by :: "('e \<Rightarrow> 'k::linorder) \<Rightarrow> 'k \<Rightarrow> 'e list \<Rightarrow> nat" where
  "upper_bound_by f k xs = length (takeWhile (\<lambda>x. f x \<le> k) xs)"

lemma lower_bound_le: "lower_bound_by f k xs \<le> length xs"
  by (simp add: lower_bound_by_def length_takeWhile_le)

lemma upper_bound_le: "upper_bound_by f k xs \<le> length xs"
  by (simp add: upper_bound_by_def length_takeWhile_le)

lemma take_lower_bound: "take (lower_bound_by f k xs) xs = takeWhile (\<lambda>x. f x < k) xs"
  by (simp add: lower_bound_by_def takeWhile_eq_take [symmetric])

lemma drop_lower_bound: "drop (lower_bound_by f k xs) xs = dropWhile (\<lambda>x. f x < k) xs"
  by (simp add: lower_bound_by_def dropWhile_eq_drop [symmetric])

lemma take_upper_bound: "take (upper_bound_by f k xs) xs = takeWhile (\<lambda>x. f x \<le> k) xs"
  by (simp add: upper_bound_by_def takeWhile_eq_take [symmetric])

lemma drop_upper_bound: "drop (upper_bound_by f k xs) xs = dropWhile (\<lambda>x. f x \<le> k) xs"
  by (simp add: upper_bound_by_def dropWhile_eq_drop [symmetric])

text \<open>On a range sorted by the projection the searches split it as the standard requires.\<close>

lemma in_takeWhile_sorted:
  assumes "sorted_wrt (\<lambda>a b. P b \<longrightarrow> P a) xs"
  shows "x \<in> set (takeWhile P xs) \<longleftrightarrow> x \<in> set xs \<and> P x"
  using assms by (induction xs) auto

lemma in_dropWhile_sorted:
  assumes "sorted_wrt (\<lambda>a b. P b \<longrightarrow> P a) xs"
  shows "x \<in> set (dropWhile P xs) \<longleftrightarrow> x \<in> set xs \<and> \<not> P x"
  using assms by (induction xs) auto

lemma in_take_lower_bound:
  assumes "sorted_wrt (\<lambda>a b. f a \<le> f b) xs"
  shows "x \<in> set (take (lower_bound_by f k xs) xs) \<longleftrightarrow> x \<in> set xs \<and> f x < k"
  unfolding take_lower_bound
  by (rule in_takeWhile_sorted) (rule sorted_wrt_mono_rel [OF _ assms], auto)

lemma in_drop_lower_bound:
  assumes "sorted_wrt (\<lambda>a b. f a \<le> f b) xs"
  shows "x \<in> set (drop (lower_bound_by f k xs) xs) \<longleftrightarrow> x \<in> set xs \<and> k \<le> f x"
  unfolding drop_lower_bound not_less [symmetric]
  by (rule in_dropWhile_sorted) (rule sorted_wrt_mono_rel [OF _ assms], auto)

lemma in_take_upper_bound:
  assumes "sorted_wrt (\<lambda>a b. f a \<le> f b) xs"
  shows "x \<in> set (take (upper_bound_by f k xs) xs) \<longleftrightarrow> x \<in> set xs \<and> f x \<le> k"
  unfolding take_upper_bound
  by (rule in_takeWhile_sorted) (rule sorted_wrt_mono_rel [OF _ assms], auto)

lemma in_drop_upper_bound:
  assumes "sorted_wrt (\<lambda>a b. f a \<le> f b) xs"
  shows "x \<in> set (drop (upper_bound_by f k xs) xs) \<longleftrightarrow> x \<in> set xs \<and> k < f x"
  unfolding drop_upper_bound not_le [symmetric]
  by (rule in_dropWhile_sorted) (rule sorted_wrt_mono_rel [OF _ assms], auto)

lemmas bound_splits = in_take_lower_bound in_drop_lower_bound in_take_upper_bound in_drop_upper_bound

section \<open>State machines with guarded operations\<close>

text \<open>
  A component is a state, operations on it (\<open>step\<close>), the caller's obligation at each call
  (\<open>pre\<close>, the \<open>Expects\<close> of the source) and an invariant every operation keeps.
\<close>

locale guarded_machine =
  fixes step :: "'s \<Rightarrow> 'op \<Rightarrow> 's"
    and pre :: "'s \<Rightarrow> 'op \<Rightarrow> bool"
    and inv :: "'s \<Rightarrow> bool"
  assumes inv_step: "inv s \<Longrightarrow> pre s c \<Longrightarrow> inv (step s c)"
begin

fun legal :: "'s \<Rightarrow> 'op list \<Rightarrow> bool" where
  "legal s [] = True"
| "legal s (c # cs) = (pre s c \<and> legal (step s c) cs)"

lemma inv_run: "inv s \<Longrightarrow> legal s cs \<Longrightarrow> inv (foldl step s cs)"
  by (induction cs arbitrary: s) (auto intro: inv_step)

end

end
