(* ===== verification/VimBindings.thy ===== *)
theory VimBindings
  imports Prelude
begin

unbundle bit_operations_syntax

text \<open>
  The key-binding layer of the Vim keymap (\<open>core/vim_keymap_bindings.h\<close>, \<open>.cpp\<close>): the
  recognisers of single key events, the parser and matcher of the binding strings of the
  configuration, and the two little state machines (\<open>gg\<close> in text motion, the \<open>Ctrl+A\<close> pane
  prefix) whose state is a boolean the caller keeps.

  A \<open>QKeyEvent\<close> is a record of what the code reads of it. A \<open>QString\<close> is the list of its
  UTF-16 code units. Qt's Unicode and string routines (\<open>toCaseFolded\<close>, \<open>toUpper\<close>,
  \<open>trimmed\<close>, \<open>split\<close>) are not part of the repository: they are the fields of a record
  \<open>qt_text\<close> that every definition takes, together with the compile-time flag \<open>Q_OS_MAC\<close>,
  so that both branches of each \<open>#ifdef\<close> are modelled. \<open>MediaPlaybackSpeed\<close> computes
  in \<open>double\<close> and is not modelled.
\<close>

type_synonym qstring = "int list"

definition latin :: "string \<Rightarrow> qstring" where
  "latin s = map of_char s"

record qt_text =
  os_mac :: bool
  fold_case :: "qstring \<Rightarrow> qstring"
  fold_char :: "int \<Rightarrow> int"
  upper_char :: "int \<Rightarrow> int"
  trimmed :: "qstring \<Rightarrow> qstring"
  split_on :: "int \<Rightarrow> qstring \<Rightarrow> qstring list"

record key_event =
  ev_key :: int
  ev_text :: qstring
  ev_modifiers :: "32 word"
  ev_auto_repeat :: bool
  ev_native_key :: int

section \<open>Constants of Qt's key enumerations\<close>

abbreviation NoModifier :: "32 word" where "NoModifier \<equiv> 0"
abbreviation ShiftModifier :: "32 word" where "ShiftModifier \<equiv> 0x02000000"
abbreviation ControlModifier :: "32 word" where "ControlModifier \<equiv> 0x04000000"
abbreviation AltModifier :: "32 word" where "AltModifier \<equiv> 0x08000000"
abbreviation MetaModifier :: "32 word" where "MetaModifier \<equiv> 0x10000000"
abbreviation KeypadModifier :: "32 word" where "KeypadModifier \<equiv> 0x20000000"
abbreviation GroupSwitchModifier :: "32 word" where "GroupSwitchModifier \<equiv> 0x40000000"

abbreviation Key_Escape :: int where "Key_Escape \<equiv> 0x01000000"
abbreviation Key_Tab :: int where "Key_Tab \<equiv> 0x01000001"
abbreviation Key_Backtab :: int where "Key_Backtab \<equiv> 0x01000002"
abbreviation Key_Backspace :: int where "Key_Backspace \<equiv> 0x01000003"
abbreviation Key_Return :: int where "Key_Return \<equiv> 0x01000004"
abbreviation Key_Enter :: int where "Key_Enter \<equiv> 0x01000005"
abbreviation Key_Delete :: int where "Key_Delete \<equiv> 0x01000007"
abbreviation Key_Home :: int where "Key_Home \<equiv> 0x01000010"
abbreviation Key_End :: int where "Key_End \<equiv> 0x01000011"
abbreviation Key_Left :: int where "Key_Left \<equiv> 0x01000012"
abbreviation Key_Up :: int where "Key_Up \<equiv> 0x01000013"
abbreviation Key_Right :: int where "Key_Right \<equiv> 0x01000014"
abbreviation Key_Down :: int where "Key_Down \<equiv> 0x01000015"
abbreviation Key_PageUp :: int where "Key_PageUp \<equiv> 0x01000016"
abbreviation Key_PageDown :: int where "Key_PageDown \<equiv> 0x01000017"
abbreviation Key_unknown :: int where "Key_unknown \<equiv> 0x01ffffff"
abbreviation Key_Space :: int where "Key_Space \<equiv> 0x20"
abbreviation Key_Dollar :: int where "Key_Dollar \<equiv> 0x24"
abbreviation Key_Comma :: int where "Key_Comma \<equiv> 0x2c"
abbreviation Key_Minus :: int where "Key_Minus \<equiv> 0x2d"
abbreviation Key_Period :: int where "Key_Period \<equiv> 0x2e"
abbreviation Key_Slash :: int where "Key_Slash \<equiv> 0x2f"
abbreviation Key_0 :: int where "Key_0 \<equiv> 0x30"
abbreviation Key_4 :: int where "Key_4 \<equiv> 0x34"
abbreviation Key_6 :: int where "Key_6 \<equiv> 0x36"
abbreviation Key_Colon :: int where "Key_Colon \<equiv> 0x3a"
abbreviation Key_Semicolon :: int where "Key_Semicolon \<equiv> 0x3b"
abbreviation Key_Equal :: int where "Key_Equal \<equiv> 0x3d"
abbreviation Key_Question :: int where "Key_Question \<equiv> 0x3f"
abbreviation Key_A :: int where "Key_A \<equiv> 0x41"
abbreviation Key_B :: int where "Key_B \<equiv> 0x42"
abbreviation Key_C :: int where "Key_C \<equiv> 0x43"
abbreviation Key_D :: int where "Key_D \<equiv> 0x44"
abbreviation Key_E :: int where "Key_E \<equiv> 0x45"
abbreviation Key_F :: int where "Key_F \<equiv> 0x46"
abbreviation Key_G :: int where "Key_G \<equiv> 0x47"
abbreviation Key_H :: int where "Key_H \<equiv> 0x48"
abbreviation Key_J :: int where "Key_J \<equiv> 0x4a"
abbreviation Key_K :: int where "Key_K \<equiv> 0x4b"
abbreviation Key_L :: int where "Key_L \<equiv> 0x4c"
abbreviation Key_S :: int where "Key_S \<equiv> 0x53"
abbreviation Key_U :: int where "Key_U \<equiv> 0x55"
abbreviation Key_V :: int where "Key_V \<equiv> 0x56"
abbreviation Key_W :: int where "Key_W \<equiv> 0x57"
abbreviation Key_Y :: int where "Key_Y \<equiv> 0x59"
abbreviation Key_Z :: int where "Key_Z \<equiv> 0x5a"
abbreviation Key_BracketLeft :: int where "Key_BracketLeft \<equiv> 0x5b"
abbreviation Key_Backslash :: int where "Key_Backslash \<equiv> 0x5c"
abbreviation Key_BracketRight :: int where "Key_BracketRight \<equiv> 0x5d"
abbreviation Key_AsciiCircum :: int where "Key_AsciiCircum \<equiv> 0x5e"
abbreviation Key_Underscore :: int where "Key_Underscore \<equiv> 0x5f"
abbreviation Key_BraceLeft :: int where "Key_BraceLeft \<equiv> 0x7b"
abbreviation Key_Bar :: int where "Key_Bar \<equiv> 0x7c"
abbreviation Key_BraceRight :: int where "Key_BraceRight \<equiv> 0x7d"

section \<open>Reading a key event\<close>

definition clean_modifiers :: "key_event \<Rightarrow> 32 word" where
  "clean_modifiers e = ev_modifiers e AND NOT (KeypadModifier OR GroupSwitchModifier)"

definition plain_text :: "qt_text \<Rightarrow> key_event \<Rightarrow> qstring" where
  "plain_text qt e = fold_case qt (ev_text e)"

definition text_is :: "qt_text \<Rightarrow> key_event \<Rightarrow> qstring \<Rightarrow> qstring \<Rightarrow> bool" where
  "text_is qt e lat cyr = (let t = plain_text qt e in t = lat \<or> t = cyr)"

definition mac_virtual_keys :: "(int \<times> int) list" where
  "mac_virtual_keys =
    [(Key_A, 0), (Key_B, 11), (Key_C, 8), (Key_D, 2), (Key_E, 14), (Key_F, 3), (Key_G, 5),
     (Key_H, 4), (0x49, 34), (Key_J, 38), (Key_K, 40), (Key_L, 37), (0x4d, 46), (0x4e, 45),
     (0x4f, 31), (0x50, 35), (0x51, 12), (0x52, 15), (Key_S, 1), (0x54, 17), (Key_U, 32),
     (Key_V, 9), (Key_W, 13), (0x58, 7), (Key_Y, 16), (Key_Z, 6),
     (Key_BracketLeft, 33), (Key_BracketRight, 30)]"

definition mac_virtual_key_is :: "qt_text \<Rightarrow> key_event \<Rightarrow> int \<Rightarrow> bool" where
  "mac_virtual_key_is qt e key =
     (os_mac qt \<and>
      (case map_of mac_virtual_keys key of
         Some native \<Rightarrow> ev_native_key e = native
       | None \<Rightarrow> False))"

definition physical_control_modifier :: "qt_text \<Rightarrow> 32 word" where
  "physical_control_modifier qt = (if os_mac qt then MetaModifier else ControlModifier)"

definition key_is :: "qt_text \<Rightarrow> key_event \<Rightarrow> int \<Rightarrow> qstring \<Rightarrow> qstring \<Rightarrow> bool" where
  "key_is qt e key lat cyr =
     (ev_key e = key
      \<or> mac_virtual_key_is qt e key
      \<or> (case cyr of [] \<Rightarrow> False
         | c # _ \<Rightarrow> ev_key e = c \<or> ev_key e = upper_char qt c)
      \<or> text_is qt e lat cyr)"

definition hint_character :: "qt_text \<Rightarrow> key_event \<Rightarrow> qstring" where
  "hint_character qt e =
     (let text = plain_text qt e in
      if text \<noteq> [] then take 1 text
      else if Key_A \<le> ev_key e \<and> ev_key e \<le> Key_Z then [0x61 + ev_key e - Key_A]
      else if ev_key e = Key_Comma then latin '',''
      else if ev_key e = Key_Period then latin ''.''
      else if os_mac qt then
        (case find (\<lambda>key. mac_virtual_key_is qt e key) [Key_A..Key_Z] of
           Some key \<Rightarrow> [0x61 + key - Key_A]
         | None \<Rightarrow>
             if ev_native_key e = 43 then latin '',''
             else if ev_native_key e = 47 then latin ''.''
             else [])
      else [])"

definition is_plain_enter :: "key_event \<Rightarrow> bool" where
  "is_plain_enter e =
     (\<not> ev_auto_repeat e
      \<and> (ev_key e = Key_Return \<or> ev_key e = Key_Enter)
      \<and> clean_modifiers e = NoModifier)"

definition is_plain_escape :: "key_event \<Rightarrow> bool" where
  "is_plain_escape e =
     (\<not> ev_auto_repeat e \<and> ev_key e = Key_Escape \<and> clean_modifiers e = NoModifier)"

definition is_system_paste :: "qt_text \<Rightarrow> key_event \<Rightarrow> bool" where
  "is_system_paste qt e =
     (if os_mac qt then
        \<not> ev_auto_repeat e
        \<and> clean_modifiers e = ControlModifier
        \<and> key_is qt e Key_V (latin ''v'') [0x43C]
      else False)"

definition is_text_yank :: "qt_text \<Rightarrow> key_event \<Rightarrow> bool" where
  "is_text_yank qt e =
     (\<not> ev_auto_repeat e
      \<and> clean_modifiers e = NoModifier
      \<and> key_is qt e Key_Y (latin ''y'') [0x43D])"

definition is_line_start :: "qt_text \<Rightarrow> key_event \<Rightarrow> bool" where
  "is_line_start qt e =
     (let mods = clean_modifiers e in
      if ev_auto_repeat e \<or> (mods \<noteq> NoModifier \<and> mods \<noteq> ShiftModifier) then False
      else let text = plain_text qt e in
      if text = latin ''0'' \<or> text = latin ''^'' \<or> text = latin ''|'' \<or> text = latin ''/''
      then True
      else let matched =
          (mods = NoModifier \<and> (ev_key e = Key_0 \<or> ev_key e = Key_Slash))
          \<or> ev_key e = Key_AsciiCircum
          \<or> ev_key e = Key_Bar
          \<or> (mods = ShiftModifier \<and> (ev_key e = Key_6 \<or> ev_key e = Key_Backslash)) in
      if os_mac qt then
        matched
        \<or> (mods = NoModifier \<and> ev_native_key e = 44)
        \<or> (mods = ShiftModifier \<and> ev_native_key e = 42)
      else matched)"

definition is_line_end :: "qt_text \<Rightarrow> key_event \<Rightarrow> bool" where
  "is_line_end qt e =
     (let mods = clean_modifiers e in
      if ev_auto_repeat e \<or> (mods \<noteq> NoModifier \<and> mods \<noteq> ShiftModifier) then False
      else let text = plain_text qt e;
        matched =
          text = latin ''$''
          \<or> text = latin '';''
          \<or> ev_key e = Key_Dollar
          \<or> (mods = ShiftModifier \<and> ev_key e = Key_4)
          \<or> (mods = NoModifier \<and> ev_key e = Key_Semicolon) in
      if os_mac qt then
        matched
        \<or> (mods = ShiftModifier \<and> ev_native_key e = 21)
        \<or> (mods = NoModifier \<and> ev_native_key e = 41)
      else matched)"

section \<open>Recognisers of single commands\<close>

definition page_navigation_delta :: "qt_text \<Rightarrow> key_event \<Rightarrow> int" where
  "page_navigation_delta qt e =
     (if clean_modifiers e \<noteq> ShiftModifier then 0
      else if key_is qt e Key_U (latin ''u'') [0x433] then -1
      else if key_is qt e Key_D (latin ''d'') [0x432] then 1
      else 0)"

definition is_close_hints :: "qt_text \<Rightarrow> key_event \<Rightarrow> bool" where
  "is_close_hints qt e =
     (clean_modifiers e = NoModifier \<and> key_is qt e Key_C (latin ''c'') [0x441])"

definition is_show_message_hints :: "qt_text \<Rightarrow> key_event \<Rightarrow> bool" where
  "is_show_message_hints qt e =
     (clean_modifiers e = ShiftModifier \<and> key_is qt e Key_F (latin ''f'') [0x430])"

definition is_text_follow_link :: "qt_text \<Rightarrow> key_event \<Rightarrow> bool \<Rightarrow> bool" where
  "is_text_follow_link qt e pending_start =
     (pending_start
      \<and> \<not> ev_auto_repeat e
      \<and> clean_modifiers e = NoModifier
      \<and> key_is qt e Key_D (latin ''d'') [0x432])"

definition is_message_selection :: "qt_text \<Rightarrow> key_event \<Rightarrow> bool \<Rightarrow> bool" where
  "is_message_selection qt e by_range =
     (clean_modifiers e = (if by_range then ShiftModifier else NoModifier)
      \<and> \<not> ev_auto_repeat e
      \<and> key_is qt e Key_S (latin ''s'') [0x44B])"

definition is_selection_forward :: "qt_text \<Rightarrow> key_event \<Rightarrow> bool" where
  "is_selection_forward qt e =
     (clean_modifiers e = NoModifier \<and> key_is qt e Key_F (latin ''f'') [0x430])"

definition tab_navigation_delta :: "key_event \<Rightarrow> int" where
  "tab_navigation_delta e =
     (if ev_auto_repeat e then 0
      else let mods = clean_modifiers e in
      if ev_key e = Key_Backtab \<and> (mods = NoModifier \<or> mods = ShiftModifier) then -1
      else if ev_key e \<noteq> Key_Tab then 0
      else if mods = ShiftModifier then -1
      else if mods = NoModifier then 1
      else 0)"

definition picker_navigation_delta :: "qt_text \<Rightarrow> key_event \<Rightarrow> int" where
  "picker_navigation_delta qt e =
     (if clean_modifiers e \<noteq> NoModifier then 0
      else if key_is qt e Key_J (latin ''j'') [0x43E] then 1
      else if key_is qt e Key_K (latin ''k'') [0x43B] then -1
      else 0)"

definition interface_history_delta :: "qt_text \<Rightarrow> key_event \<Rightarrow> int" where
  "interface_history_delta qt e =
     (if clean_modifiers e \<noteq> physical_control_modifier qt then 0
      else if key_is qt e Key_H (latin ''h'') [0x440] then -1
      else if key_is qt e Key_L (latin ''l'') [0x434] then 1
      else 0)"

definition spellcheck_key :: "qt_text \<Rightarrow> key_event \<Rightarrow> bool" where
  "spellcheck_key qt e =
     (clean_modifiers e = physical_control_modifier qt
      \<and> key_is qt e Key_E (latin ''e'') [0x443])"

definition media_navigation_delta :: "qt_text \<Rightarrow> key_event \<Rightarrow> int" where
  "media_navigation_delta qt e =
     (let mods = clean_modifiers e in
      if mods \<noteq> ControlModifier \<and> mods \<noteq> MetaModifier then 0
      else if key_is qt e Key_H (latin ''h'') [0x440] then -1
      else if key_is qt e Key_L (latin ''l'') [0x434] then 1
      else 0)"

datatype sticker_grid_action =
  GridNone | MoveLeft | MoveDown | MoveUp | MoveRight | ScrollUp | ScrollDown
| Choose | Preview | ClosePreview

definition sticker_grid_action_key :: "qt_text \<Rightarrow> key_event \<Rightarrow> sticker_grid_action" where
  "sticker_grid_action_key qt e =
     (if is_plain_escape e then ClosePreview
      else let mods = clean_modifiers e;
        left = key_is qt e Key_H (latin ''h'') [0x440];
        down = key_is qt e Key_J (latin ''j'') [0x43E];
        up = key_is qt e Key_K (latin ''k'') [0x43B];
        right = key_is qt e Key_L (latin ''l'') [0x434] in
      if mods = ControlModifier \<and> up then ScrollUp
      else if mods = ControlModifier \<and> down then ScrollDown
      else if mods = NoModifier \<and> left then MoveLeft
      else if mods = NoModifier \<and> down then MoveDown
      else if mods = NoModifier \<and> up then MoveUp
      else if mods = NoModifier \<and> right then MoveRight
      else if is_plain_enter e then Choose
      else if \<not> ev_auto_repeat e \<and> mods = NoModifier
        \<and> key_is qt e Key_W (latin ''w'') [0x446] then Preview
      else GridNone)"

section \<open>Text motion: the pending \<open>g\<close>\<close>

datatype text_motion =
  CharacterLeft | CharacterRight | WordLeft | WordRight | LineStart | LineEnd
| LineUp | LineDown | ParagraphPrevious | ParagraphNext | TextStart | TextEnd

text \<open>\<open>TextMotionKey\<close> takes \<open>pendingStart\<close> by reference: the result is the motion and its new value.\<close>

definition text_motion_key ::
  "qt_text \<Rightarrow> key_event \<Rightarrow> bool \<Rightarrow> text_motion option \<times> bool" where
  "text_motion_key qt e pending_start =
     (if ev_auto_repeat e then (None, pending_start)
      else let was_pending = pending_start; mods = clean_modifiers e in
      if mods \<noteq> NoModifier \<and> mods \<noteq> ShiftModifier then (None, False)
      else if key_is qt e Key_G (latin ''g'') [0x43F] then
        (if mods = ShiftModifier then (Some TextEnd, False)
         else if was_pending then (Some TextStart, False)
         else (None, True))
      else if ev_key e = Key_BraceLeft \<or> ev_text e = latin ''{''
        \<or> (mods = ShiftModifier \<and> key_is qt e Key_BracketLeft (latin ''['') [0x445])
      then (Some ParagraphPrevious, False)
      else if ev_key e = Key_BraceRight \<or> ev_text e = latin ''}''
        \<or> (mods = ShiftModifier \<and> key_is qt e Key_BracketRight (latin '']'') [0x44A])
      then (Some ParagraphNext, False)
      else if key_is qt e Key_J (latin ''j'') [0x43E] then (Some LineDown, False)
      else if key_is qt e Key_K (latin ''k'') [0x43B]
        \<or> (mods = ShiftModifier \<and> key_is qt e Key_H (latin ''h'') [0x440])
      then (Some LineUp, False)
      else if key_is qt e Key_H (latin ''h'') [0x440] then (Some CharacterLeft, False)
      else if key_is qt e Key_L (latin ''l'') [0x434] then (Some CharacterRight, False)
      else if key_is qt e Key_B (latin ''b'') [0x438] then (Some WordLeft, False)
      else if key_is qt e Key_W (latin ''w'') [0x446]
        \<or> key_is qt e Key_E (latin ''e'') [0x443] then (Some WordRight, False)
      else if is_line_start qt e then (Some LineStart, False)
      else if is_line_end qt e then (Some LineEnd, False)
      else (None, False))"

section \<open>Pane navigation: the pending prefix\<close>

datatype pane_navigation_action = PaneNone | PanePrefix | PaneCancel | PaneLeft | PaneRight

definition pane_navigation_key ::
  "qt_text \<Rightarrow> key_event \<Rightarrow> bool \<Rightarrow> pane_navigation_action \<times> bool" where
  "pane_navigation_key qt e pending =
     (let mods = clean_modifiers e in
      if mods = physical_control_modifier qt \<and> key_is qt e Key_A (latin ''a'') [0x444] then
        (PanePrefix, if \<not> ev_auto_repeat e then True else pending)
      else if \<not> pending then (PaneNone, pending)
      else if ev_auto_repeat e then (PaneCancel, pending)
      else if mods = NoModifier \<and> key_is qt e Key_H (latin ''h'') [0x440] then (PaneLeft, False)
      else if mods = NoModifier \<and> key_is qt e Key_L (latin ''l'') [0x434] then (PaneRight, False)
      else (PaneCancel, False))"

section \<open>Binding strings\<close>

record key_binding =
  kb_modifiers :: "32 word"
  kb_key :: int
  kb_text :: qstring

record match_options =
  allow_extra_shift :: bool
  real_mac_modifiers :: bool
  allow_mac_equivalent :: bool

definition default_match_options :: match_options where
  "default_match_options =
     \<lparr>allow_extra_shift = False, real_mac_modifiers = False, allow_mac_equivalent = True\<rparr>"

text \<open>\<open>Qt::SkipEmptyParts\<close> leaves the empty fields of the split out.\<close>

definition split_skip_empty :: "qt_text \<Rightarrow> int \<Rightarrow> qstring \<Rightarrow> qstring list" where
  "split_skip_empty qt c s = filter (\<lambda>part. part \<noteq> []) (split_on qt c s)"

definition normalize_token :: "qt_text \<Rightarrow> qstring \<Rightarrow> qstring" where
  "normalize_token qt value = filter (\<lambda>c. c \<noteq> 0x20) (fold_case qt (trimmed qt value))"

definition modifier_from_token :: "qt_text \<Rightarrow> qstring \<Rightarrow> bool \<Rightarrow> 32 word option" where
  "modifier_from_token qt token real_mac =
     (if token = latin ''ctrl'' \<or> token = latin ''control'' then
        Some (if os_mac qt
              then (if real_mac then ControlModifier else physical_control_modifier qt)
              else ControlModifier)
      else if token = latin ''cmd'' \<or> token = latin ''command'' \<or> token = latin ''meta'' then
        Some (if os_mac qt
              then (if real_mac then MetaModifier else physical_control_modifier qt)
              else physical_control_modifier qt)
      else if token = latin ''shift'' then Some ShiftModifier
      else if token = latin ''alt'' \<or> token = latin ''option'' then Some AltModifier
      else None)"

definition special_key_from_token :: "qstring \<Rightarrow> int option" where
  "special_key_from_token token =
     (if token = latin ''esc'' \<or> token = latin ''escape'' then Some Key_Escape
      else if token = latin ''tab'' then Some Key_Tab
      else if token = latin ''backtab'' then Some Key_Backtab
      else if token = latin ''enter'' \<or> token = latin ''return'' then Some Key_Return
      else if token = latin ''space'' then Some Key_Space
      else if token = latin ''backspace'' then Some Key_Backspace
      else if token = latin ''delete'' then Some Key_Delete
      else if token = latin ''up'' then Some Key_Up
      else if token = latin ''down'' then Some Key_Down
      else if token = latin ''left'' then Some Key_Left
      else if token = latin ''right'' then Some Key_Right
      else if token = latin ''home'' then Some Key_Home
      else if token = latin ''end'' then Some Key_End
      else if token = latin ''pageup'' then Some Key_PageUp
      else if token = latin ''pagedown'' then Some Key_PageDown
      else None)"

definition key_from_character :: "qt_text \<Rightarrow> int \<Rightarrow> int" where
  "key_from_character qt ch =
     (let unicode = fold_char qt ch in
      if 0x61 \<le> unicode \<and> unicode \<le> 0x7a then Key_A + unicode - 0x61
      else if 0x30 \<le> unicode \<and> unicode \<le> 0x39 then Key_0 + unicode - 0x30
      else if unicode = 0x2f then Key_Slash
      else if unicode = 0x3f then Key_Question
      else if unicode = 0x2e then Key_Period
      else if unicode = 0x2c then Key_Comma
      else if unicode = 0x3b then Key_Semicolon
      else if unicode = 0x3a then Key_Colon
      else if unicode = 0x2d then Key_Minus
      else if unicode = 0x5f then Key_Underscore
      else if unicode = 0x3d then Key_Equal
      else unicode)"

text \<open>The loop over all parts but the last: every one must be a modifier.\<close>

fun collect_modifiers :: "qt_text \<Rightarrow> bool \<Rightarrow> qstring list \<Rightarrow> 32 word \<Rightarrow> 32 word option" where
  "collect_modifiers qt real_mac [] acc = Some acc"
| "collect_modifiers qt real_mac (part # parts) acc =
     (case modifier_from_token qt part real_mac of
        Some m \<Rightarrow> collect_modifiers qt real_mac parts (acc OR m)
      | None \<Rightarrow> None)"

definition parse_binding :: "qt_text \<Rightarrow> qstring \<Rightarrow> bool \<Rightarrow> key_binding option" where
  "parse_binding qt token0 real_mac =
     (let token = normalize_token qt token0 in
      if token = [] then None
      else let parts = split_skip_empty qt 0x2b token in
      if parts = [] then None
      else case collect_modifiers qt real_mac (butlast parts) NoModifier of
        None \<Rightarrow> None
      | Some mods \<Rightarrow>
          let key = last parts in
          if modifier_from_token qt key real_mac \<noteq> None then None
          else (case special_key_from_token key of
            Some special \<Rightarrow>
              Some \<lparr>kb_modifiers = mods, kb_key = special,
                    kb_text = (if special = Key_Space then latin '' '' else [])\<rparr>
          | None \<Rightarrow>
              if length key = 1 then
                Some \<lparr>kb_modifiers = mods, kb_key = key_from_character qt (hd key), kb_text = key\<rparr>
              else None))"

definition key_matches :: "qt_text \<Rightarrow> key_binding \<Rightarrow> key_event \<Rightarrow> bool" where
  "key_matches qt b e =
     (if kb_key b \<noteq> Key_unknown
        \<and> (ev_key e = kb_key b \<or> mac_virtual_key_is qt e (kb_key b)
           \<or> (kb_key b = Key_Tab \<and> ev_key e = Key_Backtab)
           \<or> (kb_key b = Key_Backtab \<and> ev_key e = Key_Tab))
      then True
      else if kb_text b = [] then False
      else if plain_text qt e = kb_text b then True
      else if length (kb_text b) = 1 then
        ev_key e = hd (kb_text b) \<or> ev_key e = upper_char qt (hd (kb_text b))
      else False)"

text \<open>The lambda \<open>matches\<close>: on macOS one control-like modifier stands for the other.\<close>

definition control_or_command :: "32 word" where
  "control_or_command = ControlModifier OR MetaModifier"

definition modifiers_equivalent :: "qt_text \<Rightarrow> 32 word \<Rightarrow> 32 word \<Rightarrow> bool" where
  "modifiers_equivalent qt expected actual =
     (if actual = expected then True
      else if os_mac qt then
        (let ec = expected AND control_or_command; ac = actual AND control_or_command in
         (expected AND NOT control_or_command) = (actual AND NOT control_or_command)
         \<and> ec \<noteq> 0 \<and> ac \<noteq> 0
         \<and> (ec AND (ec - 1)) = 0 \<and> (ac AND (ac - 1)) = 0)
      else False)"

definition strict_modifiers_match :: "qt_text \<Rightarrow> match_options \<Rightarrow> 32 word \<Rightarrow> 32 word \<Rightarrow> bool" where
  "strict_modifiers_match qt options expected actual =
     (if allow_mac_equivalent options then modifiers_equivalent qt expected actual
      else expected = actual)"

definition modifiers_match :: "qt_text \<Rightarrow> key_binding \<Rightarrow> key_event \<Rightarrow> match_options \<Rightarrow> bool" where
  "modifiers_match qt b e options =
     (let mods = clean_modifiers e in
      if strict_modifiers_match qt options (kb_modifiers b) mods then True
      else if \<not> allow_extra_shift options \<or> (kb_modifiers b AND ShiftModifier) \<noteq> 0 then False
      else strict_modifiers_match qt options (kb_modifiers b OR ShiftModifier) mods)"

definition binding_matches :: "qt_text \<Rightarrow> qstring \<Rightarrow> key_event \<Rightarrow> match_options \<Rightarrow> bool" where
  "binding_matches qt bindings e options =
     list_ex (\<lambda>part.
       case parse_binding qt part (real_mac_modifiers options) of
         Some b \<Rightarrow> modifiers_match qt b e options \<and> key_matches qt b e
       | None \<Rightarrow> False)
     (split_skip_empty qt 0x2c bindings)"

definition valid_bindings :: "qt_text \<Rightarrow> qstring \<Rightarrow> bool" where
  "valid_bindings qt bindings =
     (if trimmed qt bindings = [] then True
      else list_all (\<lambda>part.
        list_all (\<lambda>token. trimmed qt token \<noteq> []) (split_on qt 0x2b part)
        \<and> parse_binding qt part False \<noteq> None)
      (split_on qt 0x2c bindings))"

definition is_message_reaction :: "qt_text \<Rightarrow> key_event \<Rightarrow> bool" where
  "is_message_reaction qt e =
     binding_matches qt (latin ''Shift+r, Shift+'' @ [0x43A]) e default_match_options"

section \<open>Properties\<close>

lemma modifiers_equivalent_refl: "modifiers_equivalent qt m m"
  by (simp add: modifiers_equivalent_def)

lemma modifiers_equivalent_sym: "modifiers_equivalent qt a b \<longleftrightarrow> modifiers_equivalent qt b a"
  by (auto simp: modifiers_equivalent_def Let_def)

text \<open>Every combination written in an accepted binding string is understood, and
  pressing exactly its key with exactly its modifiers triggers the command, however the options of the
  comparison are set.\<close>

theorem valid_bindings_fire:
  assumes "valid_bindings qt bindings" and "trimmed qt bindings \<noteq> []"
    and "part \<in> set (split_on qt 0x2C bindings)" and "part \<noteq> []"
  shows "\<exists>b. parse_binding qt part False = Some b
    \<and> (kb_key b = Key_unknown
       \<or> (\<forall>e options. ev_key e \<noteq> kb_key b \<or> clean_modifiers e \<noteq> kb_modifiers b \<or> real_mac_modifiers options
           \<or> binding_matches qt bindings e options))"
proof -
  obtain b where b: "parse_binding qt part False = Some b"
    using assms(1-3) by (auto simp: valid_bindings_def list_all_iff)
  have "binding_matches qt bindings e options"
    if e: "ev_key e = kb_key b" "clean_modifiers e = kb_modifiers b" "\<not> real_mac_modifiers options"
      and known: "kb_key b \<noteq> Key_unknown" for e options
  proof -
    have "key_matches qt b e" using e(1) known by (simp add: key_matches_def)
    moreover have "modifiers_match qt b e options"
      using e(2) by (simp add: modifiers_match_def strict_modifiers_match_def modifiers_equivalent_refl)
    ultimately show ?thesis
      using b e(3) assms(3,4) unfolding binding_matches_def split_skip_empty_def list_ex_iff
      by (intro bexI [of _ part]) auto
  qed
  with b show ?thesis by blast
qed

theorem valid_bindings_fire_witness:
  "let qt = \<lparr>os_mac = False, fold_case = (\<lambda>s. s), fold_char = (\<lambda>c. c), upper_char = (\<lambda>c. c),
       trimmed = (\<lambda>s. s), split_on = (\<lambda>_ s. [s])\<rparr>;
     e = \<lparr>ev_key = Key_J, ev_text = [0x6A], ev_modifiers = 0, ev_auto_repeat = False, ev_native_key = 0\<rparr> in
   binding_matches qt (latin ''j'') e default_match_options"
proof -
  define qt where "qt = \<lparr>os_mac = False, fold_case = (\<lambda>s. s), fold_char = (\<lambda>c. c), upper_char = (\<lambda>c. c),
       trimmed = (\<lambda>s. s), split_on = (\<lambda>_ s. [s::qstring])\<rparr>"
  define e where "e = \<lparr>ev_key = Key_J, ev_text = [0x6A], ev_modifiers = 0, ev_auto_repeat = False,
       ev_native_key = 0\<rparr>"
  have valid: "valid_bindings qt (latin ''j'')" unfolding qt_def by code_simp
  have parse: "parse_binding qt (latin ''j'') False = Some \<lparr>kb_modifiers = 0, kb_key = Key_J, kb_text = [0x6A]\<rparr>"
    unfolding qt_def by code_simp
  have parts: "trimmed qt (latin ''j'') \<noteq> []" "latin ''j'' \<in> set (split_on qt 0x2C (latin ''j''))"
      "latin ''j'' \<noteq> []"
    by (simp_all add: qt_def latin_def)
  have event: "ev_key e = Key_J" "clean_modifiers e = 0" "\<not> real_mac_modifiers default_match_options"
    by (simp_all add: e_def clean_modifiers_def default_match_options_def)
  obtain b where "parse_binding qt (latin ''j'') False = Some b"
    and fires: "kb_key b = Key_unknown
       \<or> (\<forall>e options. ev_key e \<noteq> kb_key b \<or> clean_modifiers e \<noteq> kb_modifiers b \<or> real_mac_modifiers options
           \<or> binding_matches qt (latin ''j'') e options)"
    using valid_bindings_fire [OF valid parts] by blast
  then have b: "b = \<lparr>kb_modifiers = 0, kb_key = Key_J, kb_text = [0x6A]\<rparr>"
    using parse by simp
  have "kb_key b \<noteq> Key_unknown" by (simp add: b)
  moreover have "ev_key e = kb_key b" "clean_modifiers e = kb_modifiers b" using event by (simp_all add: b)
  ultimately have "binding_matches qt (latin ''j'') e default_match_options"
    using fires event(3) by metis
  then show ?thesis unfolding Let_def qt_def [symmetric] e_def [symmetric] .
qed

lemma masked_or:
  fixes rest m c :: "32 word"
  assumes "rest AND c = 0" and "m AND NOT c = 0"
  shows "(rest OR m) AND c = m" and "(rest OR m) AND NOT c = rest"
proof -
  have split: "x = (x AND c) OR (x AND NOT c)" for x :: "32 word"
    by (rule bit_word_eqI) (auto simp: bit_simps)
  show "(rest OR m) AND c = m"
    using split [of m] assms by (simp add: bit.conj_disj_distrib2)
  show "(rest OR m) AND NOT c = rest"
    using split [of rest] assms by (simp add: bit.conj_disj_distrib2)
qed

text \<open>On macOS the equivalence of modifiers lets Control stand for Command and
  the other way round, with any further modifiers the same on both sides, but it never lets either of the two
  be left out, and never accepts both of them held down for one of them.\<close>

theorem mac_modifiers_interchange:
  assumes "os_mac qt" and "rest AND control_or_command = 0"
  shows "modifiers_equivalent qt (rest OR ControlModifier) (rest OR MetaModifier)
    \<and> modifiers_equivalent qt (rest OR MetaModifier) (rest OR ControlModifier)
    \<and> \<not> modifiers_equivalent qt (rest OR ControlModifier) rest
    \<and> \<not> modifiers_equivalent qt (rest OR control_or_command) (rest OR ControlModifier)"
proof -
  have cc: "control_or_command = 0x14000000" by (simp add: control_or_command_def)
  have rest: "rest AND 0x14000000 = 0" using assms(2) cc by simp
  have none: "rest AND NOT 0x14000000 = rest" using masked_or [OF rest, of 0] by simp
  note control = masked_or [OF rest, of ControlModifier, simplified]
  note command = masked_or [OF rest, of MetaModifier, simplified]
  note both = masked_or [OF rest, of "0x14000000", simplified]
  have 1: "rest OR ControlModifier \<noteq> rest" using control(1) rest by auto
  have 2: "rest OR ControlModifier \<noteq> rest OR 0x14000000" using control(1) both(1) by auto
  show ?thesis
    using assms(1) rest none control command both 1 2
    by (simp add: modifiers_equivalent_def cc Let_def)
qed

theorem mac_modifiers_interchange_witness:
  "let qt = \<lparr>os_mac = True, fold_case = (\<lambda>s. s), fold_char = (\<lambda>c. c), upper_char = (\<lambda>c. c),
       trimmed = (\<lambda>s. s), split_on = (\<lambda>_ s. [s])\<rparr> in
   modifiers_equivalent qt (ShiftModifier OR ControlModifier) (ShiftModifier OR MetaModifier)"
proof -
  define qt where "qt = \<lparr>os_mac = True, fold_case = (\<lambda>s. s), fold_char = (\<lambda>c. c), upper_char = (\<lambda>c. c),
       trimmed = (\<lambda>s. s), split_on = (\<lambda>_ s. [s::qstring])\<rparr>"
  have "os_mac qt" by (simp add: qt_def)
  moreover have "ShiftModifier AND control_or_command = 0" by (simp add: control_or_command_def)
  ultimately have "modifiers_equivalent qt (ShiftModifier OR ControlModifier) (ShiftModifier OR MetaModifier)"
    using mac_modifiers_interchange by blast
  then show ?thesis unfolding Let_def qt_def [symmetric] .
qed

end
