(* ===== verification/HintLabels.thy ===== *)
theory HintLabels
  imports VimBindings
begin

text \<open>
  The labels of the Vim hints (\<open>ShortestHintLabel\<close> of \<open>core/vim_keymap_bindings.cpp\<close>,
  \<open>MessageHintLabel\<close>, \<open>HintLabel\<close>, \<open>SelectionHintLabel\<close>, \<open>HintInput\<close> and the
  alphabets of \<open>core/vim_keymap.cpp\<close>). \<open>total\<close> hints get labels over the alphabet, as many
  as possible of one length \<open>n\<close> and the rest of length \<open>n + 1\<close>, such that no label starts
  with another one: a typed label selects its hint without waiting for further keys. Message
  labels are a second scheme with the same property.

  The length loop is a \<open>partial_function\<close>: \<open>None\<close> is a loop that does not end, and
  \<open>hint_capacity_power\<close> shows that it ends for every call the code makes.
\<close>

section \<open>Alphabets\<close>

definition english_hint_alphabet :: qstring where
  "english_hint_alphabet = latin ''sdfghjklqwertyuiopzxcvbnma''"

definition russian_hint_alphabet :: qstring where
  "russian_hint_alphabet =
    [0x44B, 0x432, 0x430, 0x43F, 0x440, 0x43E, 0x43B, 0x434, 0x439, 0x446, 0x443, 0x43A, 0x435,
     0x43D, 0x433, 0x448, 0x449, 0x437, 0x44F, 0x447, 0x441, 0x43C, 0x438, 0x442, 0x44C, 0x444]"

text \<open>\<open>english\<close> is the value of \<open>UseEnglishHintAlphabet()\<close>, an option of the user.\<close>

definition current_hint_alphabet :: "bool \<Rightarrow> qstring" where
  "current_hint_alphabet english =
     (if english then english_hint_alphabet else russian_hint_alphabet)"

definition without_motion_keys :: "qstring \<Rightarrow> qstring" where
  "without_motion_keys alphabet = filter (\<lambda>ch. ch \<notin> {0x6A, 0x6B, 0x43E, 0x43B}) alphabet"

section \<open>The shortest labels\<close>

partial_function (option) hint_capacity :: "int \<Rightarrow> int \<Rightarrow> int \<Rightarrow> nat \<Rightarrow> (int \<times> nat) option" where
  "hint_capacity base count capacity len =
     (if capacity \<le> count div base
      then hint_capacity base count (capacity * base) (Suc len)
      else Some (capacity, len))"

fun hint_digits :: "qstring \<Rightarrow> int \<Rightarrow> nat \<Rightarrow> int \<Rightarrow> qstring" where
  "hint_digits alphabet base 0 v = []"
| "hint_digits alphabet base (Suc n) v =
     hint_digits alphabet base n (v div base) @ [alphabet ! nat (v mod base)]"

definition shortest_hint_label :: "int \<Rightarrow> int \<Rightarrow> qstring \<Rightarrow> qstring option" where
  "shortest_hint_label index count alphabet =
     (let base = int (length alphabet) in
      if base < 2 \<or> index < 0 \<or> index \<ge> count then Some []
      else if count \<le> base then Some (take 1 (drop (nat index) alphabet))
      else case hint_capacity base count base 1 of
        None \<Rightarrow> None
      | Some (capacity, len) \<Rightarrow>
          let expanded = (count - capacity + base - 2) div (base - 1);
            short_count = capacity - expanded in
          if index \<ge> short_count
          then Some (hint_digits alphabet base (Suc len) (index + short_count * (base - 1)))
          else Some (hint_digits alphabet base len index))"

lemma hint_capacity_power:
  assumes "2 \<le> base" and "capacity = base ^ len" and "capacity \<le> count"
  shows "\<exists>n. hint_capacity base count capacity len = Some (base ^ n, n)
    \<and> len \<le> n \<and> base ^ n \<le> count \<and> count < base ^ Suc n"
  using assms(2,3)
proof (induction "nat (count - capacity)" arbitrary: capacity len rule: less_induct)
  case less
  show ?case
  proof (cases "capacity \<le> count div base")
    case True
    have pos: "0 < capacity" using assms(1) less.prems(1) by simp
    from True have fits: "capacity * base \<le> count"
      using assms(1) by (simp add: int_le_div_iff)
    have "capacity * 1 < capacity * base"
      using pos assms(1) by (intro mult_strict_left_mono) auto
    with fits have "nat (count - capacity * base) < nat (count - capacity)" by simp
    from less.hyps [OF this, of "Suc len"] fits less.prems(1) obtain n
      where "hint_capacity base count (capacity * base) (Suc len) = Some (base ^ n, n)"
        and "Suc len \<le> n" and "base ^ n \<le> count" and "count < base ^ Suc n"
      by (auto simp: mult.commute)
    with True show ?thesis
      by (intro exI [of _ n]) (simp add: hint_capacity.simps [of base count capacity])
  next
    case False
    then have "count < base ^ len * base"
      using assms(1) less.prems(1) by (simp add: int_le_div_iff)
    with False less.prems show ?thesis
      by (intro exI [of _ len])
        (simp add: hint_capacity.simps [of base count "base ^ len"] mult.commute)
  qed
qed


section \<open>Digits\<close>

lemma length_hint_digits [simp]: "length (hint_digits alphabet base n v) = n"
  by (induction n arbitrary: v) auto

lemma hint_digits_alphabet:
  assumes "0 < base" and "base \<le> int (length alphabet)"
  shows "set (hint_digits alphabet base n v) \<subseteq> set alphabet"
proof (induction n arbitrary: v)
  case 0
  show ?case by simp
next
  case (Suc n)
  have "v mod base < base" and "0 \<le> v mod base" using assms(1) by simp_all
  then have "nat (v mod base) < length alphabet" using assms(2) by linarith
  with Suc show ?case by simp
qed

lemma take_hint_digits:
  assumes "0 < base"
  shows "take n (hint_digits alphabet base (n + k) v) = hint_digits alphabet base n (v div base ^ k)"
proof (induction k arbitrary: v)
  case 0
  show ?case by simp
next
  case (Suc k)
  have "take n (hint_digits alphabet base (n + Suc k) v) =
    take n (hint_digits alphabet base (n + k) (v div base))" by simp
  also have "\<dots> = hint_digits alphabet base n (v div base div base ^ k)" by (rule Suc.IH)
  finally show ?case using assms by (simp add: zdiv_zmult2_eq)
qed

lemma hint_digits_inj:
  assumes "distinct alphabet" and "base = int (length alphabet)" and "0 < base"
    and "0 \<le> v" and "v < base ^ n" and "0 \<le> w" and "w < base ^ n"
    and "hint_digits alphabet base n v = hint_digits alphabet base n w"
  shows "v = w"
  using assms(4-8)
proof (induction n arbitrary: v w)
  case 0
  then show ?case by simp
next
  case (Suc n)
  have digit: "nat (x mod base) < length alphabet" for x
    using assms(2,3) pos_mod_bound [of base x] pos_mod_sign [of base x] by linarith
  from Suc.prems(5) have high: "hint_digits alphabet base n (v div base) = hint_digits alphabet base n (w div base)"
    and "alphabet ! nat (v mod base) = alphabet ! nat (w mod base)" by simp_all
  then have "nat (v mod base) = nat (w mod base)"
    using assms(1) digit by (simp add: nth_eq_iff_index_eq)
  then have low: "v mod base = w mod base"
    using assms(3) by (simp add: nat_eq_iff2 pos_mod_sign)
  have "v div base < base ^ n" and "w div base < base ^ n"
    using Suc.prems(2,4) assms(3) by (simp_all add: int_div_less_iff mult.commute)
  moreover have "0 \<le> v div base" and "0 \<le> w div base"
    using Suc.prems(1,3) assms(3) by (simp_all add: pos_imp_zdiv_nonneg_iff)
  ultimately have "v div base = w div base" using Suc.IH high by blast
  with low show ?case by (metis div_mult_mod_eq)
qed

section \<open>The two lengths of a label set\<close>

text \<open>
  What the body computes for \<open>base < total\<close>: with \<open>n\<close> the length of the short labels,
  \<open>short_count\<close> of them exist, and the long ones continue where the short ones stop.
\<close>

definition hint_split :: "int \<Rightarrow> int \<Rightarrow> nat \<Rightarrow> int" where
  "hint_split base count n = base ^ n - (count - base ^ n + base - 2) div (base - 1)"

lemma hint_split_bounds:
  assumes "2 \<le> base" and "base ^ n \<le> count" and "count < base ^ Suc n"
  shows "0 \<le> hint_split base count n" and "hint_split base count n \<le> base ^ n"
    and "count + hint_split base count n * (base - 1) \<le> base ^ Suc n"
proof -
  let ?r = "count - base ^ n" and ?b = "base - 1"
  let ?e = "(?r + base - 2) div ?b"
  have b: "0 < ?b" using assms(1) by simp
  have "?e < base ^ n + 1" using b assms(3) by (simp add: int_div_less_iff algebra_simps)
  then show "0 \<le> hint_split base count n" by (simp add: hint_split_def)
  have "0 \<le> ?e" using b assms(1,2) by (simp add: pos_imp_zdiv_nonneg_iff)
  then show "hint_split base count n \<le> base ^ n" by (simp add: hint_split_def)
  have "?r \<le> ?e * ?b"
    using div_mult_mod_eq [of "?r + base - 2" ?b] pos_mod_bound [OF b, of "?r + base - 2"] by linarith
  then show "count + hint_split base count n * (base - 1) \<le> base ^ Suc n"
    by (simp add: hint_split_def algebra_simps)
qed

lemma shortest_hint_label_one:
  assumes "2 \<le> length alphabet" and "0 \<le> index" and "index < count"
    and "count \<le> int (length alphabet)"
  shows "shortest_hint_label index count alphabet = Some [alphabet ! nat index]"
proof -
  have "nat index < length alphabet" using assms by linarith
  then have "take 1 (drop (nat index) alphabet) = [alphabet ! nat index]"
    by (metis Cons_nth_drop_Suc One_nat_def take_0 take_Suc_Cons)
  with assms show ?thesis by (simp add: shortest_hint_label_def)
qed

definition hint_code :: "qstring \<Rightarrow> int \<Rightarrow> nat \<Rightarrow> int \<Rightarrow> qstring" where
  "hint_code alphabet count n index =
     (let base = int (length alphabet); s = hint_split base count n in
      if s \<le> index then hint_digits alphabet base (Suc n) (index + s * (base - 1))
      else hint_digits alphabet base n index)"

lemma shortest_hint_label_two:
  assumes "2 \<le> length alphabet" and "int (length alphabet) < count"
  obtains n where "1 \<le> n" and "int (length alphabet) ^ n \<le> count"
    and "count < int (length alphabet) ^ Suc n"
    and "\<And>index. 0 \<le> index \<Longrightarrow> index < count \<Longrightarrow>
      shortest_hint_label index count alphabet = Some (hint_code alphabet count n index)"
proof -
  let ?b = "int (length alphabet)"
  obtain n where "hint_capacity ?b count ?b 1 = Some (?b ^ n, n)" and "1 \<le> n"
      "?b ^ n \<le> count" "count < ?b ^ Suc n"
    using hint_capacity_power [of ?b ?b 1 count] assms by auto
  with assms show thesis
    by (intro that) (auto simp: shortest_hint_label_def hint_code_def hint_split_def Let_def)
qed

lemma hint_code_cases [consumes 6, case_names short long]:
  assumes b: "2 \<le> base" and base: "base = int (length alphabet)"
    and n: "base ^ n \<le> count" "count < base ^ Suc n"
    and "0 \<le> index" and "index < count"
  obtains (short) "index < hint_split base count n" and "index < base ^ n"
      and "hint_code alphabet count n index = hint_digits alphabet base n index"
  | (long) v where "v = index + hint_split base count n * (base - 1)"
      and "hint_split base count n * base \<le> v" and "v < base ^ Suc n" and "0 \<le> v"
      and "hint_code alphabet count n index = hint_digits alphabet base (Suc n) v"
proof (cases "hint_split base count n \<le> index")
  case True
  let ?s = "hint_split base count n"
  note s = hint_split_bounds [OF b n]
  have le: "?s * base \<le> index + ?s * (base - 1)" using True by (simp add: algebra_simps)
  have "0 \<le> ?s * base" using s(1) b by simp
  with le have "0 \<le> index + ?s * (base - 1)" by linarith
  with True assms(6) s(3) le show thesis
    by (intro long [OF refl]) (auto simp: hint_code_def Let_def base)
next
  case False
  with hint_split_bounds(2) [OF b n] assms(5) show thesis
    by (intro short) (auto simp: hint_code_def Let_def base)
qed

lemma hint_code_prefix:
  assumes alphabet: "distinct alphabet" and base: "base = int (length alphabet)" "2 \<le> base"
    and n: "base ^ n \<le> count" "count < base ^ Suc n"
    and i: "0 \<le> i" "i < count" and j: "0 \<le> j" "j < count"
    and pre: "prefix (hint_code alphabet count n i) (hint_code alphabet count n j)"
  shows "i = j"
using base(2,1) n i
proof (cases rule: hint_code_cases)
  case short_i: short
  show ?thesis
    using base(2,1) n j
  proof (cases rule: hint_code_cases)
    case short
    with short_i pre have "hint_digits alphabet base n i = hint_digits alphabet base n j"
      by (intro prefix_same_length) auto
    with short short_i i j base show ?thesis by (intro hint_digits_inj [OF alphabet base(1)]) auto
  next
    case (long v)
    have "hint_digits alphabet base n i = take n (hint_digits alphabet base (n + 1) v)"
      using pre short_i long by (auto simp: prefix_def)
    also have "\<dots> = hint_digits alphabet base n (v div base ^ 1)"
      by (rule take_hint_digits) (use base(2) in linarith)
    finally have "hint_digits alphabet base n i = hint_digits alphabet base n (v div base)" by simp
    moreover have "0 \<le> v div base"
      using long(4) base(2) by (simp add: pos_imp_zdiv_nonneg_iff)
    moreover have "v div base < base ^ n"
      using long(3) base(2) by (simp add: int_div_less_iff mult.commute)
    ultimately have "i = v div base"
      using short_i(2) i(1) base by (intro hint_digits_inj [OF alphabet base(1)]) auto
    with long(2) short_i(1) base(2) show ?thesis
      by (auto simp flip: not_le simp: int_le_div_iff)
  qed
next
  case long_i: (long v)
  show ?thesis
    using base(2,1) n j
  proof (cases rule: hint_code_cases)
    case short
    with long_i pre show ?thesis by (auto dest!: prefix_length_le)
  next
    case (long w)
    with long_i pre have "hint_digits alphabet base (Suc n) v = hint_digits alphabet base (Suc n) w"
      by (intro prefix_same_length) (simp_all del: hint_digits.simps)
    moreover have "0 < base" using base(2) by simp
    ultimately have "v = w"
      using hint_digits_inj [OF alphabet base(1) _ long_i(4) long_i(3) long(4) long(3)] by blast
    with long long_i show ?thesis by simp
  qed
qed

text \<open>No label is the beginning of another one.\<close>

lemma shortest_hint_label_prefix:
  assumes alphabet: "distinct alphabet" "2 \<le> length alphabet"
    and i: "0 \<le> i" "i < count" and j: "0 \<le> j" "j < count"
    and a: "shortest_hint_label i count alphabet = Some a"
    and b: "shortest_hint_label j count alphabet = Some b"
    and pre: "prefix a b"
  shows "i = j"
proof (cases "count \<le> int (length alphabet)")
  case True
  with a b pre i j alphabet(2) have "prefix [alphabet ! nat i] [alphabet ! nat j]"
    by (simp add: shortest_hint_label_one)
  then have "alphabet ! nat i = alphabet ! nat j" by simp
  with True alphabet(1) i j show ?thesis by (simp add: nth_eq_iff_index_eq)
next
  case False
  then have "int (length alphabet) < count" by simp
  then obtain n where "int (length alphabet) ^ n \<le> count" "count < int (length alphabet) ^ Suc n"
    and "\<And>index. 0 \<le> index \<Longrightarrow> index < count \<Longrightarrow>
      shortest_hint_label index count alphabet = Some (hint_code alphabet count n index)"
    using shortest_hint_label_two [OF alphabet(2)] by metis
  with a b pre i j alphabet show ?thesis by (auto intro: hint_code_prefix [OF _ refl])
qed

text \<open>
  Every request is answered; the label is over the alphabet and no longer than the fewest
  keys that \<open>total\<close> labels of one length would need.
\<close>

lemma shortest_hint_label_exists:
  assumes "2 \<le> length alphabet" and "0 \<le> index" and "index < count"
  shows "\<exists>a. shortest_hint_label index count alphabet = Some a \<and> a \<noteq> []
    \<and> set a \<subseteq> set alphabet \<and> (length a = 1 \<or> int (length alphabet) ^ (length a - 1) \<le> count)"
proof (cases "count \<le> int (length alphabet)")
  case True
  moreover have "nat index < length alphabet" using True assms by linarith
  ultimately show ?thesis using assms by (simp add: shortest_hint_label_one)
next
  case False
  let ?b = "int (length alphabet)"
  from False have "?b < count" by simp
  then obtain n where n: "1 \<le> n" "?b ^ n \<le> count" "count < ?b ^ Suc n"
    and eq: "shortest_hint_label index count alphabet = Some (hint_code alphabet count n index)"
    using shortest_hint_label_two [OF assms(1)] assms(2,3) by metis
  have b: "2 \<le> ?b" using assms(1) by simp
  have over: "set (hint_code alphabet count n index) \<subseteq> set alphabet"
  proof -
    have "set (hint_digits alphabet ?b m v) \<subseteq> set alphabet" for m v
      by (rule hint_digits_alphabet) (use b in auto)
    then show ?thesis by (simp add: hint_code_def Let_def del: hint_digits.simps)
  qed
  have len: "length (hint_code alphabet count n index) \<in> {n, Suc n}"
    unfolding hint_code_def Let_def by simp
  have "?b ^ (n - 1) \<le> ?b ^ n" using b by (intro power_increasing) auto
  with n(2) have "?b ^ (n - 1) \<le> count" by linarith
  with len n over eq show ?thesis by auto
qed

section \<open>Message labels\<close>

text \<open>
  \<open>MessageHintLabel\<close> numbers messages without knowing their number: the last character is
  one of the first \<open>quick_count\<close> of the alphabet, the characters before it are of the two that
  follow, and the last character of the alphabet opens the label of one photo of an album.
  The loop writes \<open>prefix\<close> in bijective base \<open>prefix_count\<close>; it divides by that number, so it
  ends when the number is at least two.
\<close>

definition quick_count :: "qstring \<Rightarrow> int" where
  "quick_count alphabet = max 1 (int (length alphabet) - 3)"

definition prefix_count :: "qstring \<Rightarrow> int" where
  "prefix_count alphabet = int (length alphabet) - quick_count alphabet - 1"

partial_function (option) message_prefixes :: "qstring \<Rightarrow> int \<Rightarrow> qstring \<Rightarrow> qstring option" where
  "message_prefixes alphabet p result =
     (if p > 0 then
        message_prefixes alphabet ((p - 1) div prefix_count alphabet)
          (alphabet ! nat (quick_count alphabet + (p - 1) mod prefix_count alphabet) # result)
      else Some result)"

definition message_hint_label :: "qstring \<Rightarrow> int \<Rightarrow> int \<Rightarrow> qstring option" where
  "message_hint_label current index photo_index =
     (if index < 0 then Some []
      else let alphabet = without_motion_keys current; q = quick_count alphabet in
      case message_prefixes alphabet (index div q)
             (take 1 (drop (nat (index mod q)) alphabet)) of
        None \<Rightarrow> None
      | Some result \<Rightarrow>
          if 0 \<le> photo_index \<and> photo_index < q
          then Some (last alphabet # result @ [alphabet ! nat photo_index])
          else Some result)"

definition hint_label :: "bool \<Rightarrow> int \<Rightarrow> int \<Rightarrow> qstring option" where
  "hint_label english index count =
     shortest_hint_label index count (current_hint_alphabet english)"

definition selection_hint_label :: "bool \<Rightarrow> int \<Rightarrow> int \<Rightarrow> qstring option" where
  "selection_hint_label english index count =
     shortest_hint_label index count (without_motion_keys (current_hint_alphabet english))"

text \<open>\<open>HintInput\<close>: the key in either keyboard layout names the same place of the alphabet.\<close>

fun index_of :: "int \<Rightarrow> qstring \<Rightarrow> nat option" where
  "index_of c [] = None"
| "index_of c (x # xs) = (if x = c then Some 0 else map_option Suc (index_of c xs))"

definition hint_input :: "qt_text \<Rightarrow> bool \<Rightarrow> key_event \<Rightarrow> qstring" where
  "hint_input qt english e =
     (let txt = hint_character qt e in
      if txt = [] then []
      else let target = current_hint_alphabet english;
        source = (if english then russian_hint_alphabet else english_hint_alphabet);
        ch = hd txt in
      case index_of ch source of
        Some i \<Rightarrow>
          if i < length target then take 1 (drop i target)
          else (case index_of ch target of Some k \<Rightarrow> take 1 (drop k target) | None \<Rightarrow> take 1 txt)
      | None \<Rightarrow>
          (case index_of ch target of Some k \<Rightarrow> take 1 (drop k target) | None \<Rightarrow> take 1 txt))"

lemmas alphabet_defs =
  current_hint_alphabet_def english_hint_alphabet_def russian_hint_alphabet_def
  without_motion_keys_def latin_def

lemma hint_alphabets:
  "distinct (current_hint_alphabet english)" "length (current_hint_alphabet english) = 26"
  "distinct (without_motion_keys (current_hint_alphabet english))"
  "length (without_motion_keys (current_hint_alphabet english)) = 24"
  by (cases english; simp add: alphabet_defs)+

text \<open>The characters in front, as a word computed by structural means.\<close>

lemma div_pred_less: "p \<noteq> 0 \<Longrightarrow> (p - 1) div c < (p::nat)"
  by (rule le_less_trans [OF div_le_dividend]) simp

function prefix_word :: "qstring \<Rightarrow> nat \<Rightarrow> nat \<Rightarrow> nat \<Rightarrow> qstring" where
  "prefix_word a q c p =
     (if p = 0 \<or> c = 0 then []
      else prefix_word a q c ((p - 1) div c) @ [a ! (q + (p - 1) mod c)])"
  by pat_completeness auto
termination
  by (relation "measure (\<lambda>(a, q, c, p). p)") (auto simp: div_pred_less [simplified])

declare prefix_word.simps [simp del]

lemma message_prefixes_word:
  assumes "0 \<le> p" and "1 \<le> prefix_count a"
  shows "message_prefixes a p r =
    Some (prefix_word a (nat (quick_count a)) (nat (prefix_count a)) (nat p) @ r)"
  using assms(1)
proof (induction "nat p" arbitrary: p r rule: less_induct)
  case less
  let ?c = "prefix_count a" and ?q = "quick_count a"
  show ?case
  proof (cases "p = 0")
    case True
    then show ?thesis by (simp add: message_prefixes.simps prefix_word.simps)
  next
    case False
    with less.prems have p: "0 < p" by simp
    have c: "0 < ?c" using assms(2) by simp
    have q: "0 \<le> ?q" by (simp add: quick_count_def)
    have "(p - 1) div ?c * ?c \<le> p - 1"
      using int_le_div_iff [OF c, of "(p - 1) div ?c" "p - 1"] by simp
    moreover have low: "0 \<le> (p - 1) div ?c" using c p by (simp add: pos_imp_zdiv_nonneg_iff)
    moreover have "(p - 1) div ?c * 1 \<le> (p - 1) div ?c * ?c"
      using assms(2) low by (rule mult_left_mono)
    ultimately have "nat ((p - 1) div ?c) < nat p" using p by linarith
    from less.hyps [OF this low]
    have "message_prefixes a ((p - 1) div ?c) r' =
      Some (prefix_word a (nat ?q) (nat ?c) (nat ((p - 1) div ?c)) @ r')" for r' .
    moreover have "nat ((p - 1) div ?c) = (nat p - 1) div nat ?c"
      using p c by (simp add: nat_div_distrib nat_diff_distrib)
    moreover have "nat (?q + (p - 1) mod ?c) = nat ?q + (nat p - 1) mod nat ?c"
      using p c q by (simp add: nat_add_distrib nat_mod_distrib nat_diff_distrib)
    ultimately show ?thesis
      using p c by (simp add: message_prefixes.simps [of a p] prefix_word.simps [of a _ _ "nat p"])
  qed
qed

lemma prefix_word_set:
  "0 < c \<Longrightarrow> set (prefix_word a q c p) \<subseteq> (\<lambda>k. a ! k) ` {q..<q + c}"
proof (induction a q c p rule: prefix_word.induct)
  case (1 a q c p)
  then show ?case by (subst prefix_word.simps) auto
qed

lemma prefix_word_inj:
  assumes "distinct a" and "0 < c" and "q + c \<le> length a"
  shows "prefix_word a q c p = prefix_word a q c p' \<Longrightarrow> p = p'"
proof (induction p arbitrary: p' rule: less_induct)
  case (less p)
  have step: "prefix_word a q c x = prefix_word a q c ((x - 1) div c) @ [a ! (q + (x - 1) mod c)]"
    if "x \<noteq> 0" for x
    using that assms(2) by (simp add: prefix_word.simps [of a q c x])
  have nil: "prefix_word a q c 0 = []" by (simp add: prefix_word.simps)
  show ?case
  proof (cases "p = 0 \<or> p' = 0")
    case True
    with less.prems nil step show ?thesis by (metis append_is_Nil_conv not_Cons_self2)
  next
    case False
    with less.prems step have digit: "a ! (q + (p - 1) mod c) = a ! (q + (p' - 1) mod c)"
      and high: "prefix_word a q c ((p - 1) div c) = prefix_word a q c ((p' - 1) div c)" by auto
    have "q + x mod c < length a" for x
      using assms(2,3) mod_less_divisor [of c x] by linarith
    with digit assms(1) have "(p - 1) mod c = (p' - 1) mod c" by (simp add: nth_eq_iff_index_eq)
    moreover have "(p - 1) div c < p" using False by (intro div_pred_less) simp
    then have "(p - 1) div c = (p' - 1) div c" using high by (rule less.IH)
    ultimately have "p - 1 = p' - 1" by (metis div_mult_mod_eq)
    with False show ?thesis by arith
  qed
qed

text \<open>A word that ends at its first character of a set determines where it ends.\<close>

lemma first_mark_unique:
  assumes "\<forall>x\<in>set ps. x \<notin> Q" and "\<forall>x\<in>set ps'. x \<notin> Q" and "d \<in> Q" and "d' \<in> Q"
    and "prefix (ps @ d # r) (ps' @ d' # r')"
  shows "ps = ps' \<and> d = d' \<and> prefix r r'"
  using assms
proof (induction ps arbitrary: ps')
  case Nil
  then show ?case by (cases ps') auto
next
  case (Cons x ps)
  show ?case
  proof (cases ps')
    case Nil
    with Cons.prems show ?thesis by simp
  next
    case (Cons y ys)
    with Cons.prems have "x = y" and "prefix (ps @ d # r) (ys @ d' # r')" by simp_all
    with Cons.IH [of ys] Cons.prems(1-4) Cons show ?thesis by simp
  qed
qed

definition message_word :: "qstring \<Rightarrow> nat \<Rightarrow> int \<Rightarrow> qstring" where
  "message_word a q i = prefix_word a q 2 (nat (i div int q))"

lemma message_hint_label_eq:
  assumes "a = without_motion_keys current" and "length a = q + 3" and "0 < q" and "0 \<le> i"
  shows "message_hint_label current i photo =
    Some (if 0 \<le> photo \<and> photo < int q
      then last a # message_word a q i @ [a ! nat (i mod int q), a ! nat photo]
      else message_word a q i @ [a ! nat (i mod int q)])"
proof -
  have q: "quick_count a = int q" and c: "prefix_count a = 2"
    using assms(2,3) by (simp_all add: quick_count_def prefix_count_def)
  have "i mod int q < int q" using assms(3) by simp
  then have "nat (i mod int q) < length a"
    using assms(2,3) pos_mod_sign [of "int q" i] by linarith
  then have "take 1 (drop (nat (i mod int q)) a) = [a ! nat (i mod int q)]"
    by (metis Cons_nth_drop_Suc One_nat_def take_0 take_Suc_Cons)
  moreover have "0 \<le> i div int q" using assms(3,4) by (simp add: pos_imp_zdiv_nonneg_iff)
  ultimately show ?thesis
    using assms(4) q c message_prefixes_word [of "i div int q" a]
    by (auto simp: message_hint_label_def message_word_def Let_def simp flip: assms(1))
qed

lemma message_labels_prefix:
  assumes a: "a = without_motion_keys current" "distinct a" "length a = q + 3" "0 < q"
    and "0 \<le> i" and "0 \<le> j" and "-1 \<le> x" "x < int q" and "-1 \<le> y" "y < int q"
    and la: "message_hint_label current i x = Some la"
    and lb: "message_hint_label current j y = Some lb"
    and pre: "prefix la lb"
  shows "i = j \<and> x = y"
proof -
  define Q where "Q = (\<lambda>k. a ! k) ` {..<q}"
  define d where "d k = a ! nat (k mod int q)" for k
  have small: "nat (k mod int q) < q" for k using a(4) by (simp add: nat_less_iff)
  have dQ: "d k \<in> Q" for k using small unfolding d_def Q_def by auto
  have last_a: "last a = a ! (q + 2)"
    using a(3) last_conv_nth [of a] by fastforce
  have word: "\<forall>z\<in>set (message_word a q k). z \<notin> Q \<and> z \<noteq> last a" for k
  proof -
    have "set (message_word a q k) \<subseteq> (\<lambda>k. a ! k) ` {q..<q + 2}"
      unfolding message_word_def by (rule prefix_word_set) simp
    then show ?thesis using last_a a(2,3) by (auto simp: Q_def nth_eq_iff_index_eq)
  qed
  have lastQ: "last a \<notin> Q"
  proof -
    show ?thesis using last_a a(2,3) by (auto simp: Q_def nth_eq_iff_index_eq)
  qed
  have eq: "message_hint_label current k ph =
      Some (if 0 \<le> ph \<and> ph < int q then last a # message_word a q k @ [d k, a ! nat ph]
        else message_word a q k @ [d k])" if "0 \<le> k" for k ph
    unfolding d_def by (rule message_hint_label_eq [OF a(1,3,4) that])
  have hd_neq: "hd (message_word a q k @ d k # r) \<noteq> last a" for k r
    using word [of k] dQ [of k] lastQ by (cases "message_word a q k") auto
  have "0 \<le> x \<longleftrightarrow> 0 \<le> y"
    using la lb pre eq [OF assms(5), of x] eq [OF assms(6), of y] assms(8,10) hd_neq [of i "[]"] hd_neq [of j "[]"]
    by (cases "message_word a q i"; cases "message_word a q j") (auto split: if_splits)
  then obtain r r' where "prefix (message_word a q i @ d i # r) (message_word a q j @ d j # r')"
    and rr: "0 \<le> x \<Longrightarrow> r = [a ! nat x] \<and> r' = [a ! nat y]"
    using la lb pre eq [OF assms(5), of x] eq [OF assms(6), of y] assms(8,10)
    by (auto split: if_splits)
  then have w: "message_word a q i = message_word a q j" and dd: "d i = d j" and "prefix r r'"
    using first_mark_unique [of "message_word a q i" Q "message_word a q j" "d i" "d j" r r'] word dQ
    by blast+
  have "x = y"
  proof (cases "0 \<le> x")
    case True
    with rr \<open>prefix r r'\<close> have "a ! nat x = a ! nat y" by simp
    with True \<open>0 \<le> x \<longleftrightarrow> 0 \<le> y\<close> assms(8,10) a(2,3) show ?thesis by (simp add: nth_eq_iff_index_eq)
  next
    case False
    with \<open>0 \<le> x \<longleftrightarrow> 0 \<le> y\<close> assms(7,9) show ?thesis by simp
  qed
  moreover have "nat (i div int q) = nat (j div int q)"
    using w a unfolding message_word_def by (intro prefix_word_inj [of a 2 q]) auto
  then have "i div int q = j div int q"
    using assms(5,6) a(4) by (simp add: eq_nat_nat_iff pos_imp_zdiv_nonneg_iff)
  moreover have "nat (i mod int q) = nat (j mod int q)"
    using dd a(2,3) small [of i] small [of j] by (auto simp: d_def nth_eq_iff_index_eq)
  then have "i mod int q = j mod int q"
    using a(4) by (simp add: eq_nat_nat_iff)
  ultimately show ?thesis by (metis div_mult_mod_eq)
qed

section \<open>Properties\<close>

text \<open>Among any number of hints no label begins another one, so a typed label
  selects its hint without waiting for more keys.\<close>

theorem hint_labels_prefix_free:
  assumes "0 \<le> i" and "i < count" and "0 \<le> j" and "j < count"
    and "hint_label english i count = Some a" and "hint_label english j count = Some b"
    and "prefix a b"
  shows "i = j"
  using assms unfolding hint_label_def
  by (intro shortest_hint_label_prefix [of "current_hint_alphabet english" i count j a b])
    (simp_all add: hint_alphabets)

theorem hint_labels_prefix_free_witness:
  "\<exists>a. hint_label True 1 2 = Some a \<and> (\<forall>b. hint_label True 0 2 = Some b \<longrightarrow> \<not> prefix a b)"
proof -
  have a: "hint_label True 1 2 = Some [0x64]"
    by (simp add: hint_label_def shortest_hint_label_def alphabet_defs)
  have "\<not> prefix [0x64] b" if "hint_label True 0 2 = Some b" for b
    using hint_labels_prefix_free [of 1 2 0 True "[0x64]" b] a that by auto
  with a show ?thesis by blast
qed

text \<open>C36: every hint has a label, in any number; it uses characters of the alphabet
  only, and it is longer than one key only when there are at least that many hints.\<close>

theorem hint_labels_answered:
  assumes "0 \<le> index" and "index < count"
  shows "\<exists>a. hint_label english index count = Some a \<and> a \<noteq> []
    \<and> set a \<subseteq> set (current_hint_alphabet english)
    \<and> (length a = 1 \<or> 26 ^ (length a - 1) \<le> count)"
  using shortest_hint_label_exists [of "current_hint_alphabet english" index count] assms
  by (simp add: hint_label_def hint_alphabets)

theorem hint_labels_answered_witness:
  "\<exists>a. hint_label False 500 1000 = Some a \<and> a \<noteq> []"
proof -
  obtain a where "hint_label False 500 1000 = Some a \<and> a \<noteq> []"
    using hint_labels_answered [of 500 1000 False] by auto
  then show ?thesis by blast
qed

text \<open>The labels of messages, numbered without knowing how many there are,
  and of the photos of an album never begin one another.\<close>

theorem message_labels_prefix_free:
  assumes "0 \<le> i" and "0 \<le> j" and "-1 \<le> x" and "x < 21" and "-1 \<le> y" and "y < 21"
    and "message_hint_label (current_hint_alphabet english) i x = Some a"
    and "message_hint_label (current_hint_alphabet english) j y = Some b"
    and "prefix a b"
  shows "i = j \<and> x = y"
proof -
  let ?a = "without_motion_keys (current_hint_alphabet english)"
  have a: "?a = ?a" "distinct ?a" "length ?a = 21 + 3" "0 < (21::nat)" by (simp_all add: hint_alphabets)
  show ?thesis
    by (rule message_labels_prefix [OF a assms(1-3) _ assms(5) _ assms(7-9)]) (use assms(4,6) in simp_all)
qed

theorem message_labels_prefix_free_witness:
  "\<exists>a b. message_hint_label (current_hint_alphabet True) 3 (-1) = Some a
    \<and> message_hint_label (current_hint_alphabet True) 40 (-1) = Some b \<and> \<not> prefix a b"
proof -
  let ?a = "without_motion_keys (current_hint_alphabet True)"
  have al: "?a = ?a" "length ?a = 21 + 3" "0 < (21::nat)" by (simp_all add: hint_alphabets)
  obtain a b where ab: "message_hint_label (current_hint_alphabet True) 3 (-1) = Some a"
    "message_hint_label (current_hint_alphabet True) 40 (-1) = Some b"
    using message_hint_label_eq [OF al, of 3 "-1"] message_hint_label_eq [OF al, of 40 "-1"] by simp
  then have "\<not> prefix a b" using message_labels_prefix_free [of 3 40 "-1" "-1" True a b] by auto
  with ab show ?thesis by blast
qed

end
