(* ===== verification/KeyboardHints.thy ===== *)
theory KeyboardHints
  imports HintLabels
begin

unbundle bit_operations_syntax

text \<open>
  The keyboard hints of a scope (\<open>KeyboardNavigation\<close> of \<open>core/vim_keymap_widgets.cpp\<close>):
  showing hints over the targets, typing a label, backspace, cancelling, and cycling the focus.

  A widget is a number; a \<open>QPointer\<close> is \<open>Some w\<close> while the widget lives. What Qt says of the
  widgets when a key arrives (which are available, which rectangle is empty, what is focused,
  which callbacks are registered) is the record \<open>nav_env\<close>. What the code does to other widgets is
  the list of effects it returns, in order. Painting, event filters and the scroll handling of
  the class are not modelled.
\<close>

datatype keyboard_hint_mode = FocusMode | CloseMode | ShowMessageMode

record keyboard_hint =
  hint_widget :: "nat option"
  hint_text :: qstring

record nav_state =
  nav_hints :: "keyboard_hint list"
  nav_prefix :: qstring
  nav_mode :: keyboard_hint_mode
  nav_editing :: "nat option"

record nav_env =
  env_scope :: bool
  env_popup_menu :: bool
  env_available :: "nat \<Rightarrow> bool"
  env_rect_empty :: "nat \<Rightarrow> bool"
  env_action :: "keyboard_hint_mode \<Rightarrow> nat \<Rightarrow> bool"
  env_close_target :: "nat \<Rightarrow> bool"
  env_button :: "nat \<Rightarrow> bool"
  env_alive_after_focus :: "nat \<Rightarrow> bool"
  env_hint_targets :: "keyboard_hint_mode \<Rightarrow> nat list"
  env_focus_targets :: "nat list"
  env_focus_widget :: "nat option"

datatype nav_effect =
  FinishAdjustment nat bool
| FocusTarget nat
| ClickButton nat
| RunAction keyboard_hint_mode nat

section \<open>Operations\<close>

definition finish_control_edit :: "bool \<Rightarrow> nav_state \<Rightarrow> nav_state \<times> nav_effect list" where
  "finish_control_edit cancel nav =
     (nav\<lparr>nav_editing := None\<rparr>,
      case nav_editing nav of Some w \<Rightarrow> [FinishAdjustment w cancel] | None \<Rightarrow> [])"

definition clear_hints :: "nav_state \<Rightarrow> nav_state \<times> nav_effect list" where
  "clear_hints nav = finish_control_edit False (nav\<lparr>nav_hints := [], nav_prefix := []\<rparr>)"

definition has_hints :: "nav_state \<Rightarrow> bool" where
  "has_hints nav = (nav_hints nav \<noteq> [])"

definition show_hints ::
  "nav_env \<Rightarrow> (int \<Rightarrow> int \<Rightarrow> qstring) \<Rightarrow> keyboard_hint_mode \<Rightarrow> nav_state
    \<Rightarrow> nav_state \<times> nav_effect list" where
  "show_hints env label mode nav =
     (let (nav', effects) = clear_hints nav;
        targets = filter (\<lambda>w. \<not> env_rect_empty env w) (env_hint_targets env mode);
        n = length targets in
      (nav'\<lparr>nav_mode := mode,
            nav_hints := map (\<lambda>i. \<lparr>hint_widget = Some (targets ! i),
              hint_text = label (int i) (int n)\<rparr>) [0..<n]\<rparr>,
       effects))"

text \<open>The index arithmetic of \<open>focusNext\<close>, and the handler around it.\<close>

definition next_focus_index :: "bool \<Rightarrow> nat option \<Rightarrow> nat list \<Rightarrow> nat" where
  "next_focus_index forward focused targets =
     (let count = length targets; i = length (takeWhile (\<lambda>w. Some w \<noteq> focused) targets) in
      if i = count then (if forward then 0 else count - 1)
      else (i + (if forward then 1 else count - 1)) mod count)"

definition focus_next :: "nav_env \<Rightarrow> bool \<Rightarrow> nav_state \<Rightarrow> nav_state \<times> nav_effect list" where
  "focus_next env forward nav =
     (let (nav1, effects) = clear_hints nav;
        nav2 = nav1\<lparr>nav_editing := None\<rparr>;
        targets = env_focus_targets env in
      if targets = [] then (nav2, effects)
      else (nav2, effects @
        [FocusTarget (targets ! next_focus_index forward (env_focus_widget env) targets)]))"

definition activate_hint :: "nav_env \<Rightarrow> keyboard_hint_mode \<Rightarrow> nat \<Rightarrow> nav_effect list" where
  "activate_hint env mode target =
     (if \<not> env_scope env \<or> \<not> env_available env target \<or> env_rect_empty env target then []
      else let callback = env_action env mode target in
      if mode = FocusMode then
        FocusTarget target
        # (if env_alive_after_focus env target \<and> callback then [RunAction mode target] else [])
      else if \<not> callback \<and> mode = CloseMode \<and> env_close_target env target then
        (if env_button env target then [ClickButton target] else [])
      else if callback then [RunAction mode target]
      else [])"

text \<open>
  The loop of \<open>handleHintKey\<close> over the hints: \<open>Inl w\<close> is the return from inside it, \<open>Inr m\<close> its
  end with the value of \<open>matches\<close>.
\<close>

fun scan_hints :: "nav_env \<Rightarrow> qstring \<Rightarrow> keyboard_hint list \<Rightarrow> bool \<Rightarrow> nat + bool" where
  "scan_hints env pre [] matches = Inr matches"
| "scan_hints env pre (h # hs) matches =
     (case hint_widget h of
        None \<Rightarrow> scan_hints env pre hs matches
      | Some w \<Rightarrow>
          if \<not> env_available env w then scan_hints env pre hs matches
          else if hint_text h = pre then Inl w
          else scan_hints env pre hs (matches \<or> prefix pre (hint_text h)))"

definition handle_hint_key ::
  "nav_env \<Rightarrow> key_event \<Rightarrow> qstring \<Rightarrow> nav_state \<Rightarrow> bool \<times> nav_state \<times> nav_effect list" where
  "handle_hint_key env e inp nav =
     (if \<not> has_hints nav then (False, nav, [])
      else if is_plain_escape e then (True, clear_hints nav)
      else if tab_navigation_delta e \<noteq> 0 then
        (if nav_mode nav \<noteq> FocusMode \<or> env_popup_menu env then (False, clear_hints nav)
         else (True, focus_next env (tab_navigation_delta e > 0) nav))
      else if ev_auto_repeat e then (True, nav, [])
      else if ev_key e = Key_Backspace then
        (True, nav\<lparr>nav_prefix := butlast (nav_prefix nav)\<rparr>, [])
      else if ev_modifiers e AND (ControlModifier OR AltModifier OR MetaModifier) \<noteq> 0 then
        (False, clear_hints nav)
      else if inp = [] then (True, nav, [])
      else let pre = nav_prefix nav @ inp in
      case scan_hints env pre (nav_hints nav) False of
        Inl target \<Rightarrow>
          let (nav', effects) = clear_hints nav in
          (True, nav', effects @ activate_hint env (nav_mode nav') target)
      | Inr matches \<Rightarrow> (True, if matches then nav\<lparr>nav_prefix := pre\<rparr> else nav, []))"

text \<open>A sequence of keys, with the text each one inputs; the effects accumulate in order.\<close>

fun type_keys :: "nav_env \<Rightarrow> (key_event \<times> qstring) list \<Rightarrow> nav_state
    \<Rightarrow> nav_state \<times> nav_effect list" where
  "type_keys env [] nav = (nav, [])"
| "type_keys env ((e, inp) # keys) nav =
     (let (_, nav', effects) = handle_hint_key env e inp nav;
        (nav'', effects') = type_keys env keys nav' in
      (nav'', effects @ effects'))"

definition typing_key :: "key_event \<Rightarrow> bool" where
  "typing_key e \<longleftrightarrow>
     \<not> is_plain_escape e \<and> tab_navigation_delta e = 0 \<and> \<not> ev_auto_repeat e
     \<and> ev_key e \<noteq> Key_Backspace
     \<and> ev_modifiers e AND (ControlModifier OR AltModifier OR MetaModifier) = 0"

section \<open>Basic facts\<close>

lemma finish_control_edit_simps [simp]:
  "nav_hints (fst (finish_control_edit c nav)) = nav_hints nav"
  "nav_prefix (fst (finish_control_edit c nav)) = nav_prefix nav"
  "nav_mode (fst (finish_control_edit c nav)) = nav_mode nav"
  "nav_editing (fst (finish_control_edit c nav)) = None"
  by (simp_all add: finish_control_edit_def)

lemma clear_hints_simps [simp]:
  "nav_hints (fst (clear_hints nav)) = []"
  "nav_prefix (fst (clear_hints nav)) = []"
  "nav_mode (fst (clear_hints nav)) = nav_mode nav"
  "nav_editing (fst (clear_hints nav)) = None"
  by (simp_all add: clear_hints_def)

lemma handle_hint_key_typing:
  assumes "typing_key e" and "has_hints nav" and "inp \<noteq> []"
  shows "handle_hint_key env e inp nav =
    (case scan_hints env (nav_prefix nav @ inp) (nav_hints nav) False of
       Inl target \<Rightarrow>
         (True, fst (clear_hints nav), snd (clear_hints nav) @ activate_hint env (nav_mode nav) target)
     | Inr matches \<Rightarrow>
         (True, if matches then nav\<lparr>nav_prefix := nav_prefix nav @ inp\<rparr> else nav, []))"
  using assms
  by (auto simp: handle_hint_key_def typing_key_def Let_def case_prod_beta split: sum.splits)

lemma scan_hints_none:
  assumes "\<And>h. h \<in> set hs \<Longrightarrow> hint_text h \<noteq> pre"
    and "\<And>h. h \<in> set hs \<Longrightarrow> \<exists>w. hint_widget h = Some w \<and> env_available env w"
  shows "scan_hints env pre hs m = Inr (m \<or> (\<exists>h\<in>set hs. prefix pre (hint_text h)))"
  using assms
proof (induction hs arbitrary: m)
  case Nil
  show ?case by simp
next
  case (Cons h hs)
  from Cons.prems(2) [of h] obtain w where "hint_widget h = Some w" "env_available env w" by auto
  with Cons show ?case by auto
qed

lemma scan_hints_found:
  assumes "k < length hs" and "hint_text (hs ! k) = pre" and "hint_widget (hs ! k) = Some w"
    and "\<And>j. j < k \<Longrightarrow> hint_text (hs ! j) \<noteq> pre"
    and "\<And>h. h \<in> set hs \<Longrightarrow> \<exists>w. hint_widget h = Some w \<and> env_available env w"
  shows "scan_hints env pre hs m = Inl w"
  using assms
proof (induction hs arbitrary: k m)
  case Nil
  then show ?case by simp
next
  case (Cons h hs)
  from Cons.prems(5) [of h] obtain v where v: "hint_widget h = Some v" "env_available env v" by auto
  show ?case
  proof (cases k)
    case 0
    with Cons.prems v show ?thesis by simp
  next
    case (Suc k')
    have "hint_text h \<noteq> pre" using Cons.prems(4) [of 0] Suc by simp
    moreover have "hint_text (hs ! j) \<noteq> pre" if "j < k'" for j
      using Cons.prems(4) [of "Suc j"] that Suc by simp
    then have "scan_hints env pre hs m' = Inl w" for m'
      using Cons.prems(1-3,5) Suc by (intro Cons.IH [of k']) auto
    ultimately show ?thesis using v by simp
  qed
qed

section \<open>Label schemes in which no label begins another one\<close>

locale prefix_code =
  fixes label :: "int \<Rightarrow> qstring" and count :: int
  assumes label_nonempty: "0 \<le> i \<Longrightarrow> i < count \<Longrightarrow> label i \<noteq> []"
    and prefix_free: "0 \<le> i \<Longrightarrow> i < count \<Longrightarrow> 0 \<le> j \<Longrightarrow> j < count
      \<Longrightarrow> prefix (label i) (label j) \<Longrightarrow> i = j"
begin

definition hints_for :: "nat list \<Rightarrow> keyboard_hint list" where
  "hints_for ws = map (\<lambda>i. \<lparr>hint_widget = Some (ws ! i), hint_text = label (int i)\<rparr>) [0..<length ws]"

lemma hints_for_simps:
  "length (hints_for ws) = length ws"
  "k < length ws \<Longrightarrow> hints_for ws ! k = \<lparr>hint_widget = Some (ws ! k), hint_text = label (int k)\<rparr>"
  by (simp_all add: hints_for_def)

lemma hints_for_available:
  assumes "\<And>w. w \<in> set ws \<Longrightarrow> env_available env w" and "h \<in> set (hints_for ws)"
  shows "\<exists>w. hint_widget h = Some w \<and> env_available env w"
  using assms by (auto simp: hints_for_def)

text \<open>A proper beginning of a label is kept; the label itself activates its own hint only.\<close>

lemma scan_partial:
  assumes "int (length ws) = count" and "k < length ws"
    and "\<And>w. w \<in> set ws \<Longrightarrow> env_available env w"
    and "strict_prefix pre (label (int k))"
  shows "scan_hints env pre (hints_for ws) False = Inr True"
proof -
  have other: "hint_text h \<noteq> pre" if "h \<in> set (hints_for ws)" for h
  proof
    assume "hint_text h = pre"
    with that obtain j where "j < length ws" "label (int j) = pre"
      by (auto simp: hints_for_def)
    with assms(1,2,4) prefix_free [of "int j" "int k"] show False
      by (auto simp: strict_prefix_def)
  qed
  have "hints_for ws ! k \<in> set (hints_for ws)"
    using assms(2) hints_for_simps(1) nth_mem by metis
  then have some: "\<exists>h\<in>set (hints_for ws). prefix pre (hint_text h)"
  proof (rule bexI [rotated])
    show "prefix pre (hint_text (hints_for ws ! k))"
      using assms(4) by (simp add: hints_for_simps(2) [OF assms(2)] strict_prefix_def)
  qed
  show ?thesis
    using some by (subst scan_hints_none) (simp_all add: other hints_for_available [OF assms(3)])
qed

lemma scan_complete:
  assumes "int (length ws) = count" and "k < length ws"
    and "\<And>w. w \<in> set ws \<Longrightarrow> env_available env w"
  shows "scan_hints env (label (int k)) (hints_for ws) m = Inl (ws ! k)"
proof (rule scan_hints_found [of k])
  fix j
  assume "j < k"
  with assms(1,2) prefix_free [of "int j" "int k"]
  show "hint_text (hints_for ws ! j) \<noteq> label (int k)" by (auto simp: hints_for_simps)
qed (use assms hints_for_available [OF assms(3)] in \<open>auto simp: hints_for_simps\<close>)

lemma type_label:
  assumes ws: "int (length ws) = count" "k < length ws"
    "\<And>w. w \<in> set ws \<Longrightarrow> env_available env w"
    and nav: "nav_hints nav = hints_for ws"
    and keys: "\<And>key. key \<in> set keys \<Longrightarrow> typing_key (fst key) \<and> length (snd key) = 1"
    and word: "nav_prefix nav @ concat (map snd keys) = label (int k)" "keys \<noteq> []"
  shows "type_keys env keys nav =
    (fst (clear_hints nav), snd (clear_hints nav) @ activate_hint env (nav_mode nav) (ws ! k))"
  using nav keys word
proof (induction keys arbitrary: nav)
  case Nil
  then show ?case by simp
next
  case (Cons key keys)
  obtain e inp where key: "key = (e, inp)" by (cases key)
  have e: "typing_key e" "length inp = 1" using Cons.prems(2) [of key] key by auto
  have inp: "inp \<noteq> []" using e(2) by auto
  have "hints_for ws \<noteq> []" using ws(2) by (auto simp: hints_for_def)
  with Cons.prems(1) have has: "has_hints nav" by (simp add: has_hints_def)
  note step = handle_hint_key_typing [OF e(1) has, of inp env]
  show ?case
  proof (cases "keys = []")
    case True
    then have "scan_hints env (nav_prefix nav @ inp) (nav_hints nav) False = Inl (ws ! k)"
      using scan_complete [OF ws] Cons.prems(1,3) key by simp
    with True step inp show ?thesis by (simp add: key)
  next
    case False
    have "hd keys \<in> set (key # keys)" using False by simp
    then have "length (snd (hd keys)) = 1" using Cons.prems(2) by blast
    then have rest: "concat (map snd keys) \<noteq> []" using False by (cases keys) auto
    have "label (int k) = (nav_prefix nav @ inp) @ concat (map snd keys)"
      using Cons.prems(3) key by simp
    with rest have "strict_prefix (nav_prefix nav @ inp) (label (int k))"
      by (simp add: strict_prefix_def)
    then have "scan_hints env (nav_prefix nav @ inp) (nav_hints nav) False = Inr True"
      using scan_partial [OF ws] Cons.prems(1) by simp
    with step inp have "handle_hint_key env e inp nav =
        (True, nav\<lparr>nav_prefix := nav_prefix nav @ inp\<rparr>, [])" by simp
    moreover have "type_keys env keys (nav\<lparr>nav_prefix := nav_prefix nav @ inp\<rparr>) =
      (fst (clear_hints (nav\<lparr>nav_prefix := nav_prefix nav @ inp\<rparr>)),
       snd (clear_hints (nav\<lparr>nav_prefix := nav_prefix nav @ inp\<rparr>))
         @ activate_hint env (nav_mode (nav\<lparr>nav_prefix := nav_prefix nav @ inp\<rparr>)) (ws ! k))"
      using False Cons.prems key by (intro Cons.IH) auto
    moreover have "clear_hints (nav\<lparr>nav_prefix := p\<rparr>) = clear_hints nav" for p
      by (simp add: clear_hints_def finish_control_edit_def)
    ultimately show ?thesis by (simp add: key)
  qed
qed

end

text \<open>Both label schemes of the code satisfy the contract.\<close>

definition hint_label_text :: "bool \<Rightarrow> int \<Rightarrow> int \<Rightarrow> qstring" where
  "hint_label_text english count index =
     (case hint_label english index count of Some l \<Rightarrow> l | None \<Rightarrow> [])"

definition message_label_text :: "bool \<Rightarrow> int \<Rightarrow> qstring" where
  "message_label_text english index =
     (case message_hint_label (current_hint_alphabet english) index (-1) of
        Some l \<Rightarrow> l | None \<Rightarrow> [])"

interpretation shortest_code: prefix_code "hint_label_text english count" count
  for english count
proof unfold_locales
  fix i j
  have alphabet: "distinct (current_hint_alphabet english)" "2 \<le> length (current_hint_alphabet english)"
    by (simp_all add: hint_alphabets)
  assume i: "0 \<le> i" "i < count"
  then obtain a where a: "hint_label english i count = Some a" "a \<noteq> []"
    using shortest_hint_label_exists [OF alphabet(2) i] by (auto simp: hint_label_def)
  then show "hint_label_text english count i \<noteq> []" by (simp add: hint_label_text_def)
  assume j: "0 \<le> j" "j < count"
  then obtain b where b: "hint_label english j count = Some b"
    using shortest_hint_label_exists [OF alphabet(2) j] by (auto simp: hint_label_def)
  assume "prefix (hint_label_text english count i) (hint_label_text english count j)"
  with a b have "prefix a b" by (simp add: hint_label_text_def)
  with a(1) b show "i = j"
    unfolding hint_label_def by (rule shortest_hint_label_prefix [OF alphabet i j])
qed

interpretation message_code: prefix_code "message_label_text english" count
  for english count
proof unfold_locales
  fix i j
  let ?a = "without_motion_keys (current_hint_alphabet english)"
  have a: "?a = ?a" "distinct ?a" "length ?a = 21 + 3" "0 < (21::nat)"
    by (simp_all add: hint_alphabets)
  assume i: "0 \<le> i" "i < count"
  note eq = message_hint_label_eq [OF a(1,3,4)]
  show "message_label_text english i \<noteq> []" using i by (simp add: message_label_text_def eq)
  assume j: "0 \<le> j" "j < count"
  assume "prefix (message_label_text english i) (message_label_text english j)"
  moreover have "message_hint_label (current_hint_alphabet english) k (-1)
      = Some (message_label_text english k)" if "0 \<le> k" for k
    using that by (simp add: message_label_text_def eq)
  ultimately have "i = j \<and> (-1::int) = -1"
    using i j by (intro message_labels_prefix [OF a]) simp_all
  then show "i = j" by simp
qed

section \<open>Typing a shown label\<close>

lemma hint_input_length: "hint_input qt english e \<noteq> [] \<Longrightarrow> length (hint_input qt english e) = 1"
proof -
  assume "hint_input qt english e \<noteq> []"
  moreover have "length (hint_input qt english e) \<le> 1"
    by (simp add: hint_input_def Let_def split: option.split)
  ultimately show ?thesis by (cases "hint_input qt english e") auto
qed

definition shown_targets :: "nav_env \<Rightarrow> keyboard_hint_mode \<Rightarrow> nat list" where
  "shown_targets env mode = filter (\<lambda>w. \<not> env_rect_empty env w) (env_hint_targets env mode)"

definition typed :: "qt_text \<Rightarrow> bool \<Rightarrow> key_event list \<Rightarrow> (key_event \<times> qstring) list" where
  "typed qt english es = map (\<lambda>e. (e, hint_input qt english e)) es"

definition shortest_labels :: "bool \<Rightarrow> int \<Rightarrow> int \<Rightarrow> qstring" where
  "shortest_labels english i n = hint_label_text english n i"

definition fresh_nav :: "keyboard_hint_mode \<Rightarrow> nav_state" where
  "fresh_nav mode = \<lparr>nav_hints = [], nav_prefix = [], nav_mode = mode, nav_editing = None\<rparr>"

lemma show_hints_state:
  "nav_hints (fst (show_hints env (shortest_labels english) mode nav)) =
     shortest_code.hints_for english (int (length (shown_targets env mode))) (shown_targets env mode)"
  "nav_prefix (fst (show_hints env (shortest_labels english) mode nav)) = []"
  "nav_mode (fst (show_hints env (shortest_labels english) mode nav)) = mode"
  "nav_editing (fst (show_hints env (shortest_labels english) mode nav)) = None"
  by (simp_all add: show_hints_def Let_def case_prod_beta shown_targets_def
      shortest_code.hints_for_def shortest_labels_def)

lemma type_shown_label:
  assumes "\<And>w. w \<in> set (env_hint_targets env mode) \<Longrightarrow> env_available env w"
    and "k < length (shown_targets env mode)"
    and "\<And>e. e \<in> set es \<Longrightarrow> typing_key e \<and> hint_input qt english e \<noteq> []"
    and "concat (map (hint_input qt english) es) =
      shortest_labels english (int k) (int (length (shown_targets env mode)))"
  shows "type_keys env (typed qt english es)
      (fst (show_hints env (shortest_labels english) mode nav)) =
    (fresh_nav mode, activate_hint env mode (shown_targets env mode ! k))"
proof -
  let ?ws = "shown_targets env mode" and ?nav = "fst (show_hints env (shortest_labels english) mode nav)"
  let ?n = "int (length ?ws)"
  have "int k < ?n" using assms(2) by simp
  then have ne: "hint_label_text english ?n (int k) \<noteq> []"
    by (intro shortest_code.label_nonempty) auto
  have avail: "env_available env w" if "w \<in> set ?ws" for w
    using that assms(1) by (auto simp: shown_targets_def)
  have "type_keys env (typed qt english es) ?nav =
      (fst (clear_hints ?nav), snd (clear_hints ?nav) @ activate_hint env (nav_mode ?nav) (?ws ! k))"
  proof (rule shortest_code.type_label [OF refl assms(2) avail])
    show "nav_hints ?nav = shortest_code.hints_for english ?n ?ws" by (rule show_hints_state)
    show "typing_key (fst key) \<and> length (snd key) = 1" if "key \<in> set (typed qt english es)" for key
      using that assms(3) by (auto simp: typed_def hint_input_length)
    have "map snd (typed qt english es) = map (hint_input qt english) es"
      by (simp add: typed_def comp_def)
    with assms(4) show "nav_prefix ?nav @ concat (map snd (typed qt english es)) =
        hint_label_text english ?n (int k)"
      by (simp add: show_hints_state shortest_labels_def)
    show "typed qt english es \<noteq> []"
      using assms(4) ne by (auto simp: typed_def shortest_labels_def)
  qed
  moreover have "snd (clear_hints ?nav) = []"
    by (simp add: clear_hints_def finish_control_edit_def show_hints_state)
  moreover have "fst (clear_hints ?nav) = fresh_nav mode"
    by (rule nav_state.equality) (simp_all add: show_hints_state fresh_nav_def)
  ultimately show ?thesis by (simp add: show_hints_state)
qed

section \<open>Properties\<close>

text \<open>C34: after hints are shown over the visible targets of a scope, typing the
  label of the \<open>k\<close>-th one on any keyboard layout activates that target and no other, and leaves no
  hints behind.\<close>

theorem typed_label_activates:
  assumes "\<And>w. w \<in> set (env_hint_targets env mode) \<Longrightarrow> env_available env w"
    and "k < length (shown_targets env mode)"
    and "\<And>e. e \<in> set es \<Longrightarrow> typing_key e \<and> hint_input qt english e \<noteq> []"
    and "concat (map (hint_input qt english) es) =
      shortest_labels english (int k) (int (length (shown_targets env mode)))"
  shows "type_keys env (typed qt english es)
      (fst (show_hints env (shortest_labels english) mode nav)) =
    (fresh_nav mode, activate_hint env mode (shown_targets env mode ! k))"
  using assms by (rule type_shown_label)

theorem typed_label_activates_witness:
  "let env = \<lparr>env_scope = True, env_popup_menu = False, env_available = (\<lambda>_. True),
       env_rect_empty = (\<lambda>_. False), env_action = (\<lambda>_ _. True), env_close_target = (\<lambda>_. False),
       env_button = (\<lambda>_. False), env_alive_after_focus = (\<lambda>_. True), env_hint_targets = (\<lambda>_. [4, 7]),
       env_focus_targets = [4, 7], env_focus_widget = None\<rparr>;
     qt = \<lparr>os_mac = False, fold_case = (\<lambda>s. s), fold_char = (\<lambda>c. c), upper_char = (\<lambda>c. c),
       trimmed = (\<lambda>s. s), split_on = (\<lambda>_ s. [s])\<rparr>;
     e = \<lparr>ev_key = Key_D, ev_text = [0x64], ev_modifiers = 0, ev_auto_repeat = False, ev_native_key = 0\<rparr> in
   type_keys env (typed qt True [e]) (fst (show_hints env (shortest_labels True) ShowMessageMode (fresh_nav FocusMode)))
     = (fresh_nav ShowMessageMode, [RunAction ShowMessageMode 7])"
proof -
  define env where "env = \<lparr>env_scope = True, env_popup_menu = False, env_available = (\<lambda>_. True),
       env_rect_empty = (\<lambda>_. False), env_action = (\<lambda>_ _. True), env_close_target = (\<lambda>_. False),
       env_button = (\<lambda>_. False), env_alive_after_focus = (\<lambda>_. True),
       env_hint_targets = (\<lambda>_. [4, 7::nat]), env_focus_targets = [4, 7], env_focus_widget = None\<rparr>"
  define qt where "qt = \<lparr>os_mac = False, fold_case = (\<lambda>s. s), fold_char = (\<lambda>c. c), upper_char = (\<lambda>c. c),
       trimmed = (\<lambda>s. s), split_on = (\<lambda>_ s. [s::qstring])\<rparr>"
  define e where "e = \<lparr>ev_key = Key_D, ev_text = [0x64], ev_modifiers = 0, ev_auto_repeat = False,
       ev_native_key = 0\<rparr>"
  have targets: "shown_targets env ShowMessageMode = [4, 7]" by (simp add: shown_targets_def env_def)
  have label: "shortest_labels True 1 2 = [0x64]"
    by (simp add: shortest_labels_def hint_label_text_def hint_label_def shortest_hint_label_def alphabet_defs)
  have inp: "hint_input qt True e = [0x64]"
    unfolding qt_def e_def by code_simp
  have key: "typing_key e" unfolding e_def by code_simp
  have "type_keys env (typed qt True [e])
      (fst (show_hints env (shortest_labels True) ShowMessageMode (fresh_nav FocusMode)))
    = (fresh_nav ShowMessageMode, activate_hint env ShowMessageMode (shown_targets env ShowMessageMode ! 1))"
    by (rule typed_label_activates) (simp_all add: targets label inp key, simp add: env_def)
  moreover have "activate_hint env ShowMessageMode 7 = [RunAction ShowMessageMode 7]"
    by (simp add: activate_hint_def env_def)
  ultimately show ?thesis
    unfolding Let_def env_def [symmetric] qt_def [symmetric] e_def [symmetric] by (simp add: targets)
qed

end
