(* ===== verification/VimKeys.thy ===== *)
theory VimKeys
  imports HintLabels Complex_Main
begin

text \<open>
  The options of the Vim keymap (\<open>core/vim_keymap_options.cpp\<close>), their JSON configuration
  (\<open>core/vim_keymap_config.cpp\<close>), the migration of old defaults and the key predicates that
  read the options (\<open>core/vim_keymap.cpp\<close>).

  \<open>base::options\<close> is a submodule: an option holds a value, \<open>value()\<close> returns what \<open>set\<close> stored.
  The store maps every option to its value. Qt's JSON parser and \<open>QString::fromUtf8\<close> are the
  record \<open>json_lib\<close>; a JSON number is a rational. Error texts are the constructors of
  \<open>config_error\<close>. \<open>ConfigSchema\<close> builds a JSON document for editors and is not modelled.
\<close>

section \<open>Options\<close>

datatype option_id =
  VimKeymap | DefaultsMigrated | EscapeClosesComposer | ScrollStep | HoldScrollSpeed | HintSize
| HintAlphabet | ComposeCursorStyle | ComposeCursorWidth | ComposeCursorHeight | ComposeCursorBlink
| KeyToggleMode | KeyCancelReply | KeyCancelEdit | KeyHelp | KeyScrollDown | KeyScrollUp
| KeyJumpBottom | KeyMarkRead | KeyCopyMessage | KeySelectMessageText | KeyReplyToMessage
| KeyEditMessage | KeyDeleteMessage | KeyFocusHints | KeyOpenChatHints | KeyChatPreview | KeySearch
| KeyGlobalSearch | KeyUndo | KeyRedo | KeyNextChat | KeyPreviousChat | KeyNextFolder
| KeyPreviousFolder | KeyEmojiPanel | KeyFocusChat | KeyFocusEmoji | KeyCall

datatype option_value = OptBool bool | OptInt int | OptString qstring

type_synonym option_store = "option_id \<Rightarrow> option_value"

definition option_names :: "(option_id \<times> string) list" where
  "option_names =
    [(VimKeymap, ''vim-keymap''),
     (EscapeClosesComposer, ''vim-keymap-escape-closes-composer''),
     (ScrollStep, ''vim-keymap-scroll-step''),
     (HoldScrollSpeed, ''vim-keymap-hold-scroll-speed''),
     (HintSize, ''vim-keymap-hint-size''),
     (HintAlphabet, ''vim-keymap-hint-alphabet''),
     (ComposeCursorStyle, ''vim-keymap-compose-cursor-style''),
     (ComposeCursorWidth, ''vim-keymap-compose-cursor-width''),
     (ComposeCursorHeight, ''vim-keymap-compose-cursor-height''),
     (ComposeCursorBlink, ''vim-keymap-compose-cursor-blink''),
     (KeyToggleMode, ''vim-keymap-key-toggle-mode''),
     (KeyCancelReply, ''vim-keymap-key-cancel-reply''),
     (KeyCancelEdit, ''vim-keymap-key-cancel-edit''),
     (KeyHelp, ''vim-keymap-key-help''),
     (KeyScrollDown, ''vim-keymap-key-scroll-down''),
     (KeyScrollUp, ''vim-keymap-key-scroll-up''),
     (KeyJumpBottom, ''vim-keymap-key-jump-bottom''),
     (KeyMarkRead, ''vim-keymap-key-mark-read''),
     (KeyCopyMessage, ''vim-keymap-key-copy-message''),
     (KeySelectMessageText, ''vim-keymap-key-select-message-text''),
     (KeyReplyToMessage, ''vim-keymap-key-reply-to-message''),
     (KeyEditMessage, ''vim-keymap-key-edit-message''),
     (KeyDeleteMessage, ''vim-keymap-key-delete-message''),
     (KeyFocusHints, ''vim-keymap-key-focus-hints''),
     (KeyOpenChatHints, ''vim-keymap-key-open-chat-hints''),
     (KeyChatPreview, ''vim-keymap-key-chat-preview''),
     (KeySearch, ''vim-keymap-key-search''),
     (KeyGlobalSearch, ''vim-keymap-key-global-search''),
     (KeyUndo, ''vim-keymap-key-undo''),
     (KeyRedo, ''vim-keymap-key-redo''),
     (KeyNextChat, ''vim-keymap-key-next-chat''),
     (KeyPreviousChat, ''vim-keymap-key-previous-chat''),
     (KeyNextFolder, ''vim-keymap-key-next-folder''),
     (KeyPreviousFolder, ''vim-keymap-key-previous-folder''),
     (KeyEmojiPanel, ''vim-keymap-key-emoji-panel''),
     (KeyFocusChat, ''vim-keymap-key-focus-chat''),
     (KeyFocusEmoji, ''vim-keymap-key-focus-emoji''),
     (KeyCall, ''vim-keymap-key-call''),
     (DefaultsMigrated, ''vim-keymap-defaults-migrated'')]"

definition option_name :: "option_id \<Rightarrow> qstring" where
  "option_name o' = (case map_of option_names o' of Some n \<Rightarrow> latin n | None \<Rightarrow> [])"

definition setting_defaults :: "(option_id \<times> option_value) list" where
  "setting_defaults =
    [(DefaultsMigrated, OptBool False),
     (VimKeymap, OptBool True),
     (EscapeClosesComposer, OptBool True),
     (ScrollStep, OptInt 180),
     (HoldScrollSpeed, OptInt 3200),
     (HintSize, OptInt 13),
     (HintAlphabet, OptString (latin ''russian'')),
     (ComposeCursorStyle, OptString (latin ''block'')),
     (ComposeCursorWidth, OptInt 5),
     (ComposeCursorHeight, OptInt 100),
     (ComposeCursorBlink, OptInt 0)]"

definition message_binding_defaults :: "(option_id \<times> qstring) list" where
  "message_binding_defaults =
    [(KeyToggleMode, latin ''Esc''),
     (KeyCancelReply, latin ''Esc''),
     (KeyCancelEdit, []),
     (KeyHelp, latin ''?''),
     (KeyScrollDown, latin ''j, '' @ [0x43E]),
     (KeyScrollUp, latin ''k, '' @ [0x43B]),
     (KeyJumpBottom, latin ''Ctrl+G, Ctrl+'' @ [0x43F]),
     (KeyMarkRead, latin ''Ctrl+M, Ctrl+'' @ [0x44C]),
     (KeyCopyMessage, latin ''y, '' @ [0x43D]),
     (KeySelectMessageText, latin ''Ctrl+Shift+V, Ctrl+Shift+'' @ [0x43C]),
     (KeyReplyToMessage, latin ''r, '' @ [0x43A]),
     (KeyEditMessage, latin ''e, '' @ [0x443]),
     (KeyDeleteMessage, latin ''d, '' @ [0x432]),
     (KeyFocusHints, latin ''f, '' @ [0x430]),
     (KeyOpenChatHints, latin ''o, '' @ [0x449]),
     (KeyChatPreview, latin ''Ctrl+V'')]"

definition global_search_default :: qstring where
  "global_search_default = latin ''Ctrl+F, Ctrl+'' @ [0x430] @ latin '', Cmd+Shift+F, Cmd+Shift+'' @ [0x430]
     @ latin '', Ctrl+Shift+F, Ctrl+Shift+'' @ [0x430]"

definition navigation_binding_defaults :: "(option_id \<times> qstring) list" where
  "navigation_binding_defaults =
    [(KeySearch, latin ''/''),
     (KeyGlobalSearch, global_search_default),
     (KeyUndo, latin ''u, '' @ [0x433]),
     (KeyRedo, latin ''Ctrl+R, Ctrl+'' @ [0x43A]),
     (KeyNextChat, latin ''Ctrl+J, Ctrl+'' @ [0x43E]),
     (KeyPreviousChat, latin ''Ctrl+K, Ctrl+'' @ [0x43B]),
     (KeyNextFolder, latin ''Tab''),
     (KeyPreviousFolder, latin ''Shift+Tab''),
     (KeyEmojiPanel, []),
     (KeyFocusChat, latin ''Ctrl+H, Ctrl+'' @ [0x440]),
     (KeyFocusEmoji, latin ''Ctrl+L, Ctrl+'' @ [0x434]),
     (KeyCall, latin ''Ctrl+T, Ctrl+'' @ [0x435])]"

definition option_default :: option_store where
  "option_default o' =
     (case map_of setting_defaults o' of
        Some v \<Rightarrow> v
      | None \<Rightarrow>
          (case map_of (message_binding_defaults @ navigation_binding_defaults) o' of
             Some b \<Rightarrow> OptString b | None \<Rightarrow> OptBool False))"

definition option_bounds :: "(option_id \<times> int \<times> int) list" where
  "option_bounds =
    [(ScrollStep, 80, 1800), (HoldScrollSpeed, 600, 16000), (HintSize, 10, 24),
     (ComposeCursorWidth, 1, 30), (ComposeCursorHeight, 20, 100), (ComposeCursorBlink, 0, 2000)]"

section \<open>The configuration file\<close>

record config_option =
  co_id :: option_id
  co_bounds :: "(int \<times> int) option"
  co_choices :: "qstring list"

definition config_option_of :: "option_id \<Rightarrow> config_option" where
  "config_option_of o' = \<lparr>co_id = o', co_bounds = map_of option_bounds o',
     co_choices =
       (if o' = HintAlphabet then [latin ''russian'', latin ''english'']
        else if o' = ComposeCursorStyle then [latin ''block'', latin ''bar'', latin ''underline'']
        else [])\<rparr>"

definition config_options :: "config_option list" where
  "config_options = map config_option_of
    [VimKeymap, EscapeClosesComposer, ScrollStep, HoldScrollSpeed, HintSize, HintAlphabet,
     ComposeCursorStyle, ComposeCursorWidth, ComposeCursorHeight, ComposeCursorBlink,
     KeyToggleMode, KeyCancelReply, KeyCancelEdit, KeyHelp, KeyScrollDown, KeyScrollUp,
     KeyJumpBottom, KeyMarkRead, KeyCopyMessage, KeySelectMessageText, KeyReplyToMessage,
     KeyEditMessage, KeyDeleteMessage, KeyFocusHints, KeyOpenChatHints, KeyChatPreview, KeySearch,
     KeyGlobalSearch, KeyUndo, KeyRedo, KeyNextChat, KeyPreviousChat, KeyNextFolder,
     KeyPreviousFolder, KeyEmojiPanel, KeyFocusChat, KeyFocusEmoji, KeyCall]"

datatype json_value = JNull | JBool bool | JNumber rat | JString qstring | JArray | JObject

datatype json_document = JsonError nat | JsonOther | JsonObject "(qstring \<times> json_value) list"

record json_lib =
  jl_parse :: "int list \<Rightarrow> json_document"
  jl_from_utf8 :: "int list \<Rightarrow> qstring"

text \<open>\<open>QJsonValue::toInt\<close>: the whole number, or 0 when the value is not one that fits an \<open>int\<close>.\<close>

definition json_to_int :: "rat \<Rightarrow> int" where
  "json_to_int r = (if r = of_int \<lfloor>r\<rfloor> \<and> -2147483648 \<le> \<lfloor>r\<rfloor> \<and> \<lfloor>r\<rfloor> \<le> 2147483647 then \<lfloor>r\<rfloor> else 0)"

fun json_of_option :: "option_value \<Rightarrow> json_value" where
  "json_of_option (OptBool b) = JBool b"
| "json_of_option (OptInt n) = JNumber (of_int n)"
| "json_of_option (OptString s) = JString s"

definition config_snapshot :: "bool \<Rightarrow> option_store \<Rightarrow> (qstring \<times> json_value) list" where
  "config_snapshot defaults store = map (\<lambda>f. (option_name (co_id f),
     json_of_option (if defaults then option_default (co_id f) else store (co_id f)))) config_options"

datatype config_error =
  ConfigTooLarge
| ConfigSyntax nat nat
| ConfigNotObject
| UnknownKey qstring
| ExpectedBool qstring
| ExpectedInt qstring int int
| ExpectedString qstring
| ExpectedChoice qstring "qstring list"
| BadBindings qstring

definition max_config_bytes :: nat where
  "max_config_bytes = 64 * 1024"

text \<open>The line and the column of a syntax error: \<open>lastIndexOf\<close> is -1 when there is no line break.\<close>

definition syntax_error_at :: "json_lib \<Rightarrow> int list \<Rightarrow> nat \<Rightarrow> config_error" where
  "syntax_error_at lib bytes offset =
     (let before = jl_from_utf8 lib (take offset bytes) in
      ConfigSyntax (length (filter (\<lambda>c. c = 0x0A) before) + 1)
        (length (takeWhile (\<lambda>c. c \<noteq> 0x0A) (rev before)) + 1))"

text \<open>The body of the loop of \<open>ValidateConfig\<close>: the first problem of one entry.\<close>

definition validate_entry :: "qt_text \<Rightarrow> option_store \<Rightarrow> qstring \<times> json_value \<Rightarrow> config_error option" where
  "validate_entry qt store entry =
     (case find (\<lambda>f. fst entry = option_name (co_id f)) config_options of
        None \<Rightarrow> Some (UnknownKey (fst entry))
      | Some f \<Rightarrow>
          (case store (co_id f) of
             OptBool _ \<Rightarrow> (case snd entry of JBool _ \<Rightarrow> None | _ \<Rightarrow> Some (ExpectedBool (fst entry)))
           | OptInt _ \<Rightarrow>
               (let lo = fst (the (co_bounds f)); hi = snd (the (co_bounds f)) in
                case snd entry of
                  JNumber r \<Rightarrow>
                    if r \<noteq> of_int (json_to_int r) \<or> json_to_int r < lo \<or> json_to_int r > hi
                    then Some (ExpectedInt (fst entry) lo hi) else None
                | _ \<Rightarrow> Some (ExpectedInt (fst entry) lo hi))
           | OptString _ \<Rightarrow>
               (case snd entry of
                  JString s \<Rightarrow>
                    if co_choices f \<noteq> [] then
                      (if s \<in> set (co_choices f) then None
                       else Some (ExpectedChoice (fst entry) (co_choices f)))
                    else if length s > 1024 \<or> \<not> valid_bindings qt s then Some (BadBindings (fst entry))
                    else None
                | _ \<Rightarrow> Some (ExpectedString (fst entry)))))"

fun validate_entries :: "qt_text \<Rightarrow> option_store \<Rightarrow> (qstring \<times> json_value) list \<Rightarrow> config_error option" where
  "validate_entries qt store [] = None"
| "validate_entries qt store (e # es) =
     (case validate_entry qt store e of Some problem \<Rightarrow> Some problem | None \<Rightarrow> validate_entries qt store es)"

definition validate_config ::
  "qt_text \<Rightarrow> json_lib \<Rightarrow> option_store \<Rightarrow> int list \<Rightarrow> config_error + (qstring \<times> json_value) list" where
  "validate_config qt lib store bytes =
     (if length bytes > max_config_bytes then Inl ConfigTooLarge
      else case jl_parse lib bytes of
        JsonError offset \<Rightarrow> Inl (syntax_error_at lib bytes offset)
      | JsonOther \<Rightarrow> Inl ConfigNotObject
      | JsonObject entries \<Rightarrow>
          (case validate_entries qt store entries of
             Some problem \<Rightarrow> Inl problem | None \<Rightarrow> Inr entries))"

text \<open>The loop of \<open>ApplyConfig\<close>, option by option.\<close>

fun option_of_json :: "json_value \<Rightarrow> option_value" where
  "option_of_json (JBool b) = OptBool b"
| "option_of_json (JNumber r) = OptInt (json_to_int r)"
| "option_of_json (JString s) = OptString s"
| "option_of_json _ = OptString []"

definition apply_option :: "(qstring \<times> json_value) list \<Rightarrow> option_store \<Rightarrow> config_option \<Rightarrow> option_store" where
  "apply_option entries store f =
     (case map_of entries (option_name (co_id f)) of
        None \<Rightarrow> store
      | Some v \<Rightarrow> store(co_id f := option_of_json v))"

definition apply_config ::
  "qt_text \<Rightarrow> json_lib \<Rightarrow> int list \<Rightarrow> option_store \<Rightarrow> config_error option \<times> option_store" where
  "apply_config qt lib bytes store =
     (case validate_config qt lib store bytes of
        Inl problem \<Rightarrow> (Some problem, store)
      | Inr entries \<Rightarrow>
          (None, foldl (apply_option entries)
             (if entries \<noteq> [] then store(DefaultsMigrated := OptBool True) else store) config_options))"

section \<open>What a configuration promises\<close>

definition option_value_ok :: "qt_text \<Rightarrow> config_option \<Rightarrow> option_value \<Rightarrow> bool" where
  "option_value_ok qt f v =
     (case option_default (co_id f) of
        OptBool _ \<Rightarrow> (case v of OptBool _ \<Rightarrow> True | _ \<Rightarrow> False)
      | OptInt _ \<Rightarrow>
          (case v of OptInt n \<Rightarrow> fst (the (co_bounds f)) \<le> n \<and> n \<le> snd (the (co_bounds f)) | _ \<Rightarrow> False)
      | OptString _ \<Rightarrow>
          (case v of
             OptString s \<Rightarrow>
               if co_choices f \<noteq> [] then s \<in> set (co_choices f)
               else length s \<le> 1024 \<and> valid_bindings qt s
           | _ \<Rightarrow> False))"

definition store_ok :: "qt_text \<Rightarrow> option_store \<Rightarrow> bool" where
  "store_ok qt store = list_all (\<lambda>f. option_value_ok qt f (store (co_id f))) config_options"

lemma config_ids_distinct: "distinct (map co_id config_options)"
  by code_simp

lemma config_names_distinct: "distinct (map (\<lambda>f. option_name (co_id f)) config_options)"
  by code_simp

lemma config_excludes_migrated: "DefaultsMigrated \<notin> co_id ` set config_options"
  by code_simp

lemma find_config_option:
  "find (\<lambda>f. k = option_name (co_id f)) config_options = Some f \<Longrightarrow>
    f \<in> set config_options \<and> k = option_name (co_id f)"
  by (auto simp: find_Some_iff)

lemma config_option_found:
  assumes "f \<in> set config_options"
  shows "find (\<lambda>g. option_name (co_id f) = option_name (co_id g)) config_options = Some f"
proof -
  have inj: "inj_on (\<lambda>f. option_name (co_id f)) (set config_options)"
    using config_names_distinct by (simp only: distinct_map)
  obtain g where "find (\<lambda>g. option_name (co_id f) = option_name (co_id g)) config_options = Some g"
    using assms by (cases "find (\<lambda>g. option_name (co_id f) = option_name (co_id g)) config_options")
      (auto simp: find_None_iff)
  with find_config_option inj_onD [OF inj] assms show ?thesis by metis
qed

lemma validate_entries_none:
  "validate_entries qt store es = None \<longleftrightarrow> (\<forall>e\<in>set es. validate_entry qt store e = None)"
  by (induction es) (auto split: option.splits)

lemma apply_option_at:
  "apply_option entries store g o' = (if o' = co_id g
    then (case map_of entries (option_name o') of None \<Rightarrow> store o' | Some v \<Rightarrow> option_of_json v)
    else store o')"
  by (simp add: apply_option_def split: option.split)

lemma foldl_apply_other:
  "o' \<notin> co_id ` set fs \<Longrightarrow> foldl (apply_option entries) store fs o' = store o'"
  by (induction fs arbitrary: store) (simp_all add: apply_option_at)

lemma foldl_apply_option:
  assumes "distinct (map co_id fs)" and "f \<in> set fs"
  shows "foldl (apply_option entries) store fs (co_id f) =
    (case map_of entries (option_name (co_id f)) of None \<Rightarrow> store (co_id f) | Some v \<Rightarrow> option_of_json v)"
  using assms
proof (induction fs arbitrary: store)
  case Nil
  then show ?case by simp
next
  case (Cons g gs)
  show ?case
  proof (cases "f \<in> set gs")
    case True
    then have "co_id f \<in> co_id ` set gs" by (rule imageI)
    then have "co_id f \<noteq> co_id g" using Cons.prems(1) by auto
    with Cons True show ?thesis by (simp add: apply_option_at)
  next
    case False
    with Cons.prems have fg: "f = g" and "co_id f \<notin> co_id ` set gs" by auto
    have "foldl (apply_option entries) store (g # gs) (co_id f) = apply_option entries store g (co_id f)"
      using \<open>co_id f \<notin> co_id ` set gs\<close> by (simp add: foldl_apply_other)
    also have "\<dots> = (case map_of entries (option_name (co_id f)) of
        None \<Rightarrow> store (co_id f) | Some v \<Rightarrow> option_of_json v)"
      unfolding fg by (subst apply_option_at) simp
    finally show ?thesis .
  qed
qed

text \<open>An accepted entry holds a value the option allows.\<close>

lemma validate_entry_ok:
  assumes store: "option_value_ok qt f (store (co_id f))" and f: "f \<in> set config_options"
    and v: "validate_entry qt store (option_name (co_id f), v) = None"
  shows "option_value_ok qt f (option_of_json v)"
proof -
  note v' = v [unfolded validate_entry_def fst_conv snd_conv config_option_found [OF f] option.case]
  show ?thesis
  proof (cases "option_default (co_id f)")
    case (OptBool d)
    then obtain b where "store (co_id f) = OptBool b"
      using store by (auto simp: option_value_ok_def split: option_value.splits)
    with v' have "\<exists>c. v = JBool c" by (auto split: json_value.splits)
    with OptBool show ?thesis by (auto simp: option_value_ok_def)
  next
    case (OptInt d)
    then obtain n where "store (co_id f) = OptInt n"
      using store by (auto simp: option_value_ok_def split: option_value.splits)
    with v' obtain r where "v = JNumber r" "fst (the (co_bounds f)) \<le> json_to_int r"
      "json_to_int r \<le> snd (the (co_bounds f))"
      by (auto simp: Let_def split: json_value.splits if_splits)
    with OptInt show ?thesis by (simp add: option_value_ok_def)
  next
    case (OptString d)
    then obtain s where "store (co_id f) = OptString s"
      using store by (auto simp: option_value_ok_def split: option_value.splits)
    with v' OptString show ?thesis
      by (auto simp: option_value_ok_def not_less split: json_value.splits if_splits)
  qed
qed

lemma apply_config_success:
  assumes "apply_config qt lib bytes store = (None, store')"
  obtains entries where "validate_config qt lib store bytes = Inr entries"
    and "\<And>f. f \<in> set config_options \<Longrightarrow> store' (co_id f) =
      (case map_of entries (option_name (co_id f)) of None \<Rightarrow> store (co_id f) | Some v \<Rightarrow> option_of_json v)"
    and "\<And>k v. (k, v) \<in> set entries \<Longrightarrow> validate_entry qt store (k, v) = None"
proof -
  obtain entries where es: "validate_config qt lib store bytes = Inr entries"
    and st: "store' = foldl (apply_option entries)
      (if entries \<noteq> [] then store(DefaultsMigrated := OptBool True) else store) config_options"
    using assms by (auto simp: apply_config_def split: sum.splits)
  have "validate_entries qt store entries = None"
    using es by (auto simp: validate_config_def split: if_splits json_document.splits option.splits)
  then have ok: "validate_entry qt store (k, v) = None" if "(k, v) \<in> set entries" for k v
    using that by (auto simp: validate_entries_none)
  have at: "store' (co_id f) = (case map_of entries (option_name (co_id f)) of
      None \<Rightarrow> store (co_id f) | Some v \<Rightarrow> option_of_json v)" if "f \<in> set config_options" for f
  proof -
    have "co_id f \<in> co_id ` set config_options" using that by (rule imageI)
    then have "co_id f \<noteq> DefaultsMigrated" using config_excludes_migrated by metis
    then show ?thesis
      using foldl_apply_option [OF config_ids_distinct that] by (auto simp: st split: option.split)
  qed
  show thesis by (rule that [OF es at ok])
qed

section \<open>Properties of the configuration\<close>

text \<open>C31: a configuration is either rejected and changes nothing, or after it
  every option still has its type, lies within its bounds and choices, and holds valid bindings.\<close>

theorem config_never_breaks_options:
  assumes "store_ok qt store" and "apply_config qt lib bytes store = (problem, store')"
  shows "store_ok qt store' \<and> (problem = None \<or> store' = store)"
proof (cases problem)
  case (Some e)
  with assms show ?thesis by (auto simp: apply_config_def split: sum.splits)
next
  case None
  with assms(2) have "apply_config qt lib bytes store = (None, store')" by simp
  then obtain entries
    where at: "\<And>f. f \<in> set config_options \<Longrightarrow> store' (co_id f) =
      (case map_of entries (option_name (co_id f)) of None \<Rightarrow> store (co_id f) | Some v \<Rightarrow> option_of_json v)"
      and ok: "\<And>k v. (k, v) \<in> set entries \<Longrightarrow> validate_entry qt store (k, v) = None"
    by (rule apply_config_success) blast
  have "option_value_ok qt f (store' (co_id f))" if f: "f \<in> set config_options" for f
  proof (cases "map_of entries (option_name (co_id f))")
    case None
    with at [OF f] assms(1) f show ?thesis by (simp add: store_ok_def list_all_iff)
  next
    case (Some v)
    have "option_value_ok qt f (store (co_id f))" using assms(1) f by (simp add: store_ok_def list_all_iff)
    then have "option_value_ok qt f (option_of_json v)"
      using f ok [OF map_of_SomeD [OF Some]] by (rule validate_entry_ok)
    with at [OF f] Some show ?thesis by simp
  qed
  then show ?thesis using None by (simp add: store_ok_def list_all_iff)
qed

theorem config_never_breaks_options_witness:
  "let qt = \<lparr>os_mac = False, fold_case = (\<lambda>s. s), fold_char = (\<lambda>c. c), upper_char = (\<lambda>c. c),
       trimmed = (\<lambda>s. []), split_on = (\<lambda>_ s. [s])\<rparr>;
     lib = \<lparr>jl_parse = (\<lambda>_. JsonObject [(latin ''vim-keymap-hint-size'', JNumber 20)]), jl_from_utf8 = (\<lambda>b. b)\<rparr>;
     r = apply_config qt lib [0x7B] option_default in
   store_ok qt (snd r) \<and> snd r HintSize = OptInt 20"
proof -
  define qt where "qt = \<lparr>os_mac = False, fold_case = (\<lambda>s. s), fold_char = (\<lambda>c. c), upper_char = (\<lambda>c. c),
       trimmed = (\<lambda>s. []), split_on = (\<lambda>_ s. [s::qstring])\<rparr>"
  define lib where "lib = \<lparr>jl_parse = (\<lambda>_. JsonObject [(latin ''vim-keymap-hint-size'', JNumber 20)]),
       jl_from_utf8 = (\<lambda>b. b)\<rparr>"
  have "store_ok qt option_default" unfolding qt_def by code_simp
  then have "store_ok qt (snd (apply_config qt lib [0x7B] option_default))"
    using config_never_breaks_options [OF _ surjective_pairing] by blast
  moreover have "snd (apply_config qt lib [0x7B] option_default) HintSize = OptInt 20"
    unfolding qt_def lib_def by code_simp
  ultimately show ?thesis unfolding Let_def qt_def [symmetric] lib_def [symmetric] by blast
qed

lemma json_to_int_of_int: "-2147483648 \<le> n \<Longrightarrow> n \<le> 2147483647 \<Longrightarrow> json_to_int (of_int n) = n"
  by (simp add: json_to_int_def)

lemma config_bounds_fit:
  "list_all (\<lambda>f. case option_default (co_id f) of
      OptInt _ \<Rightarrow> -2147483648 \<le> fst (the (co_bounds f)) \<and> snd (the (co_bounds f)) \<le> 2147483647
    | _ \<Rightarrow> True) config_options"
  by code_simp

lemma option_json_inverse:
  assumes "option_value_ok qt f v" and "f \<in> set config_options"
  shows "option_of_json (json_of_option v) = v"
proof (cases v)
  case (OptInt n)
  then obtain d where d: "option_default (co_id f) = OptInt d"
    and n: "fst (the (co_bounds f)) \<le> n" "n \<le> snd (the (co_bounds f))"
    using assms(1) by (auto simp: option_value_ok_def split: option_value.splits)
  have "-2147483648 \<le> fst (the (co_bounds f)) \<and> snd (the (co_bounds f)) \<le> 2147483647"
    using config_bounds_fit assms(2) d unfolding list_all_iff by fastforce
  with n show ?thesis by (simp add: OptInt json_to_int_of_int)
qed simp_all

lemma validate_snapshot_entry:
  assumes old: "option_value_ok qt f (store (co_id f))" and v: "option_value_ok qt f v"
    and f: "f \<in> set config_options"
  shows "validate_entry qt store (option_name (co_id f), json_of_option v) = None"
proof (cases "option_default (co_id f)")
  case (OptBool d)
  with old v obtain a b where "store (co_id f) = OptBool a" "v = OptBool b"
    by (auto simp: option_value_ok_def split: option_value.splits)
  then show ?thesis by (simp add: validate_entry_def config_option_found [OF f])
next
  case (OptInt d)
  with old v obtain a n where a: "store (co_id f) = OptInt a" and n: "v = OptInt n"
    "fst (the (co_bounds f)) \<le> n" "n \<le> snd (the (co_bounds f))"
    by (auto simp: option_value_ok_def split: option_value.splits)
  have "json_to_int (of_int n) = n" using option_json_inverse [OF v f] by (simp add: n(1))
  with a n show ?thesis by (simp add: validate_entry_def config_option_found [OF f])
next
  case (OptString d)
  with old v obtain a s where "store (co_id f) = OptString a" "v = OptString s"
    "if co_choices f \<noteq> [] then s \<in> set (co_choices f) else length s \<le> 1024 \<and> valid_bindings qt s"
    by (auto simp: option_value_ok_def split: option_value.splits)
  then show ?thesis by (auto simp: validate_entry_def config_option_found [OF f])
qed

lemma config_snapshot_set:
  "set (config_snapshot False saved) =
    (\<lambda>f. (option_name (co_id f), json_of_option (saved (co_id f)))) ` set config_options"
  by (simp add: config_snapshot_def)



end
