(* ===== verification/VimKeyPredicates.thy ===== *)
theory VimKeyPredicates
  imports VimKeys
begin

text \<open>
  The mode of the Vim keymap, the migration of old default bindings and the predicates that
  recognise its keys (\<open>core/vim_keymap.cpp\<close>).

  The state is the option store, the globals \<open>NormalModeEnabled\<close> and \<open>LegacyDefaultsMigrated\<close>,
  and whether a registered handler forces the normal mode (\<open>ForcedNormalMode()\<close>). \<open>Enabled\<close> and
  \<open>NormalMode\<close> migrate before they read, so the predicates read the migrated state.
  The mode indicator that \<open>SetNormalModeValue\<close> refreshes is painting.
\<close>

record keymap =
  km_options :: option_store
  km_normal :: bool
  km_migrated :: bool
  km_forced :: bool

definition opt_bool :: "option_store \<Rightarrow> option_id \<Rightarrow> bool" where
  "opt_bool store o' = (case store o' of OptBool b \<Rightarrow> b | _ \<Rightarrow> False)"

definition opt_int :: "option_store \<Rightarrow> option_id \<Rightarrow> int" where
  "opt_int store o' = (case store o' of OptInt n \<Rightarrow> n | _ \<Rightarrow> 0)"

definition opt_string :: "option_store \<Rightarrow> option_id \<Rightarrow> qstring" where
  "opt_string store o' = (case store o' of OptString s \<Rightarrow> s | _ \<Rightarrow> [])"

section \<open>Migration of old defaults\<close>

definition normalize_binding_token :: "qt_text \<Rightarrow> qstring \<Rightarrow> qstring" where
  "normalize_binding_token qt value = filter (\<lambda>c. c \<noteq> 0x20) (fold_case qt (trimmed qt value))"

definition is_legacy_ctrl_e_token :: "qstring \<Rightarrow> bool" where
  "is_legacy_ctrl_e_token token \<longleftrightarrow>
     token = latin ''ctrl+e'' \<or> token = latin ''cmd+e'' \<or> token = latin ''command+e''
     \<or> token = latin ''meta+e'' \<or> token = latin ''ctrl+'' @ [0x443]"

definition is_legacy_delete_message_default :: "qt_text \<Rightarrow> qstring \<Rightarrow> bool" where
  "is_legacy_delete_message_default qt bindings =
     (let value = normalize_binding_token qt bindings in
      value = latin ''ctrl+d,ctrl+'' @ [0x432]
      \<or> value = latin ''ctrl+'' @ [0x432] @ latin '',ctrl+d'')"

definition is_legacy_global_search_default :: "qt_text \<Rightarrow> qstring \<Rightarrow> bool" where
  "is_legacy_global_search_default qt bindings =
     (let value = normalize_binding_token qt bindings in
      value = latin ''ctrl+f,ctrl+'' @ [0x430]
      \<or> value = latin ''ctrl+'' @ [0x430] @ latin '',ctrl+f'')"

definition is_legacy_chat_preview_default :: "qt_text \<Rightarrow> qstring \<Rightarrow> bool" where
  "is_legacy_chat_preview_default qt bindings =
     (normalize_binding_token qt bindings = latin ''ctrl+v,ctrl+'' @ [0x43C])"

fun join_with :: "qstring \<Rightarrow> qstring list \<Rightarrow> qstring" where
  "join_with sep [] = []"
| "join_with sep [s] = s"
| "join_with sep (s # ss) = s @ sep @ join_with sep ss"

definition without_legacy_ctrl_e :: "qt_text \<Rightarrow> qstring \<Rightarrow> qstring" where
  "without_legacy_ctrl_e qt bindings = join_with (latin '', '')
     (map (trimmed qt) (filter (\<lambda>part. \<not> is_legacy_ctrl_e_token (normalize_binding_token qt part))
       (split_skip_empty qt 0x2C bindings)))"

text \<open>The once-only part of \<open>MigrateLegacyDefaults\<close>, statement by statement.\<close>

definition migrate_toggle :: "qt_text \<Rightarrow> option_store \<Rightarrow> option_store" where
  "migrate_toggle qt st =
     (if is_legacy_ctrl_e_token (normalize_binding_token qt (opt_string st KeyToggleMode))
      then st(KeyToggleMode := OptString (latin ''Esc'')) else st)"

definition migrate_ctrl_e :: "qt_text \<Rightarrow> option_id \<Rightarrow> option_store \<Rightarrow> option_store" where
  "migrate_ctrl_e qt o' st =
     (let old = opt_string st o'; new = without_legacy_ctrl_e qt old in
      if new \<noteq> trimmed qt old then st(o' := OptString new) else st)"

definition migrate_delete :: "qt_text \<Rightarrow> option_store \<Rightarrow> option_store" where
  "migrate_delete qt st =
     (if is_legacy_delete_message_default qt (opt_string st KeyDeleteMessage)
      then st(KeyDeleteMessage := OptString (latin ''d, '' @ [0x432])) else st)"

definition migrate_scroll_step :: "option_store \<Rightarrow> option_store" where
  "migrate_scroll_step st =
     (if opt_int st ScrollStep = 360 then st(ScrollStep := OptInt 180) else st)"

definition migrate_global_search :: "qt_text \<Rightarrow> option_store \<Rightarrow> option_store" where
  "migrate_global_search qt st =
     (if is_legacy_global_search_default qt (opt_string st KeyGlobalSearch)
      then st(KeyGlobalSearch := OptString global_search_default) else st)"

definition migrate_chat_preview :: "qt_text \<Rightarrow> option_store \<Rightarrow> option_store" where
  "migrate_chat_preview qt st =
     (if is_legacy_chat_preview_default qt (opt_string st KeyChatPreview)
      then st(KeyChatPreview := OptString (latin ''Ctrl+V'')) else st)"

definition migrate_legacy_defaults :: "qt_text \<Rightarrow> keymap \<Rightarrow> keymap" where
  "migrate_legacy_defaults qt km =
     (let st = migrate_chat_preview qt (km_options km) in
      if km_migrated km \<or> opt_bool st DefaultsMigrated then km\<lparr>km_options := st\<rparr>
      else km\<lparr>km_migrated := True, km_options :=
        migrate_global_search qt (migrate_scroll_step (migrate_delete qt
          (migrate_ctrl_e qt KeyCancelEdit (migrate_ctrl_e qt KeyEmojiPanel
            (migrate_toggle qt (st(DefaultsMigrated := OptBool True)))))))\<rparr>)"

section \<open>Modes and clamped settings\<close>

definition vim_enabled :: "qt_text \<Rightarrow> keymap \<Rightarrow> bool" where
  "vim_enabled qt km = opt_bool (km_options (migrate_legacy_defaults qt km)) VimKeymap"

definition normal_mode :: "qt_text \<Rightarrow> keymap \<Rightarrow> bool" where
  "normal_mode qt km \<longleftrightarrow> vim_enabled qt km \<and> (km_normal km \<or> km_forced km)"

definition set_normal_mode :: "bool \<Rightarrow> keymap \<Rightarrow> keymap" where
  "set_normal_mode b km = (if km_normal km = b then km else km\<lparr>km_normal := b\<rparr>)"

definition escape_closes_composer :: "qt_text \<Rightarrow> keymap \<Rightarrow> bool" where
  "escape_closes_composer qt km \<longleftrightarrow>
     vim_enabled qt km \<and> opt_bool (km_options (migrate_legacy_defaults qt km)) EscapeClosesComposer"

definition scroll_step :: "keymap \<Rightarrow> int" where
  "scroll_step km = clamp (opt_int (km_options km) ScrollStep) 80 1800"

definition hold_scroll_speed :: "keymap \<Rightarrow> int" where
  "hold_scroll_speed km = clamp (opt_int (km_options km) HoldScrollSpeed) 600 16000"

definition hint_size :: "keymap \<Rightarrow> int" where
  "hint_size km = clamp (opt_int (km_options km) HintSize) 10 24"

definition compose_cursor_style :: "qt_text \<Rightarrow> keymap \<Rightarrow> qstring" where
  "compose_cursor_style qt km =
     (let value = fold_case qt (trimmed qt (opt_string (km_options km) ComposeCursorStyle)) in
      if value = latin ''bar'' \<or> value = latin ''underline'' then value else latin ''block'')"

definition compose_cursor_width :: "keymap \<Rightarrow> int" where
  "compose_cursor_width km = clamp (opt_int (km_options km) ComposeCursorWidth) 1 30"

definition compose_cursor_height :: "keymap \<Rightarrow> int" where
  "compose_cursor_height km = clamp (opt_int (km_options km) ComposeCursorHeight) 20 100"

definition compose_cursor_blink :: "keymap \<Rightarrow> int" where
  "compose_cursor_blink km = clamp (opt_int (km_options km) ComposeCursorBlink) 0 2000"

definition hold_scroll_tick_ms :: int where
  "hold_scroll_tick_ms = 16"

definition hold_scroll_delta :: "keymap \<Rightarrow> int" where
  "hold_scroll_delta km = max 1 (hold_scroll_speed km * hold_scroll_tick_ms div 1000)"

section \<open>Key predicates\<close>

definition matches_option :: "qt_text \<Rightarrow> keymap \<Rightarrow> option_id \<Rightarrow> key_event \<Rightarrow> bool \<Rightarrow> bool \<Rightarrow> bool \<Rightarrow> bool" where
  "matches_option qt km o' e extra_shift real_mac mac_equivalent =
     binding_matches qt (opt_string (km_options km) o') e
       \<lparr>allow_extra_shift = extra_shift, real_mac_modifiers = real_mac, allow_mac_equivalent = mac_equivalent\<rparr>"

abbreviation option_key :: "qt_text \<Rightarrow> keymap \<Rightarrow> option_id \<Rightarrow> key_event \<Rightarrow> bool \<Rightarrow> bool" where
  "option_key qt km o' e extra_shift \<equiv>
     matches_option qt (migrate_legacy_defaults qt km) o' e extra_shift False True"

definition scroll_navigation_key :: "qt_text \<Rightarrow> keymap \<Rightarrow> key_event \<Rightarrow> int option" where
  "scroll_navigation_key qt km e =
     (if option_key qt km KeyScrollDown e False then Some Key_Down
      else if option_key qt km KeyScrollUp e False then Some Key_Up
      else None)"

definition is_toggle_mode_key :: "qt_text \<Rightarrow> keymap \<Rightarrow> key_event \<Rightarrow> bool" where
  "is_toggle_mode_key qt km e \<longleftrightarrow> \<not> ev_auto_repeat e \<and> option_key qt km KeyToggleMode e False"

definition is_plain_escape_key :: "key_event \<Rightarrow> bool" where
  "is_plain_escape_key e \<longleftrightarrow>
     \<not> ev_auto_repeat e \<and> ev_key e = Key_Escape \<and> clean_modifiers e = NoModifier"

definition is_help_key :: "qt_text \<Rightarrow> keymap \<Rightarrow> key_event \<Rightarrow> bool" where
  "is_help_key qt km e \<longleftrightarrow> normal_mode qt km \<and> option_key qt km KeyHelp e True"

definition chat_navigation_steps :: "key_event \<Rightarrow> int" where
  "chat_navigation_steps e = (if clean_modifiers e AND ShiftModifier \<noteq> 0 then 2 else 1)"

definition chat_preview_key :: "qt_text \<Rightarrow> keymap \<Rightarrow> key_event \<Rightarrow> bool" where
  "chat_preview_key qt km e \<longleftrightarrow> normal_mode qt km \<and> \<not> is_system_paste qt e
     \<and> matches_option qt (migrate_legacy_defaults qt km) KeyChatPreview e False False False"

definition chat_hints_key :: "qt_text \<Rightarrow> keymap \<Rightarrow> key_event \<Rightarrow> bool" where
  "chat_hints_key qt km e \<longleftrightarrow> normal_mode qt km \<and> option_key qt km KeyOpenChatHints e True"

definition focus_hints_key :: "qt_text \<Rightarrow> keymap \<Rightarrow> key_event \<Rightarrow> bool" where
  "focus_hints_key qt km e \<longleftrightarrow> vim_enabled qt km \<and> option_key qt km KeyFocusHints e True"

definition cancel_reply_key :: "qt_text \<Rightarrow> keymap \<Rightarrow> key_event \<Rightarrow> bool" where
  "cancel_reply_key qt km e \<longleftrightarrow> vim_enabled qt km \<and> \<not> ev_auto_repeat e
     \<and> (\<not> is_plain_escape_key e \<or> escape_closes_composer qt km)
     \<and> option_key qt km KeyCancelReply e False"

definition cancel_edit_key :: "qt_text \<Rightarrow> keymap \<Rightarrow> key_event \<Rightarrow> bool" where
  "cancel_edit_key qt km e \<longleftrightarrow> vim_enabled qt km \<and> \<not> ev_auto_repeat e
     \<and> (\<not> is_plain_escape_key e \<or> escape_closes_composer qt km)
     \<and> option_key qt km KeyCancelEdit e False"

definition emoji_panel_key :: "qt_text \<Rightarrow> keymap \<Rightarrow> key_event \<Rightarrow> bool" where
  "emoji_panel_key qt km e \<longleftrightarrow>
     vim_enabled qt km \<and> \<not> ev_auto_repeat e \<and> option_key qt km KeyEmojiPanel e False"

definition focus_chat_key :: "qt_text \<Rightarrow> keymap \<Rightarrow> key_event \<Rightarrow> bool" where
  "focus_chat_key qt km e \<longleftrightarrow>
     vim_enabled qt km \<and> \<not> ev_auto_repeat e \<and> option_key qt km KeyFocusChat e False"

definition mark_read_key :: "qt_text \<Rightarrow> keymap \<Rightarrow> key_event \<Rightarrow> bool" where
  "mark_read_key qt km e \<longleftrightarrow>
     normal_mode qt km \<and> \<not> ev_auto_repeat e \<and> option_key qt km KeyMarkRead e False"

definition focus_emoji_key :: "qt_text \<Rightarrow> keymap \<Rightarrow> key_event \<Rightarrow> bool" where
  "focus_emoji_key qt km e \<longleftrightarrow>
     vim_enabled qt km \<and> \<not> ev_auto_repeat e \<and> option_key qt km KeyFocusEmoji e False"

definition call_key :: "qt_text \<Rightarrow> keymap \<Rightarrow> key_event \<Rightarrow> bool" where
  "call_key qt km e \<longleftrightarrow>
     vim_enabled qt km \<and> \<not> ev_auto_repeat e \<and> option_key qt km KeyCall e False"

definition global_search_key :: "qt_text \<Rightarrow> keymap \<Rightarrow> key_event \<Rightarrow> bool" where
  "global_search_key qt km e \<longleftrightarrow>
     vim_enabled qt km \<and> \<not> ev_auto_repeat e \<and> clean_modifiers e AND ShiftModifier \<noteq> 0
     \<and> option_key qt km KeyGlobalSearch e True"

definition undo_key :: "qt_text \<Rightarrow> keymap \<Rightarrow> key_event \<Rightarrow> bool" where
  "undo_key qt km e \<longleftrightarrow>
     normal_mode qt km \<and> \<not> ev_auto_repeat e \<and> option_key qt km KeyUndo e True"

definition redo_key :: "qt_text \<Rightarrow> keymap \<Rightarrow> key_event \<Rightarrow> bool" where
  "redo_key qt km e \<longleftrightarrow>
     normal_mode qt km \<and> \<not> ev_auto_repeat e \<and> option_key qt km KeyRedo e True"

definition navigation_key :: "qt_text \<Rightarrow> keymap \<Rightarrow> key_event \<Rightarrow> int option" where
  "navigation_key qt km e = (if normal_mode qt km then scroll_navigation_key qt km e else None)"

definition select_message_text_key :: "qt_text \<Rightarrow> keymap \<Rightarrow> key_event \<Rightarrow> bool" where
  "select_message_text_key qt km e = matches_option qt km KeySelectMessageText e False False True"

datatype vim_action =
  CopyMessage | ChatPreview | SelectMessageText | ReplyToMessage | ReactToMessage | EditMessage
| DeleteMessage | LinkHints | ShareMessage | SelectMessages | SelectMessageRange

definition action_uses_message_hints :: "vim_action \<Rightarrow> bool" where
  "action_uses_message_hints a \<longleftrightarrow> a \<noteq> ChatPreview"

definition action_key :: "qt_text \<Rightarrow> keymap \<Rightarrow> key_event \<Rightarrow> vim_action option" where
  "action_key qt km e =
     (if \<not> normal_mode qt km \<or> page_navigation_delta qt e \<noteq> 0 then None
      else if is_message_reaction qt e then (if ev_auto_repeat e then None else Some ReactToMessage)
      else if option_key qt km KeyCopyMessage e True then Some CopyMessage
      else if chat_preview_key qt km e then Some ChatPreview
      else if select_message_text_key qt (migrate_legacy_defaults qt km) e then Some SelectMessageText
      else if option_key qt km KeyReplyToMessage e True then Some ReplyToMessage
      else if option_key qt km KeyEditMessage e True then Some EditMessage
      else if option_key qt km KeyDeleteMessage e True then Some DeleteMessage
      else if option_key qt km KeyFocusHints e True then Some LinkHints
      else if is_message_selection qt e False then Some SelectMessages
      else if is_message_selection qt e True then Some SelectMessageRange
      else None)"

definition vim_text_motion_key ::
  "qt_text \<Rightarrow> keymap \<Rightarrow> key_event \<Rightarrow> bool \<Rightarrow> text_motion option \<times> bool" where
  "vim_text_motion_key qt km e pending_start =
     (if normal_mode qt km then text_motion_key qt e pending_start else (None, pending_start))"

definition text_visual_key :: "qt_text \<Rightarrow> keymap \<Rightarrow> key_event \<Rightarrow> bool" where
  "text_visual_key qt km e \<longleftrightarrow> normal_mode qt km \<and> \<not> ev_auto_repeat e
     \<and> clean_modifiers e = NoModifier \<and> key_is qt e Key_V (latin ''v'') [0x43C]"

definition is_jump_to_bottom_key :: "qt_text \<Rightarrow> keymap \<Rightarrow> key_event \<Rightarrow> bool" where
  "is_jump_to_bottom_key qt km e \<longleftrightarrow> normal_mode qt km \<and> option_key qt km KeyJumpBottom e False"

lemmas vim_key_defs = is_help_key_def chat_preview_key_def chat_hints_key_def focus_hints_key_def
  cancel_reply_key_def cancel_edit_key_def emoji_panel_key_def focus_chat_key_def mark_read_key_def
  focus_emoji_key_def call_key_def global_search_key_def undo_key_def redo_key_def
  navigation_key_def action_key_def vim_text_motion_key_def text_visual_key_def
  is_jump_to_bottom_key_def

section \<open>Migration happens once and touches old defaults only\<close>

lemma migrate_chat_preview_again:
  assumes "\<not> is_legacy_chat_preview_default qt (latin ''Ctrl+V'')"
  shows "\<not> is_legacy_chat_preview_default qt (opt_string (migrate_chat_preview qt st) KeyChatPreview)"
  using assms by (simp add: migrate_chat_preview_def opt_string_def)

lemma migrate_once_frame:
  "o' \<notin> {KeyToggleMode, KeyEmojiPanel, KeyCancelEdit, KeyDeleteMessage, ScrollStep, KeyGlobalSearch} \<Longrightarrow>
    migrate_global_search qt (migrate_scroll_step (migrate_delete qt
      (migrate_ctrl_e qt KeyCancelEdit (migrate_ctrl_e qt KeyEmojiPanel (migrate_toggle qt st))))) o' = st o'"
  by (simp add: migrate_global_search_def migrate_scroll_step_def migrate_delete_def migrate_ctrl_e_def
      migrate_toggle_def Let_def)

lemma migrate_keeps:
  "km_normal (migrate_legacy_defaults qt km) = km_normal km"
  "km_forced (migrate_legacy_defaults qt km) = km_forced km"
  by (simp_all add: migrate_legacy_defaults_def Let_def)

text \<open>Once the old defaults have been migrated, migrating again at every key
  changes nothing; \<open>Ctrl+V\<close> itself is not the old default of the chat preview.\<close>

theorem migration_idempotent:
  assumes "\<not> is_legacy_chat_preview_default qt (latin ''Ctrl+V'')"
  shows "migrate_legacy_defaults qt (migrate_legacy_defaults qt km) = migrate_legacy_defaults qt km"
proof -
  let ?st = "migrate_chat_preview qt (km_options km)"
  define km' where "km' = migrate_legacy_defaults qt km"
  have at: "km_options km' KeyChatPreview = ?st KeyChatPreview"
    by (simp add: km'_def migrate_legacy_defaults_def Let_def migrate_once_frame)
  have "\<not> is_legacy_chat_preview_default qt (opt_string (km_options km') KeyChatPreview)"
    using migrate_chat_preview_again [OF assms, of "km_options km"] by (simp add: opt_string_def at)
  then have same: "migrate_chat_preview qt (km_options km') = km_options km'"
    by (simp add: migrate_chat_preview_def)
  have "km_migrated km' \<or> opt_bool (km_options km') DefaultsMigrated"
    by (simp add: km'_def migrate_legacy_defaults_def Let_def)
  then have "migrate_legacy_defaults qt km' = km'"
    by (simp add: migrate_legacy_defaults_def Let_def same)
  then show ?thesis by (simp add: km'_def)
qed

theorem migration_idempotent_witness:
  "let qt = \<lparr>os_mac = False, fold_case = (\<lambda>s. s), fold_char = (\<lambda>c. c), upper_char = (\<lambda>c. c),
       trimmed = (\<lambda>s. s), split_on = (\<lambda>_ s. [s])\<rparr>;
     km = \<lparr>km_options = option_default(KeyToggleMode := OptString (latin ''ctrl+e'')), km_normal = False,
       km_migrated = False, km_forced = False\<rparr> in
   migrate_legacy_defaults qt (migrate_legacy_defaults qt km) = migrate_legacy_defaults qt km
     \<and> km_options (migrate_legacy_defaults qt km) KeyToggleMode = OptString (latin ''Esc'')"
proof -
  define qt where "qt = \<lparr>os_mac = False, fold_case = (\<lambda>s. s), fold_char = (\<lambda>c. c), upper_char = (\<lambda>c. c),
       trimmed = (\<lambda>s. s), split_on = (\<lambda>_ s. [s::qstring])\<rparr>"
  define km where "km = \<lparr>km_options = option_default(KeyToggleMode := OptString (latin ''ctrl+e'')),
       km_normal = False, km_migrated = False, km_forced = False\<rparr>"
  have "\<not> is_legacy_chat_preview_default qt (latin ''Ctrl+V'')" unfolding qt_def by code_simp
  then have "migrate_legacy_defaults qt (migrate_legacy_defaults qt km) = migrate_legacy_defaults qt km"
    by (rule migration_idempotent)
  moreover have "km_options (migrate_legacy_defaults qt km) KeyToggleMode = OptString (latin ''Esc'')"
    unfolding qt_def km_def by code_simp
  ultimately show ?thesis unfolding Let_def qt_def [symmetric] km_def [symmetric] by blast
qed

text \<open>While the Vim keymap is switched off, none of its commands recognises
  any key, whatever the mode and the bindings are.\<close>

theorem disabled_keymap_is_inert:
  assumes "\<not> vim_enabled qt km"
  shows "\<not> normal_mode qt km \<and> action_key qt km e = None \<and> navigation_key qt km e = None
    \<and> fst (vim_text_motion_key qt km e pending) = None
    \<and> \<not> undo_key qt km e \<and> \<not> redo_key qt km e \<and> \<not> chat_preview_key qt km e \<and> \<not> chat_hints_key qt km e
    \<and> \<not> focus_hints_key qt km e \<and> \<not> cancel_reply_key qt km e \<and> \<not> cancel_edit_key qt km e
    \<and> \<not> emoji_panel_key qt km e \<and> \<not> focus_chat_key qt km e \<and> \<not> mark_read_key qt km e
    \<and> \<not> focus_emoji_key qt km e \<and> \<not> call_key qt km e \<and> \<not> global_search_key qt km e
    \<and> \<not> text_visual_key qt km e \<and> \<not> is_jump_to_bottom_key qt km e \<and> \<not> is_help_key qt km e"
proof -
  have off: "\<not> normal_mode qt km" using assms by (simp add: normal_mode_def)
  show ?thesis by (simp add: vim_key_defs off assms)
qed

theorem disabled_keymap_is_inert_witness:
  "let qt = \<lparr>os_mac = False, fold_case = (\<lambda>s. s), fold_char = (\<lambda>c. c), upper_char = (\<lambda>c. c),
       trimmed = (\<lambda>s. s), split_on = (\<lambda>_ s. [s])\<rparr>;
     km = \<lparr>km_options = option_default(VimKeymap := OptBool False), km_normal = True,
       km_migrated = True, km_forced = True\<rparr>;
     e = \<lparr>ev_key = Key_U, ev_text = [0x75], ev_modifiers = 0, ev_auto_repeat = False, ev_native_key = 0\<rparr> in
   \<not> undo_key qt km e"
proof -
  define qt where "qt = \<lparr>os_mac = False, fold_case = (\<lambda>s. s), fold_char = (\<lambda>c. c), upper_char = (\<lambda>c. c),
       trimmed = (\<lambda>s. s), split_on = (\<lambda>_ s. [s::qstring])\<rparr>"
  define km where "km = \<lparr>km_options = option_default(VimKeymap := OptBool False), km_normal = True,
       km_migrated = True, km_forced = True\<rparr>"
  have "\<not> vim_enabled qt km" unfolding qt_def km_def by code_simp
  then show ?thesis
    unfolding Let_def qt_def [symmetric] km_def [symmetric] using disabled_keymap_is_inert by blast
qed

end
