(* ===== verification/VimGeometry.thy ===== *)
theory VimGeometry
  imports HintLabels "HOL-Library.Product_Lexorder"
begin

text \<open>
  The geometry of hints, cursors and text ranges (\<open>core/vim_keymap_geometry.cpp\<close>).

  A \<open>QRect\<close> is its four inclusive edges; width, height, emptiness, \<open>center\<close> and
  \<open>intersects\<close> of non-empty rectangles are the arithmetic its documentation gives.
  \<open>QRect::intersected\<close> also has a meaning for rectangles with swapped edges, so it is a
  parameter (\<open>overlap\<close>) of the layout; nothing below depends on what it returns. Coordinates are
  unbounded integers. Drawing (\<open>QPainter\<close>) and \<open>TextCursorRect\<close>, which walks the text engine
  of a submodule, are not modelled; of \<open>PaintHintBadges\<close> the part that chooses labels and sizes is.
\<close>

type_synonym qpoint = "int \<times> int"

record qrect =
  r_left :: int
  r_top :: int
  r_right :: int
  r_bottom :: int

definition qrect_sized :: "qpoint \<Rightarrow> int \<Rightarrow> int \<Rightarrow> qrect" where
  "qrect_sized p w h = \<lparr>r_left = fst p, r_top = snd p,
     r_right = fst p + w - 1, r_bottom = snd p + h - 1\<rparr>"

definition no_rect :: qrect where
  "no_rect = qrect_sized (0, 0) 0 0"

definition r_width :: "qrect \<Rightarrow> int" where
  "r_width r = r_right r - r_left r + 1"

definition r_height :: "qrect \<Rightarrow> int" where
  "r_height r = r_bottom r - r_top r + 1"

definition r_empty :: "qrect \<Rightarrow> bool" where
  "r_empty r \<longleftrightarrow> r_width r \<le> 0 \<or> r_height r \<le> 0"

definition r_null :: "qrect \<Rightarrow> bool" where
  "r_null r \<longleftrightarrow> r_width r = 0 \<and> r_height r = 0"

definition r_contains :: "qrect \<Rightarrow> qpoint \<Rightarrow> bool" where
  "r_contains r p \<longleftrightarrow> r_left r \<le> fst p \<and> fst p \<le> r_right r \<and> r_top r \<le> snd p \<and> snd p \<le> r_bottom r"

definition r_intersects :: "qrect \<Rightarrow> qrect \<Rightarrow> bool" where
  "r_intersects a b \<longleftrightarrow> r_left a \<le> r_right b \<and> r_left b \<le> r_right a
     \<and> r_top a \<le> r_bottom b \<and> r_top b \<le> r_bottom a"

definition margins_added :: "int \<Rightarrow> qrect \<Rightarrow> qrect" where
  "margins_added g r = \<lparr>r_left = r_left r - g, r_top = r_top r - g,
     r_right = r_right r + g, r_bottom = r_bottom r + g\<rparr>"

lemmas rect_defs = qrect_sized_def r_width_def r_height_def r_empty_def r_null_def
  r_contains_def r_intersects_def margins_added_def

section \<open>The rectangle of a link around a point\<close>

text \<open>The four \<open>while\<close> loops of \<open>LinkHintTargetRect\<close>: step while the next place matches.\<close>

function walk_down :: "(int \<Rightarrow> bool) \<Rightarrow> int \<Rightarrow> int \<Rightarrow> int" where
  "walk_down p lo x = (if lo < x \<and> p (x - 1) then walk_down p lo (x - 1) else x)"
  by pat_completeness auto
termination
  by (relation "measure (\<lambda>(p, lo, x). nat (x - lo))") auto

function walk_up :: "(int \<Rightarrow> bool) \<Rightarrow> int \<Rightarrow> int \<Rightarrow> int" where
  "walk_up p hi x = (if x < hi \<and> p (x + 1) then walk_up p hi (x + 1) else x)"
  by pat_completeness auto
termination
  by (relation "measure (\<lambda>(p, hi, x). nat (hi - x))") auto

declare walk_down.simps [simp del] walk_up.simps [simp del]

definition link_hint_target_rect :: "qpoint \<Rightarrow> qrect \<Rightarrow> (qpoint \<Rightarrow> bool) \<Rightarrow> qrect" where
  "link_hint_target_rect hit bounds found =
     (if \<not> r_contains bounds hit \<or> \<not> found hit then no_rect
      else let hx = fst hit; hy = snd hit;
        left = walk_down (\<lambda>x. found (x, hy)) (r_left bounds) hx;
        right = walk_up (\<lambda>x. found (x, hy)) (r_right bounds) hx;
        row_found = (\<lambda>y. found (left, y) \<and> found (right, y));
        top = walk_down row_found (r_top bounds) hy;
        bottom = walk_up row_found (r_bottom bounds) hy in
      \<lparr>r_left = left, r_top = top, r_right = right, r_bottom = bottom\<rparr>)"

lemma walk_down_spec:
  assumes "lo \<le> x"
  shows "lo \<le> walk_down p lo x \<and> walk_down p lo x \<le> x
    \<and> (\<forall>z. walk_down p lo x \<le> z \<and> z < x \<longrightarrow> p z)
    \<and> (walk_down p lo x = lo \<or> \<not> p (walk_down p lo x - 1))"
  using assms
proof (induction p lo x rule: walk_down.induct)
  case (1 p lo x)
  show ?case
  proof (cases "lo < x \<and> p (x - 1)")
    case True
    with 1 have IH: "lo \<le> walk_down p lo (x - 1) \<and> walk_down p lo (x - 1) \<le> x - 1
      \<and> (\<forall>z. walk_down p lo (x - 1) \<le> z \<and> z < x - 1 \<longrightarrow> p z)
      \<and> (walk_down p lo (x - 1) = lo \<or> \<not> p (walk_down p lo (x - 1) - 1))" by simp
    have "p z" if "walk_down p lo (x - 1) \<le> z" "z < x" for z
      using IH True that by (cases "z = x - 1") auto
    moreover have "walk_down p lo x = walk_down p lo (x - 1)"
      by (subst walk_down.simps) (rule if_P [OF True])
    ultimately show ?thesis using IH by auto
  next
    case False
    have "walk_down p lo x = x" by (subst walk_down.simps) (rule if_not_P [OF False])
    with False 1(2) show ?thesis by auto
  qed
qed

lemma walk_up_spec:
  assumes "x \<le> hi"
  shows "walk_up p hi x \<le> hi \<and> x \<le> walk_up p hi x
    \<and> (\<forall>z. x < z \<and> z \<le> walk_up p hi x \<longrightarrow> p z)
    \<and> (walk_up p hi x = hi \<or> \<not> p (walk_up p hi x + 1))"
  using assms
proof (induction p hi x rule: walk_up.induct)
  case (1 p hi x)
  show ?case
  proof (cases "x < hi \<and> p (x + 1)")
    case True
    with 1 have IH: "walk_up p hi (x + 1) \<le> hi \<and> x + 1 \<le> walk_up p hi (x + 1)
      \<and> (\<forall>z. x + 1 < z \<and> z \<le> walk_up p hi (x + 1) \<longrightarrow> p z)
      \<and> (walk_up p hi (x + 1) = hi \<or> \<not> p (walk_up p hi (x + 1) + 1))" by simp
    have "p z" if "z \<le> walk_up p hi (x + 1)" "x < z" for z
      using IH True that by (cases "z = x + 1") auto
    moreover have "walk_up p hi x = walk_up p hi (x + 1)"
      by (subst walk_up.simps) (rule if_P [OF True])
    ultimately show ?thesis using IH by auto
  next
    case False
    have "walk_up p hi x = x" by (subst walk_up.simps) (rule if_not_P [OF False])
    with False 1(2) show ?thesis by auto
  qed
qed

lemma link_rect_spec:
  assumes "r_contains bounds hit" and "found hit" and "r = link_hint_target_rect hit bounds found"
  shows "r_contains r hit"
    and "r_left bounds \<le> r_left r \<and> r_right r \<le> r_right bounds
      \<and> r_top bounds \<le> r_top r \<and> r_bottom r \<le> r_bottom bounds"
    and "\<forall>x. r_left r \<le> x \<and> x \<le> r_right r \<longrightarrow> found (x, snd hit)"
    and "\<forall>y. r_top r \<le> y \<and> y \<le> r_bottom r \<longrightarrow> found (r_left r, y) \<and> found (r_right r, y)"
    and "r_left r = r_left bounds \<or> \<not> found (r_left r - 1, snd hit)"
    and "r_right r = r_right bounds \<or> \<not> found (r_right r + 1, snd hit)"
    and "r_top r = r_top bounds \<or> \<not> (found (r_left r, r_top r - 1) \<and> found (r_right r, r_top r - 1))"
    and "r_bottom r = r_bottom bounds
      \<or> \<not> (found (r_left r, r_bottom r + 1) \<and> found (r_right r, r_bottom r + 1))"
proof -
  obtain hx hy where hit: "hit = (hx, hy)" by (cases hit)
  let ?l = "walk_down (\<lambda>x. found (x, hy)) (r_left bounds) hx"
  let ?r = "walk_up (\<lambda>x. found (x, hy)) (r_right bounds) hx"
  let ?row = "\<lambda>y. found (?l, y) \<and> found (?r, y)"
  let ?t = "walk_down ?row (r_top bounds) hy" and ?b = "walk_up ?row (r_bottom bounds) hy"
  have r: "r = \<lparr>r_left = ?l, r_top = ?t, r_right = ?r, r_bottom = ?b\<rparr>"
    using assms by (simp add: link_hint_target_rect_def Let_def hit)
  have b: "r_left bounds \<le> hx" "hx \<le> r_right bounds" "r_top bounds \<le> hy" "hy \<le> r_bottom bounds"
    using assms(1) by (simp_all add: r_contains_def hit)
  note l = walk_down_spec [OF b(1), of "\<lambda>x. found (x, hy)"]
    and u = walk_up_spec [OF b(2), of "\<lambda>x. found (x, hy)"]
    and t = walk_down_spec [OF b(3), of ?row] and d = walk_up_spec [OF b(4), of ?row]
  have row: "found (x, hy)" if "?l \<le> x" "x \<le> ?r" for x
  proof (cases x hx rule: linorder_cases)
    case less
    with l that show ?thesis by blast
  next
    case equal
    with assms(2) show ?thesis by (simp add: hit)
  next
    case greater
    with u that show ?thesis by blast
  qed
  have col: "?row y" if "?t \<le> y" "y \<le> ?b" for y
  proof (cases y hy rule: linorder_cases)
    case less
    with t that show ?thesis by blast
  next
    case equal
    have "?l \<le> ?r" using l u by linarith
    with equal row [of ?l] row [of ?r] show ?thesis by simp
  next
    case greater
    with d that show ?thesis by blast
  qed
  show "r_contains r hit"
    unfolding r r_contains_def hit qrect.select_convs fst_conv snd_conv
    using l u t d by (intro conjI; linarith)
  show "r_left bounds \<le> r_left r \<and> r_right r \<le> r_right bounds
      \<and> r_top bounds \<le> r_top r \<and> r_bottom r \<le> r_bottom bounds"
    unfolding r qrect.select_convs using l u t d by (intro conjI; linarith)
  show "\<forall>x. r_left r \<le> x \<and> x \<le> r_right r \<longrightarrow> found (x, snd hit)"
    unfolding r qrect.select_convs hit snd_conv using row by blast
  show "\<forall>y. r_top r \<le> y \<and> y \<le> r_bottom r \<longrightarrow> found (r_left r, y) \<and> found (r_right r, y)"
    unfolding r qrect.select_convs using col by blast
  show "r_left r = r_left bounds \<or> \<not> found (r_left r - 1, snd hit)"
    unfolding r qrect.select_convs hit snd_conv using l by blast
  show "r_right r = r_right bounds \<or> \<not> found (r_right r + 1, snd hit)"
    unfolding r qrect.select_convs hit snd_conv using u by blast
  show "r_top r = r_top bounds \<or> \<not> (found (r_left r, r_top r - 1) \<and> found (r_right r, r_top r - 1))"
    unfolding r qrect.select_convs using t by blast
  show "r_bottom r = r_bottom bounds
      \<or> \<not> (found (r_left r, r_bottom r + 1) \<and> found (r_right r, r_bottom r + 1))"
    unfolding r qrect.select_convs using d by blast
qed

section \<open>Laying out the badges\<close>

text \<open>
  \<open>LayoutHintBadges\<close> places the badges one after another. A badge gets a box of allowed top-left
  corners (\<open>badge_box\<close>: inside the bounds, the centre over the target if there is one; \<open>None\<close>
  where the code pushes an empty rectangle). It stays where it was asked for, moved into the
  box, when that is free; otherwise the rows where it can touch an earlier badge are swept for
  the nearest free place.
\<close>

record badge_box =
  min_x :: int
  min_y :: int
  max_x :: int
  max_y :: int

definition badge_box :: "(qrect \<Rightarrow> qrect \<Rightarrow> qrect) \<Rightarrow> qrect \<Rightarrow> qrect option \<Rightarrow> qrect \<Rightarrow> badge_box option" where
  "badge_box overlap bounds target rect =
     (if r_empty rect \<or> r_empty bounds \<or> r_width rect > r_width bounds
         \<or> r_height rect > r_height bounds then None
      else let
        box = \<lparr>min_x = r_left bounds, min_y = r_top bounds,
               max_x = r_right bounds - r_width rect + 1, max_y = r_bottom bounds - r_height rect + 1\<rparr>;
        cx = (r_width rect - 1) div 2; cy = (r_height rect - 1) div 2;
        narrowed = (case target of
            Some t \<Rightarrow>
              if r_null t then Some box
              else let seen = overlap t bounds in
              if r_empty seen then None
              else Some \<lparr>min_x = max (min_x box) (r_left seen - cx), min_y = max (min_y box) (r_top seen - cy),
                max_x = min (max_x box) (r_right seen - cx), max_y = min (max_y box) (r_bottom seen - cy)\<rparr>
          | None \<Rightarrow> Some box) in
      case narrowed of
        None \<Rightarrow> None
      | Some b \<Rightarrow> if min_x b > max_x b \<or> min_y b > max_y b then None else Some b)"

definition badge_free :: "int \<Rightarrow> qrect list \<Rightarrow> qrect \<Rightarrow> bool" where
  "badge_free gap placed candidate =
     list_all (\<lambda>r. \<not> (\<not> r_empty r \<and> r_intersects (margins_added gap r) candidate)) placed"

definition badge_rows :: "int \<Rightarrow> qrect list \<Rightarrow> badge_box \<Rightarrow> int \<Rightarrow> int \<Rightarrow> int list" where
  "badge_rows gap placed b h y = remdups_adj (sort ([y, min_y b, max_y b]
     @ concat (map (\<lambda>r. if r_empty r then []
         else [clamp (r_top r - gap - h) (min_y b) (max_y b),
               clamp (r_bottom r + gap + 1) (min_y b) (max_y b)]) placed)))"

definition badge_blocked :: "int \<Rightarrow> qrect list \<Rightarrow> int \<Rightarrow> int \<Rightarrow> int \<Rightarrow> (int \<times> int) list" where
  "badge_blocked gap placed w h y = sort (concat (map (\<lambda>r.
     if \<not> r_empty r \<and> y \<le> r_bottom r + gap \<and> y + h > r_top r - gap
     then [(r_left r - gap - w + 1, r_right r + gap)] else []) placed))"

definition badge_consider ::
  "qrect \<Rightarrow> int \<Rightarrow> int \<Rightarrow> int \<Rightarrow> int \<times> qrect \<Rightarrow> int \<times> qrect" where
  "badge_consider rect y left right st =
     (if left > right then st
      else let x = clamp (r_left rect) left right;
        delta = \<bar>x - r_left rect\<bar> + \<bar>y - r_top rect\<bar> in
      if delta < fst st then (delta, qrect_sized (x, y) (r_width rect) (r_height rect)) else st)"

fun badge_sweep :: "qrect \<Rightarrow> int \<Rightarrow> int \<Rightarrow> int \<Rightarrow> (int \<times> int) list \<Rightarrow> int \<times> qrect \<Rightarrow> int \<times> qrect" where
  "badge_sweep rect y mx left [] st = badge_consider rect y left mx st"
| "badge_sweep rect y mx left ((from, till) # blocked) st =
     badge_sweep rect y mx (max left (till + 1)) blocked
       (badge_consider rect y left (min mx (from - 1)) st)"

definition badge_row :: "int \<Rightarrow> qrect list \<Rightarrow> badge_box \<Rightarrow> qrect \<Rightarrow> int \<Rightarrow> int \<times> qrect \<Rightarrow> int \<times> qrect" where
  "badge_row gap placed b rect y st =
     (if \<bar>y - r_top rect\<bar> > fst st then st
      else badge_sweep rect y (max_x b) (min_x b)
        (badge_blocked gap placed (r_width rect) (r_height rect) y) st)"

definition int_max :: int where
  "int_max = 2147483647"

definition place_badge ::
  "(qrect \<Rightarrow> qrect \<Rightarrow> qrect) \<Rightarrow> qrect \<Rightarrow> int \<Rightarrow> qrect list \<Rightarrow> qrect option \<Rightarrow> qrect \<Rightarrow> qrect" where
  "place_badge overlap bounds gap placed target rect0 =
     (case badge_box overlap bounds target rect0 of
        None \<Rightarrow> no_rect
      | Some b \<Rightarrow>
          let rect = qrect_sized (clamp (r_left rect0) (min_x b) (max_x b),
                clamp (r_top rect0) (min_y b) (max_y b)) (r_width rect0) (r_height rect0) in
          if badge_free gap placed rect then rect
          else snd (foldl (\<lambda>st y. badge_row gap placed b rect y st) (int_max, no_rect)
            (badge_rows gap placed b (r_height rect) (r_top rect))))"

definition layout_hint_badges ::
  "(qrect \<Rightarrow> qrect \<Rightarrow> qrect) \<Rightarrow> qrect list \<Rightarrow> qrect \<Rightarrow> int \<Rightarrow> qrect list \<Rightarrow> qrect list" where
  "layout_hint_badges overlap desired bounds gap targets =
     foldl (\<lambda>result rect. result @ [place_badge overlap bounds (max gap 0) result
         (if targets = [] then None else Some (targets ! length result)) rect]) [] desired"

text \<open>
  The labels \<open>PaintHintBadges\<close> draws for a typed prefix: what is left of each label that starts
  with it (the whole label when nothing is left), with the rectangle asked for.
\<close>

record hint_badge =
  badge_label :: qstring
  badge_anchor :: qpoint
  badge_target :: qrect
  badge_suffix :: qstring

definition badge_requests ::
  "(qstring \<Rightarrow> int) \<Rightarrow> int \<Rightarrow> int \<times> int \<Rightarrow> qstring \<Rightarrow> hint_badge list \<Rightarrow> (qstring \<times> qrect \<times> qrect) list" where
  "badge_requests advance font_height padding pre hints =
     map (\<lambda>h. let remaining = drop (length pre) (badge_label h);
             shown = (if remaining = [] then badge_label h else remaining) @ badge_suffix h in
           (shown, qrect_sized (badge_anchor h) (advance shown + 2 * fst padding)
              (font_height + 2 * snd padding), badge_target h))
       (filter (\<lambda>h. prefix pre (badge_label h)) hints)"

section \<open>The layout is correct\<close>

definition uncovered :: "int \<Rightarrow> (int \<times> int) list \<Rightarrow> bool" where
  "uncovered x blocked \<longleftrightarrow> (\<forall>b\<in>set blocked. \<not> (fst b \<le> x \<and> x \<le> snd b))"

definition badge_distance :: "qrect \<Rightarrow> int \<Rightarrow> int \<Rightarrow> int" where
  "badge_distance rect x y = \<bar>x - r_left rect\<bar> + \<bar>y - r_top rect\<bar>"

lemma badge_free_blocked:
  "badge_free gap placed (qrect_sized (x, y) w h) \<longleftrightarrow> uncovered x (badge_blocked gap placed w h y)"
  by (auto simp: badge_free_def uncovered_def badge_blocked_def list_all_iff r_intersects_def
      margins_added_def qrect_sized_def)

lemma badge_consider_spec:
  "st' = badge_consider rect y left right st \<Longrightarrow> fst st' \<le> fst st
    \<and> (st' = st \<or> (\<exists>x. left \<le> x \<and> x \<le> right
        \<and> st' = (badge_distance rect x y, qrect_sized (x, y) (r_width rect) (r_height rect))
        \<and> badge_distance rect x y < fst st))
    \<and> (\<forall>x. left \<le> x \<and> x \<le> right \<longrightarrow> fst st' \<le> badge_distance rect x y)"
proof (cases "left > right")
  case True
  then show "st' = badge_consider rect y left right st \<Longrightarrow> ?thesis"
    by (simp add: badge_consider_def)
next
  case False
  let ?x = "clamp (r_left rect) left right"
  have b: "left \<le> ?x" "?x \<le> right" using False clamp_bounds [of left right] by simp_all
  have near: "badge_distance rect ?x y \<le> badge_distance rect x y" if "left \<le> x" "x \<le> right" for x
    using clamp_nearest [OF that, of "r_left rect"] by (simp add: badge_distance_def)
  assume "st' = badge_consider rect y left right st"
  then have st': "st' = (if badge_distance rect ?x y < fst st
      then (badge_distance rect ?x y, qrect_sized (?x, y) (r_width rect) (r_height rect)) else st)"
    using False by (simp add: badge_consider_def badge_distance_def Let_def)
  show ?thesis
  proof (cases "badge_distance rect ?x y < fst st")
    case True
    with st' b near show ?thesis by auto
  next
    case False
    with st' have "st' = st" by simp
    with False near show ?thesis by force
  qed
qed

lemma badge_sweep_spec:
  assumes "sorted_wrt (\<lambda>a b. fst a \<le> fst b) blocked"
    and "st' = badge_sweep rect y mx left blocked st"
  shows "fst st' \<le> fst st
    \<and> (st' = st \<or> (\<exists>x. left \<le> x \<and> x \<le> mx \<and> uncovered x blocked
        \<and> st' = (badge_distance rect x y, qrect_sized (x, y) (r_width rect) (r_height rect))
        \<and> badge_distance rect x y < fst st))
    \<and> (\<forall>x. left \<le> x \<and> x \<le> mx \<and> uncovered x blocked \<longrightarrow> fst st' \<le> badge_distance rect x y)"
  using assms
proof (induction blocked arbitrary: left st)
  case Nil
  then show ?case using badge_consider_spec [of st' rect y left mx st] by (simp add: uncovered_def)
next
  case (Cons b blocked)
  obtain from0 till where b: "b = (from0, till)" by (cases b)
  let ?st1 = "badge_consider rect y left (min mx (from0 - 1)) st"
  have split: "uncovered x (b # blocked) \<longleftrightarrow> (x < from0 \<or> till < x) \<and> uncovered x blocked" for x
    by (auto simp: uncovered_def b)
  have later: "uncovered x blocked" if "x < from0" for x
    using Cons.prems(1) that by (fastforce simp: uncovered_def b)
  note c = badge_consider_spec [OF refl, of rect y left "min mx (from0 - 1)" st]
  have IH: "fst st' \<le> fst ?st1
    \<and> (st' = ?st1 \<or> (\<exists>x. max left (till + 1) \<le> x \<and> x \<le> mx \<and> uncovered x blocked
        \<and> st' = (badge_distance rect x y, qrect_sized (x, y) (r_width rect) (r_height rect))
        \<and> badge_distance rect x y < fst ?st1))
    \<and> (\<forall>x. max left (till + 1) \<le> x \<and> x \<le> mx \<and> uncovered x blocked \<longrightarrow> fst st' \<le> badge_distance rect x y)"
    using Cons.prems by (intro Cons.IH) (simp_all add: b)
  have "st' = st \<or> (\<exists>x. left \<le> x \<and> x \<le> mx \<and> uncovered x (b # blocked)
        \<and> st' = (badge_distance rect x y, qrect_sized (x, y) (r_width rect) (r_height rect))
        \<and> badge_distance rect x y < fst st)"
  proof (cases "st' = ?st1")
    case True
    with c later split show ?thesis by force
  next
    case False
    with IH obtain x where "max left (till + 1) \<le> x \<and> x \<le> mx \<and> uncovered x blocked
        \<and> st' = (badge_distance rect x y, qrect_sized (x, y) (r_width rect) (r_height rect))
        \<and> badge_distance rect x y < fst ?st1" by blast
    with c split [of x] show ?thesis by (intro disjI2 exI [of _ x]) auto
  qed
  moreover have "fst st' \<le> badge_distance rect x y"
    if "left \<le> x" "x \<le> mx" "uncovered x (b # blocked)" for x
  proof (cases "x < from0")
    case True
    with that c have "fst ?st1 \<le> badge_distance rect x y" by simp
    with IH show ?thesis by linarith
  next
    case False
    with that split [of x] have "max left (till + 1) \<le> x" "uncovered x blocked" by auto
    with IH that(2) show ?thesis by blast
  qed
  ultimately show ?case using IH c by (intro conjI) auto
qed

lemma badge_blocked_sorted: "sorted_wrt (\<lambda>a b. fst a \<le> fst b) (badge_blocked gap placed w h y)"
proof -
  have "sorted_wrt (\<le>) (badge_blocked gap placed w h y)"
    by (simp add: badge_blocked_def)
  then show ?thesis by (rule sorted_wrt_mono_rel [rotated]) (auto simp: less_eq_prod_def)
qed

text \<open>What a row may do to the best place found, and what it leaves behind.\<close>

definition badge_step :: "int \<Rightarrow> qrect list \<Rightarrow> badge_box \<Rightarrow> qrect \<Rightarrow> int list \<Rightarrow> int \<times> qrect \<Rightarrow> int \<times> qrect \<Rightarrow> bool" where
  "badge_step gap placed b rect rows st st' \<longleftrightarrow> fst st' \<le> fst st
    \<and> (st' = st \<or> (\<exists>x y. y \<in> set rows \<and> min_x b \<le> x \<and> x \<le> max_x b
        \<and> badge_free gap placed (qrect_sized (x, y) (r_width rect) (r_height rect))
        \<and> st' = (badge_distance rect x y, qrect_sized (x, y) (r_width rect) (r_height rect))
        \<and> badge_distance rect x y < fst st))
    \<and> (\<forall>x. \<forall>y\<in>set rows. min_x b \<le> x \<and> x \<le> max_x b
        \<and> badge_free gap placed (qrect_sized (x, y) (r_width rect) (r_height rect))
        \<longrightarrow> fst st' \<le> badge_distance rect x y)"

lemma badge_row_step: "badge_step gap placed b rect [y] st (badge_row gap placed b rect y st)"
proof (cases "\<bar>y - r_top rect\<bar> > fst st")
  case True
  then show ?thesis by (auto simp: badge_row_def badge_step_def badge_distance_def)
next
  case False
  with badge_sweep_spec [OF badge_blocked_sorted refl, of rect y "max_x b" "min_x b" gap placed
      "r_width rect" "r_height rect" y st]
  show ?thesis by (simp add: badge_row_def badge_step_def badge_free_blocked)
qed

lemma badge_rows_step:
  "badge_step gap placed b rect rows st (foldl (\<lambda>st y. badge_row gap placed b rect y st) st rows)"
proof (induction rows arbitrary: st)
  case Nil
  show ?case by (simp add: badge_step_def)
next
  case (Cons y rows)
  let ?st1 = "badge_row gap placed b rect y st"
  let ?st2 = "foldl (\<lambda>st y. badge_row gap placed b rect y st) ?st1 rows"
  have one: "badge_step gap placed b rect [y] st ?st1" by (rule badge_row_step)
  have two: "badge_step gap placed b rect rows ?st1 ?st2" by (rule Cons.IH)
  have "badge_step gap placed b rect (y # rows) st ?st2"
    unfolding badge_step_def
  proof (intro conjI)
    show "fst ?st2 \<le> fst st" using one two by (auto simp: badge_step_def)
    show "?st2 = st \<or> (\<exists>x z. z \<in> set (y # rows) \<and> min_x b \<le> x \<and> x \<le> max_x b
        \<and> badge_free gap placed (qrect_sized (x, z) (r_width rect) (r_height rect))
        \<and> ?st2 = (badge_distance rect x z, qrect_sized (x, z) (r_width rect) (r_height rect))
        \<and> badge_distance rect x z < fst st)"
    proof (cases "?st2 = ?st1")
      case True
      with one show ?thesis unfolding badge_step_def by force
    next
      case False
      with two obtain x z where place: "z \<in> set rows \<and> min_x b \<le> x \<and> x \<le> max_x b
        \<and> badge_free gap placed (qrect_sized (x, z) (r_width rect) (r_height rect))
        \<and> ?st2 = (badge_distance rect x z, qrect_sized (x, z) (r_width rect) (r_height rect))
        \<and> badge_distance rect x z < fst ?st1" unfolding badge_step_def by blast
      have le: "fst ?st1 \<le> fst st" using one by (simp add: badge_step_def)
      have "z \<in> set (y # rows)" using place by simp
      moreover have "badge_distance rect x z < fst st" using place le by linarith
      ultimately show ?thesis using place by blast
    qed
    show "\<forall>x. \<forall>z\<in>set (y # rows). min_x b \<le> x \<and> x \<le> max_x b
        \<and> badge_free gap placed (qrect_sized (x, z) (r_width rect) (r_height rect))
        \<longrightarrow> fst ?st2 \<le> badge_distance rect x z"
    proof (intro allI ballI impI)
      fix x z
      assume z: "z \<in> set (y # rows)" and x: "min_x b \<le> x \<and> x \<le> max_x b
        \<and> badge_free gap placed (qrect_sized (x, z) (r_width rect) (r_height rect))"
      show "fst ?st2 \<le> badge_distance rect x z"
      proof (cases "z \<in> set rows")
        case True
        with two x show ?thesis unfolding badge_step_def by blast
      next
        case False
        with z have "z = y" by simp
        with one x have "fst ?st1 \<le> badge_distance rect x z" unfolding badge_step_def by simp
        moreover have "fst ?st2 \<le> fst ?st1" using two by (simp add: badge_step_def)
        ultimately show ?thesis by linarith
      qed
    qed
  qed
  then show ?case by simp
qed

lemma set_badge_rows:
  "set (badge_rows gap placed b h y) = {y, min_y b, max_y b}
    \<union> {z. \<exists>r\<in>set placed. \<not> r_empty r \<and> (z = clamp (r_top r - gap - h) (min_y b) (max_y b)
          \<or> z = clamp (r_bottom r + gap + 1) (min_y b) (max_y b))}"
  unfolding badge_rows_def
  by (simp only: remdups_adj_set set_sort set_append) (auto split: if_splits)

lemma badge_free_at:
  "badge_free gap placed (qrect_sized (x, y) w h) \<longleftrightarrow>
     (\<forall>r\<in>set placed. r_empty r \<or> x + w \<le> r_left r - gap \<or> r_right r + gap < x
        \<or> y + h \<le> r_top r - gap \<or> r_bottom r + gap < y)"
  by (auto simp: badge_free_def list_all_iff r_intersects_def margins_added_def qrect_sized_def)

text \<open>From a free place one can walk towards the wanted row and stop, still free, at a row of the list.\<close>

lemma badge_row_below:
  assumes "ry \<le> y" and "y \<le> max_y b" and "min_y b \<le> ry"
    and "badge_free gap placed (qrect_sized (x, y) w h)"
  shows "\<exists>z\<in>set (badge_rows gap placed b h ry). ry \<le> z \<and> z \<le> y
    \<and> badge_free gap placed (qrect_sized (x, z) w h)"
  using assms
proof (induction y rule: int_ge_induct)
  case base
  then show ?case by (auto simp: set_badge_rows)
next
  case (step y)
  show ?case
  proof (cases "badge_free gap placed (qrect_sized (x, y) w h)")
    case True
    with step show ?thesis by fastforce
  next
    case False
    then obtain r where r: "r \<in> set placed" "\<not> r_empty r" "y \<le> r_bottom r + gap"
        "\<not> (x + w \<le> r_left r - gap \<or> r_right r + gap < x \<or> y + h \<le> r_top r - gap)"
      unfolding badge_free_at by (auto simp: not_less)
    moreover have "r_empty r \<or> x + w \<le> r_left r - gap \<or> r_right r + gap < x
        \<or> y + 1 + h \<le> r_top r - gap \<or> r_bottom r + gap < y + 1"
      using step.prems(3) r(1) unfolding badge_free_at by blast
    ultimately have "y + 1 = r_bottom r + gap + 1" by linarith
    moreover have "clamp (y + 1) (min_y b) (max_y b) = y + 1"
      using step.hyps step.prems by (intro clamp_id) linarith+
    ultimately have "y + 1 \<in> set (badge_rows gap placed b h ry)"
      using r(1,2) unfolding set_badge_rows by force
    with step show ?thesis by (intro bexI [of _ "y + 1"]) auto
  qed
qed

lemma badge_row_above:
  assumes "y \<le> ry" and "min_y b \<le> y" and "ry \<le> max_y b"
    and "badge_free gap placed (qrect_sized (x, y) w h)"
  shows "\<exists>z\<in>set (badge_rows gap placed b h ry). y \<le> z \<and> z \<le> ry
    \<and> badge_free gap placed (qrect_sized (x, z) w h)"
  using assms
proof (induction y rule: int_le_induct)
  case base
  then show ?case by (auto simp: set_badge_rows)
next
  case (step y)
  show ?case
  proof (cases "badge_free gap placed (qrect_sized (x, y) w h)")
    case True
    with step.IH step.prems obtain z where "z \<in> set (badge_rows gap placed b h ry)" "y \<le> z" "z \<le> ry"
        "badge_free gap placed (qrect_sized (x, z) w h)" by auto
    then show ?thesis by (intro bexI [of _ z]) auto
  next
    case False
    then obtain r where r: "r \<in> set placed" "\<not> r_empty r" "\<not> y + h \<le> r_top r - gap"
        "\<not> (x + w \<le> r_left r - gap \<or> r_right r + gap < x \<or> r_bottom r + gap < y)"
      unfolding badge_free_at by (auto simp: not_less)
    moreover have "r_empty r \<or> x + w \<le> r_left r - gap \<or> r_right r + gap < x
        \<or> y - 1 + h \<le> r_top r - gap \<or> r_bottom r + gap < y - 1"
      using step.prems(3) r(1) unfolding badge_free_at by blast
    ultimately have "y - 1 = r_top r - gap - h" by linarith
    moreover have "clamp (y - 1) (min_y b) (max_y b) = y - 1"
      using step.hyps step.prems by (intro clamp_id) linarith+
    ultimately have "y - 1 \<in> set (badge_rows gap placed b h ry)"
      using r(1,2) unfolding set_badge_rows by force
    with step show ?thesis by (intro bexI [of _ "y - 1"]) auto
  qed
qed

lemma badge_nearest_row:
  assumes "min_y b \<le> y" "y \<le> max_y b" and "min_y b \<le> ry" "ry \<le> max_y b"
    and "badge_free gap placed (qrect_sized (x, y) w h)"
  shows "\<exists>z\<in>set (badge_rows gap placed b h ry). \<bar>z - ry\<bar> \<le> \<bar>y - ry\<bar>
    \<and> badge_free gap placed (qrect_sized (x, z) w h)"
proof (cases "ry \<le> y")
  case True
  with badge_row_below [OF True assms(2,3,5)] show ?thesis by force
next
  case False
  then have "y \<le> ry" by simp
  with badge_row_above [OF this assms(1,4,5)] show ?thesis by force
qed

lemma badge_rows_in_box:
  assumes "min_y b \<le> max_y b" and "min_y b \<le> ry" "ry \<le> max_y b" and "z \<in> set (badge_rows gap placed b h ry)"
  shows "min_y b \<le> z \<and> z \<le> max_y b"
  using assms clamp_bounds [OF assms(1)] by (auto simp: set_badge_rows)

lemma badge_box_some:
  assumes "badge_box overlap bounds target rect = Some b"
  obtains "\<not> r_empty rect" and "min_x b \<le> max_x b" and "min_y b \<le> max_y b"
    and "r_left bounds \<le> min_x b" and "r_top bounds \<le> min_y b"
    and "max_x b \<le> r_right bounds - r_width rect + 1" and "max_y b \<le> r_bottom bounds - r_height rect + 1"
proof -
  have ne: "\<not> r_empty rect" and ordered: "min_x b \<le> max_x b" "min_y b \<le> max_y b"
    using assms by (simp_all add: badge_box_def Let_def not_less split: if_splits option.splits)
  have "b = \<lparr>min_x = r_left bounds, min_y = r_top bounds,
        max_x = r_right bounds - r_width rect + 1, max_y = r_bottom bounds - r_height rect + 1\<rparr>
    \<or> (\<exists>u v u' v'. b = \<lparr>min_x = max (r_left bounds) u, min_y = max (r_top bounds) v,
        max_x = min (r_right bounds - r_width rect + 1) u',
        max_y = min (r_bottom bounds - r_height rect + 1) v'\<rparr>)"
    using assms unfolding badge_box_def Let_def
    by (simp only: split: if_splits option.splits) (simp_all only: option.inject badge_box.select_convs, blast+)
  then have "r_left bounds \<le> min_x b" "r_top bounds \<le> min_y b"
      "max_x b \<le> r_right bounds - r_width rect + 1" "max_y b \<le> r_bottom bounds - r_height rect + 1"
    by (elim disjE exE; simp)+
  with ne ordered show thesis by (intro that)
qed

lemma badge_box_bounds:
  assumes "badge_box overlap bounds target rect = Some b"
  shows "min_x b \<le> max_x b" "min_y b \<le> max_y b" "0 < r_width rect" "0 < r_height rect"
    and "r_left bounds \<le> min_x b" "r_top bounds \<le> min_y b"
    and "max_x b + r_width rect - 1 \<le> r_right bounds" "max_y b + r_height rect - 1 \<le> r_bottom bounds"
  by (rule badge_box_some [OF assms]; simp add: r_empty_def)+

text \<open>
  One badge: it is shown exactly if its box has a free place; then it is a free place of the
  box at the least Manhattan distance from the place asked for (moved into the box).
\<close>

definition wanted_badge :: "badge_box \<Rightarrow> qrect \<Rightarrow> qrect" where
  "wanted_badge b rect = qrect_sized (clamp (r_left rect) (min_x b) (max_x b),
     clamp (r_top rect) (min_y b) (max_y b)) (r_width rect) (r_height rect)"

definition free_places :: "int \<Rightarrow> qrect list \<Rightarrow> badge_box \<Rightarrow> qrect \<Rightarrow> (int \<times> int) set" where
  "free_places gap placed b rect = {(x, y). min_x b \<le> x \<and> x \<le> max_x b \<and> min_y b \<le> y \<and> y \<le> max_y b
     \<and> badge_free gap placed (qrect_sized (x, y) (r_width rect) (r_height rect))}"

lemma qrect_sized_simps [simp]:
  "r_left (qrect_sized p w h) = fst p" "r_top (qrect_sized p w h) = snd p"
  "r_width (qrect_sized p w h) = w" "r_height (qrect_sized p w h) = h"
  "r_right (qrect_sized p w h) = fst p + w - 1" "r_bottom (qrect_sized p w h) = snd p + h - 1"
  by (simp_all add: qrect_sized_def r_width_def r_height_def)

lemma place_badge_cases [consumes 2, case_names hidden shown]:
  assumes box: "badge_box overlap bounds target rect = Some b"
    and small: "max_x b - min_x b + (max_y b - min_y b) < int_max"
  obtains (hidden) "free_places gap placed b rect = {}"
      and "place_badge overlap bounds gap placed target rect = no_rect"
  | (shown) x y where "(x, y) \<in> free_places gap placed b rect"
      and "place_badge overlap bounds gap placed target rect
        = qrect_sized (x, y) (r_width rect) (r_height rect)"
      and "\<forall>(x', y')\<in>free_places gap placed b rect.
        badge_distance (wanted_badge b rect) x y \<le> badge_distance (wanted_badge b rect) x' y'"
proof -
  let ?r = "wanted_badge b rect" and ?w = "r_width rect" and ?h = "r_height rect"
  let ?x = "clamp (r_left rect) (min_x b) (max_x b)" and ?y = "clamp (r_top rect) (min_y b) (max_y b)"
  note bounds = badge_box_bounds [OF box]
  have in_box: "min_x b \<le> ?x" "?x \<le> max_x b" "min_y b \<le> ?y" "?y \<le> max_y b"
    using clamp_bounds [OF bounds(1)] clamp_bounds [OF bounds(2)] by auto
  have r: "?r = qrect_sized (?x, ?y) ?w ?h" by (simp add: wanted_badge_def)
  show thesis
  proof (cases "badge_free gap placed ?r")
    case True
    then show thesis
      by (intro shown [of ?x ?y])
        (simp_all add: free_places_def in_box r place_badge_def box Let_def badge_distance_def case_prod_beta)
  next
    case False
    let ?rows = "badge_rows gap placed b ?h ?y"
    define st where "st = foldl (\<lambda>st y. badge_row gap placed b ?r y st) (int_max, no_rect) ?rows"
    have place: "place_badge overlap bounds gap placed target rect = snd st"
      using False by (simp add: place_badge_def box Let_def st_def r)
    have step: "badge_step gap placed b ?r ?rows (int_max, no_rect) st"
      unfolding st_def by (rule badge_rows_step)
    have best: "fst st \<le> badge_distance ?r x y" if free: "(x, y) \<in> free_places gap placed b rect" for x y
    proof -
      obtain z where z: "z \<in> set ?rows" "\<bar>z - ?y\<bar> \<le> \<bar>y - ?y\<bar>"
          "badge_free gap placed (qrect_sized (x, z) ?w ?h)"
        using badge_nearest_row [of b y ?y gap placed x ?w ?h] free in_box
        by (auto simp: free_places_def)
      have x: "min_x b \<le> x \<and> x \<le> max_x b" using free by (simp add: free_places_def)
      from step have "\<forall>x. \<forall>y\<in>set ?rows. min_x b \<le> x \<and> x \<le> max_x b
          \<and> badge_free gap placed (qrect_sized (x, y) ?w ?h) \<longrightarrow> fst st \<le> badge_distance ?r x y"
        by (simp add: badge_step_def r)
      with x z have "fst st \<le> badge_distance ?r x z" by blast
      with z(2) show ?thesis by (simp add: badge_distance_def r)
    qed
    show thesis
    proof (cases "st = (int_max, no_rect)")
      case True
      have "(x, y) \<notin> free_places gap placed b rect" for x y
      proof
        assume free: "(x, y) \<in> free_places gap placed b rect"
        then have "badge_distance ?r x y \<le> max_x b - min_x b + (max_y b - min_y b)"
          using in_box by (auto simp: free_places_def badge_distance_def r)
        with best [OF free] True small show False by simp
      qed
      with True place show thesis by (intro hidden) auto
    next
      case False
      with step obtain x y where xy: "y \<in> set ?rows" "min_x b \<le> x" "x \<le> max_x b"
          "badge_free gap placed (qrect_sized (x, y) ?w ?h)"
          "st = (badge_distance ?r x y, qrect_sized (x, y) ?w ?h)"
        by (auto simp: badge_step_def r)
      have "(x, y) \<in> free_places gap placed b rect"
        using xy badge_rows_in_box [OF bounds(2) in_box(3,4) xy(1)] by (simp add: free_places_def)
      with xy(5) place best show thesis by (intro shown [of x y]) auto
    qed
  qed
qed

lemma foldl_placing:
  assumes "rs = foldl (\<lambda>r x. r @ [f r x]) [] xs"
  shows "length rs = length xs \<and> (\<forall>k<length xs. rs ! k = f (take k rs) (xs ! k))"
  using assms
proof (induction xs arbitrary: rs rule: rev_induct)
  case Nil
  then show ?case by simp
next
  case (snoc x xs)
  define qs where "qs = foldl (\<lambda>r x. r @ [f r x]) [] xs"
  have IH: "length qs = length xs" "\<And>k. k < length xs \<Longrightarrow> qs ! k = f (take k qs) (xs ! k)"
    using snoc.IH [OF qs_def] by auto
  have rs: "rs = qs @ [f qs x]" using snoc.prems by (simp add: qs_def)
  have "rs ! k = f (take k rs) ((xs @ [x]) ! k)" if "k < Suc (length xs)" for k
    using that IH by (cases "k = length xs") (auto simp: rs nth_append)
  then show ?case using IH(1) by (simp add: rs)
qed

definition badge_target_at :: "qrect list \<Rightarrow> nat \<Rightarrow> qrect option" where
  "badge_target_at targets k = (if targets = [] then None else Some (targets ! k))"

lemma layout_nth:
  assumes "rs = layout_hint_badges overlap desired bounds gap targets"
  shows "length rs = length desired"
    and "k < length desired \<Longrightarrow>
      rs ! k = place_badge overlap bounds (max gap 0) (take k rs) (badge_target_at targets k) (desired ! k)"
proof -
  let ?f = "\<lambda>r x. place_badge overlap bounds (max gap 0) r (badge_target_at targets (length r)) x"
  have "rs = foldl (\<lambda>r x. r @ [?f r x]) [] desired"
    using assms by (simp add: layout_hint_badges_def badge_target_at_def)
  then have "length rs = length desired \<and> (\<forall>k<length desired. rs ! k = ?f (take k rs) (desired ! k))"
    by (rule foldl_placing)
  then show "length rs = length desired"
    and "k < length desired \<Longrightarrow>
      rs ! k = place_badge overlap bounds (max gap 0) (take k rs) (badge_target_at targets k) (desired ! k)"
    by simp_all
qed

lemma badge_box_small:
  assumes "badge_box overlap bounds target rect = Some b" and "r_width bounds + r_height bounds < int_max"
  shows "max_x b - min_x b + (max_y b - min_y b) < int_max"
  using badge_box_bounds [OF assms(1)] assms(2) by (simp add: r_width_def r_height_def)

lemma place_badge_shown:
  assumes "\<not> r_empty (place_badge overlap bounds gap placed target rect)"
    and "r_width bounds + r_height bounds < int_max"
  obtains b x y where "badge_box overlap bounds target rect = Some b"
    and "(x, y) \<in> free_places gap placed b rect"
    and "place_badge overlap bounds gap placed target rect = qrect_sized (x, y) (r_width rect) (r_height rect)"
proof (cases "badge_box overlap bounds target rect")
  case None
  then have "r_empty (place_badge overlap bounds gap placed target rect)"
    by (simp add: place_badge_def no_rect_def r_empty_def)
  with assms show thesis by simp
next
  case (Some b)
  have hidden: "r_empty no_rect" by (simp add: no_rect_def r_empty_def)
  show thesis
    using Some badge_box_small [OF Some assms(2)]
    by (cases rule: place_badge_cases [where gap = gap and placed = placed])
      (use assms(1) hidden that [OF Some] in auto)
qed

lemma layout_apart:
  assumes "r_width bounds + r_height bounds < int_max"
    and "rs = layout_hint_badges overlap desired bounds gap targets"
    and "i < length desired" and "\<not> r_empty (rs ! i)"
  shows "r_left bounds \<le> r_left (rs ! i) \<and> r_right (rs ! i) \<le> r_right bounds
      \<and> r_top bounds \<le> r_top (rs ! i) \<and> r_bottom (rs ! i) \<le> r_bottom bounds"
    and "r_width (rs ! i) = r_width (desired ! i) \<and> r_height (rs ! i) = r_height (desired ! i)"
    and "j < length desired \<Longrightarrow> j \<noteq> i \<Longrightarrow> \<not> r_empty (rs ! j) \<Longrightarrow>
      \<not> r_intersects (margins_added (max gap 0) (rs ! j)) (rs ! i)"
proof -
  note nth = layout_nth [OF assms(2)]
  have placed: "\<exists>b x y. badge_box overlap bounds (badge_target_at targets k) (desired ! k) = Some b
      \<and> (x, y) \<in> free_places (max gap 0) (take k rs) b (desired ! k)
      \<and> rs ! k = qrect_sized (x, y) (r_width (desired ! k)) (r_height (desired ! k))"
    if "k < length desired" "\<not> r_empty (rs ! k)" for k
    using that nth(2) [OF that(1)] assms(1) by (metis place_badge_shown)
  have before: "\<not> r_intersects (margins_added (max gap 0) (rs ! m)) (rs ! k)"
    if "m < k" "k < length desired" "\<not> r_empty (rs ! m)" "\<not> r_empty (rs ! k)" for m k
  proof -
    have "badge_free (max gap 0) (take k rs) (rs ! k)"
      using placed [OF that(2,4)] by (auto simp: free_places_def)
    moreover have "rs ! m \<in> set (take k rs)"
      using that(1,2) nth(1) by (auto simp: in_set_conv_nth intro!: exI [of _ m])
    ultimately show ?thesis using that(3) by (auto simp: badge_free_def list_all_iff)
  qed
  obtain b x y where b: "badge_box overlap bounds (badge_target_at targets i) (desired ! i) = Some b"
    "(x, y) \<in> free_places (max gap 0) (take i rs) b (desired ! i)"
    "rs ! i = qrect_sized (x, y) (r_width (desired ! i)) (r_height (desired ! i))"
    using placed [OF assms(3,4)] by blast
  show "r_left bounds \<le> r_left (rs ! i) \<and> r_right (rs ! i) \<le> r_right bounds
      \<and> r_top bounds \<le> r_top (rs ! i) \<and> r_bottom (rs ! i) \<le> r_bottom bounds"
    using badge_box_bounds [OF b(1)] b(2) by (simp add: b(3) free_places_def)
  show "r_width (rs ! i) = r_width (desired ! i) \<and> r_height (rs ! i) = r_height (desired ! i)"
    by (simp add: b(3))
  show "\<not> r_intersects (margins_added (max gap 0) (rs ! j)) (rs ! i)"
    if "j < length desired" "j \<noteq> i" "\<not> r_empty (rs ! j)"
  proof (cases "j < i")
    case True
    with before that assms show ?thesis by blast
  next
    case False
    with that before [of i j] assms have "\<not> r_intersects (margins_added (max gap 0) (rs ! i)) (rs ! j)"
      by simp
    then show ?thesis by (auto simp: r_intersects_def margins_added_def)
  qed
qed



text \<open>A badge is hidden only if its box is missing or has no free place, and
  otherwise takes a free place at the least distance from the one it asked for.\<close>

theorem layout_badges_nearest:
  assumes "r_width bounds + r_height bounds < int_max"
    and "rs = layout_hint_badges overlap desired bounds gap targets"
    and "i < length desired"
  shows "case badge_box overlap bounds (badge_target_at targets i) (desired ! i) of
      None \<Rightarrow> rs ! i = no_rect
    | Some b \<Rightarrow> (let places = free_places (max gap 0) (take i rs) b (desired ! i) in
        if places = {} then rs ! i = no_rect
        else \<exists>(x, y)\<in>places. rs ! i = qrect_sized (x, y) (r_width (desired ! i)) (r_height (desired ! i))
          \<and> (\<forall>(x', y')\<in>places. badge_distance (wanted_badge b (desired ! i)) x y
                \<le> badge_distance (wanted_badge b (desired ! i)) x' y'))"
proof (cases "badge_box overlap bounds (badge_target_at targets i) (desired ! i)")
  case None
  then show ?thesis using layout_nth(2) [OF assms(2,3)] by (simp add: place_badge_def)
next
  case (Some b)
  show ?thesis
    using Some badge_box_small [OF Some assms(1)]
  proof (cases rule: place_badge_cases [where gap = "max gap 0" and placed = "take i rs"])
    case hidden
    then show ?thesis using layout_nth(2) [OF assms(2,3)] Some by simp
  next
    case (shown x y)
    then have "\<exists>(x, y)\<in>free_places (max gap 0) (take i rs) b (desired ! i).
        rs ! i = qrect_sized (x, y) (r_width (desired ! i)) (r_height (desired ! i))
          \<and> (\<forall>(x', y')\<in>free_places (max gap 0) (take i rs) b (desired ! i).
              badge_distance (wanted_badge b (desired ! i)) x y
                \<le> badge_distance (wanted_badge b (desired ! i)) x' y')"
      using layout_nth(2) [OF assms(2,3)] by (intro bexI [OF _ shown(1)]) simp
    then show ?thesis using Some shown(1) by (auto simp: Let_def)
  qed
qed

theorem layout_badges_nearest_witness:
  "let screen = qrect_sized (0, 0) 100 40; asked = qrect_sized (10, 10) 20 12;
     rs = layout_hint_badges (\<lambda>a b. a) [asked, asked] screen 2 [];
     box = \<lparr>min_x = 0, min_y = 0, max_x = 80, max_y = 28\<rparr> in
   \<exists>(x, y)\<in>free_places 2 (take 1 rs) box asked. rs ! 1 = qrect_sized (x, y) 20 12
     \<and> (\<forall>(x', y')\<in>free_places 2 (take 1 rs) box asked.
          badge_distance asked x y \<le> badge_distance asked x' y')"
proof -
  let ?screen = "qrect_sized (0, 0) 100 40" and ?asked = "qrect_sized (10, 10) 20 12"
  let ?rs = "layout_hint_badges (\<lambda>a b. a) [?asked, ?asked] ?screen 2 []"
  let ?box = "\<lparr>min_x = 0, min_y = 0, max_x = 80, max_y = 28\<rparr>"
  let ?places = "free_places 2 (take 1 ?rs) ?box ?asked"
  have eqs: "[?asked, ?asked] ! 1 = ?asked" "max 2 0 = (2::int)"
    "r_width ?asked = 20" "r_height ?asked = 12" by simp_all
  have box: "badge_box (\<lambda>a b. a) ?screen (badge_target_at [] 1) ?asked = Some ?box"
    by code_simp
  have "badge_free 2 (take 1 ?rs) (qrect_sized (10, 24) 20 12)" by code_simp
  then have "(10, 24) \<in> ?places" by (simp add: free_places_def)
  then have ne: "(?places = {}) = False" by blast
  have wanted: "wanted_badge ?box ?asked = ?asked"
    by (simp add: wanted_badge_def clamp_def)
  have "r_width ?screen + r_height ?screen < int_max" and "1 < length [?asked, ?asked]"
    by (simp_all add: int_max_def)
  note layout_badges_nearest [OF this(1) refl this(2), where overlap = "\<lambda>a b. a" and gap = 2 and targets = "[]"]
  then show ?thesis
    by (simp only: eqs box wanted option.case Let_def ne if_False)
qed

section \<open>Cursors and selections\<close>

datatype cursor_style = UnderlineStyle | BlockStyle | OtherStyle

definition cursor_style_of :: "qstring \<Rightarrow> cursor_style" where
  "cursor_style_of style =
     (if style = latin ''underline'' then UnderlineStyle
      else if style = latin ''block'' then BlockStyle else OtherStyle)"

definition cursor_paint_rect :: "qrect \<Rightarrow> qstring \<Rightarrow> int \<Rightarrow> int \<Rightarrow> qrect" where
  "cursor_paint_rect character style requested_width requested_height =
     (let line_height = max 1 (r_height character);
        character_width = max (max 1 (r_width character)) requested_width;
        h = clamp requested_height 1 line_height in
      if cursor_style_of style = UnderlineStyle then
        (let thickness = clamp requested_width 1 line_height in
         qrect_sized (r_left character, r_bottom character - thickness + 1) character_width thickness)
      else qrect_sized (r_left character, r_top character + (line_height - h) div 2)
        (if cursor_style_of style = BlockStyle then character_width else requested_width) h)"

definition make_visual_selection_range :: "int \<Rightarrow> int \<Rightarrow> int \<Rightarrow> int \<times> int" where
  "make_visual_selection_range anchor focus text_length =
     (if text_length \<le> 0 then (0, 0)
      else let a = clamp anchor 0 (text_length - 1); f = clamp focus 0 (text_length - 1) in
      (min a f, max a f + 1))"

definition text_visual_mode_consumes_key :: "bool \<Rightarrow> bool \<Rightarrow> bool" where
  "text_visual_mode_consumes_key visual_mode visual_key = (visual_mode \<and> visual_key)"

definition empty_compose_defers_to_message_action :: "bool \<Rightarrow> bool \<Rightarrow> bool \<Rightarrow> bool" where
  "empty_compose_defers_to_message_action compose_active field_empty message_action =
     (\<not> compose_active \<and> field_empty \<and> message_action)"

definition should_add_scanned_link_hint :: "bool \<Rightarrow> bool \<Rightarrow> bool \<Rightarrow> bool" where
  "should_add_scanned_link_hint service_message has_link over_message_text =
     (has_link \<and> (service_message \<or> over_message_text))"

definition should_add_inline_playback_hint :: "bool \<Rightarrow> bool \<Rightarrow> bool \<Rightarrow> bool \<Rightarrow> bool" where
  "should_add_inline_playback_hint voice_or_video media_visible scanned_link direct_link =
     (voice_or_video \<and> media_visible \<and> \<not> scanned_link \<and> direct_link)"

definition should_add_sticker_hint :: "bool \<Rightarrow> bool \<Rightarrow> bool \<Rightarrow> bool" where
  "should_add_sticker_hint sticker media_visible has_link = (sticker \<and> media_visible \<and> has_link)"

definition move_sticker_grid_selection :: "int \<Rightarrow> int \<Rightarrow> int \<Rightarrow> int" where
  "move_sticker_grid_selection selected count delta =
     (if count \<le> 0 \<or> delta = 0 then -1
      else if selected < 0 \<or> selected \<ge> count then 0
      else clamp (selected + delta) 0 (count - 1))"

definition grouped_media_hint_rect :: "qrect \<Rightarrow> qpoint \<Rightarrow> int \<Rightarrow> qrect" where
  "grouped_media_hint_rect r inner item_top =
     (let dx = fst inner; dy = snd inner + item_top in
      \<lparr>r_left = r_left r + dx, r_top = r_top r + dy, r_right = r_right r + dx, r_bottom = r_bottom r + dy\<rparr>)"

text \<open>The loop of \<open>FindTextSelectionLength\<close> over \<open>from\<close> and \<open>till\<close>.\<close>

function selection_search :: "(int \<Rightarrow> bool) \<Rightarrow> int \<Rightarrow> int \<Rightarrow> int" where
  "selection_search has lo hi =
     (if lo < hi then
        (let middle = lo + (hi - lo) div 2 in
         if has middle then selection_search has (middle + 1) hi else selection_search has lo middle)
      else lo)"
  by pat_completeness auto
termination
  by (relation "measure (\<lambda>(has, lo, hi). nat (hi - lo))") (auto simp: Let_def)

declare selection_search.simps [simp del]

definition find_text_selection_length :: "int \<Rightarrow> (int \<Rightarrow> bool) \<Rightarrow> int" where
  "find_text_selection_length upper_bound has = selection_search has 0 (max upper_bound 0)"

text \<open>
  The loops over offsets in one direction: the first offset of \<open>[lo, hi)\<close> from \<open>offset\<close> on that
  satisfies the test, \<open>None\<close> when the loop runs out.
\<close>

function scan_offsets :: "(int \<Rightarrow> bool) \<Rightarrow> bool \<Rightarrow> int \<Rightarrow> int \<Rightarrow> int \<Rightarrow> int option" where
  "scan_offsets p forward lo hi offset =
     (if lo \<le> offset \<and> offset < hi then
        (if p offset then Some offset
         else scan_offsets p forward lo hi (if forward then offset + 1 else offset - 1))
      else None)"
  by pat_completeness auto
termination
  by (relation "measure (\<lambda>(p, forward, lo, hi, offset). nat (if forward then hi - offset else offset - lo + 1))")
    auto

declare scan_offsets.simps [simp del]

definition text_paragraph_offset :: "int \<Rightarrow> int \<Rightarrow> int \<Rightarrow> (int \<Rightarrow> bool) \<Rightarrow> int" where
  "text_paragraph_offset position direction text_length is_break =
     (if text_length \<le> 0 then -1
      else let pos = clamp position 0 (text_length - 1); forward = \<not> direction < 0 in
      case scan_offsets (\<lambda>o'. is_break (o' - 1) \<and> \<not> is_break o') forward 1 text_length
          (if forward then pos + 1 else pos - 1) of
        Some offset \<Rightarrow> offset
      | None \<Rightarrow> if forward then text_length - 1 else 0)"

definition resolve_text_cursor_offset :: "int \<Rightarrow> int \<Rightarrow> int \<Rightarrow> (int \<Rightarrow> bool) \<Rightarrow> int" where
  "resolve_text_cursor_offset wanted direction text_length selectable =
     (if text_length \<le> 0 then -1
      else let w = clamp wanted 0 (text_length - 1); forward = \<not> direction < 0 in
      if selectable w then w
      else case scan_offsets selectable forward 0 text_length (if forward then w + 1 else w - 1) of
        Some offset \<Rightarrow> offset
      | None \<Rightarrow>
          (case scan_offsets selectable (\<not> forward) 0 text_length (if forward then w - 1 else w + 1) of
             Some offset \<Rightarrow> offset
           | None \<Rightarrow> -1))"

section \<open>Searches in the text\<close>

lemma selection_search_spec:
  assumes "lo \<le> hi" and "\<And>i j. lo \<le> i \<Longrightarrow> i \<le> j \<Longrightarrow> j < hi \<Longrightarrow> has j \<Longrightarrow> has i"
  shows "lo \<le> selection_search has lo hi" and "selection_search has lo hi \<le> hi"
    and "\<And>i. lo \<le> i \<Longrightarrow> i < hi \<Longrightarrow> has i \<longleftrightarrow> i < selection_search has lo hi"
proof -
  have "lo \<le> selection_search has lo hi \<and> selection_search has lo hi \<le> hi
    \<and> (\<forall>i. lo \<le> i \<and> i < hi \<longrightarrow> (has i \<longleftrightarrow> i < selection_search has lo hi))"
    using assms
  proof (induction has lo hi rule: selection_search.induct)
    case (1 has lo hi)
    let ?m = "lo + (hi - lo) div 2"
    show ?case
    proof (cases "lo < hi")
      case False
      have "selection_search has lo hi = lo" by (subst selection_search.simps) (rule if_not_P [OF False])
      with 1(3) False show ?thesis by auto
    next
      case True
      have m: "lo \<le> ?m" "?m < hi" using True by linarith+
      show ?thesis
      proof (cases "has ?m")
        case found: True
        have eq: "selection_search has lo hi = selection_search has (?m + 1) hi"
          by (subst selection_search.simps) (simp add: True found Let_def)
        have IH: "?m + 1 \<le> selection_search has (?m + 1) hi \<and> selection_search has (?m + 1) hi \<le> hi
            \<and> (\<forall>i. ?m + 1 \<le> i \<and> i < hi \<longrightarrow> (has i \<longleftrightarrow> i < selection_search has (?m + 1) hi))"
        proof (rule 1(1) [OF True refl found])
          show "?m + 1 \<le> hi" using m by linarith
          show "has i" if "?m + 1 \<le> i" "i \<le> j" "j < hi" "has j" for i j
            using 1(4) [of i j] that m by linarith
        qed
        have "has i" if "lo \<le> i" "i \<le> ?m" for i using 1(4) [OF that m(2) found] .
        moreover have "\<not> i \<le> ?m \<longleftrightarrow> ?m + 1 \<le> i" for i by linarith
        ultimately have "has i \<longleftrightarrow> i < selection_search has (?m + 1) hi" if "lo \<le> i" "i < hi" for i
          using IH that by (cases "i \<le> ?m") auto
        with IH m show ?thesis unfolding eq by (intro conjI allI impI) (linarith | blast)+
      next
        case False
        have eq: "selection_search has lo hi = selection_search has lo ?m"
          by (subst selection_search.simps) (simp add: True False Let_def)
        have IH: "lo \<le> selection_search has lo ?m \<and> selection_search has lo ?m \<le> ?m
            \<and> (\<forall>i. lo \<le> i \<and> i < ?m \<longrightarrow> (has i \<longleftrightarrow> i < selection_search has lo ?m))"
        proof (rule 1(2) [OF True refl False m(1)])
          show "has i" if "lo \<le> i" "i \<le> j" "j < ?m" "has j" for i j
            using 1(4) [of i j] that m by linarith
        qed
        have "\<not> has i" if "?m \<le> i" "i < hi" for i using 1(4) [OF m(1) that] False by blast
        then have "has i \<longleftrightarrow> i < selection_search has lo ?m" if "lo \<le> i" "i < hi" for i
          using IH that by (cases "i < ?m") auto
        with IH m show ?thesis unfolding eq by (intro conjI allI impI) (linarith | blast)+
      qed
    qed
  qed
  then show "lo \<le> selection_search has lo hi" and "selection_search has lo hi \<le> hi"
    and "\<And>i. lo \<le> i \<Longrightarrow> i < hi \<Longrightarrow> has i \<longleftrightarrow> i < selection_search has lo hi" by blast+
qed

text \<open>A scan upwards finds the least match of the rest of the range, a scan downwards the greatest.\<close>

lemma scan_offsets_step:
  "lo \<le> o' \<Longrightarrow> o' < hi \<Longrightarrow> p o' \<Longrightarrow> scan_offsets p forward lo hi o' = Some o'"
  "lo \<le> o' \<Longrightarrow> o' < hi \<Longrightarrow> \<not> p o' \<Longrightarrow>
     scan_offsets p forward lo hi o' = scan_offsets p forward lo hi (if forward then o' + 1 else o' - 1)"
  "\<not> (lo \<le> o' \<and> o' < hi) \<Longrightarrow> scan_offsets p forward lo hi o' = None"
  by (subst scan_offsets.simps; auto)+

definition first_match :: "(int \<Rightarrow> bool) \<Rightarrow> bool \<Rightarrow> int \<Rightarrow> int \<Rightarrow> int \<Rightarrow> int option \<Rightarrow> bool" where
  "first_match p forward lo hi offset r \<longleftrightarrow>
     (let ahead = (\<lambda>z. lo \<le> z \<and> z < hi \<and> (if forward then offset \<le> z else z \<le> offset)) in
      case r of
        None \<Rightarrow> \<forall>z. ahead z \<longrightarrow> \<not> p z
      | Some z \<Rightarrow> ahead z \<and> p z \<and>
          (\<forall>y. ahead y \<and> p y \<longrightarrow> (if forward then z \<le> y else y \<le> z)))"

lemma scan_offsets_up:
  assumes "lo \<le> o'"
  shows "first_match p True lo hi o' (scan_offsets p True lo hi o')"
  using assms
proof (induction "nat (hi - o')" arbitrary: o' rule: less_induct)
  case less
  show ?case
  proof (cases "o' < hi")
    case False
    then show ?thesis by (auto simp: scan_offsets_step(3) first_match_def)
  next
    case True
    show ?thesis
    proof (cases "p o'")
      case p: True
      with True less.prems show ?thesis by (simp add: scan_offsets_step(1) first_match_def)
    next
      case False
      have IH: "first_match p True lo hi (o' + 1) (scan_offsets p True lo hi (o' + 1))"
        using True less.prems by (intro less.hyps) auto
      have "o' \<le> z \<and> p z \<longleftrightarrow> o' + 1 \<le> z \<and> p z" for z using False by (cases "z = o'") auto
      with IH show ?thesis
        using scan_offsets_step(2) [of lo o' hi p True] True False less.prems
        by (auto simp: first_match_def split: option.splits)
    qed
  qed
qed

lemma scan_offsets_down:
  assumes "o' < hi"
  shows "first_match p False lo hi o' (scan_offsets p False lo hi o')"
  using assms
proof (induction "nat (o' - lo + 1)" arbitrary: o' rule: less_induct)
  case less
  show ?case
  proof (cases "lo \<le> o'")
    case False
    then show ?thesis by (auto simp: scan_offsets_step(3) first_match_def)
  next
    case True
    show ?thesis
    proof (cases "p o'")
      case p: True
      with True less.prems show ?thesis by (simp add: scan_offsets_step(1) first_match_def)
    next
      case False
      have IH: "first_match p False lo hi (o' - 1) (scan_offsets p False lo hi (o' - 1))"
        using True less.prems by (intro less.hyps) auto
      have "z \<le> o' \<and> p z \<longleftrightarrow> z \<le> o' - 1 \<and> p z" for z using False by (cases "z = o'") auto
      with IH show ?thesis
        using scan_offsets_step(2) [of lo o' hi p False] True False less.prems
        by (auto simp: first_match_def split: option.splits)
    qed
  qed
qed

definition nearest_selectable :: "int \<Rightarrow> bool \<Rightarrow> int \<Rightarrow> (int \<Rightarrow> bool) \<Rightarrow> int \<Rightarrow> bool" where
  "nearest_selectable w forward len selectable r \<longleftrightarrow>
     (let choices = {z. 0 \<le> z \<and> z < len \<and> selectable z};
        ahead = {z\<in>choices. if forward then w \<le> z else z \<le> w} in
      if choices = {} then r = -1
      else if ahead = {} then r \<in> choices \<and> (\<forall>z\<in>choices. \<bar>r - w\<bar> \<le> \<bar>z - w\<bar>)
      else r \<in> ahead \<and> (\<forall>z\<in>ahead. \<bar>r - w\<bar> \<le> \<bar>z - w\<bar>))"

lemma nearest_from_scans:
  assumes a: "first_match selectable forward 0 len (if forward then w + 1 else w - 1) a"
    and b: "first_match selectable (\<not> forward) 0 len (if forward then w - 1 else w + 1) b"
    and r: "r = (case a of Some z \<Rightarrow> z | None \<Rightarrow> (case b of Some z \<Rightarrow> z | None \<Rightarrow> -1))"
    and w: "\<not> selectable w"
  shows "nearest_selectable w forward len selectable r"
proof -
  have other: "selectable z \<Longrightarrow> z < w \<or> w < z" for z using w by (cases z w rule: linorder_cases) auto
  let ?S = "{z. 0 \<le> z \<and> z < len \<and> selectable z}"
  let ?ahead = "{z\<in>?S. if forward then w \<le> z else z \<le> w}"
  show ?thesis
  proof (cases a)
    case (Some z)
    with a have "z \<in> ?ahead" by (auto simp: first_match_def split: if_splits)
    moreover have "\<bar>z - w\<bar> \<le> \<bar>y - w\<bar>" if "y \<in> ?ahead" for y
      using a Some that other [of y] by (cases forward) (auto simp: first_match_def)
    ultimately show ?thesis using r Some unfolding nearest_selectable_def Let_def by auto
  next
    case None
    have empty: "?ahead = {}"
    proof -
      have "\<not> (0 \<le> y \<and> y < len \<and> selectable y \<and> (if forward then w \<le> y else y \<le> w))" for y
        using a None other [of y] by (cases forward) (auto simp: first_match_def)
      then show ?thesis by blast
    qed
    show ?thesis
    proof (cases b)
      case none: None
      have "\<not> (0 \<le> y \<and> y < len \<and> selectable y)" for y
        using a b None none other [of y] by (cases forward) (auto simp: first_match_def)
      then have "?S = {}" by blast
      with r None none show ?thesis unfolding nearest_selectable_def Let_def by simp
    next
      case (Some z)
      with b have "z \<in> ?S" by (auto simp: first_match_def)
      moreover have "\<bar>z - w\<bar> \<le> \<bar>y - w\<bar>" if "y \<in> ?S" for y
        using b Some that empty other [of y] by (cases forward) (auto simp: first_match_def)
      ultimately show ?thesis using r None Some empty unfolding nearest_selectable_def Let_def by auto
    qed
  qed
qed

text \<open>The cursor lands on a selectable place whenever there is one: on the wanted
  one, else on the nearest in the direction asked for, else on the nearest behind.\<close>

theorem resolve_cursor:
  assumes "0 < len"
  shows "nearest_selectable (clamp wanted 0 (len - 1)) (\<not> direction < 0) len selectable
    (resolve_text_cursor_offset wanted direction len selectable)"
proof -
  let ?w = "clamp wanted 0 (len - 1)" and ?f = "\<not> direction < 0"
  have w: "0 \<le> ?w" "?w < len" using assms clamp_bounds [of 0 "len - 1" wanted] by simp_all
  show ?thesis
  proof (cases "selectable ?w")
    case True
    with w assms show ?thesis
      by (auto simp: nearest_selectable_def resolve_text_cursor_offset_def Let_def)
  next
    case False
    define r where "r = resolve_text_cursor_offset wanted direction len selectable"
    show ?thesis
    proof (cases ?f)
      case True
      let ?A = "scan_offsets selectable True 0 len (?w + 1)" and ?B = "scan_offsets selectable False 0 len (?w - 1)"
      have a: "first_match selectable True 0 len (?w + 1) ?A"
        and b: "first_match selectable False 0 len (?w - 1) ?B"
        using w by (auto intro: scan_offsets_up scan_offsets_down)
      have r: "r = (case ?A of Some z \<Rightarrow> z | None \<Rightarrow> (case ?B of Some z \<Rightarrow> z | None \<Rightarrow> -1))"
        using True False assms by (simp add: r_def resolve_text_cursor_offset_def Let_def cong: option.case_cong)
      have "nearest_selectable ?w True len selectable r"
        by (rule nearest_from_scans) (use a b r False in simp_all)
      with True show ?thesis by (simp add: r_def)
    next
      case down: False
      let ?A = "scan_offsets selectable False 0 len (?w - 1)" and ?B = "scan_offsets selectable True 0 len (?w + 1)"
      have a: "first_match selectable False 0 len (?w - 1) ?A"
        and b: "first_match selectable True 0 len (?w + 1) ?B"
        using w by (auto intro: scan_offsets_up scan_offsets_down)
      have r: "r = (case ?A of Some z \<Rightarrow> z | None \<Rightarrow> (case ?B of Some z \<Rightarrow> z | None \<Rightarrow> -1))"
        using down False assms by (simp add: r_def resolve_text_cursor_offset_def Let_def cong: option.case_cong)
      have "nearest_selectable ?w False len selectable r"
        by (rule nearest_from_scans) (use a b r False in simp_all)
      with down show ?thesis by (simp add: r_def)
    qed
  qed
qed

theorem resolve_cursor_witness:
  "nearest_selectable 2 True 6 (\<lambda>z. z = 0 \<or> z = 5) (resolve_text_cursor_offset 2 1 6 (\<lambda>z. z = 0 \<or> z = 5))"
  using resolve_cursor [of 6 2 1 "\<lambda>z. z = 0 \<or> z = 5"] by (simp add: clamp_def)

text \<open>The binary search returns the number of offsets that have text
  after them, for every test that is true up to some offset and false from it on.\<close>

theorem find_selection_length:
  assumes "\<And>i j. 0 \<le> i \<Longrightarrow> i \<le> j \<Longrightarrow> has j \<Longrightarrow> has i"
  shows "int (card {i. 0 \<le> i \<and> i < upper_bound \<and> has i}) = find_text_selection_length upper_bound has"
proof -
  let ?n = "find_text_selection_length upper_bound has"
  note spec = selection_search_spec [of 0 "max upper_bound 0" has, folded find_text_selection_length_def]
  have n: "0 \<le> ?n" "?n \<le> max upper_bound 0"
    using spec(1,2) assms by auto
  have "{i. 0 \<le> i \<and> i < upper_bound \<and> has i} = {0..<?n}"
  proof (intro equalityI subsetI)
    fix i
    assume i: "i \<in> {i. 0 \<le> i \<and> i < upper_bound \<and> has i}"
    have "has i \<longleftrightarrow> i < ?n" using spec(3) [of i] assms i by auto
    with i show "i \<in> {0..<?n}" by simp
  next
    fix i
    assume i: "i \<in> {0..<?n}"
    have "has i \<longleftrightarrow> i < ?n" using spec(3) [of i] assms i n by auto
    with i n show "i \<in> {i. 0 \<le> i \<and> i < upper_bound \<and> has i}" by auto
  qed
  with n show ?thesis by simp
qed

theorem find_selection_length_witness:
  "int (card {i. 0 \<le> i \<and> i < 9 \<and> i < (4::int)}) = find_text_selection_length 9 (\<lambda>i. i < 4)"
  by (rule find_selection_length) simp

text \<open>A visual selection is a non-empty range of the text that contains
  both ends and nothing outside them, whichever end is the anchor.\<close>

theorem visual_selection_covers:
  assumes "0 < len" and "make_visual_selection_range anchor focus len = (lo, hi)"
  shows "0 \<le> lo \<and> lo < hi \<and> hi \<le> len
    \<and> {lo, hi - 1} = {clamp anchor 0 (len - 1), clamp focus 0 (len - 1)}
    \<and> make_visual_selection_range focus anchor len = (lo, hi)"
  using assms clamp_bounds [of 0 "len - 1" anchor] clamp_bounds [of 0 "len - 1" focus]
  by (auto simp: make_visual_selection_range_def Let_def min_def max_def split: if_splits)

theorem visual_selection_covers_witness:
  "make_visual_selection_range 7 2 5 = (2, 5) \<and> make_visual_selection_range 2 7 5 = (2, 5)"
proof -
  have "make_visual_selection_range 7 2 5 = (2, 5)"
    by (simp add: make_visual_selection_range_def clamp_def)
  with visual_selection_covers [of 5 7 2 2 5] show ?thesis by simp
qed

text \<open>The painted cursor starts at the left edge of the character, is at
  least a pixel high and never leaves its lines vertically, whatever sizes are configured.\<close>

theorem cursor_inside_character:
  assumes "0 < r_height character"
  shows "let c = cursor_paint_rect character style requested_width requested_height in
    r_left c = r_left character \<and> r_top character \<le> r_top c \<and> r_top c \<le> r_bottom c
    \<and> r_bottom c \<le> r_bottom character"
proof -
  define h where "h = r_height character"
  define w where "w = clamp requested_width 1 h"
  define k where "k = clamp requested_height 1 h"
  define m where "m = (h - k) div 2"
  have line: "max 1 (r_height character) = h" using assms by (simp add: h_def)
  have b: "1 \<le> w" "w \<le> h" "1 \<le> k" "k \<le> h"
    using clamp_bounds [of 1 h] assms by (auto simp: h_def w_def k_def)
  have m: "0 \<le> m" "m + k \<le> h" using b unfolding m_def by linarith+
  have bottom: "r_bottom character = r_top character + h - 1" by (simp add: r_height_def h_def)
  have "cursor_paint_rect character style requested_width requested_height =
    (if cursor_style_of style = UnderlineStyle
     then qrect_sized (r_left character, r_bottom character - w + 1)
       (max (max 1 (r_width character)) requested_width) w
     else qrect_sized (r_left character, r_top character + m)
       (if cursor_style_of style = BlockStyle then max (max 1 (r_width character)) requested_width
        else requested_width) k)"
    unfolding cursor_paint_rect_def Let_def line m_def w_def k_def by (rule refl)
  then show ?thesis using b m bottom by (cases "cursor_style_of style = UnderlineStyle") (simp_all add: Let_def)
qed

theorem cursor_inside_character_witness:
  "r_bottom (cursor_paint_rect (qrect_sized (3, 5) 8 16) [] 2 40) \<le> 20"
  using cursor_inside_character [of "qrect_sized (3, 5) 8 16" "[]" 2 40]
  by (simp add: Let_def)

text \<open>The rectangle found for a link contains the point that was hit, stays inside
  the bounds, matches along the row of the point and along both of its side edges, and cannot be
  extended in any of the four directions by the rule that built it.\<close>

theorem link_rect_maximal:
  assumes "r_contains bounds hit" and "found hit" and "r = link_hint_target_rect hit bounds found"
  shows "r_contains r hit
    \<and> r_left bounds \<le> r_left r \<and> r_right r \<le> r_right bounds
    \<and> r_top bounds \<le> r_top r \<and> r_bottom r \<le> r_bottom bounds
    \<and> (\<forall>x. r_left r \<le> x \<and> x \<le> r_right r \<longrightarrow> found (x, snd hit))
    \<and> (\<forall>y. r_top r \<le> y \<and> y \<le> r_bottom r \<longrightarrow> found (r_left r, y) \<and> found (r_right r, y))
    \<and> (r_left r = r_left bounds \<or> \<not> found (r_left r - 1, snd hit))
    \<and> (r_right r = r_right bounds \<or> \<not> found (r_right r + 1, snd hit))
    \<and> (r_top r = r_top bounds
        \<or> \<not> (found (r_left r, r_top r - 1) \<and> found (r_right r, r_top r - 1)))
    \<and> (r_bottom r = r_bottom bounds
        \<or> \<not> (found (r_left r, r_bottom r + 1) \<and> found (r_right r, r_bottom r + 1)))"
  using link_rect_spec(2) [OF assms]
  by (intro conjI link_rect_spec(1) [OF assms] link_rect_spec(3-8) [OF assms]) (elim conjE, assumption)+

theorem link_rect_maximal_witness:
  "r_contains (link_hint_target_rect (2, 2) (qrect_sized (0, 0) 6 6) (\<lambda>p. fst p < 4)) (2, 2)"
proof -
  have "r_contains (qrect_sized (0, 0) 6 6) (2, 2)" by (simp add: r_contains_def)
  then show ?thesis
    by (rule conjunct1 [OF link_rect_maximal [OF _ _ refl, where found = "\<lambda>p. fst p < 4"]]) simp
qed

end
