(* ===== verification/ComposeText.thy ===== *)
theory ComposeText
  imports VimKeyPredicates VimGeometry
begin

text \<open>
  The text field behind the Vim keys of the message composer (\<open>core/vim_keymap_compose.cpp\<close>): key
  recognisers of that file, cursors and lines, the painted cursor with its blinking overlay, and
  \<open>RefreshComposeCursor\<close>.

  A \<open>QTextCursor\<close> is the pair of its anchor and its position. \<open>QTextDocument\<close> (Qt) and
  \<open>Ui::InputField\<close> (a submodule) are not part of the repository: a document is a value of type \<open>'d\<close>
  and what the code asks of it are the fields of the record \<open>text_library\<close>; \<open>'t\<close> is the type of
  \<open>TextWithTags\<close>, which the code only compares. What Qt documents of these functions is the
  predicate \<open>document_laws\<close>, and \<open>plain_library\<close> is an instance of it on plain strings.
  A position counts UTF-16 code units; the document ends at \<open>characterCount() - 1\<close>.
\<close>

abbreviation Key_I :: int where "Key_I \<equiv> 0x49"
abbreviation Key_O :: int where "Key_O \<equiv> 0x4f"
abbreviation Key_P :: int where "Key_P \<equiv> 0x50"
abbreviation Key_R :: int where "Key_R \<equiv> 0x52"
abbreviation Key_X :: int where "Key_X \<equiv> 0x58"

section \<open>Keys of the composer\<close>

text \<open>The table of this file knows fewer keys than the one of the key bindings.\<close>

definition compose_mac_keys :: "(int \<times> int) list" where
  "compose_mac_keys =
    [(Key_A, 0), (Key_B, 11), (Key_C, 8), (Key_D, 2), (Key_E, 14), (Key_G, 5), (Key_H, 4), (Key_I, 34),
     (Key_J, 38), (Key_K, 40), (Key_L, 37), (Key_O, 31), (Key_P, 35), (Key_R, 15), (Key_S, 1), (Key_V, 9),
     (Key_W, 13), (Key_X, 7), (Key_Y, 16)]"

definition compose_mac_virtual_key_is :: "qt_text \<Rightarrow> key_event \<Rightarrow> int \<Rightarrow> bool" where
  "compose_mac_virtual_key_is qt e key =
     (os_mac qt \<and> (case map_of compose_mac_keys key of Some native \<Rightarrow> ev_native_key e = native | None \<Rightarrow> False))"

definition text_key :: "qt_text \<Rightarrow> key_event \<Rightarrow> int \<Rightarrow> qstring \<Rightarrow> qstring \<Rightarrow> bool" where
  "text_key qt e key lat cyr =
     (let text = fold_case qt (ev_text e) in
      ev_key e = key
      \<or> compose_mac_virtual_key_is qt e key
      \<or> (case cyr of [] \<Rightarrow> False | c # _ \<Rightarrow> ev_key e = c \<or> ev_key e = upper_char qt c)
      \<or> text = lat
      \<or> text = cyr)"

definition plain_text_key :: "qt_text \<Rightarrow> key_event \<Rightarrow> int \<Rightarrow> qstring \<Rightarrow> qstring \<Rightarrow> bool" where
  "plain_text_key qt e key lat cyr \<longleftrightarrow> clean_modifiers e = NoModifier \<and> text_key qt e key lat cyr"

definition plain_or_shift_text_key :: "qt_text \<Rightarrow> key_event \<Rightarrow> int \<Rightarrow> qstring \<Rightarrow> qstring \<Rightarrow> bool" where
  "plain_or_shift_text_key qt e key lat cyr \<longleftrightarrow>
     (clean_modifiers e = NoModifier \<or> clean_modifiers e = ShiftModifier) \<and> text_key qt e key lat cyr"

definition shift_text_key :: "qt_text \<Rightarrow> key_event \<Rightarrow> int \<Rightarrow> qstring \<Rightarrow> qstring \<Rightarrow> bool" where
  "shift_text_key qt e key lat cyr \<longleftrightarrow> clean_modifiers e = ShiftModifier \<and> text_key qt e key lat cyr"

definition typed_text :: "key_event \<Rightarrow> qstring \<Rightarrow> bool" where
  "typed_text e text \<longleftrightarrow>
     (clean_modifiers e = NoModifier \<or> clean_modifiers e = ShiftModifier) \<and> ev_text e = text"

definition option_text_key :: "qt_text \<Rightarrow> key_event \<Rightarrow> int \<Rightarrow> qstring \<Rightarrow> qstring \<Rightarrow> bool" where
  "option_text_key qt e key lat cyr \<longleftrightarrow>
     (clean_modifiers e = AltModifier \<or> clean_modifiers e = ControlModifier
      \<or> (os_mac qt \<and> clean_modifiers e = MetaModifier))
     \<and> text_key qt e key lat cyr"

section \<open>Documents and cursors\<close>

type_synonym text_cursor = "int \<times> int"

text \<open>The move operations of \<open>QTextCursor\<close> the code uses.\<close>

datatype move_operation =
  MoveCharLeft | MoveCharRight | MoveLineUp | MoveLineDown | MoveNextWord | MovePreviousWord | MoveEndOfWord
| MovePreviousBlock | MoveNextBlock | MoveStartOfLine | MoveEndOfLine

record ('d, 't) text_library =
  tl_end :: "'d \<Rightarrow> int"
  tl_block :: "'d \<Rightarrow> int \<Rightarrow> int \<times> qstring"
  tl_move :: "move_operation \<Rightarrow> bool \<Rightarrow> 'd \<Rightarrow> text_cursor \<Rightarrow> int \<times> bool"
  tl_word :: "'d \<Rightarrow> int \<Rightarrow> text_cursor"
  tl_selected_text :: "'d \<Rightarrow> int \<Rightarrow> int \<Rightarrow> qstring"
  tl_remove :: "'d \<Rightarrow> int \<Rightarrow> int \<Rightarrow> 'd"
  tl_insert :: "'d \<Rightarrow> text_cursor \<Rightarrow> qstring \<Rightarrow> 'd \<times> int"
  tl_delete_char :: "'d \<Rightarrow> int \<Rightarrow> 'd"
  tl_copy :: "'d \<Rightarrow> int \<Rightarrow> int \<Rightarrow> qstring"
  tl_paste :: "'d \<Rightarrow> text_cursor \<Rightarrow> qstring \<Rightarrow> 'd \<times> int"
  tl_undo_available :: "'d \<Rightarrow> bool"
  tl_redo_available :: "'d \<Rightarrow> bool"
  tl_undo :: "'d \<Rightarrow> 'd \<times> text_cursor"
  tl_redo :: "'d \<Rightarrow> 'd \<times> text_cursor"
  tl_tagged :: "'d \<Rightarrow> 't"
  tl_empty :: "'d \<Rightarrow> bool"
  tl_has_text :: "'d \<Rightarrow> bool"
  tl_revision :: "'d \<Rightarrow> int"
  tl_is_space :: "int \<Rightarrow> bool"
  tl_is_upper :: "int \<Rightarrow> bool"
  tl_lower :: "int \<Rightarrow> int"

definition cursor_has_selection :: "text_cursor \<Rightarrow> bool" where
  "cursor_has_selection c \<longleftrightarrow> fst c \<noteq> snd c"

definition selection_start :: "text_cursor \<Rightarrow> int" where
  "selection_start c = min (fst c) (snd c)"

definition selection_end :: "text_cursor \<Rightarrow> int" where
  "selection_end c = max (fst c) (snd c)"

definition clear_selection :: "text_cursor \<Rightarrow> text_cursor" where
  "clear_selection c = (snd c, snd c)"

definition set_position :: "int \<Rightarrow> bool \<Rightarrow> text_cursor \<Rightarrow> text_cursor" where
  "set_position p keep c = (if keep then fst c else p, p)"

definition move_position ::
  "('d, 't) text_library \<Rightarrow> move_operation \<Rightarrow> bool \<Rightarrow> 'd \<Rightarrow> text_cursor \<Rightarrow> text_cursor \<times> bool" where
  "move_position lib operation keep d c =
     (let (p, moved) = tl_move lib operation keep d c in (set_position p keep c, moved))"

section \<open>Lines\<close>

abbreviation line_separator :: int where "line_separator \<equiv> 0x2028"

text \<open>\<open>QString::lastIndexOf\<close> and \<open>QString::indexOf\<close> for one character and a start inside the string.\<close>

definition last_index_of :: "qstring \<Rightarrow> int \<Rightarrow> int \<Rightarrow> int" where
  "last_index_of s c from' =
     (case find (\<lambda>i. s ! i = c) (rev [0..<min (nat (from' + 1)) (length s)]) of Some i \<Rightarrow> int i | None \<Rightarrow> -1)"

definition index_of :: "qstring \<Rightarrow> int \<Rightarrow> int \<Rightarrow> int" where
  "index_of s c from' = (case find (\<lambda>i. s ! i = c) [nat from'..<length s] of Some i \<Rightarrow> int i | None \<Rightarrow> -1)"

definition compose_line_at :: "('d, 't) text_library \<Rightarrow> 'd \<Rightarrow> text_cursor \<Rightarrow> int \<times> int" where
  "compose_line_at lib d c =
     (let (block, text) = tl_block lib d (snd c);
          offset = snd c - block;
          before = (if offset > 0 then last_index_of text line_separator (offset - 1) else -1);
          after = index_of text line_separator offset in
      (block + before + 1, block + (if after \<ge> 0 then after else int (length text))))"

definition normalize_compose_cursor :: "('d, 't) text_library \<Rightarrow> 'd \<Rightarrow> text_cursor \<Rightarrow> text_cursor \<times> bool" where
  "normalize_compose_cursor lib d c =
     (if cursor_has_selection c then (c, False)
      else let (first, last') = compose_line_at lib d c in
      if first = last' \<or> snd c \<noteq> last' then (c, False)
      else (set_position (last' - 1) False c, True))"

definition line_last_character_position :: "('d, 't) text_library \<Rightarrow> 'd \<Rightarrow> text_cursor \<Rightarrow> int" where
  "line_last_character_position lib d c =
     (let (first, last') = compose_line_at lib d c in max first (last' - 1))"

text \<open>The loop of \<open>currentLineFirstNonBlank\<close>, over the characters from the start of the line to its end.\<close>

fun skip_blanks :: "(int \<Rightarrow> bool) \<Rightarrow> qstring \<Rightarrow> int \<Rightarrow> int" where
  "skip_blanks is_space [] position = position"
| "skip_blanks is_space (ch # chs) position =
     (if is_space ch then skip_blanks is_space chs (position + 1) else position)"

definition line_first_non_blank :: "('d, 't) text_library \<Rightarrow> 'd \<Rightarrow> text_cursor \<Rightarrow> int" where
  "line_first_non_blank lib d c =
     (let (first, last') = compose_line_at lib d c;
          (block, text) = tl_block lib d (snd c) in
      skip_blanks (tl_is_space lib) (take (nat (last' - first)) (drop (nat (first - block)) text)) first)"

section \<open>The painted cursor\<close>

definition compose_paint_cursor :: "('d, 't) text_library \<Rightarrow> 'd \<Rightarrow> text_cursor \<Rightarrow> bool \<Rightarrow> text_cursor" where
  "compose_paint_cursor lib d c visual =
     (if visual \<and> cursor_has_selection c \<and> snd c > fst c then set_position (max 0 (snd c - 1)) False c
      else if \<not> visual then fst (normalize_compose_cursor lib d c)
      else c)"

definition compose_cursor_text :: "('d, 't) text_library \<Rightarrow> 'd \<Rightarrow> text_cursor \<Rightarrow> qstring" where
  "compose_cursor_text lib d c =
     (let maximum = max 0 (tl_end lib d) in
      if snd c \<ge> maximum then []
      else let c1 = fst (move_position lib MoveCharRight True d (clear_selection c));
               result = tl_selected_text lib d (selection_start c1) (selection_end c1) in
      if result = [0x2028] \<or> result = [0x2029] \<or> result = [0xFFFC] then [] else result)"

text \<open>The overlay that paints the cursor: whether it is active, and the timer that makes it blink
  (\<open>None\<close> while stopped, else its interval).\<close>

record compose_overlay =
  ov_active :: bool
  ov_visual :: bool
  ov_blink_visible :: bool
  ov_blink_timer :: "int option"
  ov_shown :: bool

definition new_overlay :: compose_overlay where
  "new_overlay = \<lparr>ov_active = False, ov_visual = False, ov_blink_visible = True, ov_blink_timer = None,
     ov_shown = False\<rparr>"

definition overlay_refresh_blink :: "keymap \<Rightarrow> compose_overlay \<Rightarrow> compose_overlay" where
  "overlay_refresh_blink km ov =
     (let blink = compose_cursor_blink km in
      if \<not> ov_active ov \<or> blink \<le> 0 then ov\<lparr>ov_blink_timer := None, ov_blink_visible := True\<rparr>
      else if ov_blink_timer ov \<noteq> Some blink then ov\<lparr>ov_blink_timer := Some blink\<rparr>
      else ov)"

definition overlay_set_active :: "keymap \<Rightarrow> bool \<Rightarrow> bool \<Rightarrow> compose_overlay \<Rightarrow> compose_overlay" where
  "overlay_set_active km active visual ov =
     overlay_refresh_blink km
       (if ov_active ov \<noteq> active \<or> ov_visual ov \<noteq> visual
        then ov\<lparr>ov_active := active, ov_visual := visual, ov_blink_visible := True, ov_shown := active\<rparr>
        else ov)"

definition overlay_reset_blink :: "keymap \<Rightarrow> compose_overlay \<Rightarrow> compose_overlay" where
  "overlay_reset_blink km ov = overlay_refresh_blink km (ov\<lparr>ov_blink_visible := True\<rparr>)"

definition overlay_timeout :: "compose_overlay \<Rightarrow> compose_overlay" where
  "overlay_timeout ov = ov\<lparr>ov_blink_visible := \<not> ov_blink_visible ov\<rparr>"

section \<open>What Qt documents\<close>

definition cursor_in :: "('d, 't) text_library \<Rightarrow> 'd \<Rightarrow> text_cursor \<Rightarrow> bool" where
  "cursor_in lib d c \<longleftrightarrow> 0 \<le> fst c \<and> fst c \<le> tl_end lib d \<and> 0 \<le> snd c \<and> snd c \<le> tl_end lib d"

definition document_laws :: "('d, 't) text_library \<Rightarrow> bool" where
  "document_laws lib \<longleftrightarrow>
     (\<forall>d. 0 \<le> tl_end lib d)
     \<and> (\<forall>d p. 0 \<le> p \<and> p \<le> tl_end lib d \<longrightarrow>
         0 \<le> fst (tl_block lib d p) \<and> fst (tl_block lib d p) \<le> p
         \<and> p \<le> fst (tl_block lib d p) + int (length (snd (tl_block lib d p)))
         \<and> fst (tl_block lib d p) + int (length (snd (tl_block lib d p))) \<le> tl_end lib d)
     \<and> (\<forall>m keep d c. cursor_in lib d c \<longrightarrow>
         0 \<le> fst (tl_move lib m keep d c) \<and> fst (tl_move lib m keep d c) \<le> tl_end lib d)
     \<and> (\<forall>d p. 0 \<le> p \<and> p \<le> tl_end lib d \<longrightarrow> cursor_in lib d (tl_word lib d p))
     \<and> (\<forall>d a b. 0 \<le> a \<and> a \<le> b \<and> b \<le> tl_end lib d \<longrightarrow> tl_end lib (tl_remove lib d a b) = tl_end lib d - (b - a))
     \<and> (\<forall>d c t. cursor_in lib d c \<longrightarrow>
         0 \<le> snd (tl_insert lib d c t) \<and> snd (tl_insert lib d c t) \<le> tl_end lib (fst (tl_insert lib d c t)))
     \<and> (\<forall>d c t. cursor_in lib d c \<longrightarrow>
         0 \<le> snd (tl_paste lib d c t) \<and> snd (tl_paste lib d c t) \<le> tl_end lib (fst (tl_paste lib d c t)))
     \<and> (\<forall>d. cursor_in lib (fst (tl_undo lib d)) (snd (tl_undo lib d)))
     \<and> (\<forall>d. cursor_in lib (fst (tl_redo lib d)) (snd (tl_redo lib d)))
     \<and> (\<forall>d c. cursor_in lib d c \<longrightarrow> snd c \<le> tl_end lib (tl_delete_char lib d (snd c)))
     \<and> (\<forall>d p. tl_tagged lib (tl_delete_char lib d p) = tl_tagged lib d \<longrightarrow> tl_delete_char lib d p = d)"

section \<open>A document that satisfies the laws\<close>

text \<open>Plain text with the paragraph separator between blocks, no undo history, words between spaces, and
  up and down at the starts of the neighbouring blocks: it shows that the laws can hold and lets the
  witnesses evaluate the handler.\<close>

definition plain_block :: "qstring \<Rightarrow> int \<Rightarrow> int \<times> qstring" where
  "plain_block d p =
     (let b = last_index_of d 0x2029 (p - 1) + 1; e = index_of d 0x2029 p in
      (b, take (nat ((if e \<ge> 0 then e else int (length d)) - b)) (drop (nat b) d)))"

definition plain_until :: "qstring \<Rightarrow> int \<Rightarrow> int \<Rightarrow> int" where
  "plain_until d c p = (if index_of d c p \<ge> 0 then index_of d c p else int (length d))"

definition plain_move :: "move_operation \<Rightarrow> bool \<Rightarrow> qstring \<Rightarrow> text_cursor \<Rightarrow> int \<times> bool" where
  "plain_move m keep d c =
     (let p = snd c; n = int (length d); b = last_index_of d 0x2029 (p - 1) + 1; e = plain_until d 0x2029 p;
          q = (case m of
             MoveCharLeft \<Rightarrow> max 0 (p - 1) | MoveCharRight \<Rightarrow> min n (p + 1)
           | MoveStartOfLine \<Rightarrow> b | MoveEndOfLine \<Rightarrow> e
           | MoveLineUp \<Rightarrow> last_index_of d 0x2029 (b - 2) + 1 | MovePreviousBlock \<Rightarrow> last_index_of d 0x2029 (b - 2) + 1
           | MoveLineDown \<Rightarrow> min n (e + 1) | MoveNextBlock \<Rightarrow> min n (e + 1)
           | MoveNextWord \<Rightarrow> min n (plain_until d 0x20 p + 1)
           | MovePreviousWord \<Rightarrow> last_index_of d 0x20 (p - 2) + 1
           | MoveEndOfWord \<Rightarrow> min n (plain_until d 0x20 (p + 1))) in
      (q, q \<noteq> p))"

definition plain_remove :: "qstring \<Rightarrow> int \<Rightarrow> int \<Rightarrow> qstring" where
  "plain_remove d a b = take (nat a) d @ drop (nat b) d"

definition plain_insert :: "qstring \<Rightarrow> text_cursor \<Rightarrow> qstring \<Rightarrow> qstring \<times> int" where
  "plain_insert d c t =
     (take (nat (selection_start c)) d @ map (\<lambda>ch. if ch = 0x0A then 0x2029 else ch) t @ drop (nat (selection_end c)) d,
      selection_start c + int (length t))"

definition plain_selected :: "qstring \<Rightarrow> int \<Rightarrow> int \<Rightarrow> qstring" where
  "plain_selected d a b = take (nat (b - a)) (drop (nat a) d)"

definition plain_library :: "(qstring, qstring) text_library" where
  "plain_library = \<lparr>tl_end = (\<lambda>d. int (length d)), tl_block = plain_block, tl_move = plain_move,
     tl_word = (\<lambda>d p. (last_index_of d 0x20 (p - 1) + 1, plain_until d 0x20 p)),
     tl_selected_text = plain_selected, tl_remove = plain_remove, tl_insert = plain_insert,
     tl_delete_char = (\<lambda>d p. take (nat p) d @ drop (nat (p + 1)) d),
     tl_copy = plain_selected, tl_paste = plain_insert,
     tl_undo_available = (\<lambda>_. False), tl_redo_available = (\<lambda>_. False),
     tl_undo = (\<lambda>d. (d, (0, 0))), tl_redo = (\<lambda>d. (d, (0, 0))),
     tl_tagged = (\<lambda>d. d), tl_empty = (\<lambda>d. d = []), tl_has_text = (\<lambda>d. d \<noteq> []), tl_revision = (\<lambda>d. int (length d)),
     tl_is_space = (\<lambda>c. c = 0x20), tl_is_upper = (\<lambda>c. 0x41 \<le> c \<and> c \<le> 0x5a),
     tl_lower = (\<lambda>c. if 0x41 \<le> c \<and> c \<le> 0x5a then c + 0x20 else c)\<rparr>"

section \<open>Separators before and after a position\<close>

lemma last_index_of_cases:
  obtains "last_index_of s c from' = -1" "\<And>i. int i \<le> from' \<Longrightarrow> i < length s \<Longrightarrow> s ! i \<noteq> c"
  | i where "last_index_of s c from' = int i" "i < length s" "int i \<le> from'" "s ! i = c"
      "\<And>j. i < j \<Longrightarrow> int j \<le> from' \<Longrightarrow> j < length s \<Longrightarrow> s ! j \<noteq> c"
proof (cases "find (\<lambda>i. s ! i = c) (rev [0..<min (nat (from' + 1)) (length s)])")
  case None
  have "last_index_of s c from' = -1" using None by (simp add: last_index_of_def)
  moreover have "s ! i \<noteq> c" if "int i \<le> from'" "i < length s" for i
    using None that by (auto simp: find_None_iff)
  ultimately show thesis by (rule that(1))
next
  case (Some i)
  define n where "n = min (nat (from' + 1)) (length s)"
  obtain k where k: "k < n" "s ! (rev [0..<n] ! k) = c" "i = rev [0..<n] ! k"
    "\<And>j. j < k \<Longrightarrow> s ! (rev [0..<n] ! j) \<noteq> c"
    using Some unfolding find_Some_iff n_def [symmetric] by auto
  have i: "i = n - Suc k" using k(1,3) by (simp add: rev_nth)
  have "s ! j \<noteq> c" if "i < j" "int j \<le> from'" "j < length s" for j
  proof -
    have "j < n" using that(2,3) by (simp add: n_def)
    then show ?thesis using k(1) k(4) [of "n - Suc j"] that(1) i by (simp add: rev_nth)
  qed
  moreover have "i < length s" "int i \<le> from'" using i k(1) by (auto simp: n_def)
  moreover have "s ! i = c" using k(2,3) by simp
  moreover have "last_index_of s c from' = int i" using Some by (simp add: last_index_of_def)
  ultimately show thesis by (intro that(2))
qed

lemma index_of_cases:
  assumes "0 \<le> from'"
  obtains "index_of s c from' = -1" "\<And>i. from' \<le> int i \<Longrightarrow> i < length s \<Longrightarrow> s ! i \<noteq> c"
  | i where "index_of s c from' = int i" "i < length s" "from' \<le> int i" "s ! i = c"
      "\<And>j. from' \<le> int j \<Longrightarrow> j < i \<Longrightarrow> s ! j \<noteq> c"
proof (cases "find (\<lambda>i. s ! i = c) [nat from'..<length s]")
  case None
  have "index_of s c from' = -1" using None by (simp add: index_of_def)
  moreover have "s ! i \<noteq> c" if "from' \<le> int i" "i < length s" for i
    using None that by (auto simp: find_None_iff)
  ultimately show thesis by (rule that(1))
next
  case (Some i)
  obtain k where k: "k < length s - nat from'" "s ! ([nat from'..<length s] ! k) = c"
    "i = [nat from'..<length s] ! k" "\<And>j. j < k \<Longrightarrow> s ! ([nat from'..<length s] ! j) \<noteq> c"
    using Some unfolding find_Some_iff by auto
  have i: "i = nat from' + k" using k(1,3) by simp
  have "s ! j \<noteq> c" if "from' \<le> int j" "j < i" for j
    using k(1) k(4) [of "j - nat from'"] that i by auto
  then show thesis using Some i k assms by (intro that(2) [of i]) (auto simp: index_of_def)
qed

lemma last_index_of_between:
  "-1 \<le> last_index_of s c from' \<and> last_index_of s c from' < int (length s)
    \<and> (last_index_of s c from' \<le> from' \<or> from' < -1)"
proof (cases rule: last_index_of_cases [of s c from'])
  case 1 show ?thesis using 1(1) by (simp; linarith)
next
  case (2 i) show ?thesis using 2(1-3) by simp
qed

lemmas last_index_of_bounds =
  last_index_of_between [THEN conjunct1]
  last_index_of_between [THEN conjunct2, THEN conjunct1]
  last_index_of_between [THEN conjunct2, THEN conjunct2]

lemma plain_until_between:
  assumes "0 \<le> p" and "p \<le> int (length d)"
  shows "p \<le> plain_until d c p \<and> plain_until d c p \<le> int (length d)"
proof (cases rule: index_of_cases [OF assms(1), of d c])
  case 1 show ?thesis using 1(1) assms by (simp add: plain_until_def)
next
  case (2 i) show ?thesis using 2(1-3) by (simp add: plain_until_def)
qed

lemmas plain_until_bounds = plain_until_between [THEN conjunct1] plain_until_between [THEN conjunct2]

lemma plain_block_bounds:
  assumes "0 \<le> p" and "p \<le> int (length d)"
  shows "0 \<le> fst (plain_block d p)" and "fst (plain_block d p) \<le> p"
    and "p \<le> fst (plain_block d p) + int (length (snd (plain_block d p)))"
    and "fst (plain_block d p) + int (length (snd (plain_block d p))) \<le> int (length d)"
proof -
  have b: "-1 \<le> last_index_of d 0x2029 (p - 1)" "last_index_of d 0x2029 (p - 1) \<le> p - 1"
    using last_index_of_bounds [of d "0x2029" "p - 1"] assms(1) by auto
  have e: "p \<le> plain_until d 0x2029 p" "plain_until d 0x2029 p \<le> int (length d)"
    using plain_until_bounds [OF assms] by auto
  have block: "plain_block d p = (last_index_of d 0x2029 (p - 1) + 1,
      take (nat (plain_until d 0x2029 p - (last_index_of d 0x2029 (p - 1) + 1)))
        (drop (nat (last_index_of d 0x2029 (p - 1) + 1)) d))"
    by (simp add: plain_block_def plain_until_def Let_def)
  show "0 \<le> fst (plain_block d p)" "fst (plain_block d p) \<le> p"
    "p \<le> fst (plain_block d p) + int (length (snd (plain_block d p)))"
    "fst (plain_block d p) + int (length (snd (plain_block d p))) \<le> int (length d)"
    using b e by (simp_all add: block)
qed

lemma plain_until_any: "0 \<le> plain_until d c p"
  by (simp add: plain_until_def)

lemma plain_move_bounds:
  assumes "0 \<le> snd c" and "snd c \<le> int (length d)"
  shows "0 \<le> fst (plain_move m keep d c) \<and> fst (plain_move m keep d c) \<le> int (length d)"
proof -
  note before = last_index_of_bounds(1,2) [of d]
  have upto: "0 \<le> plain_until d x p \<and> plain_until d x p \<le> int (length d)" if "0 \<le> p" "p \<le> int (length d)" for x p
    using plain_until_bounds [OF that, of x] that by simp
  show ?thesis
    using upto [OF assms] assms before [of "0x2029" "snd c - 1"] before [of "0x20" "snd c - 2"]
      before [of "0x2029" "last_index_of d 0x2029 (snd c - 1) + 1 - 2"] plain_until_any [of d "0x20" "snd c + 1"]
      upto [OF assms, of "0x2029"] upto [OF assms, of "0x20"]
    by (cases m) (simp_all add: plain_move_def Let_def)
qed

lemma plain_insert_bounds:
  assumes "0 \<le> fst c" "fst c \<le> int (length d)" "0 \<le> snd c" "snd c \<le> int (length d)"
  shows "0 \<le> snd (plain_insert d c t) \<and> snd (plain_insert d c t) \<le> int (length (fst (plain_insert d c t)))"
  using assms by (simp add: plain_insert_def selection_start_def selection_end_def min_def max_def)

lemma plain_word_bounds:
  "0 \<le> last_index_of d 0x20 p + 1" "last_index_of d 0x20 p + 1 \<le> int (length d)"
  using last_index_of_bounds(1,2) [of d "0x20" p] by simp_all

lemma plain_library_laws: "document_laws plain_library"
  unfolding document_laws_def
proof (intro conjI allI impI; (elim conjE)?)
  fix d :: qstring and c
  assume "cursor_in plain_library d c"
  then show "snd c \<le> tl_end plain_library (tl_delete_char plain_library d (snd c))"
    by (auto simp: plain_library_def cursor_in_def)
next
  fix d :: qstring and p
  show "tl_tagged plain_library (tl_delete_char plain_library d p) = tl_tagged plain_library d
    \<Longrightarrow> tl_delete_char plain_library d p = d"
    by (simp add: plain_library_def)
qed (auto simp: plain_library_def cursor_in_def plain_block_bounds plain_move_bounds plain_insert_bounds
    plain_remove_def plain_until_bounds plain_until_any
    plain_word_bounds)

lemma document_law:
  assumes "document_laws lib"
  shows "0 \<le> tl_end lib d"
    and "cursor_in lib d c \<Longrightarrow> 0 \<le> fst (tl_move lib m keep d c) \<and> fst (tl_move lib m keep d c) \<le> tl_end lib d"
    and "0 \<le> p \<Longrightarrow> p \<le> tl_end lib d \<Longrightarrow> cursor_in lib d (tl_word lib d p)"
    and "0 \<le> a \<Longrightarrow> a \<le> b \<Longrightarrow> b \<le> tl_end lib d \<Longrightarrow> tl_end lib (tl_remove lib d a b) = tl_end lib d - (b - a)"
    and "cursor_in lib d c \<Longrightarrow>
      0 \<le> snd (tl_insert lib d c t) \<and> snd (tl_insert lib d c t) \<le> tl_end lib (fst (tl_insert lib d c t))"
    and "cursor_in lib d c \<Longrightarrow>
      0 \<le> snd (tl_paste lib d c t) \<and> snd (tl_paste lib d c t) \<le> tl_end lib (fst (tl_paste lib d c t))"
    and "cursor_in lib (fst (tl_undo lib d)) (snd (tl_undo lib d))"
    and "cursor_in lib (fst (tl_redo lib d)) (snd (tl_redo lib d))"
    and "cursor_in lib d c \<Longrightarrow> snd c \<le> tl_end lib (tl_delete_char lib d (snd c))"
    and "tl_tagged lib (tl_delete_char lib d p) = tl_tagged lib d \<Longrightarrow> tl_delete_char lib d p = d"
proof -
  note law = assms [unfolded document_laws_def]
  note l1 = law [THEN conjunct1] and r1 = law [THEN conjunct2, THEN conjunct2]
  note l3 = r1 [THEN conjunct1] and r3 = r1 [THEN conjunct2]
  note l4 = r3 [THEN conjunct1] and r4 = r3 [THEN conjunct2]
  note l5 = r4 [THEN conjunct1] and r5 = r4 [THEN conjunct2]
  note l6 = r5 [THEN conjunct1] and r6 = r5 [THEN conjunct2]
  note l7 = r6 [THEN conjunct1] and r7 = r6 [THEN conjunct2]
  note l8 = r7 [THEN conjunct1] and r8 = r7 [THEN conjunct2]
  note l9 = r8 [THEN conjunct1] and r9 = r8 [THEN conjunct2]
  show "0 \<le> tl_end lib d" by (rule l1 [rule_format])
  show "cursor_in lib d c \<Longrightarrow> 0 \<le> fst (tl_move lib m keep d c) \<and> fst (tl_move lib m keep d c) \<le> tl_end lib d"
    by (rule l3 [rule_format])
  show "0 \<le> p \<Longrightarrow> p \<le> tl_end lib d \<Longrightarrow> cursor_in lib d (tl_word lib d p)"
    by (rule l4 [rule_format]) (rule conjI)
  show "0 \<le> a \<Longrightarrow> a \<le> b \<Longrightarrow> b \<le> tl_end lib d \<Longrightarrow> tl_end lib (tl_remove lib d a b) = tl_end lib d - (b - a)"
    by (rule l5 [rule_format]) (intro conjI)
  show "cursor_in lib d c \<Longrightarrow>
      0 \<le> snd (tl_insert lib d c t) \<and> snd (tl_insert lib d c t) \<le> tl_end lib (fst (tl_insert lib d c t))"
    by (rule l6 [rule_format])
  show "cursor_in lib d c \<Longrightarrow>
      0 \<le> snd (tl_paste lib d c t) \<and> snd (tl_paste lib d c t) \<le> tl_end lib (fst (tl_paste lib d c t))"
    by (rule l7 [rule_format])
  show "cursor_in lib (fst (tl_undo lib d)) (snd (tl_undo lib d))" by (rule l8 [rule_format])
  show "cursor_in lib (fst (tl_redo lib d)) (snd (tl_redo lib d))" by (rule l9 [rule_format])
  show "cursor_in lib d c \<Longrightarrow> snd c \<le> tl_end lib (tl_delete_char lib d (snd c))"
    by (rule r9 [THEN conjunct1, rule_format])
  show "tl_tagged lib (tl_delete_char lib d p) = tl_tagged lib d \<Longrightarrow> tl_delete_char lib d p = d"
    by (rule r9 [THEN conjunct2, rule_format])
qed

section \<open>Lines lie in the document\<close>

lemma block_bounds:
  assumes "document_laws lib" and "0 \<le> p" and "p \<le> tl_end lib d"
  shows "0 \<le> fst (tl_block lib d p)" and "fst (tl_block lib d p) \<le> p"
    and "p \<le> fst (tl_block lib d p) + int (length (snd (tl_block lib d p)))"
    and "fst (tl_block lib d p) + int (length (snd (tl_block lib d p))) \<le> tl_end lib d"
  using assms by (simp_all add: document_laws_def)

definition line_before :: "qstring \<Rightarrow> int \<Rightarrow> int" where
  "line_before t offset = (if offset > 0 then last_index_of t line_separator (offset - 1) else -1)"

definition line_after :: "qstring \<Rightarrow> int \<Rightarrow> int" where
  "line_after t offset =
     (if index_of t line_separator offset \<ge> 0 then index_of t line_separator offset else int (length t))"

lemma compose_line_at_split:
  "compose_line_at lib d c =
     (fst (tl_block lib d (snd c)) + line_before (snd (tl_block lib d (snd c))) (snd c - fst (tl_block lib d (snd c))) + 1,
      fst (tl_block lib d (snd c)) + line_after (snd (tl_block lib d (snd c))) (snd c - fst (tl_block lib d (snd c))))"
  by (simp add: compose_line_at_def line_before_def line_after_def Let_def split_beta)

lemma line_before_cases:
  assumes "0 \<le> offset" and "offset \<le> int (length t)"
  shows "-1 \<le> line_before t offset \<and> line_before t offset < offset
    \<and> (line_before t offset = -1 \<or> t ! nat (line_before t offset) = line_separator)
    \<and> (\<forall>i. line_before t offset < int i \<and> int i < offset \<longrightarrow> t ! i \<noteq> line_separator)"
proof (cases "0 < offset")
  case False then show ?thesis using assms by (simp add: line_before_def)
next
  case True
  then have before: "line_before t offset = last_index_of t line_separator (offset - 1)"
    by (simp add: line_before_def)
  show ?thesis
  proof (cases rule: last_index_of_cases [of t line_separator "offset - 1"])
    case 1
    have "t ! i \<noteq> line_separator" if "int i < offset" for i using 1(2) [of i] that assms(2) by simp
    then show ?thesis using 1(1) True by (simp add: before)
  next
    case (2 i)
    have "t ! j \<noteq> line_separator" if "i < j" "int j < offset" for j using 2(5) [of j] that assms(2) by simp
    then show ?thesis using 2(1-4) by (simp add: before)
  qed
qed

lemma line_after_cases:
  assumes "0 \<le> offset" and "offset \<le> int (length t)"
  shows "offset \<le> line_after t offset \<and> line_after t offset \<le> int (length t)
    \<and> (line_after t offset = int (length t) \<or> t ! nat (line_after t offset) = line_separator)
    \<and> (\<forall>i. offset \<le> int i \<and> int i < line_after t offset \<longrightarrow> t ! i \<noteq> line_separator)"
proof (cases rule: index_of_cases [OF assms(1), of t line_separator])
  case 1
  have "t ! i \<noteq> line_separator" if "offset \<le> int i" "i < length t" for i using 1(2) that by blast
  then show ?thesis using 1(1) assms(2) by (simp add: line_after_def)
next
  case (2 i)
  have "t ! j \<noteq> line_separator" if "offset \<le> int j" "j < i" for j using 2(5) that by blast
  then show ?thesis using 2(1-4) by (simp add: line_after_def)
qed

lemma compose_line_bounds:
  assumes "document_laws lib" and "0 \<le> snd c" and "snd c \<le> tl_end lib d"
  shows "0 \<le> fst (compose_line_at lib d c)" and "fst (compose_line_at lib d c) \<le> snd c"
    and "snd c \<le> snd (compose_line_at lib d c)" and "snd (compose_line_at lib d c) \<le> tl_end lib d"
proof -
  let ?b = "fst (tl_block lib d (snd c))" and ?t = "snd (tl_block lib d (snd c))"
  note b = block_bounds [OF assms]
  have offset: "0 \<le> snd c - ?b" "snd c - ?b \<le> int (length ?t)" using b by linarith+
  have before: "-1 \<le> line_before ?t (snd c - ?b)" "line_before ?t (snd c - ?b) < snd c - ?b"
    using line_before_cases [OF offset] by blast+
  have after: "snd c - ?b \<le> line_after ?t (snd c - ?b)" "line_after ?t (snd c - ?b) \<le> int (length ?t)"
    using line_after_cases [OF offset] by blast+
  show "0 \<le> fst (compose_line_at lib d c)" "fst (compose_line_at lib d c) \<le> snd c"
    "snd c \<le> snd (compose_line_at lib d c)" "snd (compose_line_at lib d c) \<le> tl_end lib d"
    unfolding compose_line_at_split fst_conv snd_conv using b before after by linarith+
qed

text \<open>The line of a cursor is the stretch of its block around the cursor that holds no
  line separator and is closed on either side by a separator or by the end of the block.\<close>

theorem line_at_cursor:
  assumes "document_laws lib" and "0 \<le> p" and "p \<le> tl_end lib d"
    and "tl_block lib d p = (b, t)" and "compose_line_at lib d (a, p) = (first, last')"
  shows "b \<le> first \<and> first \<le> p \<and> p \<le> last' \<and> last' \<le> b + int (length t)
    \<and> (\<forall>i. first \<le> b + int i \<and> b + int i < last' \<longrightarrow> t ! i \<noteq> line_separator)
    \<and> (first = b \<or> t ! nat (first - 1 - b) = line_separator)
    \<and> (last' = b + int (length t) \<or> t ! nat (last' - b) = line_separator)"
proof -
  have offset: "0 \<le> p - b" "p - b \<le> int (length t)"
    using block_bounds(2,3) [OF assms(1-3)] assms(4) by auto
  have line: "first = b + line_before t (p - b) + 1" "last' = b + line_after t (p - b)"
    using assms(4,5) by (simp_all add: compose_line_at_split)
  note before = line_before_cases [OF offset] and after = line_after_cases [OF offset]
  have "t ! i \<noteq> line_separator" if "first \<le> b + int i" "b + int i < last'" for i
  proof (cases "int i < p - b")
    case True
    moreover have "line_before t (p - b) < int i" using that(1) line by linarith
    ultimately show ?thesis using before by blast
  next
    case False
    moreover have "int i < line_after t (p - b)" using that(2) line by linarith
    ultimately show ?thesis using after by auto
  qed
  moreover have "first = b \<or> t ! nat (first - 1 - b) = line_separator"
    using before by (auto simp: line)
  moreover have "last' = b + int (length t) \<or> t ! nat (last' - b) = line_separator"
    using after by (auto simp: line)
  moreover have "b \<le> first" "first \<le> p" "p \<le> last'" "last' \<le> b + int (length t)"
    using before after line by linarith+
  ultimately show ?thesis by blast
qed

theorem line_at_cursor_witness:
  "compose_line_at plain_library (latin ''ab'' @ [0x2028] @ latin ''cd'') (4, 4) = (3, 5)
    \<and> (latin ''ab'' @ [0x2028] @ latin ''cd'') ! nat (3 - 1 - 0) = line_separator"
proof -
  let ?d = "latin ''ab'' @ [0x2028] @ latin ''cd''"
  have "tl_end plain_library ?d = 5" by code_simp
  moreover have "tl_block plain_library ?d 4 = (0, ?d)" by code_simp
  moreover have line: "compose_line_at plain_library ?d (4, 4) = (3, 5)" by code_simp
  ultimately have "(3::int) = 0 \<or> ?d ! nat (3 - 1 - 0) = line_separator"
    using line_at_cursor [OF plain_library_laws, of 4 ?d 0 ?d 4 3 5] by simp
  with line show ?thesis by simp
qed

section \<open>The blinking cursor\<close>

definition overlay_ok :: "keymap \<Rightarrow> compose_overlay \<Rightarrow> bool" where
  "overlay_ok km ov \<longleftrightarrow>
     ov_blink_timer ov = (if ov_active ov \<and> compose_cursor_blink km > 0 then Some (compose_cursor_blink km) else None)
     \<and> ov_shown ov = ov_active ov
     \<and> (ov_blink_timer ov = None \<longrightarrow> ov_blink_visible ov)"

datatype overlay_event = SetActive bool bool | ContentChanged | OptionsChanged keymap | Timeout

text \<open>The events of the overlay: \<open>setActive\<close>, the signals of the text edit and of the options, which
  both end in \<open>resetBlink\<close>, and the timer, which only fires while it runs.\<close>

fun overlay_event_step :: "overlay_event \<Rightarrow> keymap \<times> compose_overlay \<Rightarrow> keymap \<times> compose_overlay" where
  "overlay_event_step (SetActive active visual) (km, ov) = (km, overlay_set_active km active visual ov)"
| "overlay_event_step ContentChanged (km, ov) = (km, overlay_reset_blink km ov)"
| "overlay_event_step (OptionsChanged km') (km, ov) = (km', overlay_reset_blink km' ov)"
| "overlay_event_step Timeout (km, ov) = (km, if ov_blink_timer ov = None then ov else overlay_timeout ov)"

lemma overlay_step_ok:
  "overlay_ok (fst st) (snd st)
    \<Longrightarrow> overlay_ok (fst (overlay_event_step e st)) (snd (overlay_event_step e st))"
  by (cases st; cases e) (auto simp: overlay_set_active_def overlay_reset_blink_def overlay_refresh_blink_def
      overlay_ok_def overlay_timeout_def Let_def)

text \<open>Whatever the composer, the timer and the options do, the overlay is shown
  exactly while it is active, its timer runs exactly while it is active and blinking is on, with the configured
  interval, and whenever the timer is stopped the cursor is in its visible phase.\<close>

theorem cursor_never_stuck_hidden:
  "case fold overlay_event_step events (km, new_overlay) of (km', ov) \<Rightarrow>
     ov_shown ov = ov_active ov
     \<and> ov_blink_timer ov
         = (if ov_active ov \<and> compose_cursor_blink km' > 0 then Some (compose_cursor_blink km') else None)
     \<and> (case ov_blink_timer ov of None \<Rightarrow> ov_blink_visible ov | Some _ \<Rightarrow> True)"
proof -
  have "overlay_ok (fst (fold overlay_event_step events st)) (snd (fold overlay_event_step events st))"
    if "overlay_ok (fst st) (snd st)" for st
    using that
  proof (induction events arbitrary: st)
    case (Cons e events)
    show ?case using Cons.IH [OF overlay_step_ok [OF Cons.prems]] by simp
  qed simp
  moreover have "overlay_ok km new_overlay" by (simp add: overlay_ok_def new_overlay_def)
  moreover obtain km' ov where run: "fold overlay_event_step events (km, new_overlay) = (km', ov)" by fastforce
  ultimately have "overlay_ok km' ov" by (metis fst_conv snd_conv)
  then show ?thesis by (simp add: run overlay_ok_def split: option.split)
qed

end
