(* ===== verification/ComposeEditor.thy ===== *)
theory ComposeEditor
  imports ComposeText
begin

text \<open>
  The Vim keys of the message composer: \<open>HandleComposeTextKey\<close> and \<open>RefreshComposeCursor\<close>
  (\<open>core/vim_keymap_compose.cpp\<close>). The lambdas of the handler are the definitions of the first
  sections, its chain of conditions the definitions \<open>compose_\<dots>_keys\<close>, in the order of the code.

  The state holds the field (its document, the cursor, its focus), the clipboard, the keymap with its
  mode, the four integers the handler gets by reference, the delete timer (the document revision its
  callback captured), the painted cursor, and the document of the last \<open>saveDraft()\<close>. One key comes with
  an environment: the event, Qt's functions and what the handler asks of the window. \<open>refreshCursor\<close>
  is the callback of the history widget, \<open>RefreshComposeCursor\<close> with its visual mode. The trace of
  the keys and \<open>ensureCursorVisible\<close> are left out, and so is the unused parameter
  \<open>allowPastLineEnd\<close>, always false.
\<close>

record 'd compose =
  cs_doc :: 'd
  cs_cursor :: text_cursor
  cs_focus :: bool
  cs_clipboard :: qstring
  cs_keymap :: keymap
  cs_operation :: int
  cs_visual :: int
  cs_visual_anchor :: int
  cs_pending :: int
  cs_delete_timer :: "int option"
  cs_cursor_width :: int
  cs_overlay :: compose_overlay
  cs_draft :: 'd

record ('d, 't) compose_env =
  ce_event :: key_event
  ce_qt :: qt_text
  ce_lib :: "('d, 't) text_library"
  ce_hidden :: bool
  ce_visible :: bool
  ce_search_active :: bool
  ce_panel_open :: bool
  ce_spellcheck :: bool

abbreviation OpDelete :: int where "OpDelete \<equiv> 1"
abbreviation OpDeleteInner :: int where "OpDeleteInner \<equiv> 2"
abbreviation OpYank :: int where "OpYank \<equiv> 3"
abbreviation OpChange :: int where "OpChange \<equiv> 4"
abbreviation OpChangeInner :: int where "OpChangeInner \<equiv> 5"
abbreviation OpYankInner :: int where "OpYankInner \<equiv> 6"
abbreviation PendingGoto :: int where "PendingGoto \<equiv> 1"
abbreviation PendingReplace :: int where "PendingReplace \<equiv> 2"
abbreviation PendingVisualInner :: int where "PendingVisualInner \<equiv> 3"

section \<open>The field\<close>

definition compose_normal :: "('d, 't) compose_env \<Rightarrow> 'd compose \<Rightarrow> bool" where
  "compose_normal env s \<longleftrightarrow> normal_mode (ce_qt env) (cs_keymap s)"

definition compose_set_normal :: "bool \<Rightarrow> 'd compose \<Rightarrow> 'd compose" where
  "compose_set_normal b s = s\<lparr>cs_keymap := set_normal_mode b (cs_keymap s)\<rparr>"

definition compose_tagged :: "('d, 't) compose_env \<Rightarrow> 'd compose \<Rightarrow> 't" where
  "compose_tagged env s = tl_tagged (ce_lib env) (cs_doc s)"

definition compose_save_draft :: "'d compose \<Rightarrow> 'd compose" where
  "compose_save_draft s = s\<lparr>cs_draft := cs_doc s\<rparr>"

definition set_text_cursor :: "text_cursor \<Rightarrow> 'd compose \<Rightarrow> 'd compose" where
  "set_text_cursor c s = s\<lparr>cs_cursor := c\<rparr>"

definition refresh_compose_cursor :: "('d, 't) compose_env \<Rightarrow> bool \<Rightarrow> 'd compose \<Rightarrow> 'd compose" where
  "refresh_compose_cursor env visual s =
     (let active = compose_normal env s \<and> ce_visible env;
          s1 = s\<lparr>cs_cursor_width := (if active then 0 else 1)\<rparr>;
          s2 = (if active \<and> \<not> visual
                then set_text_cursor (fst (normalize_compose_cursor (ce_lib env) (cs_doc s1) (cs_cursor s1))) s1
                else s1) in
      s2\<lparr>cs_overlay := overlay_set_active (cs_keymap s2) active (active \<and> visual) (cs_overlay s2)\<rparr>)"

definition refresh_cursor :: "('d, 't) compose_env \<Rightarrow> 'd compose \<Rightarrow> 'd compose" where
  "refresh_cursor env s = refresh_compose_cursor env (cs_visual s \<noteq> 0) s"

definition reset_compose :: "'d compose \<Rightarrow> 'd compose" where
  "reset_compose s = s\<lparr>cs_operation := 0, cs_visual := 0, cs_visual_anchor := -1, cs_pending := 0\<rparr>"

definition set_focus :: "'d compose \<Rightarrow> 'd compose" where
  "set_focus s = s\<lparr>cs_focus := True\<rparr>"

definition focus_field :: "('d, 't) compose_env \<Rightarrow> 'd compose \<Rightarrow> 'd compose" where
  "focus_field env s = refresh_cursor env (set_focus s)"

definition clear_visual :: "('d, 't) compose_env \<Rightarrow> 'd compose \<Rightarrow> 'd compose" where
  "clear_visual env s =
     (if cs_visual s = 0 then s
      else refresh_cursor env
        ((set_text_cursor (clear_selection (cs_cursor s)) s)\<lparr>cs_visual := 0, cs_visual_anchor := -1\<rparr>))"

definition clear_pending :: "'d compose \<Rightarrow> 'd compose" where
  "clear_pending s = s\<lparr>cs_pending := 0\<rparr>"

definition clear_operation :: "'d compose \<Rightarrow> 'd compose" where
  "clear_operation s = s\<lparr>cs_operation := 0\<rparr>"

text \<open>\<open>moveMode()\<close>: does a motion keep the anchor?\<close>

definition keep_anchor :: "'d compose \<Rightarrow> bool" where
  "keep_anchor s \<longleftrightarrow> cs_visual s \<noteq> 0 \<or> cs_operation s \<noteq> 0"

definition compose_line :: "('d, 't) compose_env \<Rightarrow> 'd compose \<Rightarrow> int \<times> int" where
  "compose_line env s = compose_line_at (ce_lib env) (cs_doc s) (cs_cursor s)"

definition maximum_position :: "('d, 't) compose_env \<Rightarrow> 'd compose \<Rightarrow> int" where
  "maximum_position env s = max 0 (tl_end (ce_lib env) (cs_doc s))"

section \<open>Copying and the operators\<close>

definition copy_cursor_selection :: "('d, 't) compose_env \<Rightarrow> text_cursor \<Rightarrow> 'd compose \<Rightarrow> bool \<times> 'd compose" where
  "copy_cursor_selection env c s =
     (if \<not> cursor_has_selection c then (False, s)
      else (True, (set_text_cursor c s)
        \<lparr>cs_clipboard := tl_copy (ce_lib env) (cs_doc s) (selection_start c) (selection_end c)\<rparr>))"

definition remove_selected_text :: "('d, 't) compose_env \<Rightarrow> 'd compose \<Rightarrow> 'd compose" where
  "remove_selected_text env s =
     (let c = cs_cursor s in
      if \<not> cursor_has_selection c then s
      else (set_text_cursor (selection_start c, selection_start c) s)
        \<lparr>cs_doc := tl_remove (ce_lib env) (cs_doc s) (selection_start c) (selection_end c)\<rparr>)"

definition insert_text :: "('d, 't) compose_env \<Rightarrow> text_cursor \<Rightarrow> qstring \<Rightarrow> 'd compose \<Rightarrow> 'd compose" where
  "insert_text env c text s =
     (let (d, p) = tl_insert (ce_lib env) (cs_doc s) c text in (set_text_cursor (p, p) s)\<lparr>cs_doc := d\<rparr>)"

definition save_if_changed :: "('d, 't) compose_env \<Rightarrow> 't \<Rightarrow> 'd compose \<Rightarrow> 'd compose" where
  "save_if_changed env before s = (if compose_tagged env s \<noteq> before then compose_save_draft s else s)"

definition finish_operator :: "('d, 't) compose_env \<Rightarrow> text_cursor \<Rightarrow> 'd compose \<Rightarrow> 'd compose" where
  "finish_operator env c s =
     (let op = cs_operation s; s1 = reset_compose s in
      if \<not> cursor_has_selection c then focus_field env (set_text_cursor c s1)
      else if op = OpYank then
        (let s2 = snd (copy_cursor_selection env c s1) in
         focus_field env (set_text_cursor (clear_selection (cs_cursor s2)) s2))
      else
        (let before = compose_tagged env s1;
             s2 = remove_selected_text env (snd (copy_cursor_selection env c s1));
             s3 = save_if_changed env before s2;
             change = (op = OpChange \<or> op = OpChangeInner) in
         focus_field env (compose_set_normal (\<not> change) s3)))"

definition delete_selection :: "('d, 't) compose_env \<Rightarrow> text_cursor \<Rightarrow> 'd compose \<Rightarrow> bool \<times> 'd compose" where
  "delete_selection env c s =
     (let before = compose_tagged env s;
          s1 = remove_selected_text env (snd (copy_cursor_selection env c s)) in
      if compose_tagged env s1 \<noteq> before then (True, focus_field env (compose_save_draft s1))
      else (False, focus_field env s1))"

section \<open>Visual mode\<close>

definition fix_visual_anchor :: "('d, 't) compose_env \<Rightarrow> 'd compose \<Rightarrow> 'd compose" where
  "fix_visual_anchor env s =
     (let maximum = maximum_position env s in
      if cs_visual_anchor s < 0 \<or> cs_visual_anchor s > maximum then
        s\<lparr>cs_visual_anchor := clamp
          (if cursor_has_selection (cs_cursor s) then selection_start (cs_cursor s) else snd (cs_cursor s))
          0 maximum\<rparr>
      else s)"

definition set_visual_selection :: "('d, 't) compose_env \<Rightarrow> int \<Rightarrow> 'd compose \<Rightarrow> 'd compose" where
  "set_visual_selection env position s =
     (let maximum = maximum_position env s;
          s1 = fix_visual_anchor env s;
          anchor = clamp (cs_visual_anchor s1) 0 maximum;
          endpoint = clamp position 0 maximum;
          s2 = s1\<lparr>cs_visual_anchor := anchor\<rparr> in
      set_text_cursor
        (if endpoint \<ge> anchor
         then set_position (min maximum (max endpoint (anchor + 1))) True (set_position anchor False (cs_cursor s2))
         else set_position endpoint True (set_position (min maximum (anchor + 1)) False (cs_cursor s2)))
        s2)"

definition visual_character_position :: "'d compose \<Rightarrow> int" where
  "visual_character_position s =
     (let c = cs_cursor s in
      if cursor_has_selection c \<and> snd c > fst c then max 0 (snd c - 1) else snd c)"

definition set_visual_selection_character :: "('d, 't) compose_env \<Rightarrow> int \<Rightarrow> 'd compose \<Rightarrow> 'd compose" where
  "set_visual_selection_character env position s =
     (let maximum = maximum_position env s;
          s1 = fix_visual_anchor env s;
          anchor = clamp (cs_visual_anchor s1) 0 maximum;
          point = clamp position 0 (max 0 (maximum - 1)) in
      set_visual_selection env (if point \<ge> anchor then min maximum (point + 1) else point) s1)"

section \<open>Moving the cursor\<close>

definition move_step :: "move_operation \<Rightarrow> int" where
  "move_step operation = (if operation = MoveCharRight then 1 else -1)"

definition move_visual_character :: "('d, 't) compose_env \<Rightarrow> move_operation \<Rightarrow> 'd compose \<Rightarrow> bool \<times> 'd compose" where
  "move_visual_character env operation s =
     (let c = set_position (visual_character_position s) False (cs_cursor s);
          (first, _) = compose_line_at (ce_lib env) (cs_doc s) c;
          last' = line_last_character_position (ce_lib env) (cs_doc s) c;
          position = clamp (snd c + move_step operation) first last' in
      (position \<noteq> snd c, refresh_cursor env (set_visual_selection_character env position s)))"

definition move_visual :: "('d, 't) compose_env \<Rightarrow> move_operation \<Rightarrow> 'd compose \<Rightarrow> bool \<times> 'd compose" where
  "move_visual env operation s =
     (if operation = MoveCharLeft \<or> operation = MoveCharRight then move_visual_character env operation s
      else let c = set_position (visual_character_position s) False (cs_cursor s);
               (c1, moved) = move_position (ce_lib env) operation False (cs_doc s) c in
      (moved, refresh_cursor env (set_visual_selection_character env (snd c1) s)))"

definition move_in_line :: "('d, 't) compose_env \<Rightarrow> move_operation \<Rightarrow> text_cursor \<Rightarrow> 'd compose \<Rightarrow> bool \<times> 'd compose" where
  "move_in_line env operation c s =
     (let (first, _) = compose_line_at (ce_lib env) (cs_doc s) c;
          last' = line_last_character_position (ce_lib env) (cs_doc s) c;
          position = clamp (snd c + move_step operation) first last' in
      (position \<noteq> snd c, refresh_cursor env (set_text_cursor (set_position position False c) s)))"

definition move_cursor :: "('d, 't) compose_env \<Rightarrow> move_operation \<Rightarrow> 'd compose \<Rightarrow> bool \<times> 'd compose" where
  "move_cursor env operation s =
     (if cs_visual s = 1 then move_visual env operation s
      else
        let inside = compose_normal env s \<and> cs_operation s = 0;
            c = (if inside then fst (normalize_compose_cursor (ce_lib env) (cs_doc s) (cs_cursor s))
                 else cs_cursor s) in
        if inside \<and> (operation = MoveCharLeft \<or> operation = MoveCharRight) then move_in_line env operation c s
        else
          let (c1, moved) = move_position (ce_lib env) operation (keep_anchor s) (cs_doc s) c in
          if cs_operation s \<noteq> 0 then (True, finish_operator env c1 s)
          else (moved, focus_field env (set_text_cursor c1 s)))"

definition move_cursor_to :: "('d, 't) compose_env \<Rightarrow> int \<Rightarrow> 'd compose \<Rightarrow> 'd compose" where
  "move_cursor_to env position0 s =
     (let position = clamp position0 0 (maximum_position env s) in
      if cs_visual s = 1 then refresh_cursor env (set_visual_selection env position s)
      else
        let c = set_position position (keep_anchor s) (cs_cursor s) in
        if cs_operation s \<noteq> 0 then finish_operator env c s
        else focus_field env (set_text_cursor c s))"

section \<open>Editing\<close>

definition undo_redo :: "('d, 't) compose_env \<Rightarrow> bool \<Rightarrow> 'd compose \<Rightarrow> 'd compose" where
  "undo_redo env redo s0 =
     (let s = clear_pending s0; lib = ce_lib env;
          available = (if redo then tl_redo_available lib (cs_doc s) else tl_undo_available lib (cs_doc s));
          (d, c) = (if redo then tl_redo lib (cs_doc s) else tl_undo lib (cs_doc s));
          s1 = (if available then compose_save_draft ((set_text_cursor c s)\<lparr>cs_doc := d\<rparr>) else s) in
      focus_field env (compose_set_normal True s1))"

definition select_current_line :: "('d, 't) compose_env \<Rightarrow> 'd compose \<Rightarrow> text_cursor" where
  "select_current_line env s =
     (let (first, last') = compose_line env s;
          end' = min (last' + 1) (maximum_position env s) in
      set_position end' True (set_position first False (cs_cursor s)))"

definition delete_current_line :: "('d, 't) compose_env \<Rightarrow> 'd compose \<Rightarrow> bool \<times> 'd compose" where
  "delete_current_line env s = delete_selection env (select_current_line env s) s"

text \<open>\<open>cursor.hasSelection() && !cursor.selectedText().isEmpty()\<close>\<close>

definition cursor_selects_text :: "('d, 't) compose_env \<Rightarrow> text_cursor \<Rightarrow> 'd compose \<Rightarrow> bool" where
  "cursor_selects_text env c s \<longleftrightarrow> cursor_has_selection c
     \<and> tl_selected_text (ce_lib env) (cs_doc s) (selection_start c) (selection_end c) \<noteq> []"

definition select_inner_word_at :: "('d, 't) compose_env \<Rightarrow> int \<Rightarrow> 'd compose \<Rightarrow> text_cursor" where
  "select_inner_word_at env position s =
     (let lib = ce_lib env;
          p = clamp position 0 (maximum_position env s);
          c = tl_word lib (cs_doc s) p in
      if \<not> cursor_selects_text env c s
      then tl_word lib (cs_doc s) (snd (fst (move_position lib MoveNextWord False (cs_doc s) (p, p))))
      else c)"

definition select_inner_word :: "('d, 't) compose_env \<Rightarrow> 'd compose \<Rightarrow> text_cursor" where
  "select_inner_word env s =
     select_inner_word_at env (if cs_visual s \<noteq> 0 then visual_character_position s else snd (cs_cursor s)) s"

definition select_visual_inner_word :: "('d, 't) compose_env \<Rightarrow> 'd compose \<Rightarrow> 'd compose" where
  "select_visual_inner_word env s =
     (let c = select_inner_word_at env (visual_character_position s) s in
      focus_field env
        (if cursor_selects_text env c s
         then set_text_cursor c (s\<lparr>cs_visual := 1, cs_visual_anchor := selection_start c\<rparr>)
         else s))"

definition delete_inner_word :: "('d, 't) compose_env \<Rightarrow> 'd compose \<Rightarrow> bool \<times> 'd compose" where
  "delete_inner_word env s =
     (let c = select_inner_word env s in
      if cursor_selects_text env c s then delete_selection env c s else (False, s))"

definition copy_inner_word :: "('d, 't) compose_env \<Rightarrow> 'd compose \<Rightarrow> bool \<times> 'd compose" where
  "copy_inner_word env s =
     (let c = select_inner_word env s;
          (copied, s1) = (if cursor_selects_text env c s then copy_cursor_selection env c s else (False, s)) in
      (copied, focus_field env (set_text_cursor (clear_selection (cs_cursor s1)) s1)))"

definition change_after_delete :: "('d, 't) compose_env \<Rightarrow> 'd compose \<Rightarrow> 'd compose" where
  "change_after_delete env s = focus_field env (compose_set_normal False s)"

definition delete_neighbour :: "('d, 't) compose_env \<Rightarrow> move_operation \<Rightarrow> 'd compose \<Rightarrow> 'd compose" where
  "delete_neighbour env operation s =
     (let before = compose_tagged env s;
          (c, moved) = move_position (ce_lib env) operation True (cs_doc s) (cs_cursor s);
          s1 = (if moved then snd (delete_selection env c s) else s) in
      save_if_changed env before s1)"

definition delete_next_char :: "('d, 't) compose_env \<Rightarrow> bool \<Rightarrow> 'd compose \<Rightarrow> 'd compose" where
  "delete_next_char env input_after s =
     (let s1 = delete_neighbour env MoveCharRight s in
      if input_after then change_after_delete env s1 else focus_field env s1)"

definition delete_previous_char :: "('d, 't) compose_env \<Rightarrow> 'd compose \<Rightarrow> 'd compose" where
  "delete_previous_char env s = focus_field env (delete_neighbour env MoveCharLeft s)"

definition copy_current_line :: "('d, 't) compose_env \<Rightarrow> 'd compose \<Rightarrow> 'd compose" where
  "copy_current_line env s =
     (let s1 = snd (copy_cursor_selection env (select_current_line env s) s) in
      focus_field env (set_text_cursor (clear_selection (cs_cursor s1)) s1))"

definition replace_next_char :: "('d, 't) compose_env \<Rightarrow> qstring \<Rightarrow> 'd compose \<Rightarrow> 'd compose" where
  "replace_next_char env text s0 =
     (let s = clear_pending s0 in
      if text = [] then focus_field env s
      else
        let before = compose_tagged env s;
            (c, moved) = move_position (ce_lib env) MoveCharRight True (cs_doc s) (cs_cursor s);
            s1 = (if moved then insert_text env c (take 1 text) s else s) in
        focus_field env (compose_set_normal True (save_if_changed env before s1)))"

definition toggle_case :: "('d, 't) compose_env \<Rightarrow> 'd compose \<Rightarrow> 'd compose" where
  "toggle_case env s =
     (let before = compose_tagged env s; lib = ce_lib env;
          c = fst (move_position lib MoveCharRight True (cs_doc s) (cs_cursor s));
          s1 = (if cursor_selects_text env c s then
                  (let ch = hd (tl_selected_text lib (cs_doc s) (selection_start c) (selection_end c)) in
                   insert_text env c [if tl_is_upper lib ch then tl_lower lib ch else upper_char (ce_qt env) ch] s)
                else s) in
      focus_field env (save_if_changed env before s1))"

definition join_line :: "('d, 't) compose_env \<Rightarrow> 'd compose \<Rightarrow> 'd compose" where
  "join_line env s =
     (let before = compose_tagged env s; lib = ce_lib env;
          c = fst (move_position lib MoveEndOfLine False (cs_doc s) (cs_cursor s));
          s1 = s\<lparr>cs_doc := tl_delete_char lib (cs_doc s) (snd c)\<rparr>;
          s2 = (if compose_tagged env s1 \<noteq> before then insert_text env c (latin '' '') s1 else s1) in
      focus_field env (save_if_changed env before s2))"

definition set_input_cursor_position :: "('d, 't) compose_env \<Rightarrow> int \<Rightarrow> 'd compose \<Rightarrow> 'd compose" where
  "set_input_cursor_position env position s =
     set_text_cursor (set_position (clamp position 0 (maximum_position env s)) False (clear_selection (cs_cursor s))) s"

definition set_input_cursor_after_current :: "('d, 't) compose_env \<Rightarrow> 'd compose \<Rightarrow> 'd compose" where
  "set_input_cursor_after_current env s =
     (let lib = ce_lib env;
          c = fst (normalize_compose_cursor lib (cs_doc s) (clear_selection (cs_cursor s))) in
      set_text_cursor
        (if snd (tl_block lib (cs_doc s) (snd c)) \<noteq> []
         then fst (move_position lib MoveCharRight False (cs_doc s) c) else c) s)"

definition delete_to_line_end :: "('d, 't) compose_env \<Rightarrow> bool \<Rightarrow> 'd compose \<Rightarrow> 'd compose" where
  "delete_to_line_end env input_after s =
     (let s1 = snd (delete_selection env (set_position (snd (compose_line env s)) True (cs_cursor s)) s) in
      if input_after then change_after_delete env s1 else s1)"

definition enter_input_mode :: "('d, 't) compose_env \<Rightarrow> 'd compose \<Rightarrow> 'd compose" where
  "enter_input_mode env s = focus_field env (compose_set_normal False (reset_compose s))"

definition start_visual_mode :: "('d, 't) compose_env \<Rightarrow> bool \<Rightarrow> 'd compose \<Rightarrow> 'd compose" where
  "start_visual_mode env line s =
     (let s1 = s\<lparr>cs_operation := 0, cs_visual := (if line then 2 else 1), cs_pending := 0\<rparr>;
          c = (if line then select_current_line env s1
               else fst (normalize_compose_cursor (ce_lib env) (cs_doc s1) (cs_cursor s1)));
          anchor = (if cursor_has_selection c then selection_start c else snd c);
          s2 = s1\<lparr>cs_visual_anchor := anchor\<rparr> in
      focus_field env (if line then set_text_cursor c s2 else set_visual_selection env anchor s2))"

definition paste_clipboard :: "('d, 't) compose_env \<Rightarrow> 'd compose \<Rightarrow> 'd compose" where
  "paste_clipboard env s =
     (let (d, p) = tl_paste (ce_lib env) (cs_doc s) (cs_cursor s) (cs_clipboard s) in
      (set_text_cursor (p, p) s)\<lparr>cs_doc := d\<rparr>)"

definition line_paste :: "('d, 't) compose_env \<Rightarrow> bool \<Rightarrow> 'd compose \<Rightarrow> 'd compose" where
  "line_paste env before s0 =
     (let s = clear_pending s0; lib = ce_lib env;
          s1 = (if before then set_text_cursor (fst (move_position lib MoveStartOfLine False (cs_doc s) (cs_cursor s))) s
                else insert_text env (fst (move_position lib MoveEndOfLine False (cs_doc s) (cs_cursor s)))
                  (latin [CHR 0x0A]) s) in
      focus_field env (compose_save_draft (paste_clipboard env s1)))"

section \<open>The handler\<close>

definition state_active :: "'d compose \<Rightarrow> bool" where
  "state_active s \<longleftrightarrow> cs_operation s \<noteq> 0 \<or> cs_visual s \<noteq> 0 \<or> cs_pending s \<noteq> 0"

abbreviation plain_key :: "('d, 't) compose_env \<Rightarrow> int \<Rightarrow> string \<Rightarrow> int \<Rightarrow> bool" where
  "plain_key env key lat cyr \<equiv> plain_text_key (ce_qt env) (ce_event env) key (latin lat) [cyr]"

abbreviation shift_key :: "('d, 't) compose_env \<Rightarrow> int \<Rightarrow> string \<Rightarrow> int \<Rightarrow> bool" where
  "shift_key env key lat cyr \<equiv> shift_text_key (ce_qt env) (ce_event env) key (latin lat) [cyr]"

abbreviation either_key :: "('d, 't) compose_env \<Rightarrow> int \<Rightarrow> string \<Rightarrow> int \<Rightarrow> bool" where
  "either_key env key lat cyr \<equiv> plain_or_shift_text_key (ce_qt env) (ce_event env) key (latin lat) [cyr]"

definition option_left :: "('d, 't) compose_env \<Rightarrow> bool" where
  "option_left env = option_text_key (ce_qt env) (ce_event env) Key_H (latin ''h'') [0x440]"

definition option_right :: "('d, 't) compose_env \<Rightarrow> bool" where
  "option_right env = option_text_key (ce_qt env) (ce_event env) Key_L (latin ''l'') [0x434]"

definition plain_left :: "('d, 't) compose_env \<Rightarrow> bool" where
  "plain_left env = plain_key env Key_H ''h'' 0x440"

definition plain_right :: "('d, 't) compose_env \<Rightarrow> bool" where
  "plain_right env = plain_key env Key_L ''l'' 0x434"

definition input_cursor_move :: "('d, 't) compose_env \<Rightarrow> bool" where
  "input_cursor_move env \<longleftrightarrow> option_left env \<or> option_right env"

text \<open>The early returns: the field is not available, the key belongs to another part, or the mode is
  left or absent.\<close>

definition compose_window_guards :: "('d, 't) compose_env \<Rightarrow> 'd compose \<Rightarrow> (bool \<times> 'd compose) option" where
  "compose_window_guards env s =
     (let e = ce_event env; qt = ce_qt env; km = cs_keymap s in
      if ce_hidden env \<or> ce_search_active env then Some (False, refresh_cursor env (reset_compose s))
      else if focus_emoji_key qt km e \<or> focus_chat_key qt km e \<or> emoji_panel_key qt km e then Some (False, s)
      else if ce_panel_open env then Some (False, refresh_cursor env (reset_compose s))
      else if ce_spellcheck env \<and> \<not> state_active s \<and> compose_normal env s \<and> spellcheck_key qt e then Some (True, s)
      else if \<not> state_active s \<and> compose_normal env s
        \<and> (is_message_reaction qt e \<or> is_message_selection qt e False \<or> is_message_selection qt e True)
      then Some (False, s)
      else if empty_compose_defers_to_message_action (state_active s) (tl_empty (ce_lib env) (cs_doc s))
        (action_key qt km e \<noteq> None)
      then Some (False, refresh_cursor env s)
      else if \<not> state_active s \<and> navigation_key qt km e \<noteq> None then Some (False, refresh_cursor env s)
      else None)"

definition compose_escape :: "('d, 't) compose_env \<Rightarrow> 'd compose \<Rightarrow> 'd compose" where
  "compose_escape env s =
     (let s1 = clear_pending (clear_operation s) in
      focus_field env
        (if cs_visual s1 \<noteq> 0
         then (set_text_cursor (clear_selection (cs_cursor s1)) s1)\<lparr>cs_visual := 0, cs_visual_anchor := -1\<rparr>
         else compose_set_normal True s1))"

definition compose_mode_guards :: "('d, 't) compose_env \<Rightarrow> 'd compose \<Rightarrow> (bool \<times> 'd compose) option" where
  "compose_mode_guards env s =
     (let e = ce_event env;
          escape = \<not> ev_auto_repeat e \<and> clean_modifiers e = NoModifier \<and> ev_key e = Key_Escape in
      if escape \<and> cs_focus s then Some (True, compose_escape env s)
      else if \<not> compose_normal env s \<and> \<not> input_cursor_move env
      then Some (False, refresh_cursor env (reset_compose s))
      else if input_cursor_move env \<and> \<not> cs_focus s then Some (False, s)
      else if compose_normal env s \<and> \<not> cs_focus s \<and> tl_empty (ce_lib env) (cs_doc s) \<and> \<not> state_active s
        \<and> \<not> input_cursor_move env \<and> \<not> (plain_left env \<or> plain_right env)
      then Some (False, refresh_cursor env s)
      else None)"

text \<open>The chain of conditions, in groups of keys: \<open>None\<close> falls through to the next group.\<close>

definition compose_visual_keys :: "('d, 't) compose_env \<Rightarrow> 'd compose \<Rightarrow> (bool \<times> 'd compose) option" where
  "compose_visual_keys env s =
     (let e = ce_event env; qt = ce_qt env; km = cs_keymap s in
      if cs_visual s = 0 then None
      else if undo_key qt km e then Some (True, undo_redo env False (clear_visual env s))
      else if redo_key qt km e then Some (True, undo_redo env True (clear_visual env s))
      else if plain_left env \<or> plain_right env then
        Some (True, snd (move_cursor env (if plain_left env then MoveCharLeft else MoveCharRight) (clear_pending s)))
      else if plain_key env Key_Y ''y'' 0x43D then
        Some (True, focus_field env (clear_visual env (snd (copy_cursor_selection env (cs_cursor s) s))))
      else if plain_key env Key_D ''d'' 0x432 \<or> plain_key env Key_X ''x'' 0x447 then
        Some (True, refresh_cursor env
          ((snd (delete_selection env (cs_cursor s) s))\<lparr>cs_visual := 0, cs_visual_anchor := -1\<rparr>))
      else if plain_key env Key_I ''i'' 0x448 then
        Some (True, focus_field env (s\<lparr>cs_pending := PendingVisualInner\<rparr>))
      else None)"

definition compose_replace_keys :: "('d, 't) compose_env \<Rightarrow> 'd compose \<Rightarrow> (bool \<times> 'd compose) option" where
  "compose_replace_keys env s =
     (if cs_pending s \<noteq> PendingReplace then None
      else if clean_modifiers (ce_event env) = NoModifier \<or> clean_modifiers (ce_event env) = ShiftModifier
      then Some (True, replace_next_char env (ev_text (ce_event env)) s)
      else Some (True, focus_field env (clear_pending s)))"

text \<open>\<open>context.operation = 0; clearVisual(); clearPending();\<close>\<close>

definition clear_command :: "('d, 't) compose_env \<Rightarrow> 'd compose \<Rightarrow> 'd compose" where
  "clear_command env s = clear_pending (clear_visual env (clear_operation s))"

definition compose_history_keys :: "('d, 't) compose_env \<Rightarrow> 'd compose \<Rightarrow> (bool \<times> 'd compose) option" where
  "compose_history_keys env s =
     (let e = ce_event env; qt = ce_qt env; km = cs_keymap s in
      if undo_key qt km e then Some (True, undo_redo env False (clear_command env s))
      else if redo_key qt km e then Some (True, undo_redo env True (clear_command env s))
      else if input_cursor_move env then
        Some (True, snd (move_cursor env (if option_left env then MoveCharLeft else MoveCharRight) (clear_command env s)))
      else None)"

definition inner_operation :: "int \<Rightarrow> int" where
  "inner_operation op =
     (if op = OpDelete then OpDeleteInner else if op = OpChange then OpChangeInner else OpYankInner)"

definition open_line_below :: "('d, 't) compose_env \<Rightarrow> 'd compose \<Rightarrow> 'd compose" where
  "open_line_below env s =
     (let s1 = clear_pending s;
          s2 = set_input_cursor_position env (snd (compose_line env s1)) s1;
          s3 = insert_text env (cs_cursor s2) (latin [CHR 0x0A]) s2 in
      enter_input_mode env (compose_save_draft s3))"

definition open_line_above :: "('d, 't) compose_env \<Rightarrow> 'd compose \<Rightarrow> 'd compose" where
  "open_line_above env s =
     (let s1 = clear_pending s;
          s2 = move_cursor_to env (fst (compose_line env s1)) s1;
          s3 = insert_text env (cs_cursor s2) (latin [CHR 0x0A]) s2;
          s4 = snd (move_cursor env MoveCharLeft s3) in
      enter_input_mode env (compose_save_draft s4))"

definition compose_insert_keys :: "('d, 't) compose_env \<Rightarrow> 'd compose \<Rightarrow> (bool \<times> 'd compose) option" where
  "compose_insert_keys env s =
     (if (cs_operation s = OpDelete \<or> cs_operation s = OpChange \<or> cs_operation s = OpYank)
         \<and> plain_key env Key_I ''i'' 0x448 then
        Some (True, focus_field env (clear_pending (s\<lparr>cs_operation := inner_operation (cs_operation s)\<rparr>)))
      else if plain_key env Key_I ''i'' 0x448 then Some (True, enter_input_mode env s)
      else if shift_key env Key_I ''i'' 0x448 then
        (let s1 = clear_pending s in
         Some (True, enter_input_mode env (set_input_cursor_position env
           (line_first_non_blank (ce_lib env) (cs_doc s1) (cs_cursor s1)) s1)))
      else if plain_key env Key_A ''a'' 0x444 then
        Some (True, enter_input_mode env (set_input_cursor_after_current env (clear_pending s)))
      else if shift_key env Key_A ''a'' 0x444 then
        (let s1 = clear_pending s in
         Some (True, enter_input_mode env (set_input_cursor_position env (snd (compose_line env s1)) s1)))
      else if plain_key env Key_O ''o'' 0x449 then Some (True, open_line_below env s)
      else if shift_key env Key_O ''o'' 0x449 then Some (True, open_line_above env s)
      else None)"

definition compose_mode_keys :: "('d, 't) compose_env \<Rightarrow> 'd compose \<Rightarrow> (bool \<times> 'd compose) option" where
  "compose_mode_keys env s =
     (if plain_key env Key_V ''v'' 0x43C then Some (True, start_visual_mode env False s)
      else if shift_key env Key_V ''v'' 0x43C then Some (True, start_visual_mode env True s)
      else if plain_key env Key_G ''g'' 0x43F then
        (if cs_pending s = PendingGoto then Some (True, move_cursor_to env 0 (clear_pending s))
         else Some (True, focus_field env (s\<lparr>cs_pending := PendingGoto\<rparr>)))
      else if shift_key env Key_G ''g'' 0x43F then
        (let s1 = clear_pending s in Some (True, move_cursor_to env (maximum_position env s1) s1))
      else None)"

text \<open>The keys that only move, and the operation each of them uses.\<close>

definition compose_step_motion :: "('d, 't) compose_env \<Rightarrow> move_operation option" where
  "compose_step_motion env =
     (if plain_left env then Some MoveCharLeft
      else if plain_key env Key_J ''j'' 0x43E then Some MoveLineDown
      else if plain_key env Key_K ''k'' 0x43B then Some MoveLineUp
      else if plain_right env then Some MoveCharRight
      else None)"

definition compose_inner_word :: "('d, 't) compose_env \<Rightarrow> 'd compose \<Rightarrow> 'd compose" where
  "compose_inner_word env s =
     (let change = (cs_operation s = OpChangeInner);
          yank = (cs_operation s = OpYankInner);
          s1 = clear_pending (clear_operation s) in
      if yank then snd (copy_inner_word env s1)
      else let s2 = snd (delete_inner_word env s1) in
      if change then change_after_delete env s2 else s2)"

definition compose_motion_keys :: "('d, 't) compose_env \<Rightarrow> 'd compose \<Rightarrow> (bool \<times> 'd compose) option" where
  "compose_motion_keys env s =
     (case compose_step_motion env of
        Some operation \<Rightarrow> Some (True, snd (move_cursor env operation (clear_pending s)))
      | None \<Rightarrow>
      if either_key env Key_W ''w'' 0x446 then
        (if cs_operation s = OpDeleteInner \<or> cs_operation s = OpChangeInner \<or> cs_operation s = OpYankInner
         then Some (True, compose_inner_word env s)
         else Some (True, snd (move_cursor env MoveNextWord (clear_pending s))))
      else if either_key env Key_B ''b'' 0x438 then
        Some (True, snd (move_cursor env MovePreviousWord (clear_pending s)))
      else if either_key env Key_E ''e'' 0x443 then
        Some (True, snd (move_cursor env MoveEndOfWord (clear_pending s)))
      else None)"

definition compose_line_keys :: "('d, 't) compose_env \<Rightarrow> 'd compose \<Rightarrow> (bool \<times> 'd compose) option" where
  "compose_line_keys env s =
     (let e = ce_event env; qt = ce_qt env; s1 = clear_pending s in
      if typed_text e (latin ''^'') then
        Some (True, move_cursor_to env (line_first_non_blank (ce_lib env) (cs_doc s1) (cs_cursor s1)) s1)
      else if is_line_start qt e then Some (True, move_cursor_to env (fst (compose_line env s1)) s1)
      else if is_line_end qt e then Some (True, move_cursor_to env (snd (compose_line env s1)) s1)
      else if typed_text e (latin ''{'') then Some (True, snd (move_cursor env MovePreviousBlock s1))
      else if typed_text e (latin ''}'') then Some (True, snd (move_cursor env MoveNextBlock s1))
      else None)"

definition compose_char_keys :: "('d, 't) compose_env \<Rightarrow> 'd compose \<Rightarrow> (bool \<times> 'd compose) option" where
  "compose_char_keys env s =
     (let s1 = clear_command env s in
      if typed_text (ce_event env) (latin ''~'') then Some (True, toggle_case env s1)
      else if plain_key env Key_X ''x'' 0x447 then Some (True, delete_next_char env False s1)
      else if shift_key env Key_X ''x'' 0x447 then Some (True, delete_previous_char env s1)
      else if shift_key env Key_D ''d'' 0x432 then Some (True, delete_to_line_end env False s1)
      else if shift_key env Key_C ''c'' 0x441 then Some (True, delete_to_line_end env True s1)
      else None)"

text \<open>\<open>c\<close> and \<open>d\<close>, with the timer that turns a lone \<open>d\<close> into hints for deleting messages.\<close>

definition compose_change_key :: "('d, 't) compose_env \<Rightarrow> 'd compose \<Rightarrow> bool \<times> 'd compose" where
  "compose_change_key env s =
     (let s1 = clear_pending s in
      if \<not> tl_has_text (ce_lib env) (cs_doc s1) then (False, clear_operation s1)
      else if cs_operation s1 = OpChange then
        (True, change_after_delete env (snd (delete_current_line env (clear_operation s1))))
      else (True, focus_field env (s1\<lparr>cs_operation := OpChange\<rparr>)))"

definition compose_delete_key :: "('d, 't) compose_env \<Rightarrow> 'd compose \<Rightarrow> bool \<times> 'd compose" where
  "compose_delete_key env s =
     (if ev_auto_repeat (ce_event env) then (True, s)
      else let s1 = clear_pending s in
      if \<not> tl_has_text (ce_lib env) (cs_doc s1) then (False, clear_operation s1)
      else if cs_operation s1 = OpDelete then (True, snd (delete_current_line env (clear_operation s1)))
      else let s2 = focus_field env (s1\<lparr>cs_operation := OpDelete\<rparr>) in
      (True, if action_key (ce_qt env) (cs_keymap s2) (ce_event env) = Some DeleteMessage
        then s2\<lparr>cs_delete_timer := Some (tl_revision (ce_lib env) (cs_doc s2))\<rparr> else s2))"

text \<open>The callback of the timer, and whether it shows the hints.\<close>

definition delete_timer_fired :: "('d, 't) compose_env \<Rightarrow> bool \<Rightarrow> 'd compose \<Rightarrow> bool \<times> 'd compose" where
  "delete_timer_fired env can_show s =
     (case cs_delete_timer s of
        None \<Rightarrow> (False, s)
      | Some revision \<Rightarrow>
          let s1 = s\<lparr>cs_delete_timer := None\<rparr> in
          if cs_operation s1 \<noteq> OpDelete then (False, s1)
          else let s2 = clear_operation s1 in
          (\<not> (\<not> compose_normal env s2 \<or> \<not> can_show \<or> tl_revision (ce_lib env) (cs_doc s2) \<noteq> revision), s2))"

definition compose_operator_keys :: "('d, 't) compose_env \<Rightarrow> 'd compose \<Rightarrow> (bool \<times> 'd compose) option" where
  "compose_operator_keys env s =
     (if plain_key env Key_C ''c'' 0x441 then Some (compose_change_key env s)
      else if plain_key env Key_D ''d'' 0x432 then Some (compose_delete_key env s)
      else None)"

definition compose_substitute_keys :: "('d, 't) compose_env \<Rightarrow> 'd compose \<Rightarrow> (bool \<times> 'd compose) option" where
  "compose_substitute_keys env s =
     (if plain_key env Key_S ''s'' 0x44B then Some (True, delete_next_char env True (clear_command env s))
      else if shift_key env Key_S ''s'' 0x44B then
        Some (True, change_after_delete env (snd (delete_current_line env (clear_command env s))))
      else if plain_key env Key_R ''r'' 0x43A then
        Some (True, focus_field env ((clear_visual env (clear_operation s))\<lparr>cs_pending := PendingReplace\<rparr>))
      else if shift_key env Key_R ''r'' 0x43A then Some (True, enter_input_mode env s)
      else if shift_key env Key_J ''j'' 0x43E then Some (True, join_line env (clear_command env s))
      else None)"

definition compose_yank_key :: "('d, 't) compose_env \<Rightarrow> 'd compose \<Rightarrow> bool \<times> 'd compose" where
  "compose_yank_key env s =
     (let s1 = clear_pending s in
      if \<not> tl_has_text (ce_lib env) (cs_doc s1) then (False, clear_operation s1)
      else if cs_operation s1 = OpYank then (True, copy_current_line env (clear_operation s1))
      else (True, focus_field env (s1\<lparr>cs_operation := OpYank\<rparr>)))"

definition compose_yank_keys :: "('d, 't) compose_env \<Rightarrow> 'd compose \<Rightarrow> (bool \<times> 'd compose) option" where
  "compose_yank_keys env s =
     (if plain_key env Key_Y ''y'' 0x43D then Some (compose_yank_key env s)
      else if shift_key env Key_Y ''y'' 0x43D then Some (True, copy_current_line env (clear_command env s))
      else if plain_key env Key_P ''p'' 0x437 then
        Some (True, line_paste env False (clear_visual env (clear_operation s)))
      else if shift_key env Key_P ''p'' 0x437 then
        Some (True, line_paste env True (clear_visual env (clear_operation s)))
      else None)"

definition compose_cancel_keys :: "'d compose \<Rightarrow> bool \<times> 'd compose" where
  "compose_cancel_keys s =
     (if cs_pending s \<noteq> 0 then (True, clear_pending s)
      else if cs_operation s \<noteq> 0 then (True, clear_pending (clear_operation s))
      else (False, s))"

definition compose_inner_keys :: "('d, 't) compose_env \<Rightarrow> 'd compose \<Rightarrow> (bool \<times> 'd compose) option" where
  "compose_inner_keys env s =
     (if cs_pending s \<noteq> PendingVisualInner then None
      else if either_key env Key_W ''w'' 0x446 then Some (True, select_visual_inner_word env (clear_pending s))
      else Some (True, focus_field env (clear_pending s)))"

text \<open>The first group that claims the key decides.\<close>

fun first_handled :: "('s \<Rightarrow> 'r option) list \<Rightarrow> ('s \<Rightarrow> 'r) \<Rightarrow> 's \<Rightarrow> 'r" where
  "first_handled [] otherwise s = otherwise s"
| "first_handled (f # fs) otherwise s =
     (case f s of Some r \<Rightarrow> r | None \<Rightarrow> first_handled fs otherwise s)"

definition compose_key_groups :: "('d, 't) compose_env \<Rightarrow> ('d compose \<Rightarrow> (bool \<times> 'd compose) option) list" where
  "compose_key_groups env =
     [compose_window_guards env, compose_mode_guards env, compose_inner_keys env, compose_visual_keys env,
      compose_replace_keys env, compose_history_keys env, compose_insert_keys env, compose_mode_keys env,
      compose_motion_keys env, compose_line_keys env, compose_char_keys env, compose_operator_keys env,
      compose_substitute_keys env, compose_yank_keys env]"

definition handle_compose_text_key :: "('d, 't) compose_env \<Rightarrow> 'd compose \<Rightarrow> bool \<times> 'd compose" where
  "handle_compose_text_key env = first_handled (compose_key_groups env) compose_cancel_keys"

end
