(* ===== verification/ComposeProofs.thy ===== *)
theory ComposeProofs
  imports ComposeEditor
begin

text \<open>
  What the Vim keys of the composer promise: the saved draft follows the text, the state stays well
  formed, typing is left to the field in insert mode, and the operators do what their keys say.
\<close>

section \<open>What the parts of the handler leave alone\<close>

lemma refresh_frame [simp]:
  "cs_doc (refresh_cursor env s) = cs_doc s"
  "cs_draft (refresh_cursor env s) = cs_draft s"
  "cs_clipboard (refresh_cursor env s) = cs_clipboard s"
  "cs_operation (refresh_cursor env s) = cs_operation s"
  "cs_visual (refresh_cursor env s) = cs_visual s"
  "cs_visual_anchor (refresh_cursor env s) = cs_visual_anchor s"
  "cs_pending (refresh_cursor env s) = cs_pending s"
  "cs_keymap (refresh_cursor env s) = cs_keymap s"
  "cs_delete_timer (refresh_cursor env s) = cs_delete_timer s"
  "cs_focus (refresh_cursor env s) = cs_focus s"
  by (simp_all add: refresh_cursor_def refresh_compose_cursor_def set_text_cursor_def Let_def)

lemma focus_frame [simp]:
  "cs_doc (focus_field env s) = cs_doc s"
  "cs_draft (focus_field env s) = cs_draft s"
  "cs_clipboard (focus_field env s) = cs_clipboard s"
  "cs_operation (focus_field env s) = cs_operation s"
  "cs_visual (focus_field env s) = cs_visual s"
  "cs_visual_anchor (focus_field env s) = cs_visual_anchor s"
  "cs_pending (focus_field env s) = cs_pending s"
  "cs_keymap (focus_field env s) = cs_keymap s"
  by (simp_all add: focus_field_def set_focus_def)

lemma cursor_frame [simp]:
  "cs_doc (set_text_cursor c s) = cs_doc s"
  "cs_draft (set_text_cursor c s) = cs_draft s"
  "cs_clipboard (set_text_cursor c s) = cs_clipboard s"
  "cs_operation (set_text_cursor c s) = cs_operation s"
  "cs_visual (set_text_cursor c s) = cs_visual s"
  "cs_visual_anchor (set_text_cursor c s) = cs_visual_anchor s"
  "cs_pending (set_text_cursor c s) = cs_pending s"
  "cs_keymap (set_text_cursor c s) = cs_keymap s"
  "cs_cursor (set_text_cursor c s) = c"
  by (simp_all add: set_text_cursor_def)

lemma mode_frame [simp]:
  "cs_doc (compose_set_normal b s) = cs_doc s"
  "cs_draft (compose_set_normal b s) = cs_draft s"
  "cs_clipboard (compose_set_normal b s) = cs_clipboard s"
  "cs_operation (compose_set_normal b s) = cs_operation s"
  "cs_visual (compose_set_normal b s) = cs_visual s"
  "cs_pending (compose_set_normal b s) = cs_pending s"
  "cs_cursor (compose_set_normal b s) = cs_cursor s"
  by (simp_all add: compose_set_normal_def)

lemma reset_frame [simp]:
  "cs_doc (reset_compose s) = cs_doc s"
  "cs_draft (reset_compose s) = cs_draft s"
  "cs_clipboard (reset_compose s) = cs_clipboard s"
  "cs_cursor (reset_compose s) = cs_cursor s"
  "cs_keymap (reset_compose s) = cs_keymap s"
  "cs_operation (reset_compose s) = 0"
  "cs_visual (reset_compose s) = 0"
  "cs_pending (reset_compose s) = 0"
  by (simp_all add: reset_compose_def)

lemma clear_frame [simp]:
  "cs_doc (clear_pending s) = cs_doc s" "cs_doc (clear_operation s) = cs_doc s"
  "cs_draft (clear_pending s) = cs_draft s" "cs_draft (clear_operation s) = cs_draft s"
  "cs_clipboard (clear_pending s) = cs_clipboard s" "cs_clipboard (clear_operation s) = cs_clipboard s"
  "cs_cursor (clear_pending s) = cs_cursor s" "cs_cursor (clear_operation s) = cs_cursor s"
  "cs_keymap (clear_pending s) = cs_keymap s" "cs_keymap (clear_operation s) = cs_keymap s"
  "cs_visual (clear_pending s) = cs_visual s" "cs_visual (clear_operation s) = cs_visual s"
  "cs_operation (clear_pending s) = cs_operation s" "cs_operation (clear_operation s) = 0"
  "cs_pending (clear_pending s) = 0" "cs_pending (clear_operation s) = cs_pending s"
  by (simp_all add: clear_pending_def clear_operation_def)

lemma clear_visual_frame [simp]:
  "cs_doc (clear_visual env s) = cs_doc s"
  "cs_draft (clear_visual env s) = cs_draft s"
  "cs_clipboard (clear_visual env s) = cs_clipboard s"
  "cs_operation (clear_visual env s) = cs_operation s"
  "cs_visual (clear_visual env s) = 0"
  "cs_pending (clear_visual env s) = cs_pending s"
  "cs_keymap (clear_visual env s) = cs_keymap s"
  by (simp_all add: clear_visual_def)

lemma clear_command_frame [simp]:
  "cs_doc (clear_command env s) = cs_doc s"
  "cs_draft (clear_command env s) = cs_draft s"
  "cs_clipboard (clear_command env s) = cs_clipboard s"
  "cs_operation (clear_command env s) = 0"
  "cs_visual (clear_command env s) = 0"
  "cs_pending (clear_command env s) = 0"
  "cs_keymap (clear_command env s) = cs_keymap s"
  by (simp_all add: clear_command_def)

lemma copy_frame [simp]:
  "cs_doc (snd (copy_cursor_selection env c s)) = cs_doc s"
  "cs_draft (snd (copy_cursor_selection env c s)) = cs_draft s"
  "cs_operation (snd (copy_cursor_selection env c s)) = cs_operation s"
  "cs_visual (snd (copy_cursor_selection env c s)) = cs_visual s"
  "cs_pending (snd (copy_cursor_selection env c s)) = cs_pending s"
  "cs_keymap (snd (copy_cursor_selection env c s)) = cs_keymap s"
  by (simp_all add: copy_cursor_selection_def)

lemma visual_frame [simp]:
  "cs_doc (set_visual_selection env p s) = cs_doc s"
  "cs_draft (set_visual_selection env p s) = cs_draft s"
  "cs_clipboard (set_visual_selection env p s) = cs_clipboard s"
  "cs_operation (set_visual_selection env p s) = cs_operation s"
  "cs_visual (set_visual_selection env p s) = cs_visual s"
  "cs_pending (set_visual_selection env p s) = cs_pending s"
  "cs_keymap (set_visual_selection env p s) = cs_keymap s"
  "cs_doc (set_visual_selection_character env p s) = cs_doc s"
  "cs_draft (set_visual_selection_character env p s) = cs_draft s"
  "cs_clipboard (set_visual_selection_character env p s) = cs_clipboard s"
  "cs_operation (set_visual_selection_character env p s) = cs_operation s"
  "cs_visual (set_visual_selection_character env p s) = cs_visual s"
  "cs_pending (set_visual_selection_character env p s) = cs_pending s"
  "cs_keymap (set_visual_selection_character env p s) = cs_keymap s"
  by (simp_all add: set_visual_selection_def set_visual_selection_character_def fix_visual_anchor_def Let_def)

section \<open>The draft follows the text\<close>

definition draft_in_sync :: "('d, 't) compose_env \<Rightarrow> 'd compose \<Rightarrow> bool" where
  "draft_in_sync env s \<longleftrightarrow> tl_tagged (ce_lib env) (cs_draft s) = tl_tagged (ce_lib env) (cs_doc s)"

named_theorems sync

lemma sync_frame:
  "cs_doc s' = cs_doc s \<Longrightarrow> cs_draft s' = cs_draft s \<Longrightarrow> draft_in_sync env s' = draft_in_sync env s"
  by (simp add: draft_in_sync_def)

lemma sync_frames [sync, simp]:
  "draft_in_sync env (refresh_cursor env' s) = draft_in_sync env s"
  "draft_in_sync env (focus_field env' s) = draft_in_sync env s"
  "draft_in_sync env (set_text_cursor c s) = draft_in_sync env s"
  "draft_in_sync env (compose_set_normal b s) = draft_in_sync env s"
  "draft_in_sync env (reset_compose s) = draft_in_sync env s"
  "draft_in_sync env (clear_pending s) = draft_in_sync env s"
  "draft_in_sync env (clear_operation s) = draft_in_sync env s"
  "draft_in_sync env (clear_visual env' s) = draft_in_sync env s"
  "draft_in_sync env (clear_command env' s) = draft_in_sync env s"
  "draft_in_sync env (set_visual_selection env' p s) = draft_in_sync env s"
  "draft_in_sync env (set_visual_selection_character env' p s) = draft_in_sync env s"
  "draft_in_sync env (snd (copy_cursor_selection env' c s)) = draft_in_sync env s"
  "draft_in_sync env (cs_operation_update f s) = draft_in_sync env s"
  "draft_in_sync env (cs_visual_update f s) = draft_in_sync env s"
  "draft_in_sync env (cs_visual_anchor_update f s) = draft_in_sync env s"
  "draft_in_sync env (cs_pending_update f s) = draft_in_sync env s"
  "draft_in_sync env (cs_delete_timer_update t s) = draft_in_sync env s"
  by (simp_all add: draft_in_sync_def)

lemma sync_save [simp]: "draft_in_sync env (compose_save_draft s)"
  by (simp add: draft_in_sync_def compose_save_draft_def)

lemma sync_save_if_changed:
  assumes "draft_in_sync env s" and "cs_draft s' = cs_draft s"
  shows "draft_in_sync env (save_if_changed env (compose_tagged env s) s')"
  using assms by (simp add: save_if_changed_def draft_in_sync_def compose_save_draft_def compose_tagged_def)

lemma removed_draft [simp]: "cs_draft (remove_selected_text env s) = cs_draft s"
  by (simp add: remove_selected_text_def Let_def)

lemma inserted_draft [simp]: "cs_draft (insert_text env c t s) = cs_draft s"
  by (simp add: insert_text_def split: prod.split)

lemma sync_finish [simp]:
  assumes "draft_in_sync env s"
  shows "draft_in_sync env (finish_operator env c s)"
proof -
  have "draft_in_sync env (save_if_changed env (compose_tagged env (reset_compose s))
      (remove_selected_text env (snd (copy_cursor_selection env c (reset_compose s)))))"
    by (rule sync_save_if_changed) (simp_all add: assms)
  then show ?thesis using assms by (simp add: finish_operator_def Let_def)
qed

lemma sync_delete_selection [simp]:
  "draft_in_sync env s \<Longrightarrow> draft_in_sync env (snd (delete_selection env c s))"
  by (auto simp: delete_selection_def Let_def draft_in_sync_def compose_tagged_def compose_save_draft_def)

lemma sync_move_visual [simp]:
  "draft_in_sync env (snd (move_visual env m s)) = draft_in_sync env s"
  by (simp add: move_visual_def move_visual_character_def Let_def split: prod.split)

lemma sync_move_cursor [simp]:
  "draft_in_sync env s \<Longrightarrow> draft_in_sync env (snd (move_cursor env m s))"
  by (simp add: move_cursor_def move_in_line_def Let_def split: prod.split)

lemma sync_move_cursor_to [simp]:
  "draft_in_sync env s \<Longrightarrow> draft_in_sync env (move_cursor_to env p s)"
  by (simp add: move_cursor_to_def Let_def)

lemma sync_undo_redo [simp]:
  "draft_in_sync env s \<Longrightarrow> draft_in_sync env (undo_redo env redo s)"
  by (simp add: undo_redo_def Let_def split: prod.split)

lemma sync_lines [simp]:
  "draft_in_sync env s \<Longrightarrow> draft_in_sync env (snd (delete_current_line env s))"
  "draft_in_sync env s \<Longrightarrow> draft_in_sync env (delete_to_line_end env b s)"
  "draft_in_sync env (copy_current_line env s) = draft_in_sync env s"
  "draft_in_sync env (change_after_delete env s) = draft_in_sync env s"
  "draft_in_sync env (enter_input_mode env s) = draft_in_sync env s"
  "draft_in_sync env (set_input_cursor_position env p s) = draft_in_sync env s"
  "draft_in_sync env (set_input_cursor_after_current env s) = draft_in_sync env s"
  "draft_in_sync env (start_visual_mode env b s) = draft_in_sync env s"
  "draft_in_sync env (line_paste env b s)"
  by (simp_all add: delete_current_line_def delete_to_line_end_def copy_current_line_def change_after_delete_def
      enter_input_mode_def set_input_cursor_position_def set_input_cursor_after_current_def
      start_visual_mode_def line_paste_def Let_def)

lemma sync_words [simp]:
  "draft_in_sync env (select_visual_inner_word env s) = draft_in_sync env s"
  "draft_in_sync env s \<Longrightarrow> draft_in_sync env (snd (delete_inner_word env s))"
  "draft_in_sync env (snd (copy_inner_word env s)) = draft_in_sync env s"
  by (simp_all add: select_visual_inner_word_def delete_inner_word_def copy_inner_word_def Let_def split_beta)

lemma sync_delete_neighbour [simp]:
  assumes "draft_in_sync env s"
  shows "draft_in_sync env (delete_neighbour env m s)"
proof -
  have "draft_in_sync env (save_if_changed env before s1)" if "draft_in_sync env s1" for before s1
    using that by (simp add: save_if_changed_def)
  then show ?thesis using assms by (simp add: delete_neighbour_def Let_def split_beta)
qed

lemma sync_characters [simp]:
  assumes "draft_in_sync env s"
  shows "draft_in_sync env (delete_next_char env b s)" and "draft_in_sync env (delete_previous_char env s)"
    and "draft_in_sync env (replace_next_char env t s)" and "draft_in_sync env (toggle_case env s)"
    and "draft_in_sync env (join_line env s)"
  using assms sync_save_if_changed [OF assms]
    sync_save_if_changed [of env "clear_pending s"]
  by (simp_all add: delete_next_char_def delete_previous_char_def replace_next_char_def toggle_case_def
      join_line_def Let_def split_beta)

lemma sync_open_lines [simp]:
  "draft_in_sync env (open_line_below env s)" "draft_in_sync env (open_line_above env s)"
  by (simp_all add: open_line_below_def open_line_above_def Let_def)

lemma sync_inner_word [simp]: "draft_in_sync env s \<Longrightarrow> draft_in_sync env (compose_inner_word env s)"
  by (simp add: compose_inner_word_def Let_def)

lemma sync_operator_keys [simp]:
  assumes "draft_in_sync env s"
  shows "draft_in_sync env (snd (compose_change_key env s))" and "draft_in_sync env (snd (compose_delete_key env s))"
    and "draft_in_sync env (snd (compose_yank_key env s))" and "draft_in_sync env (snd (compose_cancel_keys s))"
    and "draft_in_sync env (compose_escape env s)"
  using assms
  by (simp_all add: compose_change_key_def compose_delete_key_def compose_yank_key_def compose_cancel_keys_def
      compose_escape_def Let_def)

lemma first_handled_cases:
  assumes "\<And>f r. f \<in> set fs \<Longrightarrow> f s = Some r \<Longrightarrow> P r" and "P (otherwise s)"
  shows "P (first_handled fs otherwise s)"
  using assms(1) by (induction fs) (auto simp: assms(2) split: option.split)

lemma compose_group_cases:
  assumes "f \<in> set (compose_key_groups env)"
  obtains "f = compose_window_guards env"
    | "f = compose_mode_guards env"
    | "f = compose_inner_keys env"
    | "f = compose_visual_keys env"
    | "f = compose_replace_keys env"
    | "f = compose_history_keys env"
    | "f = compose_insert_keys env"
    | "f = compose_mode_keys env"
    | "f = compose_motion_keys env"
    | "f = compose_line_keys env"
    | "f = compose_char_keys env"
    | "f = compose_operator_keys env"
    | "f = compose_substitute_keys env"
    | "f = compose_yank_keys env"
  using assms by (auto simp: compose_key_groups_def)

lemma sync_groups:
  assumes "f \<in> set (compose_key_groups env)" and "f s = Some r" and sync: "draft_in_sync env s"
  shows "draft_in_sync env (snd r)"
  using assms(1)
proof (cases rule: compose_group_cases)
  case 1 then show ?thesis using assms(2) sync
    by (auto simp: compose_window_guards_def Let_def split: if_splits option.splits)
next
  case 2 then show ?thesis using assms(2) sync
    by (auto simp: compose_mode_guards_def Let_def split: if_splits option.splits)
next
  case 3 then show ?thesis using assms(2) sync
    by (auto simp: compose_inner_keys_def Let_def split: if_splits option.splits)
next
  case 4 then show ?thesis using assms(2) sync
    by (auto simp: compose_visual_keys_def Let_def split: if_splits option.splits)
next
  case 5 then show ?thesis using assms(2) sync
    by (auto simp: compose_replace_keys_def Let_def split: if_splits option.splits)
next
  case 6 then show ?thesis using assms(2) sync
    by (auto simp: compose_history_keys_def Let_def split: if_splits option.splits)
next
  case 7 then show ?thesis using assms(2) sync
    by (auto simp: compose_insert_keys_def Let_def split: if_splits option.splits)
next
  case 8 then show ?thesis using assms(2) sync
    by (auto simp: compose_mode_keys_def Let_def split: if_splits option.splits)
next
  case 9 then show ?thesis using assms(2) sync
    by (auto simp: compose_motion_keys_def Let_def split: if_splits option.splits)
next
  case 10 then show ?thesis using assms(2) sync
    by (auto simp: compose_line_keys_def Let_def split: if_splits option.splits)
next
  case 11 then show ?thesis using assms(2) sync
    by (auto simp: compose_char_keys_def Let_def split: if_splits option.splits)
next
  case 12 then show ?thesis using assms(2) sync
    by (auto simp: compose_operator_keys_def Let_def split: if_splits option.splits)
next
  case 13 then show ?thesis using assms(2) sync
    by (auto simp: compose_substitute_keys_def Let_def split: if_splits option.splits)
next
  case 14 then show ?thesis using assms(2) sync
    by (auto simp: compose_yank_keys_def Let_def split: if_splits option.splits)
qed

section \<open>The state stays well formed\<close>

definition compose_ok :: "('d, 't) compose_env \<Rightarrow> 'd compose \<Rightarrow> bool" where
  "compose_ok env s \<longleftrightarrow>
     cursor_in (ce_lib env) (cs_doc s) (cs_cursor s)
     \<and> 0 \<le> cs_operation s \<and> cs_operation s \<le> OpYankInner
     \<and> 0 \<le> cs_visual s \<and> cs_visual s \<le> 2
     \<and> 0 \<le> cs_pending s \<and> cs_pending s \<le> PendingVisualInner"

text \<open>A cursor of the document at hand: what every step needs of the cursors it builds.\<close>

definition compose_safe :: "('d, 't) compose_env \<Rightarrow> 'd compose \<Rightarrow> bool" where
  "compose_safe env s \<longleftrightarrow> document_laws (ce_lib env) \<and> compose_ok env s"

abbreviation here :: "('d, 't) compose_env \<Rightarrow> 'd compose \<Rightarrow> text_cursor \<Rightarrow> bool" where
  "here env s c \<equiv> cursor_in (ce_lib env) (cs_doc s) c"

lemma safe_here: "compose_safe env s \<Longrightarrow> here env s (cs_cursor s)"
  by (simp add: compose_safe_def compose_ok_def)

lemma safe_laws: "compose_safe env s \<Longrightarrow> document_laws (ce_lib env)"
  by (simp add: compose_safe_def)

lemma cursor_in_set_position:
  "cursor_in lib d c \<Longrightarrow> 0 \<le> p \<Longrightarrow> p \<le> tl_end lib d \<Longrightarrow> cursor_in lib d (set_position p keep c)"
  by (simp add: cursor_in_def set_position_def)

lemma cursor_in_clear: "cursor_in lib d c \<Longrightarrow> cursor_in lib d (clear_selection c)"
  by (simp add: cursor_in_def clear_selection_def)

lemma cursor_in_move:
  "document_laws lib \<Longrightarrow> cursor_in lib d c \<Longrightarrow> cursor_in lib d (fst (move_position lib m keep d c))"
  using document_law(2) by (fastforce simp: move_position_def split_beta intro: cursor_in_set_position)

lemma cursor_in_normalize:
  assumes "document_laws lib" and "cursor_in lib d c"
  shows "cursor_in lib d (fst (normalize_compose_cursor lib d c))"
proof -
  have c: "0 \<le> snd c" "snd c \<le> tl_end lib d" using assms(2) by (auto simp: cursor_in_def)
  note line = compose_line_bounds [OF assms(1) c]
  show ?thesis
  proof (cases "fst (compose_line_at lib d c) = snd (compose_line_at lib d c)")
    case True then show ?thesis using assms(2) by (simp add: normalize_compose_cursor_def split_beta)
  next
    case False
    then have "0 \<le> snd (compose_line_at lib d c) - 1" "snd (compose_line_at lib d c) - 1 \<le> tl_end lib d"
      using line by linarith+
    then have "cursor_in lib d (set_position (snd (compose_line_at lib d c) - 1) False c)"
      by (rule cursor_in_set_position [OF assms(2)])
    then show ?thesis using assms(2) by (simp add: normalize_compose_cursor_def split_beta)
  qed
qed

lemma clamp_in: "lo \<le> hi \<Longrightarrow> lo \<le> clamp v lo hi" "lo \<le> hi \<Longrightarrow> clamp v lo hi \<le> hi"
  by (simp_all add: clamp_def)

lemma maximum_is_end: "document_laws (ce_lib env) \<Longrightarrow> maximum_position env s = tl_end (ce_lib env) (cs_doc s)"
  by (simp add: maximum_position_def document_law)

lemma end_nonneg: "document_laws lib \<Longrightarrow> 0 \<le> tl_end lib d"
  by (rule document_law)

lemma safe_set_cursor [simp]:
  "compose_safe env s \<Longrightarrow> here env s c \<Longrightarrow> compose_safe env (set_text_cursor c s)"
  by (simp add: compose_safe_def compose_ok_def)

lemma safe_refresh [simp]: "compose_safe env s \<Longrightarrow> compose_safe env (refresh_cursor env s)"
proof -
  assume s: "compose_safe env s"
  have "here env s (fst (normalize_compose_cursor (ce_lib env) (cs_doc s) (cs_cursor s)))"
    using s by (intro cursor_in_normalize safe_here safe_laws)
  then have "here env s (cs_cursor (refresh_cursor env s))"
    using safe_here [OF s] by (simp add: refresh_cursor_def refresh_compose_cursor_def Let_def set_text_cursor_def)
  then show ?thesis using s by (simp add: compose_safe_def compose_ok_def)
qed

lemma safe_updates [simp]:
  "compose_safe env s \<Longrightarrow> compose_safe env (set_focus s)"
  "compose_safe env s \<Longrightarrow> compose_safe env (compose_set_normal b s)"
  "compose_safe env s \<Longrightarrow> compose_safe env (compose_save_draft s)"
  "compose_safe env s \<Longrightarrow> compose_safe env (reset_compose s)"
  "compose_safe env s \<Longrightarrow> compose_safe env (clear_pending s)"
  "compose_safe env s \<Longrightarrow> compose_safe env (clear_operation s)"
  "compose_safe env (cs_visual_anchor_update f s) = compose_safe env s"
  "compose_safe env (cs_clipboard_update g s) = compose_safe env s"
  "compose_safe env (cs_delete_timer_update h s) = compose_safe env s"
  "compose_safe env s \<Longrightarrow> 0 \<le> v \<Longrightarrow> v \<le> 2 \<Longrightarrow> compose_safe env (s\<lparr>cs_visual := v\<rparr>)"
  "compose_safe env s \<Longrightarrow> 0 \<le> op \<Longrightarrow> op \<le> 6 \<Longrightarrow> compose_safe env (s\<lparr>cs_operation := op\<rparr>)"
  "compose_safe env s \<Longrightarrow> 0 \<le> pd \<Longrightarrow> pd \<le> 3 \<Longrightarrow> compose_safe env (s\<lparr>cs_pending := pd\<rparr>)"
  by (simp_all add: compose_safe_def compose_ok_def set_focus_def compose_save_draft_def reset_compose_def)

lemma safe_focus [simp]: "compose_safe env s \<Longrightarrow> compose_safe env (focus_field env s)"
  by (simp add: focus_field_def)

lemma safe_clear_visual [simp]: "compose_safe env s \<Longrightarrow> compose_safe env (clear_visual env s)"
  by (simp add: clear_visual_def cursor_in_clear safe_here)

lemma safe_clear_command [simp]: "compose_safe env s \<Longrightarrow> compose_safe env (clear_command env s)"
  by (simp add: clear_command_def)

lemma safe_copy [simp]:
  "compose_safe env s \<Longrightarrow> here env s c \<Longrightarrow> compose_safe env (snd (copy_cursor_selection env c s))"
  by (simp add: copy_cursor_selection_def)

lemma safe_remove [simp]:
  assumes "compose_safe env s"
  shows "compose_safe env (remove_selected_text env s)"
proof -
  let ?c = "cs_cursor s" and ?lib = "ce_lib env"
  have c: "0 \<le> selection_start ?c" "selection_start ?c \<le> selection_end ?c" "selection_end ?c \<le> tl_end ?lib (cs_doc s)"
    using safe_here [OF assms] by (auto simp: cursor_in_def selection_start_def selection_end_def)
  then have "tl_end ?lib (tl_remove ?lib (cs_doc s) (selection_start ?c) (selection_end ?c))
      = tl_end ?lib (cs_doc s) - (selection_end ?c - selection_start ?c)"
    using document_law(4) [OF safe_laws [OF assms]] by simp
  then show ?thesis
    using assms c by (simp add: compose_safe_def compose_ok_def remove_selected_text_def Let_def cursor_in_def)
qed

lemma safe_insert [simp]:
  assumes "compose_safe env s" and "here env s c"
  shows "compose_safe env (insert_text env c t s)"
proof -
  have "0 \<le> snd (tl_insert (ce_lib env) (cs_doc s) c t)
      \<and> snd (tl_insert (ce_lib env) (cs_doc s) c t) \<le> tl_end (ce_lib env) (fst (tl_insert (ce_lib env) (cs_doc s) c t))"
    using document_law(5) [OF safe_laws [OF assms(1)] assms(2)] by simp
  then show ?thesis
    using assms by (simp add: compose_safe_def compose_ok_def insert_text_def split_beta cursor_in_def)
qed

lemma safe_save_if_changed [simp]: "compose_safe env s \<Longrightarrow> compose_safe env (save_if_changed env before s)"
  by (simp add: save_if_changed_def)

lemma safe_clear_cursor [simp]:
  "compose_safe env s \<Longrightarrow> compose_safe env (set_text_cursor (clear_selection (cs_cursor s)) s)"
  by (simp add: cursor_in_clear safe_here)

lemma safe_finish [simp]:
  assumes "compose_safe env s" and "here env s c"
  shows "compose_safe env (finish_operator env c s)"
  using assms by (simp add: finish_operator_def Let_def)

lemma safe_delete_selection [simp]:
  assumes "compose_safe env s" and "here env s c"
  shows "compose_safe env (snd (delete_selection env c s))"
  using assms by (simp add: delete_selection_def Let_def)

lemma safe_fix_anchor [simp]: "compose_safe env s \<Longrightarrow> compose_safe env (fix_visual_anchor env s)"
  by (simp add: fix_visual_anchor_def Let_def)

lemma fix_anchor_frame [simp]:
  "cs_doc (fix_visual_anchor env s) = cs_doc s" "cs_cursor (fix_visual_anchor env s) = cs_cursor s"
  by (simp_all add: fix_visual_anchor_def Let_def)

lemma safe_visual_selection [simp]:
  assumes "compose_safe env s"
  shows "compose_safe env (set_visual_selection env p s)"
proof -
  let ?m = "maximum_position env s"
  have m: "?m = tl_end (ce_lib env) (cs_doc s)" "0 \<le> ?m"
    using safe_laws [OF assms] by (simp_all add: maximum_is_end end_nonneg)
  have "here env s (set_position (min ?m (max (clamp p 0 ?m) (clamp a 0 ?m + 1))) True (set_position (clamp a 0 ?m) False c))"
    and "here env s (set_position (clamp p 0 ?m) True (set_position (min ?m (clamp a 0 ?m + 1)) False c))"
    for a c
    using clamp_in [OF m(2), of a] clamp_in [OF m(2), of p] m by (simp_all add: cursor_in_def set_position_def)
  then show ?thesis using assms by (simp add: set_visual_selection_def Let_def)
qed

lemma safe_visual_character [simp]:
  "compose_safe env s \<Longrightarrow> compose_safe env (set_visual_selection_character env p s)"
  by (simp add: set_visual_selection_character_def Let_def)

lemma safe_move_visual [simp]: "compose_safe env s \<Longrightarrow> compose_safe env (snd (move_visual env m s))"
  by (simp add: move_visual_def move_visual_character_def Let_def split_beta)

lemma here_line:
  assumes "compose_safe env s" and "here env s c"
  shows "0 \<le> fst (compose_line_at (ce_lib env) (cs_doc s) c)"
    and "fst (compose_line_at (ce_lib env) (cs_doc s) c) \<le> tl_end (ce_lib env) (cs_doc s)"
    and "0 \<le> snd (compose_line_at (ce_lib env) (cs_doc s) c)"
    and "snd (compose_line_at (ce_lib env) (cs_doc s) c) \<le> tl_end (ce_lib env) (cs_doc s)"
    and "fst (compose_line_at (ce_lib env) (cs_doc s) c) \<le> snd (compose_line_at (ce_lib env) (cs_doc s) c)"
proof -
  have c: "0 \<le> snd c" "snd c \<le> tl_end (ce_lib env) (cs_doc s)" using assms(2) by (auto simp: cursor_in_def)
  note line = compose_line_bounds [OF safe_laws [OF assms(1)] c]
  show "0 \<le> fst (compose_line_at (ce_lib env) (cs_doc s) c)"
    "fst (compose_line_at (ce_lib env) (cs_doc s) c) \<le> tl_end (ce_lib env) (cs_doc s)"
    "0 \<le> snd (compose_line_at (ce_lib env) (cs_doc s) c)"
    "snd (compose_line_at (ce_lib env) (cs_doc s) c) \<le> tl_end (ce_lib env) (cs_doc s)"
    "fst (compose_line_at (ce_lib env) (cs_doc s) c) \<le> snd (compose_line_at (ce_lib env) (cs_doc s) c)"
    using line c by linarith+
qed

lemma here_in_line:
  assumes "compose_safe env s" and "here env s c"
  shows "here env s (set_position (clamp q (fst (compose_line_at (ce_lib env) (cs_doc s) c))
    (line_last_character_position (ce_lib env) (cs_doc s) c)) False c)"
proof (rule cursor_in_set_position [OF assms(2)])
  note line = here_line [OF assms]
  let ?f = "fst (compose_line_at (ce_lib env) (cs_doc s) c)"
  let ?l = "line_last_character_position (ce_lib env) (cs_doc s) c"
  have l: "?f \<le> ?l" "?l \<le> tl_end (ce_lib env) (cs_doc s)"
    using line by (simp_all add: line_last_character_position_def split_beta)
  show "0 \<le> clamp q ?f ?l" "clamp q ?f ?l \<le> tl_end (ce_lib env) (cs_doc s)"
    using clamp_in [OF l(1), of q] l(2) line(1) by linarith+
qed

lemma here_normalize: "compose_safe env s \<Longrightarrow> here env s c
    \<Longrightarrow> here env s (fst (normalize_compose_cursor (ce_lib env) (cs_doc s) c))"
  by (rule cursor_in_normalize [OF safe_laws])

lemma here_move: "compose_safe env s \<Longrightarrow> here env s c
    \<Longrightarrow> here env s (fst (move_position (ce_lib env) m keep (cs_doc s) c))"
  by (rule cursor_in_move [OF safe_laws])

lemma safe_move_cursor [simp]:
  assumes "compose_safe env s"
  shows "compose_safe env (snd (move_cursor env m s))"
  using assms here_normalize [OF assms safe_here [OF assms]] safe_here [OF assms]
  by (simp add: move_cursor_def move_in_line_def Let_def split_beta here_in_line here_move)

lemma here_clamp: "compose_safe env s \<Longrightarrow> here env s c
    \<Longrightarrow> here env s (set_position (clamp p 0 (maximum_position env s)) keep c)"
  by (intro cursor_in_set_position) (simp_all add: maximum_is_end safe_laws end_nonneg clamp_in)

lemma safe_move_cursor_to [simp]: "compose_safe env s \<Longrightarrow> compose_safe env (move_cursor_to env p s)"
  by (simp add: move_cursor_to_def Let_def here_clamp safe_here)

lemma safe_set_document:
  "compose_safe env s \<Longrightarrow> cursor_in (ce_lib env) d c \<Longrightarrow> compose_safe env ((set_text_cursor c s)\<lparr>cs_doc := d\<rparr>)"
  by (simp add: compose_safe_def compose_ok_def)

lemma safe_undo_redo [simp]: "compose_safe env s \<Longrightarrow> compose_safe env (undo_redo env redo s)"
  by (simp add: undo_redo_def Let_def split_beta safe_set_document document_law(7,8) [OF safe_laws])

lemma here_current_line:
  assumes "compose_safe env s"
  shows "here env s (select_current_line env s)"
  using here_line [OF assms safe_here [OF assms]] end_nonneg [OF safe_laws [OF assms]]
  by (simp add: select_current_line_def compose_line_def split_beta Let_def cursor_in_def set_position_def
      maximum_is_end [OF safe_laws [OF assms]])

lemma here_word:
  assumes "compose_safe env s"
  shows "here env s (select_inner_word_at env p s)"
proof -
  let ?p = "clamp p 0 (maximum_position env s)" and ?lib = "ce_lib env"
  have word: "here env s (tl_word ?lib (cs_doc s) (snd c))" if "here env s c" for c
    using that document_law(3) [OF safe_laws [OF assms]] by (simp add: cursor_in_def)
  have p: "here env s (?p, ?p)"
    using here_clamp [OF assms safe_here [OF assms], of p False] by (simp add: set_position_def)
  show ?thesis
    using word [OF p] word [OF here_move [OF assms p]] by (simp add: select_inner_word_at_def Let_def)
qed

lemma safe_lines [simp]:
  assumes "compose_safe env s"
  shows "compose_safe env (snd (delete_current_line env s))"
    and "compose_safe env (delete_to_line_end env b s)"
    and "compose_safe env (copy_current_line env s)"
    and "compose_safe env (change_after_delete env s)"
    and "compose_safe env (enter_input_mode env s)"
    and "compose_safe env (set_input_cursor_position env p s)"
    and "compose_safe env (set_input_cursor_after_current env s)"
    and "compose_safe env (start_visual_mode env b s)"
proof -
  note line = here_line [OF assms safe_here [OF assms]]
  show "compose_safe env (snd (delete_current_line env s))"
    by (simp add: delete_current_line_def assms here_current_line)
  show "compose_safe env (delete_to_line_end env b s)"
    using assms line safe_here [OF assms]
    by (simp add: delete_to_line_end_def Let_def compose_line_def change_after_delete_def cursor_in_set_position)
  show "compose_safe env (copy_current_line env s)"
    by (simp add: copy_current_line_def assms here_current_line Let_def)
  show "compose_safe env (change_after_delete env s)" "compose_safe env (enter_input_mode env s)"
    using assms by (simp_all add: change_after_delete_def enter_input_mode_def)
  show "compose_safe env (set_input_cursor_position env p s)"
    by (simp add: set_input_cursor_position_def assms here_clamp cursor_in_clear safe_here)
  show "compose_safe env (set_input_cursor_after_current env s)"
    by (simp add: set_input_cursor_after_current_def Let_def assms here_move here_normalize cursor_in_clear safe_here)
  have visual: "compose_safe env (s\<lparr>cs_operation := 0, cs_visual := v, cs_pending := 0\<rparr>)" if "0 \<le> v" "v \<le> 2" for v
    using assms that by simp
  show "compose_safe env (start_visual_mode env b s)"
    using visual [of 1] here_current_line [OF visual [of 2]] visual [of 2]
    by (simp add: start_visual_mode_def Let_def)
qed

lemma safe_paste [simp]:
  assumes "compose_safe env s"
  shows "compose_safe env (paste_clipboard env s)"
proof -
  let ?r = "tl_paste (ce_lib env) (cs_doc s) (cs_cursor s) (cs_clipboard s)"
  have "cursor_in (ce_lib env) (fst ?r) (snd ?r, snd ?r)"
    using document_law(6) [OF safe_laws [OF assms] safe_here [OF assms]] by (simp add: cursor_in_def)
  then show ?thesis using assms by (simp add: paste_clipboard_def split_beta safe_set_document)
qed

lemma safe_line_paste [simp]: "compose_safe env s \<Longrightarrow> compose_safe env (line_paste env b s)"
  by (simp add: line_paste_def Let_def here_move safe_here)

lemma safe_words [simp]:
  assumes "compose_safe env s"
  shows "compose_safe env (select_visual_inner_word env s)"
    and "compose_safe env (snd (delete_inner_word env s))"
    and "compose_safe env (snd (copy_inner_word env s))"
  using assms here_word [OF assms]
  by (simp_all add: select_visual_inner_word_def delete_inner_word_def copy_inner_word_def Let_def split_beta
      select_inner_word_def)

lemma safe_delete_neighbour [simp]: "compose_safe env s \<Longrightarrow> compose_safe env (delete_neighbour env m s)"
  by (simp add: delete_neighbour_def Let_def split_beta here_move safe_here)

lemma safe_join [simp]:
  assumes "compose_safe env s"
  shows "compose_safe env (join_line env s)"
proof -
  let ?lib = "ce_lib env"
  define p where "p = fst (tl_move ?lib MoveEndOfLine False (cs_doc s) (cs_cursor s))"
  define s1 where "s1 = s\<lparr>cs_doc := tl_delete_char ?lib (cs_doc s) p\<rparr>"
  have c: "fst (move_position ?lib MoveEndOfLine False (cs_doc s) (cs_cursor s)) = (p, p)"
    by (simp add: move_position_def split_beta set_position_def p_def)
  have p: "here env s (p, p)" using here_move [OF assms safe_here [OF assms], of MoveEndOfLine False] by (simp add: c)
  have same: "compose_safe env s1" if "compose_tagged env s1 = compose_tagged env s"
    using that document_law(10) [OF safe_laws [OF assms], of "cs_doc s" p] assms
    by (simp add: compose_tagged_def s1_def)
  have at: "cursor_in ?lib (cs_doc s1) (p, p)"
    using document_law(9) [OF safe_laws [OF assms] p] p by (simp add: s1_def cursor_in_def)
  have "compose_safe env (set_text_cursor (p, p) s1)"
    using safe_set_document [OF assms at] by (cases s) (simp add: s1_def set_text_cursor_def)
  then have "compose_safe env (insert_text env (p, p) t (set_text_cursor (p, p) s1))" for t
    using at by (intro safe_insert) simp_all
  then have joined: "compose_safe env (insert_text env (p, p) t s1)" for t
    by (simp add: insert_text_def split_beta set_text_cursor_def)
  show ?thesis
    using same joined unfolding join_line_def Let_def c fst_conv snd_conv s1_def [symmetric] by simp
qed

lemma safe_characters [simp]:
  assumes "compose_safe env s"
  shows "compose_safe env (delete_next_char env b s)" and "compose_safe env (delete_previous_char env s)"
    and "compose_safe env (replace_next_char env t s)" and "compose_safe env (toggle_case env s)"
  using assms
  by (simp_all add: delete_next_char_def delete_previous_char_def replace_next_char_def toggle_case_def
      Let_def split_beta here_move safe_here)

lemma safe_open_lines [simp]:
  assumes "compose_safe env s"
  shows "compose_safe env (open_line_below env s)" and "compose_safe env (open_line_above env s)"
  using assms by (simp_all add: open_line_below_def open_line_above_def Let_def safe_here)

lemma safe_inner_word [simp]: "compose_safe env s \<Longrightarrow> compose_safe env (compose_inner_word env s)"
  by (simp add: compose_inner_word_def Let_def)

lemma safe_operator_keys [simp]:
  assumes "compose_safe env s"
  shows "compose_safe env (snd (compose_change_key env s))" and "compose_safe env (snd (compose_delete_key env s))"
    and "compose_safe env (snd (compose_yank_key env s))" and "compose_safe env (snd (compose_cancel_keys s))"
    and "compose_safe env (compose_escape env s)" and "compose_safe env (snd (delete_timer_fired env can s))"
  using assms
  by (simp_all add: compose_change_key_def compose_delete_key_def compose_yank_key_def compose_cancel_keys_def
      compose_escape_def delete_timer_fired_def Let_def cursor_in_clear safe_here split: option.split)

lemma inner_operation_range: "0 \<le> inner_operation op" "inner_operation op \<le> 6"
  by (simp_all add: inner_operation_def)

lemma safe_groups:
  assumes "f \<in> set (compose_key_groups env)" and "f s = Some r" and safe: "compose_safe env s"
  shows "compose_safe env (snd r)"
  using assms(1)
proof (cases rule: compose_group_cases)
  case 1 then show ?thesis using assms(2) safe
    by (auto simp: compose_window_guards_def Let_def inner_operation_range safe_here split: if_splits option.splits)
next
  case 2 then show ?thesis using assms(2) safe
    by (auto simp: compose_mode_guards_def Let_def inner_operation_range safe_here split: if_splits option.splits)
next
  case 3 then show ?thesis using assms(2) safe
    by (auto simp: compose_inner_keys_def Let_def inner_operation_range safe_here split: if_splits option.splits)
next
  case 4 then show ?thesis using assms(2) safe
    by (auto simp: compose_visual_keys_def Let_def inner_operation_range safe_here split: if_splits option.splits)
next
  case 5 then show ?thesis using assms(2) safe
    by (auto simp: compose_replace_keys_def Let_def inner_operation_range safe_here split: if_splits option.splits)
next
  case 6 then show ?thesis using assms(2) safe
    by (auto simp: compose_history_keys_def Let_def inner_operation_range safe_here split: if_splits option.splits)
next
  case 7 then show ?thesis using assms(2) safe
    by (auto simp: compose_insert_keys_def Let_def inner_operation_range safe_here split: if_splits option.splits)
next
  case 8 then show ?thesis using assms(2) safe
    by (auto simp: compose_mode_keys_def Let_def inner_operation_range safe_here split: if_splits option.splits)
next
  case 9 then show ?thesis using assms(2) safe
    by (auto simp: compose_motion_keys_def Let_def inner_operation_range safe_here split: if_splits option.splits)
next
  case 10 then show ?thesis using assms(2) safe
    by (auto simp: compose_line_keys_def Let_def inner_operation_range safe_here split: if_splits option.splits)
next
  case 11 then show ?thesis using assms(2) safe
    by (auto simp: compose_char_keys_def Let_def inner_operation_range safe_here split: if_splits option.splits)
next
  case 12 then show ?thesis using assms(2) safe
    by (auto simp: compose_operator_keys_def Let_def inner_operation_range safe_here split: if_splits option.splits)
next
  case 13 then show ?thesis using assms(2) safe
    by (auto simp: compose_substitute_keys_def Let_def inner_operation_range safe_here split: if_splits option.splits)
next
  case 14 then show ?thesis using assms(2) safe
    by (auto simp: compose_yank_keys_def Let_def inner_operation_range safe_here split: if_splits option.splits)
qed

section \<open>Reachable states\<close>

text \<open>The composer between keys: a fresh field, the keys the handler sees, the timer, the focus, and what
  the field itself does with the keys that are passed on (it edits and saves its draft).\<close>

inductive compose_reachable :: "('d, 't) text_library \<Rightarrow> 'd compose \<Rightarrow> bool" for lib where
  start: "compose_reachable lib s"
    if "cursor_in lib (cs_doc s) (cs_cursor s)" "cs_operation s = 0" "cs_visual s = 0" "cs_pending s = 0"
      "cs_draft s = cs_doc s"
| key: "compose_reachable lib (snd (handle_compose_text_key env s))"
    if "compose_reachable lib s" "ce_lib env = lib"
| timer: "compose_reachable lib (snd (delete_timer_fired env can_show s))"
    if "compose_reachable lib s" "ce_lib env = lib"
| focus: "compose_reachable lib (s\<lparr>cs_focus := b\<rparr>)" if "compose_reachable lib s"
| typing: "compose_reachable lib (s\<lparr>cs_doc := d, cs_cursor := c, cs_draft := d\<rparr>)"
    if "compose_reachable lib s" "cursor_in lib d c"

lemma compose_ok_lib: "ce_lib env = ce_lib env' \<Longrightarrow> compose_ok env s = compose_ok env' s"
  by (simp add: compose_ok_def)

lemma sync_lib: "ce_lib env = ce_lib env' \<Longrightarrow> draft_in_sync env s = draft_in_sync env' s"
  by (simp add: draft_in_sync_def)

lemma safe_handle:
  assumes "compose_safe env s"
  shows "compose_safe env (snd (handle_compose_text_key env s))"
  unfolding handle_compose_text_key_def
proof (rule first_handled_cases [where P = "\<lambda>r. compose_safe env (snd r)"])
  show "compose_safe env (snd r)" if "f \<in> set (compose_key_groups env)" "f s = Some r" for f r
    using that assms by (rule safe_groups)
qed (simp add: assms)

lemma sync_timer: "draft_in_sync env (snd (delete_timer_fired env' can_show s)) = draft_in_sync env s"
  by (simp add: delete_timer_fired_def Let_def split: option.split)

lemma sync_handle:
  assumes "draft_in_sync env s"
  shows "draft_in_sync env (snd (handle_compose_text_key env s))"
  unfolding handle_compose_text_key_def
proof (rule first_handled_cases [where P = "\<lambda>r. draft_in_sync env (snd r)"])
  show "draft_in_sync env (snd r)" if "f \<in> set (compose_key_groups env)" "f s = Some r" for f r
    using that assms by (rule sync_groups)
qed (simp add: assms)

lemma reachable_safe:
  assumes "compose_reachable lib s" and "document_laws lib"
  shows "ce_lib env = lib \<Longrightarrow> compose_safe env s \<and> draft_in_sync env s"
  using assms(1)
proof (induction arbitrary: env)
  case (start s) then show ?case using assms(2) by (simp add: compose_safe_def compose_ok_def draft_in_sync_def)
next
  case (key s env')
  then have "compose_safe env' s" "draft_in_sync env' s" by blast+
  then have "compose_safe env' (snd (handle_compose_text_key env' s))"
      "draft_in_sync env' (snd (handle_compose_text_key env' s))"
    by (simp_all add: safe_handle sync_handle)
  then show ?case using key compose_ok_lib [of env env'] sync_lib [of env env'] by (simp add: compose_safe_def)
next
  case (timer s env' can_show)
  then have "compose_safe env' s" "draft_in_sync env s" by blast+
  then have "compose_safe env' (snd (delete_timer_fired env' can_show s))"
      "draft_in_sync env (snd (delete_timer_fired env' can_show s))"
    by (simp_all add: sync_timer)
  then show ?case using timer compose_ok_lib [of env env'] by (simp add: compose_safe_def)
next
  case (focus s b) then show ?case by (simp add: compose_safe_def compose_ok_def draft_in_sync_def)
next
  case (typing s d c) then show ?case by (simp add: compose_safe_def compose_ok_def draft_in_sync_def)
qed


section \<open>Keys that are passed on\<close>

definition field_untouched :: "'d compose \<Rightarrow> 'd compose \<Rightarrow> bool" where
  "field_untouched s s' \<longleftrightarrow> cs_doc s' = cs_doc s \<and> cs_draft s' = cs_draft s \<and> cs_clipboard s' = cs_clipboard s
     \<and> cs_keymap s' = cs_keymap s"

lemma passed_groups:
  assumes "f \<in> set (compose_key_groups env)" and "f s = Some (False, s')"
  shows "field_untouched s s'"
  using assms(1)
proof (cases rule: compose_group_cases)
  case 1 then show ?thesis using assms(2)
    by (auto simp: compose_window_guards_def field_untouched_def Let_def split: if_splits option.splits)
next
  case 2 then show ?thesis using assms(2)
    by (auto simp: compose_mode_guards_def field_untouched_def Let_def split: if_splits option.splits)
next
  case 3 then show ?thesis using assms(2)
    by (auto simp: compose_inner_keys_def field_untouched_def Let_def split: if_splits option.splits)
next
  case 4 then show ?thesis using assms(2)
    by (auto simp: compose_visual_keys_def field_untouched_def Let_def split: if_splits option.splits)
next
  case 5 then show ?thesis using assms(2)
    by (auto simp: compose_replace_keys_def field_untouched_def Let_def split: if_splits option.splits)
next
  case 6 then show ?thesis using assms(2)
    by (auto simp: compose_history_keys_def field_untouched_def Let_def split: if_splits option.splits)
next
  case 7 then show ?thesis using assms(2)
    by (auto simp: compose_insert_keys_def field_untouched_def Let_def split: if_splits option.splits)
next
  case 8 then show ?thesis using assms(2)
    by (auto simp: compose_mode_keys_def field_untouched_def Let_def split: if_splits option.splits)
next
  case 9 then show ?thesis using assms(2)
    by (auto simp: compose_motion_keys_def field_untouched_def Let_def split: if_splits option.splits)
next
  case 10 then show ?thesis using assms(2)
    by (auto simp: compose_line_keys_def field_untouched_def Let_def split: if_splits option.splits)
next
  case 11 then show ?thesis using assms(2)
    by (auto simp: compose_char_keys_def field_untouched_def Let_def split: if_splits option.splits)
next
  case 12 then show ?thesis using assms(2)
    by (auto simp: compose_operator_keys_def compose_change_key_def compose_delete_key_def field_untouched_def Let_def split: if_splits option.splits)
next
  case 13 then show ?thesis using assms(2)
    by (auto simp: compose_substitute_keys_def field_untouched_def Let_def split: if_splits option.splits)
next
  case 14 then show ?thesis using assms(2)
    by (auto simp: compose_yank_keys_def compose_yank_key_def field_untouched_def Let_def split: if_splits option.splits)
qed

text \<open>C29: a key the composer does not handle, so that the field or another part gets
  it, has left the text, the draft, the clipboard and the mode as they were.\<close>

theorem passed_keys_touch_nothing:
  assumes "handle_compose_text_key env s = (False, s')"
  shows "field_untouched s s'"
proof -
  have "fst r \<or> field_untouched s (snd r)" if "r = handle_compose_text_key env s" for r
    unfolding that handle_compose_text_key_def
  proof (rule first_handled_cases)
    show "fst r \<or> field_untouched s (snd r)" if "f \<in> set (compose_key_groups env)" "f s = Some r" for f r
      using passed_groups [OF that(1), of s "snd r"] that(2) by (cases r) auto
  qed (simp add: compose_cancel_keys_def field_untouched_def)
  then show ?thesis using assms by simp
qed

text \<open>C28: in insert mode every key but \<open>Escape\<close> and the two cursor moves with a modifier is
  passed on to the field, with nothing of the field changed but the pending command dropped, not even the
  cursor.\<close>

theorem insert_mode_types:
  assumes "\<not> compose_normal env s" and "\<not> input_cursor_move env"
    and "ev_key (ce_event env) \<noteq> Key_Escape \<or> \<not> cs_focus s"
  shows "\<exists>s'. handle_compose_text_key env s = (False, s') \<and> field_untouched s s' \<and> cs_cursor s' = cs_cursor s"
proof -
  have still: "cs_cursor (refresh_cursor env t) = cs_cursor t" if "cs_keymap t = cs_keymap s" for t
    using assms(1) that by (simp add: refresh_cursor_def refresh_compose_cursor_def compose_normal_def Let_def)
  have untouched: "\<exists>s'. (False, f s) = (False, s') \<and> field_untouched s s' \<and> cs_cursor s' = cs_cursor s"
    if "f \<in> {\<lambda>s. s, refresh_cursor env, \<lambda>s. refresh_cursor env (reset_compose s)}" for f
    using that by (auto simp: field_untouched_def still)
  have guard: "compose_mode_guards env s = Some (False, refresh_cursor env (reset_compose s))"
    using assms by (auto simp: compose_mode_guards_def Let_def)
  have window: "compose_window_guards env s = None \<or>
      (\<exists>f \<in> {\<lambda>s. s, refresh_cursor env, \<lambda>s. refresh_cursor env (reset_compose s)}.
         compose_window_guards env s = Some (False, f s))"
    using assms(1) by (auto simp: compose_window_guards_def Let_def)
  from window show ?thesis
  proof
    assume "compose_window_guards env s = None"
    then have "handle_compose_text_key env s = (False, refresh_cursor env (reset_compose s))"
      using guard by (simp add: handle_compose_text_key_def compose_key_groups_def)
    then show ?thesis using untouched [of "\<lambda>s. refresh_cursor env (reset_compose s)"] by simp
  next
    assume "\<exists>f \<in> {\<lambda>s. s, refresh_cursor env, \<lambda>s. refresh_cursor env (reset_compose s)}.
         compose_window_guards env s = Some (False, f s)"
    then obtain f where f: "f \<in> {\<lambda>s. s, refresh_cursor env, \<lambda>s. refresh_cursor env (reset_compose s)}"
        "compose_window_guards env s = Some (False, f s)" ..
    then have "handle_compose_text_key env s = (False, f s)"
      by (simp add: handle_compose_text_key_def compose_key_groups_def)
    then show ?thesis using untouched [OF f(1)] by simp
  qed
qed

section \<open>A keyboard for the witnesses\<close>

primrec plain_split :: "int \<Rightarrow> qstring \<Rightarrow> qstring list" where
  "plain_split c [] = [[]]"
| "plain_split c (x # xs) =
     (if x = c then [] # plain_split c xs
      else (case plain_split c xs of [] \<Rightarrow> [[x]] | p # ps \<Rightarrow> (x # p) # ps))"

definition ascii_lower :: "int \<Rightarrow> int" where
  "ascii_lower c = (if 0x41 \<le> c \<and> c \<le> 0x5a then c + 0x20 else c)"

definition ascii_qt :: qt_text where
  "ascii_qt = \<lparr>os_mac = False, fold_case = map ascii_lower, fold_char = ascii_lower,
     upper_char = (\<lambda>c. if 0x61 \<le> c \<and> c \<le> 0x7a then c - 0x20 else c),
     trimmed = (\<lambda>s. dropWhile (\<lambda>c. c = 0x20) (rev (dropWhile (\<lambda>c. c = 0x20) (rev s)))),
     split_on = plain_split\<rparr>"

text \<open>The Vim keymap switched on with every configurable key unbound.\<close>

definition bare_keymap :: "bool \<Rightarrow> keymap" where
  "bare_keymap normal = \<lparr>km_options = (\<lambda>o'. if o' = VimKeymap then OptBool True else OptString []),
     km_normal = normal, km_migrated = True, km_forced = False\<rparr>"

definition press :: "int \<Rightarrow> string \<Rightarrow> (qstring, qstring) compose_env" where
  "press key text = \<lparr>ce_event = \<lparr>ev_key = key, ev_text = latin text, ev_modifiers = 0, ev_auto_repeat = False,
       ev_native_key = 0\<rparr>,
     ce_qt = ascii_qt, ce_lib = plain_library, ce_hidden = False, ce_visible = True, ce_search_active = False,
     ce_panel_open = False, ce_spellcheck = True\<rparr>"

definition fresh_compose :: "bool \<Rightarrow> qstring \<Rightarrow> int \<Rightarrow> qstring compose" where
  "fresh_compose normal text position = \<lparr>cs_doc = text, cs_cursor = (position, position), cs_focus = True,
     cs_clipboard = [], cs_keymap = bare_keymap normal, cs_operation = 0, cs_visual = 0, cs_visual_anchor = -1,
     cs_pending = 0, cs_delete_timer = None, cs_cursor_width = 1, cs_overlay = new_overlay, cs_draft = text\<rparr>"

definition press_all :: "(qstring, qstring) compose_env list \<Rightarrow> qstring compose \<Rightarrow> qstring compose" where
  "press_all envs s = foldl (\<lambda>s env. snd (handle_compose_text_key env s)) s envs"


theorem passed_keys_touch_nothing_witness:
  "field_untouched (fresh_compose True [] 0)
     (snd (handle_compose_text_key (press Key_D ''d'') (fresh_compose True [] 0)))"
proof -
  have "fst (handle_compose_text_key (press Key_D ''d'') (fresh_compose True [] 0)) = False" by code_simp
  then show ?thesis
    by (intro passed_keys_touch_nothing [of "press Key_D ''d''"]) (simp add: prod_eq_iff)
qed

theorem insert_mode_types_witness:
  "\<exists>s'. handle_compose_text_key (press Key_X ''x'') (fresh_compose False (latin ''ab'') 0) = (False, s')
    \<and> field_untouched (fresh_compose False (latin ''ab'') 0) s' \<and> cs_cursor s' = (0, 0)"
proof -
  let ?e = "press Key_X ''x''" and ?s = "fresh_compose False (latin ''ab'') 0"
  have "\<not> compose_normal ?e ?s" "\<not> input_cursor_move ?e" "ev_key (ce_event ?e) \<noteq> Key_Escape \<or> \<not> cs_focus ?s"
    by code_simp+
  then have "\<exists>s'. handle_compose_text_key ?e ?s = (False, s') \<and> field_untouched ?s s' \<and> cs_cursor s' = cs_cursor ?s"
    by (rule insert_mode_types)
  then show ?thesis by (simp add: fresh_compose_def)
qed

section \<open>Operators\<close>

lemma finish_operator_effect:
  assumes "cursor_has_selection c"
  shows "cs_doc (finish_operator env c s) = (if cs_operation s = OpYank then cs_doc s
        else tl_remove (ce_lib env) (cs_doc s) (selection_start c) (selection_end c))"
    and "cs_clipboard (finish_operator env c s) = tl_copy (ce_lib env) (cs_doc s) (selection_start c) (selection_end c)"
    and "cs_operation (finish_operator env c s) = 0"
    and "cs_keymap (finish_operator env c s) = (if cs_operation s = OpYank then cs_keymap s
        else set_normal_mode (cs_operation s \<notin> {OpChange, OpChangeInner}) (cs_keymap s))"
  using assms
  by (auto simp: finish_operator_def Let_def copy_cursor_selection_def remove_selected_text_def
      save_if_changed_def compose_save_draft_def compose_set_normal_def)

lemma operator_move:
  assumes "cs_visual s \<noteq> 1" and "cs_operation s \<noteq> 0"
  shows "move_cursor env m s
    = (True, finish_operator env (fst (move_position (ce_lib env) m True (cs_doc s) (cs_cursor s))) s)"
  using assms by (simp add: move_cursor_def keep_anchor_def split_beta)

text \<open>C30: a motion after an operator copies the text between the old and the new position and,
  unless the operator is the plain yank, removes it; the operator is over then, and the mode is insert after
  a change and normal after a deletion.\<close>

theorem operator_motion:
  assumes "cs_visual s \<noteq> 1" and "cs_operation s \<noteq> 0"
    and "fst (move_position (ce_lib env) m True (cs_doc s) (cs_cursor s)) = c" and "cursor_has_selection c"
  shows "(let s' = snd (move_cursor env m s); lib = ce_lib env in
      cs_clipboard s' = tl_copy lib (cs_doc s) (selection_start c) (selection_end c)
      \<and> cs_doc s' = (if cs_operation s = OpYank then cs_doc s
          else tl_remove lib (cs_doc s) (selection_start c) (selection_end c))
      \<and> cs_keymap s' = (if cs_operation s = OpYank then cs_keymap s
          else set_normal_mode (cs_operation s \<notin> {OpChange, OpChangeInner}) (cs_keymap s))
      \<and> cs_operation s' = 0)"
  by (simp only: operator_move [OF assms(1,2)] assms(3) snd_conv Let_def finish_operator_effect [OF assms(4)]
      refl simp_thms)

theorem operator_motion_witness:
  "cs_doc (snd (move_cursor (press Key_W ''w'') MoveNextWord
      (snd (handle_compose_text_key (press Key_D ''d'') (fresh_compose True (latin ''ab cd'') 0))))) = latin ''cd''"
proof -
  define s where "s = snd (handle_compose_text_key (press Key_D ''d'') (fresh_compose True (latin ''ab cd'') 0))"
  define e where "e = press Key_W ''w''"
  have s: "cs_visual s \<noteq> 1" "cs_operation s \<noteq> 0" "cs_operation s \<noteq> OpYank" unfolding s_def by code_simp+
  have c: "fst (move_position (ce_lib e) MoveNextWord True (cs_doc s) (cs_cursor s)) = (0, 3)"
    unfolding s_def e_def by code_simp
  have "cursor_has_selection (0, 3)" by (simp add: cursor_has_selection_def)
  then have "cs_doc (snd (move_cursor e MoveNextWord s)) = tl_remove (ce_lib e) (cs_doc s) 0 3"
    using operator_motion [OF s(1,2) c] s(3) by (simp add: Let_def selection_start_def selection_end_def)
  moreover have "tl_remove (ce_lib e) (cs_doc s) 0 3 = latin ''cd''" unfolding s_def e_def by code_simp
  ultimately show ?thesis unfolding s_def e_def by simp
qed



section \<open>Deleting lines and the delayed hints\<close>

text \<open>The second \<open>d\<close> removes the line of the cursor with the break after it, leaves it in
  the clipboard and the cursor at the start of the line, ends the operator, and saves the changed text.\<close>

theorem delete_line_key:
  assumes "cs_operation s = OpDelete" and "\<not> ev_auto_repeat (ce_event env)" and "tl_has_text (ce_lib env) (cs_doc s)"
    and "compose_line env s = (first, last')" and "min (last' + 1) (maximum_position env s) = end'" and "first < end'"
    and "tl_tagged (ce_lib env) (tl_remove (ce_lib env) (cs_doc s) first end') \<noteq> tl_tagged (ce_lib env) (cs_doc s)"
  shows "\<exists>s'. compose_delete_key env s = (True, s')
    \<and> cs_doc s' = tl_remove (ce_lib env) (cs_doc s) first end'
    \<and> cs_clipboard s' = tl_copy (ce_lib env) (cs_doc s) first end'
    \<and> cs_operation s' = 0 \<and> cs_pending s' = 0 \<and> cs_draft s' = cs_doc s'"
proof -
  define s1 where "s1 = clear_operation (clear_pending s)"
  have frame: "cs_doc s1 = cs_doc s" "cs_cursor s1 = cs_cursor s" "cs_operation s1 = 0" "cs_pending s1 = 0"
    by (simp_all add: s1_def)
  have "select_current_line env s1 = (first, end')"
    using assms(4,5) by (simp add: select_current_line_def compose_line_def maximum_position_def frame set_position_def)
  moreover have "cursor_has_selection (first, end')" "selection_start (first, end') = first"
      "selection_end (first, end') = end'"
    using assms(6) by (simp_all add: cursor_has_selection_def selection_start_def selection_end_def)
  ultimately have "snd (delete_current_line env s1) = focus_field env (compose_save_draft
      (remove_selected_text env (snd (copy_cursor_selection env (first, end') s1))))"
    using assms(7) by (simp add: delete_current_line_def delete_selection_def Let_def compose_tagged_def
        remove_selected_text_def copy_cursor_selection_def frame)
  moreover have "compose_delete_key env s = (True, snd (delete_current_line env s1))"
    using assms(1-3) by (simp add: compose_delete_key_def Let_def s1_def)
  ultimately show ?thesis
    using \<open>cursor_has_selection (first, end')\<close> \<open>selection_start (first, end') = first\<close>
      \<open>selection_end (first, end') = end'\<close>
    by (simp add: compose_save_draft_def remove_selected_text_def copy_cursor_selection_def frame Let_def)
qed

theorem delete_line_key_witness:
  "cs_doc (snd (compose_delete_key (press Key_D ''d'')
      (fresh_compose True (latin ''ab'' @ [0x2029] @ latin ''cd'') 1\<lparr>cs_operation := OpDelete\<rparr>))) = latin ''cd''"
proof -
  let ?e = "press Key_D ''d''"
  let ?s = "fresh_compose True (latin ''ab'' @ [0x2029] @ latin ''cd'') 1\<lparr>cs_operation := OpDelete\<rparr>"
  have "cs_operation ?s = OpDelete" "\<not> ev_auto_repeat (ce_event ?e)" "tl_has_text (ce_lib ?e) (cs_doc ?s)"
    "compose_line ?e ?s = (0, 2)" "min (2 + 1) (maximum_position ?e ?s) = 3"
    "tl_tagged (ce_lib ?e) (tl_remove (ce_lib ?e) (cs_doc ?s) 0 3) \<noteq> tl_tagged (ce_lib ?e) (cs_doc ?s)"
    by code_simp+
  from delete_line_key [OF this(1-5) _ this(6)]
  have "cs_doc (snd (compose_delete_key ?e ?s)) = tl_remove (ce_lib ?e) (cs_doc ?s) 0 3" by auto
  also have "\<dots> = latin ''cd''" by code_simp
  finally show ?thesis .
qed

text \<open>When the delay after a lone \<open>d\<close> ends with hints for deleting messages, the
  \<open>d\<close> was still pending, the mode is normal, the window agreed and the text is of the revision it had when
  \<open>d\<close> was pressed; in every case the field, the draft and the clipboard are untouched and the timer is off.\<close>

theorem delete_hints_guarded:
  assumes "delete_timer_fired env can_show s = (shown, s')"
  shows "field_untouched s s' \<and> cs_cursor s' = cs_cursor s \<and> cs_delete_timer s' = None
    \<and> (shown = (cs_operation s = OpDelete \<and> compose_normal env s \<and> can_show
        \<and> cs_delete_timer s = Some (tl_revision (ce_lib env) (cs_doc s))))
    \<and> (cs_delete_timer s \<noteq> None \<longrightarrow> cs_operation s' \<noteq> OpDelete)"
  using assms
  by (auto simp: delete_timer_fired_def Let_def field_untouched_def compose_normal_def clear_operation_def
      split: option.splits if_splits)

theorem delete_hints_guarded_witness:
  "\<not> fst (delete_timer_fired (press Key_D ''d'') True
      (fresh_compose True (latin ''ab'') 0\<lparr>cs_operation := OpDelete, cs_delete_timer := Some 5\<rparr>))"
proof -
  let ?s = "fresh_compose True (latin ''ab'') 0\<lparr>cs_operation := OpDelete, cs_delete_timer := Some 5\<rparr>"
  let ?r = "delete_timer_fired (press Key_D ''d'') True ?s"
  have "cs_delete_timer ?s \<noteq> Some (tl_revision (ce_lib (press Key_D ''d'')) (cs_doc ?s))" by code_simp
  then show ?thesis using delete_hints_guarded [of "press Key_D ''d''" True ?s "fst ?r" "snd ?r"] by simp
qed

end
