(* ===== verification/QtText.thy ===== *)
theory QtText
  imports VimBindings
begin

text \<open>
  Strings of the code that are not about keys: decimal numbers (\<open>QString::number\<close>, \<open>toULongLong\<close>), cutting at a
  separator (\<open>split\<close>), and the canonical text of a UUID. A \<open>QString\<close> is the list of its UTF-16 units.
\<close>

lemma latin_eq_iff [simp]: "latin a = latin b \<longleftrightarrow> a = b"
proof
  assume "latin a = latin b"
  then show "a = b" unfolding latin_def
    by (induction a arbitrary: b; case_tac b) auto
qed simp

lemma latin_simps [simp]: "latin [] = []" "latin a = [] \<longleftrightarrow> a = []" "[] = latin a \<longleftrightarrow> a = []"
  by (simp_all add: latin_def)

section \<open>Numbers\<close>

fun decimal :: "nat \<Rightarrow> qstring" where
  "decimal n = (if n < 10 then [0x30 + int n] else decimal (n div 10) @ [0x30 + int (n mod 10)])"

declare decimal.simps [simp del]

definition decimal_int :: "int \<Rightarrow> qstring" where
  "decimal_int k = (if k < 0 then latin ''-'' @ decimal (nat (- k)) else decimal (nat k))"

definition is_digit :: "int \<Rightarrow> bool" where
  "is_digit c \<longleftrightarrow> 0x30 \<le> c \<and> c \<le> 0x39"

definition digits_value :: "qstring \<Rightarrow> nat" where
  "digits_value s = foldl (\<lambda>n c. 10 * n + nat (c - 0x30)) 0 s"

text \<open>\<open>toULongLong\<close>, with its \<open>ok\<close> flag: white space around and a leading sign are accepted, a value
  beyond 64 bits is not.\<close>

definition is_blank :: "int \<Rightarrow> bool" where
  "is_blank c \<longleftrightarrow> c = 0x20 \<or> (0x09 \<le> c \<and> c \<le> 0x0D)"

definition to_ulonglong :: "qstring \<Rightarrow> nat option" where
  "to_ulonglong s =
     (let t = rev (dropWhile is_blank (rev (dropWhile is_blank s)));
          u = (case t of c # cs \<Rightarrow> if c = 0x2B then cs else t | [] \<Rightarrow> t) in
      if u \<noteq> [] \<and> list_all is_digit u \<and> digits_value u < 2 ^ 64 then Some (digits_value u) else None)"

text \<open>The test of the formats for an identifier: the canonical decimal of a number from 1 on.\<close>

definition canonical_decimal :: "nat \<Rightarrow> qstring \<Rightarrow> bool" where
  "canonical_decimal maximum s =
     (case to_ulonglong s of
        Some value \<Rightarrow> value \<noteq> 0 \<and> value \<le> maximum \<and> decimal value = s
      | None \<Rightarrow> False)"

lemma digits_value_append: "digits_value (s @ [c]) = 10 * digits_value s + nat (c - 0x30)"
  by (simp add: digits_value_def)

lemma digits_value_decimal: "digits_value (decimal n) = n"
proof (induction n rule: decimal.induct)
  case (1 n)
  show ?case
  proof (cases "n < 10")
    case True
    then show ?thesis by (subst decimal.simps) (simp add: digits_value_def)
  next
    case False
    then show ?thesis using 1 by (subst decimal.simps) (simp add: digits_value_append)
  qed
qed

lemma decimal_inj [simp]: "decimal m = decimal n \<longleftrightarrow> m = n"
  by (metis digits_value_decimal)

lemma is_digit_plus: "n < 10 \<Longrightarrow> is_digit (0x30 + int n)"
  by (simp add: is_digit_def)

lemma decimal_digits: "list_all is_digit (decimal n)"
proof (induction n rule: decimal.induct)
  case (1 n)
  then show ?case by (subst decimal.simps) (simp add: is_digit_plus del: of_nat_mod)
qed

lemma decimal_ne [simp]: "decimal n \<noteq> []"
  by (subst decimal.simps) simp

lemma digit_not_blank: "is_digit c \<Longrightarrow> \<not> is_blank c \<and> c \<noteq> 0x2B \<and> c \<noteq> 0x3A"
  by (auto simp: is_digit_def is_blank_def)

lemma no_drop_digits: "list_all is_digit s \<Longrightarrow> dropWhile is_blank s = s"
  by (cases s) (auto dest: digit_not_blank)

lemma to_ulonglong_decimal:
  assumes "n < 2 ^ 64"
  shows "to_ulonglong (decimal n) = Some n"
proof -
  have "list_all is_digit (rev (decimal n))" using decimal_digits [of n] by (simp add: list_all_iff)
  then have trim: "rev (dropWhile is_blank (rev (dropWhile is_blank (decimal n)))) = decimal n"
    by (simp add: no_drop_digits decimal_digits)
  obtain c cs where cs: "decimal n = c # cs" using decimal_ne [of n] by (cases "decimal n") auto
  moreover have "c \<noteq> 0x2B" using decimal_digits [of n] digit_not_blank by (simp add: cs)
  ultimately have "(case decimal n of c # cs \<Rightarrow> if c = 0x2B then cs else decimal n | [] \<Rightarrow> decimal n) = decimal n"
    by simp
  then show ?thesis unfolding to_ulonglong_def trim Let_def
    using assms by (simp add: decimal_digits digits_value_decimal)
qed

lemma canonical_decimal_iff:
  assumes "maximum < 2 ^ 64"
  shows "canonical_decimal maximum s \<longleftrightarrow> (\<exists>n. n \<noteq> 0 \<and> n \<le> maximum \<and> s = decimal n)"
proof
  assume "canonical_decimal maximum s"
  then show "\<exists>n. n \<noteq> 0 \<and> n \<le> maximum \<and> s = decimal n"
    by (auto simp: canonical_decimal_def split: option.splits)
next
  assume "\<exists>n. n \<noteq> 0 \<and> n \<le> maximum \<and> s = decimal n"
  then show "canonical_decimal maximum s"
    using assms by (auto simp: canonical_decimal_def to_ulonglong_decimal)
qed

section \<open>Cutting at a separator\<close>

fun split_char :: "int \<Rightarrow> qstring \<Rightarrow> qstring list" where
  "split_char c [] = [[]]"
| "split_char c (x # xs) =
     (if x = c then [] # split_char c xs
      else (case split_char c xs of p # ps \<Rightarrow> (x # p) # ps | [] \<Rightarrow> [[x]]))"

definition colon :: int where
  "colon = 0x3A"

lemma split_char_ne [simp]: "split_char c s \<noteq> []"
  by (induction s) (auto split: list.splits)

lemma split_char_cut:
  "c \<notin> set p \<Longrightarrow> split_char c (p @ c # s) = p # split_char c s"
  by (induction p) auto

lemma split_char_one: "c \<notin> set p \<Longrightarrow> split_char c p = [p]"
  by (induction p) auto

text \<open>A text with a separator after it and none in it is determined by the whole.\<close>

lemma cut_at_last:
  assumes "a @ c # p = b @ c # q" and "c \<notin> set p" and "c \<notin> set q"
  shows "a = b \<and> p = q"
proof -
  have "rev p @ c # rev a = rev q @ c # rev b" using arg_cong [OF assms(1), of rev] by simp
  moreover have "u = v \<and> x = y" if "u @ c # x = v @ c # y" "c \<notin> set u" "c \<notin> set v" for u v x y
    using that
  proof (induction u arbitrary: v)
    case Nil
    then show ?case by (cases v) auto
  next
    case (Cons d u)
    then show ?case by (cases v) auto
  qed
  ultimately have "rev p = rev q \<and> rev a = rev b" using assms(2,3) by (metis set_rev)
  then show ?thesis by simp
qed

section \<open>UUIDs\<close>

text \<open>The text for which \<open>QUuid(id)\<close> is not null and prints as itself: lower-case, without braces.\<close>

definition is_hex :: "int \<Rightarrow> bool" where
  "is_hex c \<longleftrightarrow> is_digit c \<or> (0x61 \<le> c \<and> c \<le> 0x66)"

definition valid_uuid :: "qstring \<Rightarrow> bool" where
  "valid_uuid s \<longleftrightarrow> length s = 36
     \<and> list_all (\<lambda>(i, c). if i \<in> {8, 13, 18, 23} then c = 0x2D else is_hex c) (zip [0..<36] s)
     \<and> \<not> list_all (\<lambda>c. c = 0x2D \<or> c = 0x30) s"

lemma valid_uuid_no_colon:
  assumes "valid_uuid s"
  shows "colon \<notin> set s"
proof
  assume "colon \<in> set s"
  then obtain i where i: "i < length s" "s ! i = colon" by (auto simp: in_set_conv_nth)
  have len: "length s = 36" using assms by (simp add: valid_uuid_def)
  then have "(i, s ! i) \<in> set (zip [0..<36] s)" using i(1) by (force simp: in_set_zip)
  then have "if i \<in> {8, 13, 18, 23} then s ! i = 0x2D else is_hex (s ! i)"
    using assms unfolding valid_uuid_def list_all_iff by fast
  then show False using i(2) by (auto simp: colon_def is_hex_def is_digit_def split: if_splits)
qed

end
