(* ===== verification/KeyLog.thy ===== *)
theory KeyLog
  imports QtText
begin

text \<open>
  The log of the last Vim keys (\<open>core/vim_keymap_log.cpp\<close>, \<open>.h\<close>): how a key event is written down, and the
  bounded list of numbered entries. Whether a key printed a character (\<open>QChar::isPrint\<close>) and whether a text
  input has the keyboard (\<open>KeyboardInputActive\<close>) are parameters; the two counters are 64-bit words.
\<close>

section \<open>Writing a key down\<close>

definition mac_physical_latin_key :: "qt_text \<Rightarrow> key_event \<Rightarrow> qstring" where
  "mac_physical_latin_key qt e =
     (if \<not> os_mac qt then []
      else (case map_of [(0, ''A''), (11, ''B''), (8, ''C''), (2, ''D''), (14, ''E''), (3, ''F''), (5, ''G''),
             (4, ''H''), (34, ''I''), (38, ''J''), (40, ''K''), (37, ''L''), (46, ''M''), (45, ''N''), (31, ''O''),
             (35, ''P''), (12, ''Q''), (15, ''R''), (1, ''S''), (17, ''T''), (32, ''U''), (9, ''V''), (13, ''W''),
             (7, ''X''), (16, ''Y''), (6, ''Z'')] (ev_native_key e) of
        Some name \<Rightarrow> latin name
      | None \<Rightarrow> []))"

definition special_key_name :: "key_event \<Rightarrow> qstring" where
  "special_key_name e =
     (case map_of [(0x01000021, ''Ctrl''), (0x01000020, ''Shift''), (0x01000022, ''Cmd''), (0x01000023, ''Alt''),
             (0x01001103, ''AltGr''), (Key_Escape, ''Esc''), (Key_Tab, ''Tab''), (Key_Backtab, ''Shift+Tab''),
             (Key_Return, ''Return''), (Key_Enter, ''Enter''), (Key_Space, ''Space''), (Key_Backspace, ''Backspace''),
             (Key_Delete, ''Delete''), (Key_Up, ''Up''), (Key_Down, ''Down''), (Key_Left, ''Left''),
             (Key_Right, ''Right'')] (ev_key e) of
        Some name \<Rightarrow> latin name
      | None \<Rightarrow> [])"

text \<open>\<open>rightJustified\<close>.\<close>

definition right_justified :: "nat \<Rightarrow> int \<Rightarrow> qstring \<Rightarrow> qstring" where
  "right_justified width fill s = replicate (width - length s) fill @ s"

definition key_name_for_log :: "qt_text \<Rightarrow> (int \<Rightarrow> bool) \<Rightarrow> key_event \<Rightarrow> qstring" where
  "key_name_for_log qt is_print e =
     (let key1 = special_key_name e;
          key2 = (if key1 = [] then mac_physical_latin_key qt e else key1);
          key = (if key2 = [] then
              (if Key_A \<le> ev_key e \<and> ev_key e \<le> Key_Z then [0x41 + ev_key e - Key_A]
               else if Key_0 \<le> ev_key e \<and> ev_key e \<le> 0x39 then [0x30 + ev_key e - Key_0]
               else special_key_name e)
            else key2);
          text = (if length (ev_text e) = 1 \<and> is_print (hd (ev_text e)) then fold_case qt (ev_text e) else []) in
      if key = [] then (if text = [] then latin ''key:'' @ decimal_int (ev_key e) else text)
      else if text \<noteq> [] \<and> text \<noteq> fold_case qt key \<and> text \<noteq> latin '' '' then key @ latin ''/'' @ text
      else key)"

fun join_plus :: "qstring list \<Rightarrow> qstring" where
  "join_plus [] = []"
| "join_plus [s] = s"
| "join_plus (s # ss) = s @ latin ''+'' @ join_plus ss"

definition key_event_for_log :: "qt_text \<Rightarrow> (int \<Rightarrow> bool) \<Rightarrow> key_event \<Rightarrow> qstring" where
  "key_event_for_log qt is_print e =
     (let mods = clean_modifiers e;
          parts =
            (if mods AND ControlModifier \<noteq> 0 then [latin (if os_mac qt then ''Cmd'' else ''Ctrl'')] else [])
            @ (if mods AND MetaModifier \<noteq> 0 then [latin (if os_mac qt then ''Ctrl'' else ''Cmd'')] else [])
            @ (if mods AND AltModifier \<noteq> 0 then [latin ''Alt''] else [])
            @ (if mods AND ShiftModifier \<noteq> 0 \<and> ev_key e \<noteq> Key_Backtab then [latin ''Shift''] else [])
            @ [key_name_for_log qt is_print e] in
      join_plus parts @ (if ev_auto_repeat e then latin '' repeat'' else []))"

section \<open>The log\<close>

record key_event_log =
  kl_entries :: "qstring list"
  kl_generation :: "64 word"
  kl_sequence :: "64 word"
  kl_suppressed :: bool

definition log_limit :: nat where
  "log_limit = 200"

definition new_log :: key_event_log where
  "new_log = \<lparr>kl_entries = [], kl_generation = 0, kl_sequence = 0, kl_suppressed = False\<rparr>"

definition log_entry :: "64 word \<Rightarrow> qstring \<Rightarrow> qstring" where
  "log_entry sequence entry = right_justified 2 0x30 (decimal (unat sequence)) @ latin ''. '' @ entry"

definition log_append :: "qstring \<Rightarrow> key_event_log \<Rightarrow> key_event_log" where
  "log_append entry log =
     (let sequence = kl_sequence log + 1;
          entries = kl_entries log @ [log_entry sequence entry] in
      log\<lparr>kl_sequence := sequence,
          kl_entries := (if length entries > log_limit then tl entries else entries),
          kl_generation := kl_generation log + 1\<rparr>)"

definition log_record ::
  "qt_text \<Rightarrow> (int \<Rightarrow> bool) \<Rightarrow> bool \<Rightarrow> key_event \<Rightarrow> qstring \<Rightarrow> key_event_log \<Rightarrow> key_event_log" where
  "log_record qt is_print input_active e status log =
     (if kl_suppressed log \<or> input_active then log
      else log_append (key_event_for_log qt is_print e @ latin '' -> '' @ status) log)"

definition log_record_command :: "qstring \<Rightarrow> qstring \<Rightarrow> key_event_log \<Rightarrow> key_event_log" where
  "log_record_command command status log = log_append (command @ latin '' -> '' @ status) log"

definition log_clear :: "key_event_log \<Rightarrow> key_event_log" where
  "log_clear log = log\<lparr>kl_entries := [], kl_sequence := 0, kl_generation := kl_generation log + 1\<rparr>"

definition log_set_suppressed :: "bool \<Rightarrow> key_event_log \<Rightarrow> key_event_log" where
  "log_set_suppressed b log = log\<lparr>kl_suppressed := b\<rparr>"

fun join_lines :: "qstring list \<Rightarrow> qstring" where
  "join_lines [] = []"
| "join_lines [s] = s"
| "join_lines (s # ss) = s @ [0x0A] @ join_lines ss"

definition log_text :: "key_event_log \<Rightarrow> qstring" where
  "log_text log = join_lines (kl_entries log)"

section \<open>The log as a history\<close>

text \<open>The specification: everything said since the last clearing, the latest 200 of it on record, each with
  its number in this history.\<close>

datatype log_call =
  LogKey bool key_event qstring | LogCommand qstring qstring | LogClear | LogSuppress bool

fun log_step :: "qt_text \<Rightarrow> (int \<Rightarrow> bool) \<Rightarrow> log_call \<Rightarrow> key_event_log \<Rightarrow> key_event_log" where
  "log_step qt is_print (LogKey input_active e status) log = log_record qt is_print input_active e status log"
| "log_step qt is_print (LogCommand command status) log = log_record_command command status log"
| "log_step qt is_print LogClear log = log_clear log"
| "log_step qt is_print (LogSuppress b) log = log_set_suppressed b log"

fun history_step :: "qt_text \<Rightarrow> (int \<Rightarrow> bool) \<Rightarrow> log_call \<Rightarrow> qstring list \<times> bool \<Rightarrow> qstring list \<times> bool" where
  "history_step qt is_print (LogKey input_active e status) (h, suppressed) =
     (if suppressed \<or> input_active then (h, suppressed)
      else (h @ [key_event_for_log qt is_print e @ latin '' -> '' @ status], suppressed))"
| "history_step qt is_print (LogCommand command status) (h, suppressed) =
     (h @ [command @ latin '' -> '' @ status], suppressed)"
| "history_step qt is_print LogClear (h, suppressed) = ([], suppressed)"
| "history_step qt is_print (LogSuppress b) (h, suppressed) = (h, b)"

definition numbered :: "qstring list \<Rightarrow> qstring list" where
  "numbered h = map (\<lambda>i. log_entry (of_nat (i + 1)) (h ! i)) [0..<length h]"

definition log_shows :: "qstring list \<times> bool \<Rightarrow> key_event_log \<Rightarrow> bool" where
  "log_shows st log \<longleftrightarrow>
     kl_entries log = drop (length (fst st) - log_limit) (numbered (fst st))
     \<and> kl_sequence log = of_nat (length (fst st)) \<and> kl_suppressed log = snd st"

lemma numbered_append: "numbered (h @ [x]) = numbered h @ [log_entry (of_nat (length h + 1)) x]"
  by (simp add: numbered_def nth_append cong: map_cong)

lemma numbered_length [simp]: "length (numbered h) = length h"
  by (simp add: numbered_def)

lemma append_shows:
  assumes "log_shows (h, b) log"
  shows "log_shows (h @ [x], b) (log_append x log)"
proof (cases "length h < log_limit")
  case True
  then show ?thesis using assms
    by (simp add: log_shows_def log_append_def Let_def numbered_append Suc_diff_le add.commute)
next
  case False
  then have "length (drop (length h - log_limit) (numbered h)) = log_limit" by simp
  moreover have "drop (Suc (length h) - log_limit) (numbered h)
      = tl (drop (length h - log_limit) (numbered h))"
    using False by (simp add: Suc_diff_le drop_Suc tl_drop)
  ultimately show ?thesis using assms False
    by (auto simp: log_shows_def log_append_def Let_def numbered_append log_limit_def tl_append add.commute split: list.split)
qed

text \<open>At any time the log holds the last 200 of what has been recorded since it was last
  cleared, in order, each with its number in that history; keys seen while recording is suppressed, or while
  a text input has the keyboard, are not in it.\<close>

theorem log_is_recent_history:
  "log_shows (fold (history_step qt is_print) calls ([], False)) (fold (log_step qt is_print) calls new_log)"
proof -
  have step: "log_shows (history_step qt is_print c st) (log_step qt is_print c log)" if "log_shows st log" for c st log
    using that
    by (cases st; cases c) (auto simp: log_record_def log_record_command_def log_clear_def log_set_suppressed_def
        intro: append_shows, auto simp: log_shows_def numbered_def)
  have "log_shows (fold (history_step qt is_print) calls st) (fold (log_step qt is_print) calls log)"
    if "log_shows st log" for st log
    using that by (induction calls arbitrary: st log) (simp_all add: step)
  then show ?thesis by (simp add: log_shows_def new_log_def numbered_def)
qed

end
