(* ===== verification/CreditsAmounts.thy ===== *)
theory CreditsAmounts
  imports Prelude "HOL-Library.Word"
begin

unbundle bit_operations_syntax

text \<open>
  Amounts of Stars and Toncoin (\<open>core/credits_amount.h\<close>): a currency, a whole part in a signed bit-field of
  62 bits and a fraction in units of \<open>10 ^ -9\<close>. Arithmetic in \<open>int64\<close> is on integers (its overflow is
  undefined behaviour, which the bounds of the theorems exclude); storing into the bit-field keeps the low
  62 bits. \<open>value\<close> and \<open>multiplied\<close> compute in \<open>double\<close> and are not modelled. The abstract value of an
  amount is the number of its smallest units.
\<close>

datatype credits_type = Stars | Ton

record credits_amount =
  ca_ton :: bool
  ca_whole :: int
  ca_nano :: int

definition one_star_in_nano :: int where
  "one_star_in_nano = 1000000000"

definition bits62 :: "int \<Rightarrow> int" where
  "bits62 x = signed_take_bit 61 x"

definition credits_normalize :: "credits_amount \<Rightarrow> credits_amount" where
  "credits_normalize a =
     (if ca_nano a < 0 then
        (let shifts = (- ca_nano a + one_star_in_nano - 1) div one_star_in_nano in
         a\<lparr>ca_nano := ca_nano a + shifts * one_star_in_nano, ca_whole := bits62 (ca_whole a - shifts)\<rparr>)
      else if ca_nano a \<ge> one_star_in_nano then
        (let shifts = ca_nano a div one_star_in_nano in
         a\<lparr>ca_nano := ca_nano a - shifts * one_star_in_nano, ca_whole := bits62 (ca_whole a + shifts)\<rparr>)
      else a)"

definition credits_whole :: "int \<Rightarrow> credits_type \<Rightarrow> credits_amount" where
  "credits_whole w t = \<lparr>ca_ton = (t = Ton), ca_whole = bits62 w, ca_nano = 0\<rparr>"

definition credits_make :: "int \<Rightarrow> int \<Rightarrow> credits_type \<Rightarrow> credits_amount" where
  "credits_make w n t = credits_normalize \<lparr>ca_ton = (t = Ton), ca_whole = bits62 w, ca_nano = n\<rparr>"

definition credits_currency :: "credits_amount \<Rightarrow> credits_type" where
  "credits_currency a = (if ca_ton a then Ton else Stars)"

definition credits_empty :: "credits_amount \<Rightarrow> bool" where
  "credits_empty a \<longleftrightarrow> ca_whole a = 0 \<and> ca_nano a = 0"

definition credits_plus :: "credits_amount \<Rightarrow> credits_amount \<Rightarrow> credits_amount" where
  "credits_plus a b =
     credits_normalize (a\<lparr>ca_whole := bits62 (ca_whole a + ca_whole b), ca_nano := ca_nano a + ca_nano b\<rparr>)"

definition credits_minus :: "credits_amount \<Rightarrow> credits_amount \<Rightarrow> credits_amount" where
  "credits_minus a b =
     credits_normalize (a\<lparr>ca_whole := bits62 (ca_whole a - ca_whole b), ca_nano := ca_nano a - ca_nano b\<rparr>)"

definition credits_times :: "credits_amount \<Rightarrow> int \<Rightarrow> credits_amount" where
  "credits_times a m =
     credits_normalize (a\<lparr>ca_whole := bits62 (ca_whole a * m), ca_nano := ca_nano a * m\<rparr>)"

definition credits_negate :: "credits_amount \<Rightarrow> credits_amount" where
  "credits_negate a = credits_times a (-1)"

text \<open>The three-way comparison: negative, zero or positive.\<close>

definition compare_int :: "int \<Rightarrow> int \<Rightarrow> int" where
  "compare_int x y = (if x < y then -1 else if x = y then 0 else 1)"

definition credits_compare :: "credits_amount \<Rightarrow> credits_amount \<Rightarrow> int" where
  "credits_compare a b =
     (if compare_int (ca_whole a) (ca_whole b) \<noteq> 0 then compare_int (ca_whole a) (ca_whole b)
      else if compare_int (ca_nano a) (ca_nano b) \<noteq> 0 then compare_int (ca_nano a) (ca_nano b)
      else if ca_whole a \<noteq> 0 \<or> ca_nano a \<noteq> 0 then compare_int (of_bool (ca_ton a)) (of_bool (ca_ton b))
      else 0)"

text \<open>The constructor \<open>abs\<close> calls has its default currency.\<close>

definition credits_abs :: "credits_amount \<Rightarrow> credits_amount" where
  "credits_abs a = (if ca_whole a < 0 then credits_make (- ca_whole a) (- ca_nano a) Stars else a)"

text \<open>The two constructors of the server's \<open>StarsAmount\<close> and the conversions
  (\<open>data/components/credits.cpp\<close>).\<close>

datatype tl_stars_amount = TlStars int int | TlTon "64 word"

definition credits_from_tl :: "tl_stars_amount \<Rightarrow> credits_amount" where
  "credits_from_tl amount =
     (case amount of
        TlStars whole nanos \<Rightarrow> credits_make whole nanos Stars
      | TlTon w \<Rightarrow>
          let negative = (sint w < 0);
              abs_value = (if negative then uint (NOT w + 1) else uint w);
              result = credits_make (abs_value div 1000000000) (abs_value mod 1000000000) Ton in
          if negative then credits_minus (credits_whole 0 Ton) result else result)"

definition credits_to_tl :: "credits_amount \<Rightarrow> tl_stars_amount" where
  "credits_to_tl a =
     (if ca_ton a then TlTon (word_of_int (ca_whole a) * 1000000000 + word_of_int (ca_nano a))
      else TlStars (ca_whole a) (ca_nano a))"

text \<open>The price of a suggested post (\<open>SuggestOptions::price\<close>).\<close>

record suggest_options =
  so_exists :: bool
  so_price_whole :: int
  so_price_nano :: int
  so_ton :: bool

definition suggest_price :: "suggest_options \<Rightarrow> credits_amount" where
  "suggest_price so = credits_make (so_price_whole so) (so_price_nano so) (if so_ton so then Ton else Stars)"

section \<open>The value of an amount\<close>

definition credits_value :: "credits_amount \<Rightarrow> int" where
  "credits_value a = ca_whole a * one_star_in_nano + ca_nano a"

definition credits_normal :: "credits_amount \<Rightarrow> bool" where
  "credits_normal a \<longleftrightarrow> 0 \<le> ca_nano a \<and> ca_nano a < one_star_in_nano"

lemma bits62_id: "- (2 ^ 61) \<le> x \<Longrightarrow> x < 2 ^ 61 \<Longrightarrow> bits62 x = x"
  by (simp add: bits62_def signed_take_bit_int_eq_self)

lemma normalize_exact:
  assumes "- (2 ^ 61) \<le> credits_value a div one_star_in_nano" and "credits_value a div one_star_in_nano < 2 ^ 61"
  shows "ca_whole (credits_normalize a) = (if credits_normal a then ca_whole a else credits_value a div one_star_in_nano)"
    and "ca_nano (credits_normalize a) = (if credits_normal a then ca_nano a else credits_value a mod one_star_in_nano)"
    and "ca_ton (credits_normalize a) = ca_ton a"
proof -
  have div': "credits_value a div one_star_in_nano = ca_whole a + ca_nano a div one_star_in_nano"
    by (simp add: credits_value_def one_star_in_nano_def)
  have mod': "credits_value a mod one_star_in_nano = ca_nano a mod one_star_in_nano"
    by (simp add: credits_value_def one_star_in_nano_def)
  have up: "(one_star_in_nano - n - 1) div one_star_in_nano = - (n div one_star_in_nano)" for n :: int
    by (simp add: one_star_in_nano_def)
  have rest: "n + - (n div one_star_in_nano) * one_star_in_nano = n mod one_star_in_nano"
    "n - n div one_star_in_nano * one_star_in_nano = n mod one_star_in_nano" for n :: int
    by (simp_all add: minus_div_mult_eq_mod)
  show "ca_whole (credits_normalize a) = (if credits_normal a then ca_whole a else credits_value a div one_star_in_nano)"
    using bits62_id [OF assms] by (simp add: credits_normalize_def credits_normal_def Let_def up div')
  show "ca_nano (credits_normalize a) = (if credits_normal a then ca_nano a else credits_value a mod one_star_in_nano)"
    by (simp add: credits_normalize_def credits_normal_def Let_def up mod' rest)
  show "ca_ton (credits_normalize a) = ca_ton a" by (simp add: credits_normalize_def Let_def)
qed

lemma normalize_normal:
  assumes "\<bar>credits_value a\<bar> < 2 ^ 61 * one_star_in_nano"
  shows "credits_normal (credits_normalize a)" and "credits_value (credits_normalize a) = credits_value a"
    and "ca_ton (credits_normalize a) = ca_ton a"
proof -
  have "credits_value a div one_star_in_nano < 2 ^ 61"
    using assms by (simp add: one_star_in_nano_def)
  moreover have "- (2 ^ 61) \<le> credits_value a div one_star_in_nano"
    using assms by (simp add: one_star_in_nano_def)
  ultimately have b: "- (2 ^ 61) \<le> credits_value a div one_star_in_nano"
      "credits_value a div one_star_in_nano < 2 ^ 61" by simp_all
  show "credits_normal (credits_normalize a)"
    using normalize_exact(1,2) [OF b] by (auto simp: credits_normal_def one_star_in_nano_def)
  have "credits_value a = credits_value a div one_star_in_nano * one_star_in_nano + credits_value a mod one_star_in_nano"
    by simp
  then show "credits_value (credits_normalize a) = credits_value a"
    using normalize_exact(1,2) [OF b] by (auto simp: credits_value_def)
  show "ca_ton (credits_normalize a) = ca_ton a" by (rule normalize_exact(3) [OF b])
qed

lemma plus_simps:
  assumes "\<bar>ca_whole a + ca_whole b\<bar> < 2 ^ 61"
  shows "credits_plus a b = credits_normalize (a\<lparr>ca_whole := ca_whole a + ca_whole b, ca_nano := ca_nano a + ca_nano b\<rparr>)"
  using assms by (simp add: credits_plus_def bits62_id)

lemma minus_simps:
  assumes "\<bar>ca_whole a - ca_whole b\<bar> < 2 ^ 61"
  shows "credits_minus a b = credits_normalize (a\<lparr>ca_whole := ca_whole a - ca_whole b, ca_nano := ca_nano a - ca_nano b\<rparr>)"
  using assms by (simp add: credits_minus_def bits62_id)

text \<open>An amount whose sums with another of its kind stay in the bit-field.\<close>

definition credits_small :: "credits_amount \<Rightarrow> bool" where
  "credits_small a \<longleftrightarrow> credits_normal a \<and> \<bar>ca_whole a\<bar> < 2 ^ 60 - 1"

text \<open>C39: sums, differences and negations of normalised amounts are normalised and
  exact to the smallest unit, whatever the signs are.\<close>

theorem credits_arithmetic_exact:
  assumes "credits_small a" and "credits_small b"
  shows "credits_normal (credits_plus a b) \<and> credits_value (credits_plus a b) = credits_value a + credits_value b
    \<and> credits_normal (credits_minus a b) \<and> credits_value (credits_minus a b) = credits_value a - credits_value b
    \<and> credits_normal (credits_negate a) \<and> credits_value (credits_negate a) = - credits_value a
    \<and> credits_currency (credits_plus a b) = credits_currency a
    \<and> credits_currency (credits_minus a b) = credits_currency a"
proof -
  have small: "\<bar>ca_whole x\<bar> < 2 ^ 60 - 1 \<and> 0 \<le> ca_nano x \<and> ca_nano x < 1000000000" if "credits_small x" for x
    using that by (simp add: credits_small_def credits_normal_def one_star_in_nano_def)
  note sa = small [OF assms(1)] and sb = small [OF assms(2)]
  define p where "p = a\<lparr>ca_whole := ca_whole a + ca_whole b, ca_nano := ca_nano a + ca_nano b\<rparr>"
  define m where "m = a\<lparr>ca_whole := ca_whole a - ca_whole b, ca_nano := ca_nano a - ca_nano b\<rparr>"
  define n where "n = a\<lparr>ca_whole := - ca_whole a, ca_nano := - ca_nano a\<rparr>"
  have value': "credits_value p = credits_value a + credits_value b" "credits_value m = credits_value a - credits_value b"
      "credits_value n = - credits_value a"
    by (simp_all add: p_def m_def n_def credits_value_def algebra_simps)
  have bound: "\<bar>credits_value x\<bar> < 2 ^ 60 * one_star_in_nano"
    if "\<bar>ca_whole x\<bar> < 2 ^ 60 - 1 \<and> 0 \<le> ca_nano x \<and> ca_nano x < 1000000000" for x
    using that by (simp add: credits_value_def one_star_in_nano_def abs_less_iff)
  have bounds: "\<bar>credits_value p\<bar> < 2 ^ 61 * one_star_in_nano" "\<bar>credits_value m\<bar> < 2 ^ 61 * one_star_in_nano"
      "\<bar>credits_value n\<bar> < 2 ^ 61 * one_star_in_nano"
    using bound [OF sa] bound [OF sb] by (simp_all add: value' one_star_in_nano_def)
  have plus: "credits_plus a b = credits_normalize p" unfolding p_def by (rule plus_simps) (use sa sb in \<open>simp add: abs_less_iff\<close>)
  have minus: "credits_minus a b = credits_normalize m" unfolding m_def by (rule minus_simps) (use sa sb in \<open>simp add: abs_less_iff\<close>)
  have negate: "credits_negate a = credits_normalize n"
    using sa bits62_id [of "- ca_whole a"] by (simp add: credits_negate_def credits_times_def n_def abs_less_iff)
  have ton: "ca_ton p = ca_ton a" "ca_ton m = ca_ton a" by (simp_all add: p_def m_def)
  show ?thesis
    unfolding plus minus negate credits_currency_def
    using normalize_normal [OF bounds(1)] normalize_normal [OF bounds(2)] normalize_normal [OF bounds(3)] value' ton
    by simp
qed

text \<open>Between normalised amounts of one currency the comparison is that of the
  values.\<close>

theorem credits_compare_values:
  assumes "credits_normal a" and "credits_normal b" and "ca_ton a = ca_ton b"
  shows "credits_compare a b = compare_int (credits_value a) (credits_value b)"
proof -
  have n: "0 \<le> ca_nano a" "ca_nano a < 1000000000" "0 \<le> ca_nano b" "ca_nano b < 1000000000"
    using assms(1,2) by (simp_all add: credits_normal_def one_star_in_nano_def)
  consider "ca_whole a < ca_whole b" | "ca_whole b < ca_whole a" | "ca_whole a = ca_whole b" by linarith
  then show ?thesis
  proof cases
    case 1
    then have "credits_value a < credits_value b" using n by (simp add: credits_value_def one_star_in_nano_def)
    with 1 show ?thesis by (simp add: credits_compare_def compare_int_def)
  next
    case 2
    then have "credits_value b < credits_value a" using n by (simp add: credits_value_def one_star_in_nano_def)
    with 2 show ?thesis by (simp add: credits_compare_def compare_int_def)
  next
    case 3
    then show ?thesis by (simp add: credits_compare_def compare_int_def credits_value_def assms(3))
  qed
qed

theorem credits_arithmetic_exact_witness:
  "credits_value (credits_minus (credits_make 1 0 Stars) (credits_make 0 1 Stars)) = 999999999"
proof -
  have "credits_small (credits_make 1 0 Stars)" "credits_small (credits_make 0 1 Stars)" by code_simp+
  moreover have "credits_value (credits_make 1 0 Stars) = 1000000000" "credits_value (credits_make 0 1 Stars) = 1"
    by code_simp+
  ultimately show ?thesis using credits_arithmetic_exact by simp
qed

theorem credits_compare_values_witness:
  "credits_compare (credits_make (-1) 500000000 Ton) (credits_make 0 0 Ton) = -1"
proof -
  let ?a = "credits_make (-1) 500000000 Ton" and ?b = "credits_make 0 0 Ton"
  have "credits_normal ?a" "credits_normal ?b" "ca_ton ?a = ca_ton ?b" by code_simp+
  then have "credits_compare ?a ?b = compare_int (credits_value ?a) (credits_value ?b)"
    by (rule credits_compare_values)
  also have "\<dots> = -1" by code_simp
  finally show ?thesis .
qed

text \<open>The absolute value of a small amount is normalised and has the absolute value, but
  below zero its currency is Stars whatever it was.\<close>

theorem credits_abs_value:
  assumes "credits_small a"
  shows "credits_normal (credits_abs a) \<and> credits_value (credits_abs a) = \<bar>credits_value a\<bar>
    \<and> credits_currency (credits_abs a) = (if credits_value a < 0 then Stars else credits_currency a)"
proof -
  have a: "\<bar>ca_whole a\<bar> < 2 ^ 60 - 1" "0 \<le> ca_nano a" "ca_nano a < 1000000000"
    using assms by (simp_all add: credits_small_def credits_normal_def one_star_in_nano_def)
  have sign: "credits_value a < 0 \<longleftrightarrow> ca_whole a < 0"
    using a by (simp add: credits_value_def one_star_in_nano_def) linarith
  show ?thesis
  proof (cases "ca_whole a < 0")
    case False
    then show ?thesis using assms sign by (simp add: credits_abs_def credits_small_def)
  next
    case True
    define n where "n = \<lparr>ca_ton = False, ca_whole = - ca_whole a, ca_nano = - ca_nano a\<rparr>"
    have n: "credits_value n = - credits_value a" by (simp add: n_def credits_value_def)
    then have bound: "\<bar>credits_value n\<bar> < 2 ^ 61 * one_star_in_nano"
      using a by (simp add: credits_value_def one_star_in_nano_def abs_less_iff)
    have "credits_abs a = credits_normalize n"
      using True a by (simp add: credits_abs_def credits_make_def n_def bits62_id)
    then show ?thesis
      using normalize_normal [OF bound] n True sign by (simp add: credits_currency_def n_def)
  qed
qed

theorem credits_abs_value_witness:
  "credits_currency (credits_abs (credits_make (-2) 500000000 Ton)) = Stars
    \<and> credits_abs (credits_make (-2) 500000000 Ton) = credits_make 1 500000000 Stars"
proof
  let ?a = "credits_make (-2) 500000000 Ton"
  have "credits_small ?a" "credits_value ?a < 0" by code_simp+
  then show "credits_currency (credits_abs ?a) = Stars" using credits_abs_value [of ?a] by simp
  show "credits_abs ?a = credits_make 1 500000000 Stars" by code_simp
qed

text \<open>Every 64-bit amount of nanotons the server can send, negative ones and the
  least one included, is read as a normalised amount of that value and sent back unchanged.\<close>

theorem ton_amounts_round_trip:
  "credits_to_tl (credits_from_tl (TlTon w)) = TlTon w
    \<and> credits_normal (credits_from_tl (TlTon w)) \<and> credits_value (credits_from_tl (TlTon w)) = sint w
    \<and> credits_currency (credits_from_tl (TlTon w)) = Ton"
proof -
  let ?v = "\<bar>sint w\<bar>"
  have u: "0 \<le> uint w" "uint w < 2 ^ 64" using uint_range_size [of w] by (simp_all add: word_size)
  have "sint w = (uint w + 2 ^ 63) mod 2 ^ 64 - 2 ^ 63"
    by (simp add: sint_uint signed_take_bit_eq_take_bit_shift take_bit_eq_mod)
  moreover have "(uint w + 2 ^ 63) mod 2 ^ 64 = (if uint w < 2 ^ 63 then uint w + 2 ^ 63 else uint w - 2 ^ 63)"
  proof (cases "uint w < 2 ^ 63")
    case True then show ?thesis using u by simp
  next
    case False
    then have "(uint w + 2 ^ 63) mod 2 ^ 64 = (uint w + 2 ^ 63 - 2 ^ 64) mod 2 ^ 64" by (intro mod_pos_geq) simp_all
    then show ?thesis using False u by simp
  qed
  ultimately have sint: "sint w = (if uint w < 2 ^ 63 then uint w else uint w - 2 ^ 64)" by simp
  have range: "- (2 ^ 63) \<le> sint w" "sint w < 2 ^ 63" using u by (simp_all add: sint order_trans [OF _ u(1)])
  have abs: "(if sint w < 0 then uint (NOT w + 1) else uint w) = ?v"
  proof (cases "sint w < 0")
    case False
    then show ?thesis using sint u by (simp split: if_splits)
  next
    case True
    then have w: "uint w = sint w + 2 ^ 64" using sint u by (simp split: if_splits)
    have "NOT w + 1 = - w" by (simp add: minus_eq_not_plus_1)
    moreover have "uint (- w) = - uint w mod 2 ^ 64" by (simp add: uint_word_ariths)
    moreover have "- uint w mod 2 ^ 64 = - sint w"
      using True range(1) by (simp add: w mod_pos_pos_trivial)
    ultimately show ?thesis using True by simp
  qed
  have v: "0 \<le> ?v" "?v \<le> 2 ^ 63" using range by linarith+
  have whole: "0 \<le> ?v div 1000000000" "?v div 1000000000 < 2 ^ 60"
    using zdiv_mono1 [OF v(2), of 1000000000] by (simp_all add: pos_imp_zdiv_nonneg_iff)
  define r where "r = credits_make (?v div 1000000000) (?v mod 1000000000) Ton"
  have r: "r = \<lparr>ca_ton = True, ca_whole = ?v div 1000000000, ca_nano = ?v mod 1000000000\<rparr>"
    using whole by (simp add: r_def credits_make_def credits_normalize_def one_star_in_nano_def bits62_id)
  have r_value: "credits_value r = ?v" and r_normal: "credits_normal r"
    by (simp_all add: r credits_value_def credits_normal_def one_star_in_nano_def)
  define a where "a = credits_from_tl (TlTon w)"
  have a: "a = (if sint w < 0 then credits_minus (credits_whole 0 Ton) r else r)"
    by (simp only: a_def credits_from_tl_def tl_stars_amount.case Let_def abs r_def)
  have "credits_normal a \<and> credits_value a = sint w \<and> ca_ton a"
  proof (cases "sint w < 0")
    case False
    then show ?thesis using r_value r_normal by (simp add: a r)
  next
    case True
    have zero: "credits_whole 0 Ton = \<lparr>ca_ton = True, ca_whole = 0, ca_nano = 0\<rparr>"
      by (simp add: credits_whole_def bits62_id)
    define m where "m = \<lparr>ca_ton = True, ca_whole = - ca_whole r, ca_nano = - ca_nano r\<rparr>"
    have "credits_minus (credits_whole 0 Ton) r = credits_normalize m"
      using whole by (simp add: minus_simps zero m_def r)
    moreover have "credits_value m = sint w" using r_value True by (simp add: m_def credits_value_def)
    moreover from this have "\<bar>credits_value m\<bar> < 2 ^ 61 * one_star_in_nano"
      using v by (simp add: one_star_in_nano_def)
    ultimately show ?thesis using True normalize_normal [of m] by (simp add: a m_def)
  qed
  moreover have "credits_to_tl a = TlTon (word_of_int (credits_value a))" if "ca_ton a"
    using that by (simp add: credits_to_tl_def credits_value_def one_star_in_nano_def)
  ultimately show ?thesis by (simp add: a_def [symmetric] credits_currency_def)
qed

end
