(* ===== verification/LocalJson.thy ===== *)
theory LocalJson
  imports QtText Complex_Main "HOL-Library.List_Lexorder"
begin

text \<open>
  JSON as the local data modules use it. A \<open>QJsonObject\<close> is the list of its members in the order of their keys,
  a \<open>QJsonArray\<close> a list, a number (a finite \<open>double\<close>) a rational. \<open>value(key)\<close> of a key that is not there is
  undefined, and the \<open>to...\<close> accessors give their defaults for a value of another kind.

  \<open>std::map\<close>, \<open>QMap\<close> and \<open>QJsonObject\<close> are sorted association lists; \<open>amap_put\<close> is \<open>m[k] = v\<close>.
\<close>

section \<open>Sorted maps\<close>

fun amap_put :: "'k::linorder \<Rightarrow> 'v \<Rightarrow> ('k \<times> 'v) list \<Rightarrow> ('k \<times> 'v) list" where
  "amap_put k v [] = [(k, v)]"
| "amap_put k v ((k', v') # m) =
     (if k < k' then (k, v) # (k', v') # m
      else if k = k' then (k, v) # m
      else (k', v') # amap_put k v m)"

lemma map_of_amap_put [simp]: "map_of (amap_put k v m) = (map_of m)(k \<mapsto> v)"
  by (induction m) (auto simp: fun_eq_iff)

lemma keys_amap_put: "map fst (amap_put k v m) = asc_insert k (map fst m)"
  by (induction m) auto

lemma asc_keys_put [container_intros]: "asc_keys m \<Longrightarrow> asc_keys (amap_put k v m)"
  by (simp add: keys_amap_put strict_asc_insert)

lemma set_amap_put: "set (amap_put k v m) \<subseteq> insert (k, v) (set m)"
  by (induction m) (auto split: if_splits)

lemma amap_put_commute:
  "k \<noteq> l \<Longrightarrow> amap_put k v (amap_put l w m) = amap_put l w (amap_put k v m)"
proof (induction m)
  case (Cons p m)
  obtain k' v' where p: "p = (k', v')" by (cases p)
  then show ?case using Cons by (auto dest: less_asym less_trans)
qed auto

lemma amap_put_twice [simp]: "amap_put k v (amap_put k w m) = amap_put k v m"
  by (induction m) auto

lemma amap_put_same: "asc_keys m \<Longrightarrow> map_of m k = Some v \<Longrightarrow> amap_put k v m = m"
proof (induction m)
  case (Cons p m)
  obtain k' v' where p: "p = (k', v')" by (cases p)
  have "k' < k" if "k \<noteq> k'"
  proof -
    have "k \<in> fst ` set m" using Cons.prems(2) that p by (force dest: map_of_SomeD)
    then show ?thesis using Cons.prems(1) p by auto
  qed
  then show ?case using Cons p by (auto split: if_splits)
qed simp

definition amap_remove :: "'k \<Rightarrow> ('k \<times> 'v) list \<Rightarrow> ('k \<times> 'v) list" where
  "amap_remove k m = filter (\<lambda>(k', _). k' \<noteq> k) m"

lemma map_of_amap_remove [simp]: "map_of (amap_remove k m) = (map_of m)(k := None)"
  by (induction m) (auto simp: amap_remove_def fun_eq_iff)

lemma asc_keys_remove [container_intros]: "asc_keys m \<Longrightarrow> asc_keys (amap_remove k m)"
  unfolding amap_remove_def by (induction m) auto

lemma asc_keys_distinct: "asc_keys m \<Longrightarrow> distinct (map fst m)"
  by (simp add: strict_sorted_iff)

text \<open>Sorted maps with the same entries are the same.\<close>

lemma amap_eqI:
  assumes "asc_keys m" and "asc_keys n" and "map_of m = map_of n"
  shows "m = n"
proof -
  have set: "set m = set n"
    using assms map_of_inject_set [of m n] by (simp add: asc_keys_distinct)
  have "inj_on fst (set m \<union> set n)"
    using asc_keys_distinct [OF assms(1)] set by (simp add: distinct_map)
  then show ?thesis
    by (rule map_sorted_distinct_set_unique) (use assms(1,2) set in \<open>simp_all add: strict_sorted_iff\<close>)
qed

section \<open>Values\<close>

datatype json = JsNull | JsBool bool | JsNum rat | JsStr qstring | JsArr "json list" | JsObj "(qstring \<times> json) list"

type_synonym json_object = "(qstring \<times> json) list"

definition jfield :: "json_object \<Rightarrow> string \<Rightarrow> json option" where
  "jfield ob name = map_of ob (latin name)"

definition jput :: "string \<Rightarrow> json \<Rightarrow> json_object \<Rightarrow> json_object" where
  "jput name v ob = amap_put (latin name) v ob"

fun to_str :: "json option \<Rightarrow> qstring" where
  "to_str (Some (JsStr s)) = s"
| "to_str _ = []"

fun to_bool :: "json option \<Rightarrow> bool" where
  "to_bool (Some (JsBool b)) = b"
| "to_bool _ = False"

fun to_arr :: "json option \<Rightarrow> json list" where
  "to_arr (Some (JsArr xs)) = xs"
| "to_arr _ = []"

fun to_obj :: "json option \<Rightarrow> json_object" where
  "to_obj (Some (JsObj m)) = m"
| "to_obj _ = []"

fun is_bool :: "json option \<Rightarrow> bool" where
  "is_bool (Some (JsBool _)) = True"
| "is_bool _ = False"

fun is_arr :: "json option \<Rightarrow> bool" where
  "is_arr (Some (JsArr _)) = True"
| "is_arr _ = False"

fun is_str :: "json option \<Rightarrow> bool" where
  "is_str (Some (JsStr _)) = True"
| "is_str _ = False"

fun is_obj :: "json option \<Rightarrow> bool" where
  "is_obj (Some (JsObj _)) = True"
| "is_obj _ = False"

text \<open>\<open>toInt()\<close> is 0 unless the number is an \<open>int\<close>; \<open>toDouble(d)\<close>.\<close>

fun to_int :: "json option \<Rightarrow> int" where
  "to_int (Some (JsNum r)) =
     (if r = of_int \<lfloor>r\<rfloor> \<and> -2147483648 \<le> \<lfloor>r\<rfloor> \<and> \<lfloor>r\<rfloor> \<le> 2147483647 then \<lfloor>r\<rfloor> else 0)"
| "to_int _ = 0"

fun to_double :: "rat \<Rightarrow> json option \<Rightarrow> rat" where
  "to_double d (Some (JsNum r)) = r"
| "to_double d _ = d"

lemma jfield_jput [simp]: "jfield (jput a v ob) b = (if a = b then Some v else jfield ob b)"
  by (simp add: jfield_def jput_def)

lemma jfield_Nil [simp]: "jfield [] a = None"
  by (simp add: jfield_def)

lemma asc_keys_jput [container_intros]: "asc_keys ob \<Longrightarrow> asc_keys (jput a v ob)"
  by (simp add: jput_def asc_keys_put)

end
