(* ===== verification/PeerIds.thy ===== *)
theory PeerIds
  imports Prelude "HOL-Library.Word"
begin

unbundle bit_operations_syntax

text \<open>
  Identifiers (\<open>data/data_peer_id.h\<close>, \<open>data/data_peer_id.cpp\<close>, \<open>data/data_msg_id.h\<close>). A peer id is a 64-bit
  word: the kind of the peer (\<open>ChatIdType::kShift\<close>) in the bits from 48 on, the id the server gave it below.
  The scheme's \<open>Peer\<close> is the three constructors the code matches. Message ids are signed 64-bit integers of
  disjoint ranges; sums near the limits of \<open>int64\<close> do not occur in them.
\<close>

section \<open>Peers\<close>

type_synonym peer_id = "64 word"

abbreviation user_shift :: "64 word" where "user_shift \<equiv> 0"
abbreviation chat_shift :: "64 word" where "chat_shift \<equiv> 1"
abbreviation channel_shift :: "64 word" where "channel_shift \<equiv> 2"
abbreviation fake_chat_shift :: "64 word" where "fake_chat_shift \<equiv> 0x7F"

definition reserved_bit :: "64 word" where
  "reserved_bit = 0x80"

definition chat_type_mask :: "64 word" where
  "chat_type_mask = 0xFFFFFFFFFFFF"

definition peer_of :: "64 word \<Rightarrow> 64 word \<Rightarrow> peer_id" where
  "peer_of shift bare = bare OR push_bit 48 shift"

definition peer_is :: "64 word \<Rightarrow> peer_id \<Rightarrow> bool" where
  "peer_is shift p \<longleftrightarrow> drop_bit 48 p AND 0xFF = shift"

definition peer_to :: "64 word \<Rightarrow> peer_id \<Rightarrow> 64 word" where
  "peer_to shift p = (if peer_is shift p then p AND chat_type_mask else 0)"

definition peer_to_bare :: "peer_id \<Rightarrow> 64 word" where
  "peer_to_bare p = p AND chat_type_mask"

datatype mtp_peer = MtpUser "64 word" | MtpChat "64 word" | MtpChannel "64 word"

definition peer_from_mtp :: "mtp_peer \<Rightarrow> peer_id" where
  "peer_from_mtp peer =
     (case peer of
        MtpUser i \<Rightarrow> peer_of user_shift i
      | MtpChat i \<Rightarrow> peer_of chat_shift i
      | MtpChannel i \<Rightarrow> peer_of channel_shift i)"

definition peer_to_mtp :: "peer_id \<Rightarrow> mtp_peer" where
  "peer_to_mtp p =
     (if peer_is user_shift p then MtpUser (peer_to_bare p)
      else if peer_is chat_shift p then MtpChat (peer_to_bare p)
      else if peer_is channel_shift p then MtpChannel (peer_to_bare p)
      else MtpUser 0)"

text \<open>Serialized peers carry a reserved bit; older ones have the kind in the bits from 32 on.\<close>

definition serialized_flag :: "64 word" where
  "serialized_flag = push_bit 48 reserved_bit"

definition deserialize_peer_id :: "64 word \<Rightarrow> peer_id" where
  "deserialize_peer_id s =
     (if s AND serialized_flag \<noteq> 0 then s AND NOT serialized_flag
      else
        let bare = s AND 0xFFFFFFFF; kind = s AND 0xF00000000 in
        if kind = 0x000000000 then peer_of user_shift bare
        else if kind = 0x100000000 then peer_of chat_shift bare
        else if kind = 0x200000000 then peer_of channel_shift bare
        else if kind = 0xF00000000 then peer_of fake_chat_shift bare
        else 0)"

text \<open>\<open>None\<close>: the \<open>Expects\<close> fails.\<close>

definition serialize_peer_id :: "peer_id \<Rightarrow> 64 word option" where
  "serialize_peer_id p = (if p AND serialized_flag = 0 then Some (p OR serialized_flag) else None)"

section \<open>Messages\<close>

type_synonym msg_number = int

definition start_client_msg_id :: msg_number where
  "start_client_msg_id = 1 - 2 ^ 58"

definition client_msg_ids :: int where
  "client_msg_ids = 2 ^ 31"

definition end_client_msg_id :: msg_number where
  "end_client_msg_id = start_client_msg_id + client_msg_ids"

definition start_story_msg_id :: msg_number where
  "start_story_msg_id = end_client_msg_id + 1"

definition server_max_story_id :: int where
  "server_max_story_id = 2 ^ 30"

definition end_story_msg_id :: msg_number where
  "end_story_msg_id = start_story_msg_id + server_max_story_id"

definition server_max_msg :: msg_number where
  "server_max_msg = 2 ^ 56"

definition scheduled_max_msg_id :: msg_number where
  "scheduled_max_msg_id = server_max_msg + 2 ^ 32"

definition shortcut_max_msg_id :: msg_number where
  "shortcut_max_msg_id = scheduled_max_msg_id + 2 ^ 32"

definition welcome_max_msg_id :: msg_number where
  "welcome_max_msg_id = shortcut_max_msg_id + 2 ^ 32"

definition special_msg_ids :: "msg_number list" where
  "special_msg_ids = map (\<lambda>k. end_story_msg_id + k) [1, 2, 4, 5, 6]"

definition is_client_msg_id :: "msg_number \<Rightarrow> bool" where
  "is_client_msg_id i \<longleftrightarrow> start_client_msg_id \<le> i \<and> i < end_client_msg_id"

definition is_story_msg_id :: "msg_number \<Rightarrow> bool" where
  "is_story_msg_id i \<longleftrightarrow> start_story_msg_id \<le> i \<and> i < end_story_msg_id"

definition is_server_msg_id :: "msg_number \<Rightarrow> bool" where
  "is_server_msg_id i \<longleftrightarrow> 0 < i \<and> i < server_max_msg"

definition client_msg_index :: "msg_number \<Rightarrow> int option" where
  "client_msg_index i = (if is_client_msg_id i then Some (i - start_client_msg_id) else None)"

definition client_msg_by_index :: "int \<Rightarrow> msg_number option" where
  "client_msg_by_index k = (if k \<ge> 0 then Some (start_client_msg_id + k) else None)"

definition story_id_from_msg_id :: "msg_number \<Rightarrow> int option" where
  "story_id_from_msg_id i = (if is_story_msg_id i then Some (i - start_story_msg_id) else None)"

definition story_id_to_msg_id :: "int \<Rightarrow> msg_number option" where
  "story_id_to_msg_id k = (if k \<ge> 0 then Some (start_story_msg_id + k) else None)"

lemmas msg_id_ranges = start_client_msg_id_def client_msg_ids_def end_client_msg_id_def start_story_msg_id_def
  server_max_story_id_def end_story_msg_id_def server_max_msg_def scheduled_max_msg_id_def
  shortcut_max_msg_id_def welcome_max_msg_id_def

section \<open>Properties\<close>

lemma peer_parts:
  assumes "bare AND chat_type_mask = bare" and "shift AND 0xFF = shift"
  shows "peer_of shift bare AND chat_type_mask = bare" and "drop_bit 48 (peer_of shift bare) AND 0xFF = shift"
proof -
  have mask: "chat_type_mask = mask 48" by (simp add: chat_type_mask_def mask_eq_exp_minus_1)
  have small: "n < 48" if "bit bare n" for n
  proof -
    have "bit bare n \<longleftrightarrow> bit (bare AND mask 48) n" using assms(1) by (simp add: mask)
    then show ?thesis using that by (simp add: bit_simps)
  qed
  have byte: "(0xFF::64 word) = mask 8" by (simp add: mask_eq_exp_minus_1)
  have shift: "n < 8" if "bit shift n" for n
  proof -
    have "bit shift n \<longleftrightarrow> bit (shift AND mask 8) n" using assms(2) by (simp add: byte)
    then show ?thesis using that by (simp add: bit_simps)
  qed
  show "peer_of shift bare AND chat_type_mask = bare"
    unfolding mask by (rule bit_word_eqI) (use small in \<open>auto simp: peer_of_def bit_simps\<close>)
  show "drop_bit 48 (peer_of shift bare) AND 0xFF = shift"
    unfolding byte by (rule bit_word_eqI) (auto simp: peer_of_def bit_simps dest: small shift)
qed

lemma flag_apart:
  fixes p f :: "64 word"
  assumes "p AND f = 0"
  shows "(p OR f) AND NOT f = p" and "(p OR f) AND f = f"
proof -
  have split: "p = (p AND f) OR (p AND NOT f)" by (rule bit_word_eqI) (auto simp: bit_simps)
  then show "(p OR f) AND NOT f = p" using assms by (simp add: bit.conj_disj_distrib2)
  show "(p OR f) AND f = f" using assms by (simp add: bit.conj_disj_distrib2)
qed

lemma narrow_mask:
  fixes bare m f :: "64 word"
  assumes "bare AND m = bare" and "m AND f = 0"
  shows "bare AND f = 0"
proof -
  have "bare AND f = bare AND (m AND f)" using assms(1) by (metis and.assoc)
  then show ?thesis using assms(2) by simp
qed

text \<open>C40: ids of the four kinds are told apart and give back the number they were made of,
  the scheme's form of a user, chat or channel gives back the peer, and so does the serialized form.\<close>

theorem peer_ids_round_trip:
  assumes "bare AND chat_type_mask = bare" and "shift \<in> {user_shift, chat_shift, channel_shift, fake_chat_shift}"
  shows "(\<forall>kind. peer_is kind (peer_of shift bare) = (kind = shift))
    \<and> peer_to shift (peer_of shift bare) = bare
    \<and> peer_from_mtp (peer_to_mtp (peer_of shift bare))
        = (if shift = fake_chat_shift then peer_of user_shift 0 else peer_of shift bare)
    \<and> (\<exists>s. serialize_peer_id (peer_of shift bare) = Some s \<and> deserialize_peer_id s = peer_of shift bare)"
proof -
  have byte: "shift AND 0xFF = shift" using assms(2) by auto
  note parts = peer_parts [OF assms(1) byte]
  have is': "peer_is kind (peer_of shift bare) = (kind = shift)" for kind
    using parts(2) by (auto simp: peer_is_def)
  have bit: "serialized_flag = 0x80000000000000" by (simp add: serialized_flag_def reserved_bit_def)
  have "bare AND 0x80000000000000 = 0"
    by (rule narrow_mask [OF assms(1)]) (simp add: chat_type_mask_def)
  then have flag: "peer_of shift bare AND serialized_flag = 0"
    using assms(2) by (auto simp: peer_of_def bit bit.conj_disj_distrib2)
  have "serialized_flag \<noteq> 0" by (simp add: serialized_flag_def reserved_bit_def)
  then have serial: "\<exists>s. serialize_peer_id (peer_of shift bare) = Some s \<and> deserialize_peer_id s = peer_of shift bare"
    using flag flag_apart [OF flag] by (simp add: serialize_peer_id_def deserialize_peer_id_def)
  have "peer_from_mtp (peer_to_mtp (peer_of shift bare))
      = (if shift = fake_chat_shift then peer_of user_shift 0 else peer_of shift bare)"
    using assms(2) unfolding peer_to_mtp_def is' peer_to_bare_def parts(1) by (auto simp: peer_from_mtp_def)
  then show ?thesis using is' serial parts(1) by (simp add: peer_to_def)
qed

theorem peer_ids_round_trip_witness:
  "peer_to channel_shift (peer_of channel_shift 1234567890123) = 1234567890123
    \<and> \<not> peer_is user_shift (peer_of channel_shift 1234567890123)"
proof -
  have "(1234567890123 :: 64 word) AND chat_type_mask = 1234567890123" by (simp add: chat_type_mask_def)
  moreover have "channel_shift \<in> {user_shift, chat_shift, channel_shift, fake_chat_shift}" by simp
  ultimately show ?thesis using peer_ids_round_trip by auto
qed

text \<open>A peer serialized by an old version, with a 32-bit number and its kind above it, is
  read as the same peer.\<close>

theorem legacy_peer_ids:
  assumes "bare AND 0xFFFFFFFF = bare"
  shows "deserialize_peer_id bare = peer_of user_shift bare
    \<and> deserialize_peer_id (bare OR 0x100000000) = peer_of chat_shift bare
    \<and> deserialize_peer_id (bare OR 0x200000000) = peer_of channel_shift bare
    \<and> deserialize_peer_id (bare OR 0xF00000000) = peer_of fake_chat_shift bare"
proof -
  have flag: "serialized_flag = 0x80000000000000" by (simp add: serialized_flag_def reserved_bit_def)
  have zero: "bare AND 0x80000000000000 = 0" "bare AND 0xF00000000 = 0"
    by (rule narrow_mask [OF assms]; simp)+
  show ?thesis
    using assms zero by (simp add: deserialize_peer_id_def flag bit.conj_disj_distrib2)
qed

theorem legacy_peer_ids_witness:
  "deserialize_peer_id 0x200000005 = peer_of channel_shift 5"
  using legacy_peer_ids [of 5] by simp

text \<open>The ranges of message ids do not meet: an id is of at most one of the kinds server,
  client, story and special, client ids and stories are numbered from 0 on without loss, and the ids of the
  last three kinds stay in the negative range below \<open>- ServerMaxMsgId\<close>.\<close>

theorem message_id_ranges:
  "\<not> (is_server_msg_id i \<and> is_client_msg_id i) \<and> \<not> (is_server_msg_id i \<and> is_story_msg_id i)
    \<and> \<not> (is_client_msg_id i \<and> is_story_msg_id i)
    \<and> (if i \<in> set special_msg_ids
        then \<not> is_server_msg_id i \<and> \<not> is_client_msg_id i \<and> \<not> is_story_msg_id i \<and> i < - server_max_msg else True)
    \<and> (if is_client_msg_id i then i < - server_max_msg \<and> Option.bind (client_msg_index i) client_msg_by_index = Some i
        else client_msg_index i = None)
    \<and> (if is_story_msg_id i then i < - server_max_msg \<and> Option.bind (story_id_from_msg_id i) story_id_to_msg_id = Some i
        else story_id_from_msg_id i = None)
    \<and> (if 0 \<le> k \<and> k < server_max_story_id
        then Option.bind (story_id_to_msg_id k) story_id_from_msg_id = Some k else True)"
  by (simp add: is_server_msg_id_def is_client_msg_id_def is_story_msg_id_def special_msg_ids_def msg_id_ranges
      client_msg_index_def client_msg_by_index_def story_id_from_msg_id_def story_id_to_msg_id_def)

end
