(* ===== verification/PinnedItems.thy ===== *)
theory PinnedItems
  imports LocalJson PeerIds
begin

text \<open>
  Local pins (\<open>storage/local_pinned_items_format.cpp\<close>, \<open>data/local_pinned_items.cpp\<close>): the records of the module
  \<open>pinned_items\<close>, the state read from them, and the changes, each of which exists twice in the code: on the
  records, for the store, and on the state, for the screen before the store has answered.

  \<open>QUuid::createUuidV5\<close>, a hash, is the parameter \<open>u5\<close> of a name space and a name. A fallible operation gives
  \<open>Inl\<close> with the message of the error.
\<close>

section \<open>The format\<close>

record local_account =
  la_environment :: qstring
  la_user :: qstring

type_synonym uuid5 = "qstring \<Rightarrow> qstring \<Rightarrow> qstring"

definition maximum_order :: nat where
  "maximum_order = 4096"

definition valid_filter_id :: "qstring \<Rightarrow> bool" where
  "valid_filter_id s = canonical_decimal 2147483647 s"

definition valid_scope :: "qstring \<Rightarrow> bool" where
  "valid_scope scope \<longleftrightarrow>
     scope \<in> {latin ''main'', latin ''archive'', latin ''saved''}
     \<or> (let parts = split_char colon scope in
        (length parts = 2 \<and> parts ! 0 = latin ''local'' \<and> valid_uuid (parts ! 1))
        \<or> (length parts = 3 \<and> parts ! 0 = latin ''filter'' \<and> valid_filter_id (parts ! 1) \<and> valid_uuid (parts ! 2)))"

definition peer_key :: "json_object \<Rightarrow> qstring" where
  "peer_key peer =
     (let kind = to_str (jfield peer ''peer_type''); i = to_str (jfield peer ''peer_id'') in
      if kind \<notin> {latin ''user'', latin ''chat'', latin ''channel''} \<or> \<not> canonical_decimal 0xFFFFFFFFFFFF i
      then [] else kind @ colon # i)"

definition stable_id :: "uuid5 \<Rightarrow> local_account \<Rightarrow> qstring \<Rightarrow> qstring" where
  "stable_id u5 account key =
     u5 (latin ''{19fa5d14-f51b-4fe8-b4cd-43bbfce55628}'')
       (la_environment account @ latin '':'' @ la_user account @ latin '':pinned_items:'' @ key)"

definition pin_key :: "qstring \<Rightarrow> qstring \<Rightarrow> qstring" where
  "pin_key scope peer = latin ''pin:'' @ scope @ colon # peer"

definition pin_id :: "uuid5 \<Rightarrow> local_account \<Rightarrow> qstring \<Rightarrow> json_object \<Rightarrow> qstring" where
  "pin_id u5 account scope peer = stable_id u5 account (pin_key scope (peer_key peer))"

definition order_key :: "qstring \<Rightarrow> qstring" where
  "order_key scope = latin ''order:'' @ scope"

definition order_id :: "uuid5 \<Rightarrow> local_account \<Rightarrow> qstring \<Rightarrow> qstring" where
  "order_id u5 account scope = stable_id u5 account (order_key scope)"

definition filter_key :: "qstring \<Rightarrow> qstring" where
  "filter_key i = latin ''filter:'' @ i"

definition filter_record_id :: "uuid5 \<Rightarrow> local_account \<Rightarrow> qstring \<Rightarrow> qstring" where
  "filter_record_id u5 account i = stable_id u5 account (filter_key i)"

definition record_kind :: "json_object \<Rightarrow> qstring" where
  "record_kind r = to_str (jfield r ''kind'')"

text \<open>The three kinds of records, as \<open>Validate\<close> requires them, and the loop over them.\<close>

definition valid_pin :: "uuid5 \<Rightarrow> local_account \<Rightarrow> json_object \<Rightarrow> bool" where
  "valid_pin u5 account r \<longleftrightarrow>
     (let scope = to_str (jfield r ''scope''); peer = to_obj (jfield r ''peer'') in
      valid_scope scope \<and> peer_key peer \<noteq> [] \<and> to_str (jfield r ''id'') = pin_id u5 account scope peer)"

fun distinct_keys :: "qstring list \<Rightarrow> json list \<Rightarrow> bool" where
  "distinct_keys seen [] = True"
| "distinct_keys seen (p # ps) =
     (let key = peer_key (to_obj (Some p)) in key \<noteq> [] \<and> key \<notin> set seen \<and> distinct_keys (key # seen) ps)"

definition valid_order :: "uuid5 \<Rightarrow> local_account \<Rightarrow> json_object \<Rightarrow> bool" where
  "valid_order u5 account r \<longleftrightarrow>
     (let scope = to_str (jfield r ''scope''); peers = jfield r ''peers'' in
      valid_scope scope \<and> to_str (jfield r ''id'') = order_id u5 account scope
      \<and> is_arr peers \<and> length (to_arr peers) \<le> maximum_order \<and> distinct_keys [] (to_arr peers))"

definition valid_filter :: "uuid5 \<Rightarrow> local_account \<Rightarrow> json_object \<Rightarrow> bool" where
  "valid_filter u5 account r \<longleftrightarrow>
     (let i = to_str (jfield r ''filter_id'') in
      valid_filter_id i \<and> to_str (jfield r ''id'') = filter_record_id u5 account i
      \<and> valid_uuid (to_str (jfield r ''scope_id'')))"

definition valid_record :: "uuid5 \<Rightarrow> local_account \<Rightarrow> json_object \<Rightarrow> bool" where
  "valid_record u5 account r \<longleftrightarrow>
     (if record_kind r = latin ''pin'' then valid_pin u5 account r
      else if record_kind r = latin ''order'' then valid_order u5 account r
      else if record_kind r = latin ''filter'' then valid_filter u5 account r
      else True)"

fun valid_records :: "uuid5 \<Rightarrow> local_account \<Rightarrow> qstring list \<Rightarrow> (qstring \<times> nat) list \<Rightarrow> json list \<Rightarrow> bool" where
  "valid_records u5 account ids counts [] = True"
| "valid_records u5 account ids counts (value # values) =
     (let r = to_obj (Some value); i = to_str (jfield r ''id''); scope = to_str (jfield r ''scope'');
          pinned = (record_kind r = latin ''pin'' \<and> \<not> to_bool (jfield r ''deleted''));
          count = (case map_of counts scope of Some n \<Rightarrow> n | None \<Rightarrow> 0) + 1 in
      valid_uuid i \<and> i \<notin> set ids \<and> is_bool (jfield r ''deleted'') \<and> valid_record u5 account r
      \<and> (pinned \<longrightarrow> count \<le> maximum_order)
      \<and> valid_records u5 account (i # ids) (if pinned then amap_put scope count counts else counts) values)"

definition pinned_items_valid :: "uuid5 \<Rightarrow> local_account \<Rightarrow> json_object \<Rightarrow> bool" where
  "pinned_items_valid u5 account m \<longleftrightarrow>
     to_str (jfield m ''module_id'') = latin ''pinned_items'' \<and> to_int (jfield m ''schema_version'') = 1
     \<and> is_arr (jfield m ''records'') \<and> valid_records u5 account [] [] (to_arr (jfield m ''records''))"

section \<open>Peers and records\<close>

definition peer_kind :: "peer_id \<Rightarrow> qstring" where
  "peer_kind p =
     (if peer_is user_shift p then latin ''user''
      else if peer_is chat_shift p then latin ''chat''
      else if peer_is channel_shift p then latin ''channel''
      else [])"

definition write_peer :: "peer_id \<Rightarrow> json_object \<Rightarrow> json_object" where
  "write_peer p ob =
     jput ''peer_id'' (JsStr (decimal (unat (p AND chat_type_mask)))) (jput ''peer_type'' (JsStr (peer_kind p)) ob)"

definition read_peer :: "json_object \<Rightarrow> peer_id" where
  "read_peer ob =
     (let kind = to_str (jfield ob ''peer_type'');
          i = (case to_ulonglong (to_str (jfield ob ''peer_id'')) of Some n \<Rightarrow> n | None \<Rightarrow> 0) in
      if kind = latin ''user'' then peer_of user_shift (of_nat i)
      else if kind = latin ''chat'' then peer_of chat_shift (of_nat i)
      else if kind = latin ''channel'' then peer_of channel_shift (of_nat i)
      else 0)"

definition valid_peer :: "peer_id \<Rightarrow> bool" where
  "valid_peer p \<longleftrightarrow> peer_key (write_peer p []) \<noteq> [] \<and> drop_bit 48 p \<le> channel_shift"

definition read_order :: "json list \<Rightarrow> peer_id list" where
  "read_order values = filter (\<lambda>p. p \<noteq> 0) (map (\<lambda>v. read_peer (to_obj (Some v))) values)"

definition merge_order :: "peer_id list \<Rightarrow> peer_id list \<Rightarrow> peer_id list" where
  "merge_order desired retained =
     foldl (\<lambda>result p. if p \<in> set result then result else result @ [p]) [] (desired @ retained)"

text \<open>\<open>preserved.emplace\<close> keeps the first object of a peer, \<open>preserved[peer]\<close> of another one is empty.\<close>

definition write_order :: "peer_id list \<Rightarrow> json list \<Rightarrow> json list" where
  "write_order order previous =
     (let preserved = map (\<lambda>v. (read_peer (to_obj (Some v)), to_obj (Some v))) previous in
      map (\<lambda>p. JsObj (write_peer p (case map_of preserved p of Some ob \<Rightarrow> ob | None \<Rightarrow> []))) order)"

fun find_record :: "json list \<Rightarrow> qstring \<Rightarrow> nat option" where
  "find_record [] i = None"
| "find_record (r # rs) i =
     (if to_str (jfield (to_obj (Some r)) ''id'') = i then Some 0 else map_option Suc (find_record rs i))"

definition put_record :: "json list \<Rightarrow> nat option \<Rightarrow> json_object \<Rightarrow> json list" where
  "put_record records index r =
     (case index of None \<Rightarrow> records @ [JsObj r] | Some k \<Rightarrow> records[k := JsObj r])"

definition record_at :: "json list \<Rightarrow> nat option \<Rightarrow> json_object" where
  "record_at records index = (case index of None \<Rightarrow> [] | Some k \<Rightarrow> to_obj (Some (records ! k)))"

definition module_records :: "json_object \<Rightarrow> json list" where
  "module_records m = to_arr (jfield m ''records'')"

definition active_scope :: "uuid5 \<Rightarrow> local_account \<Rightarrow> json_object \<Rightarrow> qstring \<Rightarrow> bool" where
  "active_scope u5 account m scope =
     (if take 7 scope \<noteq> latin ''filter:'' then valid_scope scope
      else
        let parts = split_char colon scope in
        if length parts \<noteq> 3 then False
        else (case find_record (module_records m) (filter_record_id u5 account (parts ! 1)) of
          None \<Rightarrow> False
        | Some k \<Rightarrow>
            let r = to_obj (Some (module_records m ! k)) in
            \<not> to_bool (jfield r ''deleted'') \<and> to_str (jfield r ''scope_id'') = parts ! 2))"

definition update_order ::
  "uuid5 \<Rightarrow> local_account \<Rightarrow> qstring \<Rightarrow> peer_id list \<Rightarrow> json list \<Rightarrow> qstring + json list" where
  "update_order u5 account scope visible records =
     (let i = order_id u5 account scope;
          index = find_record records i;
          r = record_at records index;
          previous = to_arr (jfield r ''peers'');
          order = merge_order visible (read_order previous) in
      if length order > maximum_order then Inl (latin ''Too many local pinned items in this list.'')
      else Inr (put_record records index
        (jput ''peers'' (JsArr (write_order order previous))
        (jput ''deleted'' (JsBool False)
        (jput ''scope'' (JsStr scope)
        (jput ''kind'' (JsStr (latin ''order''))
        (jput ''id'' (JsStr i) r)))))))"

definition prune_order_peer :: "uuid5 \<Rightarrow> local_account \<Rightarrow> qstring \<Rightarrow> peer_id \<Rightarrow> json list \<Rightarrow> json list" where
  "prune_order_peer u5 account scope peer records =
     (case find_record records (order_id u5 account scope) of
        None \<Rightarrow> records
      | Some k \<Rightarrow>
          let r = to_obj (Some (records ! k));
              order = filter (\<lambda>v. read_peer (to_obj (Some v)) \<noteq> peer) (to_arr (jfield r ''peers'')) in
          records[k := JsObj (jput ''peers'' (JsArr order) r)])"

text \<open>The object the order of the scope has for the peer: what it carries beyond the peer itself is kept in the
  record of the pin.\<close>

definition order_object :: "uuid5 \<Rightarrow> local_account \<Rightarrow> qstring \<Rightarrow> peer_id \<Rightarrow> json list \<Rightarrow> json_object option" where
  "order_object u5 account scope peer records =
     (case find_record records (order_id u5 account scope) of
        None \<Rightarrow> None
      | Some k \<Rightarrow> map_option (\<lambda>v. to_obj (Some v))
          (find (\<lambda>v. read_peer (to_obj (Some v)) = peer) (to_arr (jfield (to_obj (Some (records ! k))) ''peers''))))"

definition fill_object :: "json_object \<Rightarrow> json_object \<Rightarrow> json_object" where
  "fill_object ob data = foldl (\<lambda>d (k, v). if map_of d k = None then amap_put k v d else d) data ob"

definition update_pin :: "uuid5 \<Rightarrow> local_account \<Rightarrow> qstring \<Rightarrow> peer_id \<Rightarrow> bool \<Rightarrow> json list \<Rightarrow> json list" where
  "update_pin u5 account scope peer pinned records =
     (let i = pin_id u5 account scope (write_peer peer []);
          index = find_record records i;
          r = jput ''scope'' (JsStr scope) (jput ''kind'' (JsStr (latin ''pin'')) (jput ''id'' (JsStr i)
            (record_at records index)));
          data = to_obj (jfield r ''peer'');
          (r1, data1) =
            (case order_object u5 account scope peer records of
               None \<Rightarrow> (r, data)
             | Some ob \<Rightarrow>
                 (if \<not> pinned \<and> length ob > 2 then
                    (let retained = to_arr (jfield r ''retained_order_peers'') in
                     jput ''retained_order_peers''
                       (JsArr (if JsObj ob \<in> set retained then retained else retained @ [JsObj ob])) r)
                  else r, fill_object ob data)) in
      put_record records index
        (jput ''deleted'' (JsBool (\<not> pinned)) (jput ''peer'' (JsObj (write_peer peer data1)) r1)))"

definition validate_loaded :: "uuid5 \<Rightarrow> local_account \<Rightarrow> json_object \<Rightarrow> qstring option" where
  "validate_loaded u5 account m =
     (if to_int (jfield m ''schema_version'') \<noteq> 1
      then Some (latin ''Local pinned items require a newer application.'')
      else if pinned_items_valid u5 account m then None
      else Some (latin ''Invalid local pinned items data.''))"

section \<open>The state\<close>

record pinned_scope =
  sc_pins :: "(peer_id \<times> bool) list"
  sc_order :: "peer_id list"

record pinned_filter =
  fi_incarnation :: qstring
  fi_deleted :: bool

record pinned_state =
  ps_scopes :: "(qstring \<times> pinned_scope) list"
  ps_filters :: "(int \<times> pinned_filter) list"

definition empty_pinned_state :: pinned_state where
  "empty_pinned_state = \<lparr>ps_scopes = [], ps_filters = []\<rparr>"

text \<open>\<open>scopes[scope]\<close> makes an empty entry where there is none.\<close>

definition scope_of :: "qstring \<Rightarrow> pinned_state \<Rightarrow> pinned_scope" where
  "scope_of scope st = (case map_of (ps_scopes st) scope of Some d \<Rightarrow> d | None \<Rightarrow> \<lparr>sc_pins = [], sc_order = []\<rparr>)"

definition set_pin :: "qstring \<Rightarrow> peer_id \<Rightarrow> bool \<Rightarrow> pinned_state \<Rightarrow> pinned_state" where
  "set_pin scope peer pinned st =
     (let d = scope_of scope st in
      st\<lparr>ps_scopes := amap_put scope (d\<lparr>sc_pins := amap_put peer pinned (sc_pins d)\<rparr>) (ps_scopes st)\<rparr>)"

definition set_order :: "qstring \<Rightarrow> peer_id list \<Rightarrow> pinned_state \<Rightarrow> pinned_state" where
  "set_order scope order st =
     st\<lparr>ps_scopes := amap_put scope ((scope_of scope st)\<lparr>sc_order := order\<rparr>) (ps_scopes st)\<rparr>"

definition set_filter :: "int \<Rightarrow> pinned_filter \<Rightarrow> pinned_state \<Rightarrow> pinned_state" where
  "set_filter i f st = st\<lparr>ps_filters := amap_put i f (ps_filters st)\<rparr>"

text \<open>\<open>QString::toInt\<close>.\<close>

definition string_to_int :: "qstring \<Rightarrow> int" where
  "string_to_int s =
     (case dropWhile is_blank s of
        c # cs \<Rightarrow>
          if c = 0x2D then
            (case to_ulonglong cs of
               Some n \<Rightarrow> if cs \<noteq> [] \<and> is_digit (hd cs) \<and> n \<le> 2147483648 then - int n else 0
             | None \<Rightarrow> 0)
          else (case to_ulonglong s of Some n \<Rightarrow> if n \<le> 2147483647 then int n else 0 | None \<Rightarrow> 0)
      | [] \<Rightarrow> 0)"

definition parse_record :: "pinned_state \<Rightarrow> json \<Rightarrow> pinned_state" where
  "parse_record st value =
     (let r = to_obj (Some value); scope = to_str (jfield r ''scope''); deleted = to_bool (jfield r ''deleted'') in
      if record_kind r = latin ''pin'' then
        set_pin scope (read_peer (to_obj (jfield r ''peer''))) (\<not> deleted) st
      else if record_kind r = latin ''order'' \<and> \<not> deleted then
        set_order scope (read_order (to_arr (jfield r ''peers''))) st
      else if record_kind r = latin ''filter'' then
        set_filter (string_to_int (to_str (jfield r ''filter_id'')))
          \<lparr>fi_incarnation = to_str (jfield r ''scope_id''), fi_deleted = deleted\<rparr> st
      else st)"

definition parse_pinned_items :: "json_object \<Rightarrow> pinned_state" where
  "parse_pinned_items m = foldl parse_record empty_pinned_state (module_records m)"

definition state_scopes :: "pinned_state \<Rightarrow> qstring list" where
  "state_scopes st = map fst (ps_scopes st)"

definition local_pins :: "qstring \<Rightarrow> pinned_state \<Rightarrow> peer_id list" where
  "local_pins scope st =
     (case map_of (ps_scopes st) scope of
        None \<Rightarrow> []
      | Some d \<Rightarrow> map fst (filter snd (sc_pins d)))"

definition pin_overridden :: "qstring \<Rightarrow> peer_id \<Rightarrow> pinned_state \<Rightarrow> bool option" where
  "pin_overridden scope peer st =
     (case map_of (ps_scopes st) scope of
        None \<Rightarrow> None
      | Some d \<Rightarrow> map_of (sc_pins d) peer)"

definition active_peers :: "peer_id list \<Rightarrow> (peer_id \<times> bool) list \<Rightarrow> peer_id list" where
  "active_peers cloud pins =
     foldl (\<lambda>active (peer, pinned). if pinned then asc_insert peer active else asc_remove peer active)
       (asc_merge [] cloud) pins"

definition take_active :: "peer_id list \<times> peer_id list \<Rightarrow> peer_id list \<Rightarrow> peer_id list \<times> peer_id list" where
  "take_active s order =
     foldl (\<lambda>(active, result) peer.
       if peer \<in> set active then (asc_remove peer active, result @ [peer]) else (active, result)) s order"

definition overlay_order :: "qstring \<Rightarrow> peer_id list \<Rightarrow> pinned_state \<Rightarrow> peer_id list" where
  "overlay_order scope cloud st =
     (case map_of (ps_scopes st) scope of
        None \<Rightarrow> cloud
      | Some d \<Rightarrow>
          let (active, result) = take_active (take_active (active_peers cloud (sc_pins d), []) (sc_order d)) cloud in
          result @ active)"

definition scope_text :: "int \<Rightarrow> qstring \<Rightarrow> qstring" where
  "scope_text i incarnation = latin ''filter:'' @ decimal_int i @ colon # incarnation"

definition filter_scope :: "int \<Rightarrow> pinned_state \<Rightarrow> qstring" where
  "filter_scope i st =
     (case map_of (ps_filters st) i of
        None \<Rightarrow> []
      | Some f \<Rightarrow> if fi_deleted f then [] else scope_text i (fi_incarnation f))"

definition filter_scopes :: "pinned_state \<Rightarrow> (int \<times> qstring) list" where
  "filter_scopes st = map (\<lambda>(i, f). (i, filter_scope i st)) (filter (\<lambda>(i, f). \<not> fi_deleted f) (ps_filters st))"

end
