(* ===== verification/PinnedRecords.thy ===== *)
theory PinnedRecords
  imports PinnedItems "HOL-Library.Multiset"
begin

text \<open>
  Lemmas on the records of local pins: peers survive being written and read; a record touches one slot of the
  state (one pin, one order, one folder), records of different slots do not interfere, and in a valid list the
  identity of a record stands for its slot, so that replacing the record is the same as a change of the state.
\<close>

section \<open>Peers\<close>

definition peer_text :: "peer_id \<Rightarrow> qstring" where
  "peer_text p = peer_kind p @ colon # decimal (unat (p AND chat_type_mask))"

lemma peer_split: "p = peer_of (drop_bit 48 p) (p AND chat_type_mask)"
proof -
  have mask: "chat_type_mask = mask 48" by (simp add: chat_type_mask_def mask_eq_exp_minus_1)
  show ?thesis unfolding peer_of_def mask
  proof (rule bit_word_eqI)
    fix n
    show "bit p n \<longleftrightarrow> bit (p AND mask 48 OR push_bit 48 (drop_bit 48 p)) n" if "n < LENGTH(64)"
      using that by (cases "n < 48") (simp_all add: bit_simps)
  qed
qed

lemma small_shift: "(s::64 word) \<le> 2 \<longleftrightarrow> s \<in> {0, 1, 2}"
proof -
  have "s \<le> 2 \<longleftrightarrow> unat s \<le> 2" by (simp add: word_le_nat_alt)
  also have "\<dots> \<longleftrightarrow> unat s \<in> {0, 1, 2}" by auto
  also have "\<dots> \<longleftrightarrow> s \<in> {0, 1, 2}" by (auto simp: word_unat_eq_iff)
  finally show ?thesis .
qed

lemma masked_id [simp]: "(p AND chat_type_mask) AND chat_type_mask = p AND chat_type_mask" for p :: "64 word"
  by (simp add: and.assoc)

lemma peer_of_parts:
  assumes "s \<in> {user_shift, chat_shift, channel_shift}" and "bare AND chat_type_mask = bare"
  shows "peer_of s bare AND chat_type_mask = bare" "drop_bit 48 (peer_of s bare) = s"
    "peer_is k (peer_of s bare) \<longleftrightarrow> k = s"
proof -
  have byte: "s AND 0xFF = s" using assms(1) by auto
  note parts = peer_parts [OF assms(2) byte]
  show "peer_of s bare AND chat_type_mask = bare" by (rule parts(1))
  show "peer_is k (peer_of s bare) \<longleftrightarrow> k = s" using parts(2) by (auto simp: peer_is_def)
  have mask: "chat_type_mask = mask 48" by (simp add: chat_type_mask_def mask_eq_exp_minus_1)
  have "drop_bit 48 bare = 0"
  proof (rule bit_word_eqI)
    fix n
    have "bit bare (48 + n) \<longleftrightarrow> bit (bare AND mask 48) (48 + n)" using assms(2) by (simp add: mask)
    then show "bit (drop_bit 48 bare) n \<longleftrightarrow> bit (0::64 word) n" by (simp add: bit_simps)
  qed
  moreover have "drop_bit 48 (peer_of s bare) = drop_bit 48 bare OR drop_bit 48 (push_bit 48 s)"
    by (simp add: peer_of_def)
  moreover have "drop_bit 48 (push_bit 48 s) = s" using assms(1) by auto
  ultimately show "drop_bit 48 (peer_of s bare) = s" by simp
qed

lemma unat_mask_bound: "unat (p AND chat_type_mask) \<le> 0xFFFFFFFFFFFF" for p :: "64 word"
proof -
  have "p AND chat_type_mask \<le> chat_type_mask" by (rule word_and_le1)
  then show ?thesis by (simp add: word_le_nat_alt chat_type_mask_def)
qed

lemma peer_key_fields:
  "peer_key ob \<noteq> [] \<longleftrightarrow>
     to_str (jfield ob ''peer_type'') \<in> {latin ''user'', latin ''chat'', latin ''channel''}
     \<and> canonical_decimal 0xFFFFFFFFFFFF (to_str (jfield ob ''peer_id''))"
  by (simp add: peer_key_def Let_def)

lemma write_peer_fields [simp]:
  "jfield (write_peer p ob) ''peer_type'' = Some (JsStr (peer_kind p))"
  "jfield (write_peer p ob) ''peer_id'' = Some (JsStr (decimal (unat (p AND chat_type_mask))))"
  by (simp_all add: write_peer_def)

text \<open>A valid peer is one of the three kinds with a number, and nothing else.\<close>

lemma valid_peer_cases:
  assumes "valid_peer p"
  obtains s where "s \<in> {user_shift, chat_shift, channel_shift}" "p = peer_of s (p AND chat_type_mask)"
    "p AND chat_type_mask \<noteq> 0"
proof
  show "drop_bit 48 p \<in> {user_shift, chat_shift, channel_shift}"
    using assms by (simp add: valid_peer_def small_shift)
  show "p = peer_of (drop_bit 48 p) (p AND chat_type_mask)" by (rule peer_split)
  have "canonical_decimal 0xFFFFFFFFFFFF (decimal (unat (p AND chat_type_mask)))"
    using assms by (simp add: valid_peer_def peer_key_fields)
  then show "p AND chat_type_mask \<noteq> 0" by (auto simp: canonical_decimal_iff)
qed

lemma peer_kind_of:
  assumes "s \<in> {user_shift, chat_shift, channel_shift}" and "bare AND chat_type_mask = bare"
  shows "peer_kind (peer_of s bare) =
    (if s = user_shift then latin ''user'' else if s = chat_shift then latin ''chat'' else latin ''channel'')"
  using assms(1) by (auto simp: peer_kind_def peer_of_parts(3) [OF assms])

lemma valid_peer_of:
  assumes "s \<in> {user_shift, chat_shift, channel_shift}" and "bare AND chat_type_mask = bare" and "bare \<noteq> 0"
  shows "valid_peer (peer_of s bare)"
proof -
  have "canonical_decimal 0xFFFFFFFFFFFF (decimal (unat bare))"
    using assms(3) unat_mask_bound [of bare] by (auto simp: canonical_decimal_iff assms(2) unat_gt_0)
  moreover have "s \<le> 2" using assms(1) by (simp add: small_shift)
  ultimately show ?thesis
    using assms(1) by (auto simp: valid_peer_def peer_key_fields peer_of_parts [OF assms(1,2)] peer_kind_of [OF assms(1,2)])
qed

lemma read_write_peer:
  assumes "valid_peer p"
  shows "read_peer (write_peer p ob) = p"
proof -
  obtain s where s: "s \<in> {user_shift, chat_shift, channel_shift}" "p = peer_of s (p AND chat_type_mask)"
    using assms by (rule valid_peer_cases)
  have kind: "peer_kind p =
      (if s = user_shift then latin ''user'' else if s = chat_shift then latin ''chat'' else latin ''channel'')"
    using peer_kind_of [OF s(1) masked_id, of p] s(2) by simp
  have "unat (p AND chat_type_mask) < 2 ^ 64" using unat_mask_bound [of p] by simp
  then show ?thesis
    using s kind by (auto simp: read_peer_def to_ulonglong_decimal Let_def)
qed

lemma write_peer_key:
  assumes "valid_peer p"
  shows "peer_key (write_peer p ob) = peer_text p"
proof -
  have "peer_key (write_peer p []) \<noteq> []" using assms by (simp add: valid_peer_def)
  then show ?thesis by (simp add: peer_key_def Let_def peer_text_def split: if_splits)
qed

text \<open>An object with a valid key is read as a valid peer, and has the key of this peer.\<close>

lemma read_valid_peer:
  assumes "peer_key ob \<noteq> []"
  shows "valid_peer (read_peer ob)" "peer_key ob = peer_text (read_peer ob)"
proof -
  obtain n where n: "n \<noteq> 0" "n \<le> 0xFFFFFFFFFFFF" "to_str (jfield ob ''peer_id'') = decimal n"
    and kind: "to_str (jfield ob ''peer_type'') \<in> {latin ''user'', latin ''chat'', latin ''channel''}"
    using assms by (auto simp: peer_key_fields canonical_decimal_iff)
  define bare where "bare = (of_nat n :: 64 word)"
  have unat: "unat bare = n" using n(2) by (simp add: bare_def unat_of_nat take_bit_nat_eq_self)
  have small: "bare AND chat_type_mask = bare"
  proof -
    have mask: "chat_type_mask = mask 48" by (simp add: chat_type_mask_def mask_eq_exp_minus_1)
    have "bare < 2 ^ 48" using n(2) unat by (simp add: word_less_nat_alt)
    then have "take_bit 48 bare = bare" using unat n(2) by (simp add: word_unat_eq_iff unsigned_take_bit_eq take_bit_nat_eq_self)
    then show ?thesis by (simp add: mask flip: take_bit_eq_mask)
  qed
  have ne: "bare \<noteq> 0" using n(1) unat by auto
  define s :: "64 word" where "s = (if to_str (jfield ob ''peer_type'') = latin ''user'' then user_shift
    else if to_str (jfield ob ''peer_type'') = latin ''chat'' then chat_shift else channel_shift)"
  have s: "s \<in> {user_shift, chat_shift, channel_shift}" by (simp add: s_def)
  have read: "read_peer ob = peer_of s bare"
    using kind n(2) by (auto simp: read_peer_def n(3) to_ulonglong_decimal s_def bare_def)
  show "valid_peer (read_peer ob)" unfolding read by (rule valid_peer_of [OF s small ne])
  have "peer_kind (peer_of s bare) = to_str (jfield ob ''peer_type'')"
    unfolding peer_kind_of [OF s small] using kind by (auto simp: s_def)
  then show "peer_key ob = peer_text (read_peer ob)"
    using assms unfolding read peer_text_def peer_of_parts(1) [OF s small] unat
    by (simp add: peer_key_def Let_def n(3) split: if_splits)
qed

lemma valid_peer_ne_0: "valid_peer p \<Longrightarrow> p \<noteq> 0"
proof
  assume p: "valid_peer p" "p = 0"
  obtain s where "p AND chat_type_mask \<noteq> 0" using p(1) by (rule valid_peer_cases)
  then show False using p(2) by simp
qed

lemma digits_no_colon: "list_all is_digit s \<Longrightarrow> colon \<notin> set s"
  by (auto simp: list_all_iff colon_def is_digit_def)

lemma peer_text_inj:
  assumes "valid_peer p" and "valid_peer q" and "peer_text p = peer_text q"
  shows "p = q"
proof -
  have eqs: "peer_kind p = peer_kind q \<and>
      decimal (unat (p AND chat_type_mask)) = decimal (unat (q AND chat_type_mask))"
    by (rule cut_at_last [of _ colon]) (use assms(3) in \<open>simp_all add: peer_text_def digits_no_colon decimal_digits\<close>)
  then have "read_peer (write_peer p []) = read_peer (write_peer q [])" by (simp add: read_peer_def)
  then show ?thesis using assms(1,2) by (simp add: read_write_peer)
qed

section \<open>Slots\<close>

datatype slot = PinSlot qstring peer_id | OrderSlot qstring | FilterSlot int | NoSlot

definition record_slot :: "json_object \<Rightarrow> slot" where
  "record_slot r =
     (if record_kind r = latin ''pin'' then PinSlot (to_str (jfield r ''scope'')) (read_peer (to_obj (jfield r ''peer'')))
      else if record_kind r = latin ''order'' then OrderSlot (to_str (jfield r ''scope''))
      else if record_kind r = latin ''filter'' then FilterSlot (string_to_int (to_str (jfield r ''filter_id'')))
      else NoSlot)"

definition deleted_order :: "json_object \<Rightarrow> bool" where
  "deleted_order r \<longleftrightarrow> record_kind r = latin ''order'' \<and> to_bool (jfield r ''deleted'')"

abbreviation obj :: "json \<Rightarrow> json_object" where
  "obj v \<equiv> to_obj (Some v)"

lemma scope_of_put [simp]:
  "scope_of s (st\<lparr>ps_scopes := amap_put t d (ps_scopes st)\<rparr>) = (if s = t then d else scope_of s st)"
  by (simp add: scope_of_def)

lemma set_pin_commute: "s \<noteq> t \<or> p \<noteq> q \<Longrightarrow> set_pin s p a (set_pin t q b st) = set_pin t q b (set_pin s p a st)"
  by (cases "s = t") (auto simp: set_pin_def Let_def amap_put_commute)

lemma set_order_commute: "s \<noteq> t \<Longrightarrow> set_order s x (set_order t y st) = set_order t y (set_order s x st)"
  by (simp add: set_order_def amap_put_commute)

lemma set_filter_commute: "i \<noteq> j \<Longrightarrow> set_filter i f (set_filter j g st) = set_filter j g (set_filter i f st)"
  by (simp add: set_filter_def amap_put_commute)

lemma set_pin_order: "set_pin s p a (set_order t x st) = set_order t x (set_pin s p a st)"
  by (cases "s = t"; cases "scope_of t st") (simp_all add: set_pin_def set_order_def Let_def amap_put_commute)

lemma set_filter_others:
  "set_filter i f (set_pin s p a st) = set_pin s p a (set_filter i f st)"
  "set_filter i f (set_order s x st) = set_order s x (set_filter i f st)"
  by (simp_all add: set_filter_def set_pin_def set_order_def scope_of_def Let_def)

lemma set_twice:
  "set_pin s p a (set_pin s p b st) = set_pin s p a st"
  "set_order s x (set_order s y st) = set_order s x st"
  "set_filter i f (set_filter i g st) = set_filter i f st"
  by (simp_all add: set_pin_def set_order_def set_filter_def Let_def)

lemmas slot_commute = set_pin_commute set_order_commute set_filter_commute set_pin_order set_filter_others

text \<open>What reading one record does, by its slot.\<close>

lemma parse_record_slot:
  "parse_record st v =
     (case record_slot (obj v) of
        PinSlot s p \<Rightarrow> set_pin s p (\<not> to_bool (jfield (obj v) ''deleted'')) st
      | OrderSlot s \<Rightarrow>
          if deleted_order (obj v) then st else set_order s (read_order (to_arr (jfield (obj v) ''peers''))) st
      | FilterSlot i \<Rightarrow> set_filter i
          \<lparr>fi_incarnation = to_str (jfield (obj v) ''scope_id''), fi_deleted = to_bool (jfield (obj v) ''deleted'')\<rparr> st
      | NoSlot \<Rightarrow> st)"
  by (simp add: parse_record_def record_slot_def deleted_order_def Let_def)

lemma parse_record_commute:
  assumes "record_slot (obj v) \<noteq> record_slot (obj w) \<or> record_slot (obj v) = NoSlot"
  shows "parse_record (parse_record st v) w = parse_record (parse_record st w) v"
  using assms unfolding parse_record_slot
  by (cases "record_slot (obj v)"; cases "record_slot (obj w)") (auto simp: slot_commute)

lemma parse_record_absorb:
  assumes "record_slot (obj v) = record_slot (obj w) \<or> record_slot (obj v) = NoSlot" and "\<not> deleted_order (obj w)"
  shows "parse_record (parse_record st v) w = parse_record st w"
  using assms unfolding parse_record_slot
  by (cases "record_slot (obj v)"; cases "record_slot (obj w)") (auto simp: set_twice)

lemma parse_records_commute:
  assumes "\<And>w. w \<in> set ws \<Longrightarrow> record_slot (obj w) \<noteq> record_slot (obj v) \<or> record_slot (obj w) = NoSlot"
  shows "parse_record (foldl parse_record st ws) v = foldl parse_record (parse_record st v) ws"
  using assms
proof (induction ws arbitrary: st)
  case (Cons w ws)
  have "parse_record (foldl parse_record (parse_record st w) ws) v
      = foldl parse_record (parse_record (parse_record st w) v) ws"
    by (rule Cons.IH, rule Cons.prems) simp
  also have "parse_record (parse_record st w) v = parse_record (parse_record st v) w"
    by (rule parse_record_commute) (use Cons.prems [of w] in auto)
  finally show ?case by simp
qed simp

text \<open>The state does not depend on the order of the records, if they are of different slots.\<close>

lemma parse_records_permuted:
  assumes "mset ws = mset vs"
    and "\<And>v w. v \<in> set vs \<Longrightarrow> w \<in> set vs \<Longrightarrow> v \<noteq> w \<Longrightarrow>
      record_slot (obj v) \<noteq> record_slot (obj w) \<or> record_slot (obj v) = NoSlot"
  shows "foldl parse_record st ws = foldl parse_record st vs"
proof -
  have "fold (\<lambda>v st. parse_record st v) vs = fold (\<lambda>v st. parse_record st v) ws"
  proof (rule fold_multiset_equiv)
    show "(\<lambda>st. parse_record st v) \<circ> (\<lambda>st. parse_record st w) = (\<lambda>st. parse_record st w) \<circ> (\<lambda>st. parse_record st v)"
      if "v \<in> set vs" "w \<in> set vs" for v w
      using parse_record_commute [OF assms(2) [OF that]] by (cases "v = w") (auto simp: fun_eq_iff)
  qed (use assms(1) in simp)
  then show ?thesis by (simp add: foldl_conv_fold)
qed

section \<open>Identities\<close>

definition record_id :: "json_object \<Rightarrow> qstring" where
  "record_id r = to_str (jfield r ''id'')"

definition record_key :: "json_object \<Rightarrow> qstring option" where
  "record_key r =
     (if record_kind r = latin ''pin'' then Some (pin_key (to_str (jfield r ''scope'')) (peer_key (to_obj (jfield r ''peer''))))
      else if record_kind r = latin ''order'' then Some (order_key (to_str (jfield r ''scope'')))
      else if record_kind r = latin ''filter'' then Some (filter_key (to_str (jfield r ''filter_id'')))
      else None)"

lemma valid_record_id:
  "valid_record u5 account r \<Longrightarrow> record_key r = Some k \<Longrightarrow> record_id r = stable_id u5 account k"
  by (auto simp: valid_record_def record_key_def record_id_def valid_pin_def valid_order_def valid_filter_def
      pin_id_def order_id_def filter_record_id_def Let_def split: if_splits)

lemma pin_key_inj:
  assumes "pin_key s (peer_text p) = pin_key t (peer_text q)" and "valid_peer p" and "valid_peer q"
  shows "s = t \<and> p = q"
proof -
  have kind: "colon \<notin> set (peer_kind x)" for x
    by (auto simp: peer_kind_def latin_def colon_def)
  have "(s @ colon # peer_kind p) @ colon # decimal (unat (p AND chat_type_mask))
      = (t @ colon # peer_kind q) @ colon # decimal (unat (q AND chat_type_mask))"
    using assms(1) by (simp add: pin_key_def peer_text_def)
  then have 1: "s @ colon # peer_kind p = t @ colon # peer_kind q \<and>
      decimal (unat (p AND chat_type_mask)) = decimal (unat (q AND chat_type_mask))"
    by (rule cut_at_last) (simp_all add: digits_no_colon decimal_digits)
  have 2: "s = t \<and> peer_kind p = peer_kind q"
    by (rule cut_at_last [of _ colon]) (use 1 kind in simp_all)
  then have "peer_text p = peer_text q" using 1 by (simp add: peer_text_def)
  then show ?thesis using 2 peer_text_inj [OF assms(2,3)] by simp
qed

lemma string_to_int_decimal:
  assumes "n \<le> 2147483647"
  shows "string_to_int (decimal n) = int n"
proof -
  obtain c cs where cs: "decimal n = c # cs" using decimal_ne [of n] by (cases "decimal n") auto
  have "is_digit c" using decimal_digits [of n] by (simp add: cs)
  then have "\<not> is_blank c" "c \<noteq> 0x2D" by (auto simp: is_digit_def is_blank_def)
  moreover have "to_ulonglong (decimal n) = Some n" by (rule to_ulonglong_decimal) (use assms in simp)
  ultimately show ?thesis using assms by (simp add: string_to_int_def cs)
qed

lemma valid_filter_text:
  assumes "valid_filter_id s"
  obtains n where "s = decimal n" "n \<noteq> 0" "n \<le> 2147483647" "string_to_int s = int n"
  using assms string_to_int_decimal by (auto simp: valid_filter_id_def canonical_decimal_iff)

text \<open>For valid records, the same slot and the same key are the same.\<close>

lemma kind_apart:
  "pin_key s x \<noteq> order_key t" "pin_key s x \<noteq> filter_key t" "order_key s \<noteq> filter_key t"
  by (simp_all add: pin_key_def order_key_def filter_key_def latin_def)

lemma record_slot_key:
  assumes "valid_record u5 account r" and "valid_record u5 account r'"
  shows "record_slot r = record_slot r' \<longleftrightarrow> record_key r = record_key r'"
proof -
  have pin: "peer_key (to_obj (jfield r ''peer'')) \<noteq> []" if "valid_record u5 account r" "record_kind r = latin ''pin''" for r
    using that by (simp add: valid_record_def valid_pin_def Let_def)
  have order: "order_key s = order_key t \<longleftrightarrow> s = t" for s t by (simp add: order_key_def)
  have filt: "string_to_int (to_str (jfield r ''filter_id'')) = string_to_int (to_str (jfield r' ''filter_id''))
      \<longleftrightarrow> filter_key (to_str (jfield r ''filter_id'')) = filter_key (to_str (jfield r' ''filter_id''))"
    if "record_kind r = latin ''filter''" "record_kind r' = latin ''filter''"
  proof -
    have valid: "valid_filter_id (to_str (jfield r ''filter_id''))" "valid_filter_id (to_str (jfield r' ''filter_id''))"
      using assms that by (simp_all add: valid_record_def valid_filter_def Let_def)
    then show ?thesis by (metis filter_key_def same_append_eq valid_filter_text of_nat_eq_iff)
  qed
  have pins: "to_str (jfield r ''scope'') = to_str (jfield r' ''scope'')
        \<and> read_peer (to_obj (jfield r ''peer'')) = read_peer (to_obj (jfield r' ''peer''))
      \<longleftrightarrow> pin_key (to_str (jfield r ''scope'')) (peer_key (to_obj (jfield r ''peer'')))
        = pin_key (to_str (jfield r' ''scope'')) (peer_key (to_obj (jfield r' ''peer'')))"
    if "record_kind r = latin ''pin''" "record_kind r' = latin ''pin''"
    using read_valid_peer [OF pin [OF assms(1) that(1)]] read_valid_peer [OF pin [OF assms(2) that(2)]]
      pin_key_inj by metis
  show ?thesis
    using pins filt unfolding record_slot_def record_key_def
    by (auto simp: kind_apart kind_apart [symmetric] order)
qed

end
