(* ===== verification/PinnedChanges.thy ===== *)
theory PinnedChanges
  imports PinnedRecords
begin

text \<open>
  The changes of local pins (\<open>LocalPinnedItems\<close> in \<open>data/local_pinned_items.cpp\<close>): what a request is refused for,
  what it does to the records of the module when the store runs it, and what it does at once to the state on the
  screen. The theorem says that the two agree: when the store accepts a change, the state read back from the
  records is the one already shown.
\<close>

section \<open>Requests\<close>

datatype pin_command =
  SetPinned qstring peer_id bool "peer_id list"
| SaveOrder qstring "peer_id list"
| RemovePeer peer_id
| SyncFilters "(int \<times> pinned_filter) list"

definition set_pinned :: "qstring \<Rightarrow> peer_id \<Rightarrow> bool \<Rightarrow> peer_id list \<Rightarrow> qstring + pin_command" where
  "set_pinned scope peer pinned visible =
     (if \<not> valid_scope scope \<or> \<not> valid_peer peer then Inl (latin ''Invalid local pinned item.'')
      else if pinned then
        (if length visible > maximum_order \<or> \<not> list_all valid_peer visible
         then Inl (latin ''Invalid local pinned item.'')
         else
           let order = peer # filter (\<lambda>p. p \<noteq> peer) visible in
           if length order > maximum_order then Inl (latin ''Too many local pinned items in this list.'')
           else Inr (SetPinned scope peer True order))
      else Inr (SetPinned scope peer False []))"

definition save_order :: "qstring \<Rightarrow> peer_id list \<Rightarrow> qstring + pin_command" where
  "save_order scope visible =
     (if \<not> valid_scope scope \<or> length visible > maximum_order \<or> \<not> list_all valid_peer visible
      then Inl (latin ''Invalid local pinned order.'')
      else Inr (SaveOrder scope visible))"

definition remove_peer :: "peer_id \<Rightarrow> qstring + pin_command" where
  "remove_peer peer = (if \<not> valid_peer peer then Inl (latin ''Invalid local pinned item.'') else Inr (RemovePeer peer))"

text \<open>\<open>NewId()\<close>, a random UUID, is the parameter \<open>fresh\<close>. No change, no request: \<open>Inr None\<close>.\<close>

definition filter_changes ::
  "uuid5 \<Rightarrow> local_account \<Rightarrow> (int \<Rightarrow> qstring) \<Rightarrow> int list \<Rightarrow> pinned_state \<Rightarrow> (int \<times> pinned_filter) list" where
  "filter_changes u5 account fresh active st =
     (let started = foldl (\<lambda>changes i.
            (case map_of (ps_filters st) i of
               None \<Rightarrow> amap_emplace i
                 \<lparr>fi_incarnation = stable_id u5 account (latin ''incarnation:'' @ decimal_int i), fi_deleted = False\<rparr> changes
             | Some f \<Rightarrow>
                 if fi_deleted f then amap_emplace i \<lparr>fi_incarnation = fresh i, fi_deleted = False\<rparr> changes
                 else changes)) [] active in
      foldl (\<lambda>changes (i, f).
        if \<not> fi_deleted f \<and> i \<notin> set active
        then amap_emplace i \<lparr>fi_incarnation = fi_incarnation f, fi_deleted = True\<rparr> changes
        else changes) started (ps_filters st))"

definition sync_filters ::
  "uuid5 \<Rightarrow> local_account \<Rightarrow> (int \<Rightarrow> qstring) \<Rightarrow> bool \<Rightarrow> int list \<Rightarrow> pinned_state \<Rightarrow> qstring + pin_command option" where
  "sync_filters u5 account fresh loaded ids st =
     (let active = asc_remove 0 (asc_merge [] ids) in
      if \<not> list_all (\<lambda>i. i > 0) active then Inl (latin ''Invalid folder identity.'')
      else if \<not> loaded then Inl (latin ''Local pinned items are still loading.'')
      else
        let changes = filter_changes u5 account fresh active st in
        if changes = [] then Inr None else Inr (Some (SyncFilters changes)))"

section \<open>The change of the records\<close>

definition starts_filter :: "qstring \<Rightarrow> bool" where
  "starts_filter scope \<longleftrightarrow> take 7 scope = latin ''filter:''"

definition set_pinned_change ::
  "uuid5 \<Rightarrow> local_account \<Rightarrow> qstring \<Rightarrow> peer_id \<Rightarrow> bool \<Rightarrow> peer_id list \<Rightarrow> json_object \<Rightarrow> qstring + json_object" where
  "set_pinned_change u5 account scope peer pinned visible m =
     (if \<not> active_scope u5 account m scope then Inl (latin ''This folder is no longer available.'')
      else
        let records = update_pin u5 account scope peer pinned (module_records m) in
        if pinned then
          (case update_order u5 account scope visible records of
             Inl e \<Rightarrow> Inl e
           | Inr ordered \<Rightarrow> Inr (jput ''records'' (JsArr ordered) m))
        else Inr (jput ''records'' (JsArr (prune_order_peer u5 account scope peer records)) m))"

definition save_order_change ::
  "uuid5 \<Rightarrow> local_account \<Rightarrow> qstring \<Rightarrow> peer_id list \<Rightarrow> json_object \<Rightarrow> qstring + json_object" where
  "save_order_change u5 account scope visible m =
     (if \<not> active_scope u5 account m scope then Inl (latin ''This folder is no longer available.'')
      else (case update_order u5 account scope visible (module_records m) of
          Inl e \<Rightarrow> Inl e
        | Inr ordered \<Rightarrow> Inr (jput ''records'' (JsArr ordered) m)))"

definition removal_scope :: "json_object \<Rightarrow> qstring option" where
  "removal_scope r =
     (if record_kind r = latin ''filter''
      then Some (latin ''filter:'' @ to_str (jfield r ''filter_id'') @ colon # to_str (jfield r ''scope_id''))
      else if record_kind r \<in> {latin ''pin'', latin ''order''} \<and> starts_filter (to_str (jfield r ''scope''))
      then Some (to_str (jfield r ''scope''))
      else None)"

definition record_scopes :: "json list \<Rightarrow> qstring list" where
  "record_scopes records =
     foldl (\<lambda>scopes v. case removal_scope (obj v) of Some s \<Rightarrow> asc_insert s scopes | None \<Rightarrow> scopes)
       (asc_merge [] [latin ''main'', latin ''archive'']) records"

definition remove_peer_change ::
  "uuid5 \<Rightarrow> local_account \<Rightarrow> peer_id \<Rightarrow> json_object \<Rightarrow> qstring + json_object" where
  "remove_peer_change u5 account peer m =
     Inr (jput ''records'' (JsArr
       (foldl (\<lambda>records scope. prune_order_peer u5 account scope peer (update_pin u5 account scope peer False records))
         (module_records m) (record_scopes (module_records m)))) m)"

definition put_filter :: "uuid5 \<Rightarrow> local_account \<Rightarrow> int \<Rightarrow> pinned_filter \<Rightarrow> json list \<Rightarrow> json list" where
  "put_filter u5 account i f records =
     (let key = decimal_int i;
          record_id = filter_record_id u5 account key;
          index = find_record records record_id in
      put_record records index
        (jput ''deleted'' (JsBool (fi_deleted f))
        (jput ''scope_id'' (JsStr (fi_incarnation f))
        (jput ''filter_id'' (JsStr key)
        (jput ''kind'' (JsStr (latin ''filter''))
        (jput ''id'' (JsStr record_id) (record_at records index)))))))"

definition sync_filters_change ::
  "uuid5 \<Rightarrow> local_account \<Rightarrow> (int \<times> pinned_filter) list \<Rightarrow> json_object \<Rightarrow> qstring + json_object" where
  "sync_filters_change u5 account changes m =
     Inr (jput ''records'' (JsArr
       (foldl (\<lambda>records (i, f). put_filter u5 account i f records) (module_records m) changes)) m)"

fun pin_change :: "uuid5 \<Rightarrow> local_account \<Rightarrow> pin_command \<Rightarrow> json_object \<Rightarrow> qstring + json_object" where
  "pin_change u5 account (SetPinned scope peer pinned visible) m = set_pinned_change u5 account scope peer pinned visible m"
| "pin_change u5 account (SaveOrder scope visible) m = save_order_change u5 account scope visible m"
| "pin_change u5 account (RemovePeer peer) m = remove_peer_change u5 account peer m"
| "pin_change u5 account (SyncFilters changes) m = sync_filters_change u5 account changes m"

section \<open>The change of the state\<close>

definition set_pinned_state :: "qstring \<Rightarrow> peer_id \<Rightarrow> bool \<Rightarrow> peer_id list \<Rightarrow> pinned_state \<Rightarrow> pinned_state" where
  "set_pinned_state scope peer pinned visible st =
     (let st1 = set_pin scope peer pinned st; order = sc_order (scope_of scope st1) in
      set_order scope (if pinned then merge_order visible order else filter (\<lambda>p. p \<noteq> peer) order) st1)"

definition save_order_state :: "qstring \<Rightarrow> peer_id list \<Rightarrow> pinned_state \<Rightarrow> pinned_state" where
  "save_order_state scope visible st = set_order scope (merge_order visible (sc_order (scope_of scope st))) st"

definition visible_scopes :: "pinned_state \<Rightarrow> qstring list" where
  "visible_scopes st =
     foldl (\<lambda>scopes (i, f). asc_insert (scope_text i (fi_incarnation f)) scopes)
       (foldl (\<lambda>scopes s. if starts_filter s then asc_insert s scopes else scopes)
         (asc_merge [] [latin ''main'', latin ''archive'']) (state_scopes st))
       (ps_filters st)"

definition remove_peer_state :: "peer_id \<Rightarrow> pinned_state \<Rightarrow> pinned_state" where
  "remove_peer_state peer st = foldl (\<lambda>st scope. set_pinned_state scope peer False [] st) st (visible_scopes st)"

definition sync_filters_state :: "(int \<times> pinned_filter) list \<Rightarrow> pinned_state \<Rightarrow> pinned_state" where
  "sync_filters_state changes st = foldl (\<lambda>st (i, f). set_filter i f st) st changes"

fun pin_optimistic :: "pin_command \<Rightarrow> pinned_state \<Rightarrow> pinned_state" where
  "pin_optimistic (SetPinned scope peer pinned visible) st = set_pinned_state scope peer pinned visible st"
| "pin_optimistic (SaveOrder scope visible) st = save_order_state scope visible st"
| "pin_optimistic (RemovePeer peer) st = remove_peer_state peer st"
| "pin_optimistic (SyncFilters changes) st = sync_filters_state changes st"

section \<open>Replacing a record\<close>

text \<open>What the lemmas use of a valid list of records, beside which no order is marked as deleted: the code never
  writes such a record, and reading it would hide the order the next change starts from.\<close>

definition records_ok :: "uuid5 \<Rightarrow> local_account \<Rightarrow> json list \<Rightarrow> bool" where
  "records_ok u5 account records \<longleftrightarrow> distinct (map (\<lambda>v. record_id (obj v)) records)
     \<and> (\<forall>v\<in>set records. valid_record u5 account (obj v) \<and> \<not> deleted_order (obj v))"

definition record_keys :: "json list \<Rightarrow> qstring set" where
  "record_keys records = {k. \<exists>v\<in>set records. record_key (obj v) = Some k}"

text \<open>No two of the keys hash to one identity, and no record of another kind has the identity of one.\<close>

definition no_clash :: "uuid5 \<Rightarrow> local_account \<Rightarrow> qstring set \<Rightarrow> json list \<Rightarrow> bool" where
  "no_clash u5 account keys records \<longleftrightarrow> inj_on (stable_id u5 account) (keys \<union> record_keys records)
     \<and> (\<forall>v\<in>set records. record_key (obj v) = None \<longrightarrow> record_id (obj v) \<notin> stable_id u5 account ` keys)"

lemma find_record_Some:
  "find_record records i = Some k \<Longrightarrow> k < length records \<and> record_id (obj (records ! k)) = i"
  by (induction records arbitrary: k) (auto simp: record_id_def split: if_splits)

lemma find_record_None: "find_record records i = None \<Longrightarrow> v \<in> set records \<Longrightarrow> record_id (obj v) \<noteq> i"
  by (induction records) (auto simp: record_id_def split: if_splits)

lemma found_key:
  assumes ok: "records_ok u5 account records" and clash: "no_clash u5 account keys records" and key: "key \<in> keys"
    and found: "find_record records (stable_id u5 account key) = Some k"
  shows "record_key (obj (records ! k)) = Some key"
proof -
  note k = find_record_Some [OF found]
  then have mem: "records ! k \<in> set records" by simp
  show ?thesis
  proof (cases "record_key (obj (records ! k))")
    case None
    then show ?thesis using clash k key mem unfolding no_clash_def by blast
  next
    case (Some other)
    have "valid_record u5 account (obj (records ! k))" using ok mem by (simp add: records_ok_def)
    then have "stable_id u5 account other = stable_id u5 account key"
      using valid_record_id [OF _ Some] k by simp
    moreover have "other \<in> record_keys records" using Some mem by (auto simp: record_keys_def)
    ultimately show ?thesis using Some clash key unfolding no_clash_def by (metis UnCI inj_onD)
  qed
qed

lemma record_key_slot: "record_key r = None \<longleftrightarrow> record_slot r = NoSlot"
  by (simp add: record_key_def record_slot_def)

lemma update_split: "k < length xs \<Longrightarrow> xs[k := y] = take k xs @ y # drop (Suc k) xs"
  by (rule upd_conv_take_nth_drop)

lemma put_record_parse:
  assumes ok: "records_ok u5 account records" and clash: "no_clash u5 account keys records" and key: "key \<in> keys"
    and r: "valid_record u5 account r" "\<not> deleted_order r" "record_key r = Some key"
  defines "put \<equiv> put_record records (find_record records (stable_id u5 account key)) r"
  shows "foldl parse_record st put = parse_record (foldl parse_record st records) (JsObj r)"
    and "records_ok u5 account put" and "no_clash u5 account keys put"
proof -
  have id: "record_id r = stable_id u5 account key" by (rule valid_record_id [OF r(1,3)])
  have valid: "valid_record u5 account (obj v)" "\<not> deleted_order (obj v)" if "v \<in> set records" for v
    using ok that by (simp_all add: records_ok_def)
  have slot: "record_slot (obj v) = record_slot r \<longleftrightarrow> record_key (obj v) = Some key" if "v \<in> set records" for v
    using record_slot_key [OF valid(1) [OF that] r(1)] r(3) by simp
  have same_id: "record_id (obj v) = stable_id u5 account key" if "v \<in> set records" "record_key (obj v) = Some key" for v
    using valid_record_id [OF valid(1) [OF that(1)] that(2)] .
  have main: "foldl parse_record st put = parse_record (foldl parse_record st records) (JsObj r) \<and>
      records_ok u5 account put \<and> set put \<subseteq> insert (JsObj r) (set records)"
  proof (cases "find_record records (stable_id u5 account key)")
    case None
    then have "put = records @ [JsObj r]" by (simp add: put_def put_record_def)
    moreover have "\<forall>v\<in>set records. record_id (obj v) \<noteq> record_id r" using find_record_None [OF None] id by simp
    ultimately show ?thesis using ok r(1,2) by (auto simp: records_ok_def)
  next
    case (Some k)
    note k = find_record_Some [OF Some]
    define xs ys where "xs = take k records" and "ys = drop (Suc k) records"
    have split: "records = xs @ records ! k # ys" using k by (simp add: xs_def ys_def id_take_nth_drop)
    have put: "put = xs @ JsObj r # ys" using Some k by (simp add: put_def put_record_def xs_def ys_def update_split)
    have ids: "distinct (map (\<lambda>v. record_id (obj v)) (xs @ records ! k # ys))" using ok split by (simp add: records_ok_def)
    have others: "record_slot (obj v) \<noteq> record_slot r" if "v \<in> set ys" for v
    proof
      assume s: "record_slot (obj v) = record_slot r"
      have v: "v \<in> set records" using that split by (metis Un_iff list.set_intros(2) set_append)
      then have "record_id (obj v) = record_id (obj (records ! k))" using same_id slot s k by simp
      then show False using ids that by (auto simp: image_iff)
    qed
    have mem: "records ! k \<in> set records" using k by simp
    have "record_slot (obj (records ! k)) = record_slot r"
      using slot [OF mem] found_key [OF ok clash key Some] by simp
    then have absorb: "parse_record (parse_record s (records ! k)) (JsObj r) = parse_record s (JsObj r)" for s
      by (intro parse_record_absorb) (simp_all add: r(2))
    have "parse_record (foldl parse_record st records) (JsObj r)
        = parse_record (foldl parse_record (parse_record (foldl parse_record st xs) (records ! k)) ys) (JsObj r)"
      by (subst split) simp
    also have "\<dots> = foldl parse_record (parse_record (parse_record (foldl parse_record st xs) (records ! k)) (JsObj r)) ys"
      by (rule parse_records_commute) (simp add: others)
    finally have parse: "parse_record (foldl parse_record st records) (JsObj r) = foldl parse_record st put"
      by (simp add: absorb put)
    have "records_ok u5 account put"
      using ids k id valid r(1,2) unfolding records_ok_def put by (auto simp: xs_def ys_def dest: in_set_takeD in_set_dropD)
    moreover have "set put \<subseteq> insert (JsObj r) (set records)"
      unfolding put xs_def ys_def by (auto dest: in_set_takeD in_set_dropD)
    ultimately show ?thesis using parse by simp
  qed
  then show "foldl parse_record st put = parse_record (foldl parse_record st records) (JsObj r)"
    and "records_ok u5 account put" by simp_all
  have "record_keys put \<subseteq> insert key (record_keys records)"
    using main r(3) unfolding record_keys_def by fastforce
  then have "keys \<union> record_keys put \<subseteq> keys \<union> record_keys records" using key by blast
  moreover have "record_id (obj v) \<notin> stable_id u5 account ` keys" if "v \<in> set put" "record_key (obj v) = None" for v
    using clash that main r(3) unfolding no_clash_def by (metis insert_iff option.distinct(1) subsetD to_obj.simps(1))
  ultimately show "no_clash u5 account keys put"
    using clash unfolding no_clash_def by (meson inj_on_subset)
qed

end
