(* ===== verification/PinnedProofs.thy ===== *)
theory PinnedProofs
  imports PinnedChanges
begin

text \<open>
  The two forms of each change of local pins agree, and the state is what the code shows: the lemmas of the
  single updates of records, the theorem for the four commands, and the order in which a list of pins is shown.
\<close>

section \<open>Orders\<close>

definition scope_order :: "qstring \<Rightarrow> pinned_state \<Rightarrow> peer_id list" where
  "scope_order scope st = sc_order (scope_of scope st)"

lemma merge_order_props:
  "distinct (merge_order xs ys)" "set (merge_order xs ys) = set xs \<union> set ys"
proof -
  have "distinct (foldl (\<lambda>result p. if p \<in> set result then result else result @ [p]) acc zs)
      \<and> set (foldl (\<lambda>result p. if p \<in> set result then result else result @ [p]) acc zs) = set acc \<union> set zs"
    if "distinct acc" for acc zs :: "peer_id list"
    using that by (induction zs arbitrary: acc) auto
  then show "distinct (merge_order xs ys)" "set (merge_order xs ys) = set xs \<union> set ys"
    by (simp_all add: merge_order_def)
qed

lemma distinct_keys_iff:
  "distinct_keys seen ps \<longleftrightarrow> (\<forall>p\<in>set ps. peer_key (obj p) \<noteq> [] \<and> peer_key (obj p) \<notin> set seen)
     \<and> distinct (map (\<lambda>p. peer_key (obj p)) ps)"
  by (induction ps arbitrary: seen) (auto simp: Let_def image_iff)

lemma write_order_peers:
  assumes "list_all valid_peer order"
  shows "map (\<lambda>v. read_peer (obj v)) (write_order order previous) = order"
    and "map (\<lambda>v. peer_key (obj v)) (write_order order previous) = map peer_text order"
  using assms by (induction order) (simp_all add: write_order_def Let_def read_write_peer write_peer_key)

lemma read_write_order:
  assumes "list_all valid_peer order"
  shows "read_order (write_order order previous) = order"
  using assms unfolding read_order_def write_order_peers(1) [OF assms]
  by (simp add: list_all_iff valid_peer_ne_0 filter_id_conv)

lemma write_order_keys:
  assumes "list_all valid_peer order" and "distinct order"
  shows "distinct_keys [] (write_order order previous)"
proof -
  have "peer_text p \<noteq> []" for p by (simp add: peer_text_def)
  moreover have "inj_on peer_text (set order)"
    using assms(1) peer_text_inj unfolding inj_on_def list_all_iff by blast
  ultimately show ?thesis
    using assms(2) unfolding distinct_keys_iff
    by (metis write_order_peers(2) [OF assms(1)] distinct_map empty_iff image_iff list.set(1) list.set_map)
qed

lemma read_valid_order:
  assumes "distinct_keys [] ps"
  shows "list_all valid_peer (read_order ps)"
    and "read_order (filter (\<lambda>v. read_peer (obj v) \<noteq> peer) ps) = filter (\<lambda>p. p \<noteq> peer) (read_order ps)"
    and "distinct_keys [] (filter (\<lambda>v. read_peer (obj v) \<noteq> peer) ps)"
proof -
  show "list_all valid_peer (read_order ps)"
    using assms read_valid_peer(1) by (auto simp: read_order_def distinct_keys_iff list_all_iff)
  show "read_order (filter (\<lambda>v. read_peer (obj v) \<noteq> peer) ps) = filter (\<lambda>p. p \<noteq> peer) (read_order ps)"
    by (simp add: read_order_def filter_map comp_def conj_commute)
  show "distinct_keys [] (filter (\<lambda>v. read_peer (obj v) \<noteq> peer) ps)"
    using assms by (auto simp: distinct_keys_iff distinct_map_filter)
qed

section \<open>The updates of records\<close>

definition parse_records :: "json list \<Rightarrow> pinned_state" where
  "parse_records records = foldl parse_record empty_pinned_state records"

text \<open>The records, and the keys in use, are as the theorem assumes.\<close>

definition sound :: "uuid5 \<Rightarrow> local_account \<Rightarrow> qstring set \<Rightarrow> json list \<Rightarrow> bool" where
  "sound u5 account keys records \<longleftrightarrow> records_ok u5 account records \<and> no_clash u5 account keys records"

lemma put_sound:
  assumes "sound u5 account keys records" and "key \<in> keys"
    and "valid_record u5 account r" "\<not> deleted_order r" "record_key r = Some key"
  shows "parse_records (put_record records (find_record records (stable_id u5 account key)) r)
      = parse_record (parse_records records) (JsObj r)"
    and "sound u5 account keys (put_record records (find_record records (stable_id u5 account key)) r)"
  using put_record_parse [of u5 account records keys key r] assms by (simp_all add: sound_def parse_records_def)

lemma sound_at:
  assumes "sound u5 account keys records" and "key \<in> keys" and "find_record records (stable_id u5 account key) = Some k"
  shows "k < length records" "valid_record u5 account (obj (records ! k))" "\<not> deleted_order (obj (records ! k))"
    "record_key (obj (records ! k)) = Some key" "records[k := JsObj (obj (records ! k))] = records"
    "parse_records records = parse_record (parse_records records) (records ! k)"
proof -
  have ok: "records_ok u5 account records" "no_clash u5 account keys records" using assms(1) by (simp_all add: sound_def)
  show k: "k < length records" using find_record_Some [OF assms(3)] by simp
  show valid: "valid_record u5 account (obj (records ! k))" "\<not> deleted_order (obj (records ! k))"
    using ok(1) k by (simp_all add: records_ok_def)
  show key: "record_key (obj (records ! k)) = Some key" by (rule found_key [OF ok assms(2,3)])
  then have "obj (records ! k) \<noteq> []" by (auto simp: record_key_def record_kind_def)
  then have same: "JsObj (obj (records ! k)) = records ! k" by (cases "records ! k") auto
  then show "records[k := JsObj (obj (records ! k))] = records" using k by simp
  then show "parse_records records = parse_record (parse_records records) (records ! k)"
    using put_sound(1) [OF assms(1,2) valid key] by (simp add: assms(3) put_record_def same)
qed

lemma update_pin_form:
  "\<exists>r data. update_pin u5 account scope peer pinned records
      = put_record records (find_record records (pin_id u5 account scope (write_peer peer []))) r
    \<and> record_kind r = latin ''pin'' \<and> jfield r ''scope'' = Some (JsStr scope)
    \<and> jfield r ''id'' = Some (JsStr (pin_id u5 account scope (write_peer peer [])))
    \<and> jfield r ''peer'' = Some (JsObj (write_peer peer data)) \<and> jfield r ''deleted'' = Some (JsBool (\<not> pinned))"
proof -
  define i index where "i = pin_id u5 account scope (write_peer peer [])" and "index = find_record records i"
  define r where "r = jput ''scope'' (JsStr scope) (jput ''kind'' (JsStr (latin ''pin'')) (jput ''id'' (JsStr i)
    (record_at records index)))"
  define data where "data = to_obj (jfield r ''peer'')"
  define retained where "retained = to_arr (jfield r ''retained_order_peers'')"
  define q where "q = (case order_object u5 account scope peer records of
       None \<Rightarrow> (r, data)
     | Some ob \<Rightarrow>
         (if \<not> pinned \<and> length ob > 2 then
            jput ''retained_order_peers''
               (JsArr (if JsObj ob \<in> set retained then retained else retained @ [JsObj ob])) r
          else r, fill_object ob data))"
  have fields: "jfield (fst q) x = jfield r x" if "x \<noteq> ''retained_order_peers''" for x
    using that by (cases "order_object u5 account scope peer records") (simp_all add: q_def)
  have form: "update_pin u5 account scope peer pinned records = put_record records index
      (jput ''deleted'' (JsBool (\<not> pinned)) (jput ''peer'' (JsObj (write_peer peer (snd q))) (fst q)))"
    unfolding update_pin_def Let_def i_def [symmetric] index_def [symmetric] r_def [symmetric] data_def [symmetric]
      retained_def [symmetric] q_def [symmetric]
    by (simp add: case_prod_beta)
  show ?thesis
    by (rule exI, rule exI, rule conjI, rule form [unfolded index_def i_def])
      (simp add: record_kind_def fields r_def i_def)
qed

lemma update_pin_sound:
  assumes sound: "sound u5 account keys records" and key: "pin_key scope (peer_text peer) \<in> keys"
    and valid: "valid_scope scope" "valid_peer peer"
  shows "parse_records (update_pin u5 account scope peer pinned records) = set_pin scope peer pinned (parse_records records)"
    and "sound u5 account keys (update_pin u5 account scope peer pinned records)"
proof -
  obtain r data where put: "update_pin u5 account scope peer pinned records
        = put_record records (find_record records (pin_id u5 account scope (write_peer peer []))) r"
      and r: "record_kind r = latin ''pin''" "jfield r ''scope'' = Some (JsStr scope)"
        "jfield r ''id'' = Some (JsStr (pin_id u5 account scope (write_peer peer [])))"
        "jfield r ''peer'' = Some (JsObj (write_peer peer data))" "jfield r ''deleted'' = Some (JsBool (\<not> pinned))"
    using update_pin_form [of u5 account scope peer pinned records] by blast
  have id: "pin_id u5 account scope (write_peer peer ob) = stable_id u5 account (pin_key scope (peer_text peer))" for ob
    by (simp add: pin_id_def write_peer_key valid)
  have nonempty: "peer_text peer \<noteq> []" by (simp add: peer_text_def)
  have "valid_record u5 account r"
    using valid nonempty r by (simp add: valid_record_def valid_pin_def id write_peer_key)
  moreover have "record_key r = Some (pin_key scope (peer_text peer))"
    using r by (simp add: record_key_def write_peer_key valid)
  moreover have "\<not> deleted_order r" using r by (simp add: deleted_order_def)
  moreover have "parse_record st (JsObj r) = set_pin scope peer pinned st" for st
    using r by (simp add: parse_record_def read_write_peer valid)
  ultimately show "parse_records (update_pin u5 account scope peer pinned records) = set_pin scope peer pinned (parse_records records)"
    and "sound u5 account keys (update_pin u5 account scope peer pinned records)"
    using put_sound [OF sound key] unfolding put id by simp_all
qed

text \<open>The order the state has for a scope is that of its record.\<close>

lemma parse_records_other_order:
  assumes "\<And>v. v \<in> set records \<Longrightarrow> record_slot (obj v) \<noteq> OrderSlot scope"
  shows "scope_order scope (foldl parse_record st records) = scope_order scope st"
  using assms
proof (induction records arbitrary: st)
  case (Cons v vs)
  have "scope_order scope (parse_record st v) = scope_order scope st"
    using Cons.prems [of v] unfolding parse_record_slot
    by (cases "record_slot (obj v)")
      (auto simp: scope_order_def set_pin_def set_order_def set_filter_def Let_def scope_of_def)
  then show ?case using Cons by simp
qed simp

lemma parsed_order:
  assumes sound: "sound u5 account keys records" and key: "order_key scope \<in> keys"
  defines "peers \<equiv> to_arr (jfield (record_at records (find_record records (order_id u5 account scope))) ''peers'')"
  shows "scope_order scope (parse_records records) = read_order peers" and "distinct_keys [] peers"
    and "length peers \<le> maximum_order"
proof -
  have "scope_order scope (parse_records records) = read_order peers \<and> distinct_keys [] peers \<and> length peers \<le> maximum_order"
  proof (cases "find_record records (order_id u5 account scope)")
    case None
    have "record_slot (obj v) \<noteq> OrderSlot scope" if v: "v \<in> set records" for v
    proof
      assume slot: "record_slot (obj v) = OrderSlot scope"
      then have "record_key (obj v) = Some (order_key scope)"
        by (auto simp: record_slot_def record_key_def split: if_splits)
      then have "record_id (obj v) = order_id u5 account scope"
        using valid_record_id sound v by (fastforce simp: sound_def records_ok_def order_id_def)
      then show False using find_record_None [OF None v] by simp
    qed
    then have "scope_order scope (parse_records records) = []"
      unfolding parse_records_def using parse_records_other_order
      by (simp add: scope_order_def empty_pinned_state_def scope_of_def)
    then show ?thesis using None by (simp add: peers_def record_at_def read_order_def)
  next
    case (Some k)
    note at = sound_at [OF sound key Some [unfolded order_id_def]]
    have peers: "peers = to_arr (jfield (obj (records ! k)) ''peers'')" by (simp add: peers_def Some record_at_def)
    have kind: "record_kind (obj (records ! k)) = latin ''order''" "to_str (jfield (obj (records ! k)) ''scope'') = scope"
      using at(4) by (auto simp: record_key_def order_key_def pin_key_def filter_key_def latin_def split: if_splits)
    have "valid_order u5 account (obj (records ! k))" using at(2) kind by (simp add: valid_record_def)
    then have valid: "distinct_keys [] peers" "length peers \<le> maximum_order"
      by (simp_all add: valid_order_def Let_def peers)
    have "parse_record st (records ! k) = set_order scope (read_order peers) st" for st
      using at(3) kind by (simp add: parse_record_def deleted_order_def peers Let_def)
    then have "parse_records records = set_order scope (read_order peers) (parse_records records)" using at(6) by simp
    then have "scope_order scope (parse_records records) = read_order peers"
      by (metis scope_order_def set_order_def scope_of_put pinned_scope.select_convs(2) pinned_scope.surjective
          pinned_scope.update_convs(2))
    then show ?thesis using valid by simp
  qed
  then show "scope_order scope (parse_records records) = read_order peers" and "distinct_keys [] peers"
    and "length peers \<le> maximum_order" by simp_all
qed

lemma update_order_sound:
  assumes sound: "sound u5 account keys records" and key: "order_key scope \<in> keys"
    and valid: "valid_scope scope" "list_all valid_peer visible"
    and updated: "update_order u5 account scope visible records = Inr ordered"
  shows "parse_records ordered
      = set_order scope (merge_order visible (scope_order scope (parse_records records))) (parse_records records)"
    and "sound u5 account keys ordered"
proof -
  define index previous where "index = find_record records (order_id u5 account scope)"
    and "previous = to_arr (jfield (record_at records index) ''peers'')"
  define order where "order = merge_order visible (read_order previous)"
  note parsed = parsed_order [OF sound key, folded index_def, folded previous_def]
  define r where "r = jput ''peers'' (JsArr (write_order order previous))
        (jput ''deleted'' (JsBool False)
        (jput ''scope'' (JsStr scope)
        (jput ''kind'' (JsStr (latin ''order''))
        (jput ''id'' (JsStr (order_id u5 account scope)) (record_at records index)))))"
  have "length order \<le> maximum_order \<and> ordered = put_record records index r"
    using updated unfolding update_order_def Let_def index_def [symmetric] previous_def [symmetric]
      order_def [symmetric] r_def [symmetric] by (simp split: if_splits)
  then have put: "length order \<le> maximum_order" "ordered = put_record records index r" by simp_all
  have peers: "list_all valid_peer order" "distinct order"
    using valid(2) read_valid_order(1) [OF parsed(2)] merge_order_props [of visible "read_order previous"]
    by (auto simp: order_def list_all_iff)
  have "length (write_order order previous) = length order" by (simp add: write_order_def Let_def)
  then have "valid_record u5 account r"
    using valid(1) put(1) write_order_keys [OF peers]
    by (simp add: valid_record_def valid_order_def r_def record_kind_def)
  moreover have "record_key r = Some (order_key scope)" "\<not> deleted_order r"
    by (simp_all add: record_key_def r_def record_kind_def deleted_order_def)
  moreover have "parse_record st (JsObj r) = set_order scope order st" for st
    by (simp add: parse_record_def r_def record_kind_def read_write_order [OF peers(1)])
  ultimately show "parse_records ordered
      = set_order scope (merge_order visible (scope_order scope (parse_records records))) (parse_records records)"
    and "sound u5 account keys ordered"
    using put_sound [OF sound key] parsed(1) put(2) by (simp_all add: index_def order_id_def order_def)
qed

lemma prune_sound:
  assumes sound: "sound u5 account keys records" and key: "order_key scope \<in> keys"
  shows "sound u5 account keys (prune_order_peer u5 account scope peer records)"
    and "parse_records (prune_order_peer u5 account scope peer records) = parse_records records
        \<and> scope_order scope (parse_records records) = []
      \<or> parse_records (prune_order_peer u5 account scope peer records)
        = set_order scope (filter (\<lambda>p. p \<noteq> peer) (scope_order scope (parse_records records))) (parse_records records)"
proof -
  note parsed = parsed_order [OF sound key]
  have "sound u5 account keys (prune_order_peer u5 account scope peer records)
    \<and> (parse_records (prune_order_peer u5 account scope peer records) = parse_records records
        \<and> scope_order scope (parse_records records) = []
      \<or> parse_records (prune_order_peer u5 account scope peer records)
        = set_order scope (filter (\<lambda>p. p \<noteq> peer) (scope_order scope (parse_records records))) (parse_records records))"
  proof (cases "find_record records (order_id u5 account scope)")
    case None
    then show ?thesis using sound parsed(1) by (simp add: prune_order_peer_def record_at_def read_order_def)
  next
    case (Some k)
    note at = sound_at [OF sound key Some [unfolded order_id_def]]
    define peers where "peers = to_arr (jfield (obj (records ! k)) ''peers'')"
    define r where "r = jput ''peers'' (JsArr (filter (\<lambda>v. read_peer (obj v) \<noteq> peer) peers)) (obj (records ! k))"
    have put: "prune_order_peer u5 account scope peer records
        = put_record records (find_record records (stable_id u5 account (order_key scope))) r"
      using Some by (simp add: prune_order_peer_def put_record_def r_def peers_def Let_def order_id_def)
    have kind: "record_kind (obj (records ! k)) = latin ''order''" "to_str (jfield (obj (records ! k)) ''scope'') = scope"
      using at(4) by (auto simp: record_key_def order_key_def pin_key_def filter_key_def latin_def split: if_splits)
    have keys: "distinct_keys [] peers" "length peers \<le> maximum_order"
      using parsed(2,3) Some by (simp_all add: record_at_def peers_def)
    have short: "length (filter (\<lambda>v. read_peer (obj v) \<noteq> peer) peers) \<le> maximum_order"
      using keys(2) length_filter_le [of _ peers] by (meson order_trans)
    have "valid_record u5 account r"
      using at(2) kind read_valid_order(3) [OF keys(1)] short
      by (simp add: valid_record_def valid_order_def r_def record_kind_def Let_def)
    moreover have "record_key r = Some (order_key scope)" "\<not> deleted_order r"
      using kind at(3) by (simp_all add: record_key_def r_def record_kind_def deleted_order_def)
    moreover have "parse_record st (JsObj r) = set_order scope (filter (\<lambda>p. p \<noteq> peer) (read_order peers)) st" for st
      using kind at(3) read_valid_order(2) [OF keys(1)]
      by (simp add: parse_record_def r_def record_kind_def deleted_order_def)
    ultimately show ?thesis
      using put_sound [OF sound key] parsed(1) Some unfolding put by (simp add: record_at_def peers_def)
  qed
  then show "sound u5 account keys (prune_order_peer u5 account scope peer records)"
    and "parse_records (prune_order_peer u5 account scope peer records) = parse_records records
        \<and> scope_order scope (parse_records records) = []
      \<or> parse_records (prune_order_peer u5 account scope peer records)
        = set_order scope (filter (\<lambda>p. p \<noteq> peer) (scope_order scope (parse_records records))) (parse_records records)"
    by simp_all
qed

text \<open>Writing the order a scope has changes nothing, where the scope has an entry.\<close>

lemma set_same_order:
  assumes "asc_keys (ps_scopes st)" and "map_of (ps_scopes st) scope \<noteq> None"
  shows "set_order scope (scope_order scope st) st = st"
proof -
  obtain d where d: "map_of (ps_scopes st) scope = Some d" using assms(2) by blast
  then have "amap_put scope d (ps_scopes st) = ps_scopes st" by (rule amap_put_same [OF assms(1)])
  then show ?thesis using d by (simp add: set_order_def scope_order_def scope_of_def)
qed

lemma parse_record_sorted:
  "asc_keys (ps_scopes st) \<and> asc_keys (ps_filters st) \<Longrightarrow>
    asc_keys (ps_scopes (parse_record st v)) \<and> asc_keys (ps_filters (parse_record st v))"
  unfolding parse_record_slot
  by (cases "record_slot (obj v)") (auto simp: set_pin_def set_order_def set_filter_def Let_def asc_keys_put)

lemma parse_records_sorted: "asc_keys (ps_scopes (parse_records records)) \<and> asc_keys (ps_filters (parse_records records))"
proof -
  have "asc_keys (ps_scopes (foldl parse_record st records)) \<and> asc_keys (ps_filters (foldl parse_record st records))"
    if "asc_keys (ps_scopes st) \<and> asc_keys (ps_filters st)" for st
    using that by (induction records arbitrary: st) (simp_all add: parse_record_sorted)
  then show ?thesis by (simp add: parse_records_def empty_pinned_state_def)
qed

lemma unpin_sound:
  assumes sound: "sound u5 account keys records" and key: "pin_key scope (peer_text peer) \<in> keys" "order_key scope \<in> keys"
    and valid: "valid_scope scope" "valid_peer peer"
  defines "pruned \<equiv> prune_order_peer u5 account scope peer (update_pin u5 account scope peer False records)"
  shows "parse_records pruned = set_pinned_state scope peer False [] (parse_records records)"
    and "sound u5 account keys pruned"
proof -
  note pin = update_pin_sound [OF sound key(1) valid, where pinned = False]
  note prune = prune_sound [OF pin(2) key(2), of peer, folded pruned_def, unfolded pin(1)]
  show "sound u5 account keys pruned" by (rule prune(1))
  let ?st = "set_pin scope peer False (parse_records records)"
  have "asc_keys (ps_scopes ?st)" using parse_records_sorted by (simp add: set_pin_def Let_def asc_keys_put)
  moreover have "map_of (ps_scopes ?st) scope \<noteq> None" by (simp add: set_pin_def Let_def)
  ultimately have same: "set_order scope (scope_order scope ?st) ?st = ?st" by (rule set_same_order)
  from prune(2) show "parse_records pruned = set_pinned_state scope peer False [] (parse_records records)"
  proof (elim disjE conjE)
    assume "parse_records pruned = ?st" "scope_order scope ?st = []"
    then show ?thesis using same by (simp add: set_pinned_state_def scope_order_def Let_def)
  next
    assume "parse_records pruned = set_order scope (filter (\<lambda>p. p \<noteq> peer) (scope_order scope ?st)) ?st"
    then show ?thesis by (simp add: set_pinned_state_def scope_order_def Let_def)
  qed
qed

lemma put_filter_sound:
  assumes sound: "sound u5 account keys records" and key: "filter_key (decimal_int i) \<in> keys"
    and valid: "0 < i" "i \<le> 2147483647" "valid_uuid (fi_incarnation f)"
  shows "parse_records (put_filter u5 account i f records) = set_filter i f (parse_records records)"
    and "sound u5 account keys (put_filter u5 account i f records)"
proof -
  let ?id = "filter_record_id u5 account (decimal_int i)"
  define r where "r = jput ''deleted'' (JsBool (fi_deleted f))
        (jput ''scope_id'' (JsStr (fi_incarnation f))
        (jput ''filter_id'' (JsStr (decimal_int i))
        (jput ''kind'' (JsStr (latin ''filter''))
        (jput ''id'' (JsStr ?id) (record_at records (find_record records ?id))))))"
  have put: "put_filter u5 account i f records
      = put_record records (find_record records (stable_id u5 account (filter_key (decimal_int i)))) r"
    by (simp add: put_filter_def Let_def r_def filter_record_id_def)
  have i: "decimal_int i = decimal (nat i)" using valid(1) by (simp add: decimal_int_def)
  have "valid_filter_id (decimal_int i)"
    unfolding valid_filter_id_def using valid(1,2) by (subst canonical_decimal_iff) (auto simp: i)
  then have "valid_record u5 account r"
    using valid(3) by (simp add: valid_record_def valid_filter_def r_def record_kind_def)
  moreover have "record_key r = Some (filter_key (decimal_int i))" "\<not> deleted_order r"
    by (simp_all add: record_key_def r_def record_kind_def deleted_order_def)
  moreover have "parse_record st (JsObj r) = set_filter i f st" for st
    using string_to_int_decimal [of "nat i"] valid(1,2)
    by (cases f) (simp add: parse_record_def r_def record_kind_def i)
  ultimately show "parse_records (put_filter u5 account i f records) = set_filter i f (parse_records records)"
    and "sound u5 account keys (put_filter u5 account i f records)"
    using put_sound [OF sound key] unfolding put by simp_all
qed

section \<open>The scopes a peer is removed from\<close>

lemma slot_apart:
  assumes "records_ok u5 account records" and "v \<in> set records" and "w \<in> set records" and "v \<noteq> w"
  shows "record_slot (obj v) \<noteq> record_slot (obj w) \<or> record_slot (obj v) = NoSlot"
proof (rule ccontr)
  assume "\<not> ?thesis"
  then have slot: "record_slot (obj v) = record_slot (obj w)" "record_slot (obj v) \<noteq> NoSlot" by simp_all
  have valid: "valid_record u5 account (obj v)" "valid_record u5 account (obj w)"
    using assms(1-3) by (simp_all add: records_ok_def)
  obtain key where key: "record_key (obj v) = Some key" using slot(2) record_key_slot [of "obj v"] by auto
  then have "record_key (obj w) = Some key" using record_slot_key [OF valid] slot(1) by simp
  then have "record_id (obj v) = record_id (obj w)" using valid_record_id [OF valid(1) key] valid_record_id [OF valid(2)] by simp
  then show False using assms unfolding records_ok_def distinct_map inj_on_def by blast
qed

text \<open>Reading a record once more changes nothing: what it says is in the state.\<close>

lemma parse_again:
  assumes ok: "records_ok u5 account records" and v: "v \<in> set records"
  shows "parse_record (parse_records records) v = parse_records records"
proof -
  obtain xs ys where split: "records = xs @ v # ys" using split_list [OF v] by blast
  have distinct: "distinct records" using ok by (simp add: records_ok_def distinct_map)
  have "parse_record (parse_records records) v
      = foldl parse_record (parse_record (parse_record (foldl parse_record empty_pinned_state xs) v) v) ys"
    unfolding parse_records_def split foldl_append foldl.simps
  proof (rule parse_records_commute)
    fix w
    assume w: "w \<in> set ys"
    show "record_slot (obj w) \<noteq> record_slot (obj v) \<or> record_slot (obj w) = NoSlot"
      by (rule slot_apart [OF ok]) (use w v distinct split in auto)
  qed
  also have "parse_record (parse_record (foldl parse_record empty_pinned_state xs) v) v
      = parse_record (foldl parse_record empty_pinned_state xs) v"
    by (rule parse_record_absorb) (use ok v in \<open>simp_all add: records_ok_def\<close>)
  finally show ?thesis by (simp add: parse_records_def split)
qed

lemma parsed_scopes:
  assumes ok: "records_ok u5 account records"
  shows "map_of (ps_scopes (parse_records records)) s \<noteq> None \<longleftrightarrow>
    (\<exists>v\<in>set records. (\<exists>p. record_slot (obj v) = PinSlot s p) \<or> record_slot (obj v) = OrderSlot s)"
proof
  have "map_of (ps_scopes st) s \<noteq> None
      \<or> (\<exists>v\<in>set vs. (\<exists>p. record_slot (obj v) = PinSlot s p) \<or> record_slot (obj v) = OrderSlot s)"
    if "map_of (ps_scopes (foldl parse_record st vs)) s \<noteq> None" for st vs
    using that
  proof (induction vs arbitrary: st)
    case (Cons v vs)
    have "map_of (ps_scopes st) s \<noteq> None \<or> (\<exists>p. record_slot (obj v) = PinSlot s p) \<or> record_slot (obj v) = OrderSlot s"
      if "map_of (ps_scopes (parse_record st v)) s \<noteq> None"
      using that unfolding parse_record_slot
      by (cases "record_slot (obj v)") (auto simp: set_pin_def set_order_def set_filter_def Let_def split: if_splits)
    then show ?case using Cons by auto
  qed simp
  then show "map_of (ps_scopes (parse_records records)) s \<noteq> None \<Longrightarrow>
      \<exists>v\<in>set records. (\<exists>p. record_slot (obj v) = PinSlot s p) \<or> record_slot (obj v) = OrderSlot s"
    unfolding parse_records_def by (force simp: empty_pinned_state_def)
next
  assume "\<exists>v\<in>set records. (\<exists>p. record_slot (obj v) = PinSlot s p) \<or> record_slot (obj v) = OrderSlot s"
  then obtain v where v: "v \<in> set records" "(\<exists>p. record_slot (obj v) = PinSlot s p) \<or> record_slot (obj v) = OrderSlot s"
    by blast
  have "\<not> deleted_order (obj v)" using ok v(1) by (simp add: records_ok_def)
  then have "map_of (ps_scopes (parse_record st v)) s \<noteq> None" for st
    using v(2) unfolding parse_record_slot by (auto simp: set_pin_def set_order_def Let_def)
  then show "map_of (ps_scopes (parse_records records)) s \<noteq> None" using parse_again [OF ok v(1)] by metis
qed

definition record_filter :: "json_object \<Rightarrow> pinned_filter" where
  "record_filter r = \<lparr>fi_incarnation = to_str (jfield r ''scope_id''), fi_deleted = to_bool (jfield r ''deleted'')\<rparr>"

lemma parsed_filters:
  assumes ok: "records_ok u5 account records"
  shows "map_of (ps_filters (parse_records records)) i = Some f \<longleftrightarrow>
    (\<exists>v\<in>set records. record_slot (obj v) = FilterSlot i \<and> f = record_filter (obj v))"
proof
  have "map_of (ps_filters st) i = Some f
      \<or> (\<exists>v\<in>set vs. record_slot (obj v) = FilterSlot i \<and> f = record_filter (obj v))"
    if "map_of (ps_filters (foldl parse_record st vs)) i = Some f" for st vs
    using that
  proof (induction vs arbitrary: st)
    case (Cons v vs)
    have "map_of (ps_filters st) i = Some f \<or> record_slot (obj v) = FilterSlot i \<and> f = record_filter (obj v)"
      if "map_of (ps_filters (parse_record st v)) i = Some f"
      using that unfolding parse_record_slot
      by (cases "record_slot (obj v)")
        (auto simp: set_pin_def set_order_def set_filter_def record_filter_def Let_def split: if_splits)
    then show ?case using Cons by auto
  qed simp
  then show "map_of (ps_filters (parse_records records)) i = Some f \<Longrightarrow>
      \<exists>v\<in>set records. record_slot (obj v) = FilterSlot i \<and> f = record_filter (obj v)"
    unfolding parse_records_def by (force simp: empty_pinned_state_def)
next
  assume "\<exists>v\<in>set records. record_slot (obj v) = FilterSlot i \<and> f = record_filter (obj v)"
  then obtain v where v: "v \<in> set records" "record_slot (obj v) = FilterSlot i" "f = record_filter (obj v)" by blast
  have "map_of (ps_filters (parse_record st v)) i = Some f" for st
    using v(2,3) unfolding parse_record_slot by (simp add: set_filter_def record_filter_def)
  then show "map_of (ps_filters (parse_records records)) i = Some f" using parse_again [OF ok v(1)] by metis
qed

lemma removal_scope_slot:
  assumes "valid_record u5 account r"
  shows "removal_scope r = Some s \<longleftrightarrow>
     (\<exists>i. record_slot r = FilterSlot i \<and> s = scope_text i (fi_incarnation (record_filter r)))
     \<or> (starts_filter s \<and> ((\<exists>p. record_slot r = PinSlot s p) \<or> record_slot r = OrderSlot s))"
proof -
  have "scope_text (string_to_int (to_str (jfield r ''filter_id''))) (fi_incarnation (record_filter r))
      = latin ''filter:'' @ to_str (jfield r ''filter_id'') @ colon # to_str (jfield r ''scope_id'')"
    if "record_kind r = latin ''filter''"
  proof -
    have "valid_filter_id (to_str (jfield r ''filter_id''))"
      using assms that by (simp add: valid_record_def valid_filter_def Let_def)
    then obtain n where "to_str (jfield r ''filter_id'') = decimal n"
        "string_to_int (to_str (jfield r ''filter_id'')) = int n"
      by (rule valid_filter_text)
    then show ?thesis by (simp add: scope_text_def record_filter_def decimal_int_def)
  qed
  then show ?thesis unfolding removal_scope_def record_slot_def by auto
qed

lemma removal_scope_valid:
  assumes "valid_record u5 account r" and "removal_scope r = Some s"
  shows "valid_scope s"
proof -
  show ?thesis
  proof (cases "record_kind r = latin ''filter''")
    case True
    then have valid: "valid_filter_id (to_str (jfield r ''filter_id''))" "valid_uuid (to_str (jfield r ''scope_id''))"
      using assms(1) by (simp_all add: valid_record_def valid_filter_def Let_def)
    obtain n where n: "to_str (jfield r ''filter_id'') = decimal n" using valid(1) by (rule valid_filter_text)
    have s: "s = latin ''filter'' @ colon # decimal n @ colon # to_str (jfield r ''scope_id'')"
      using assms(2) True n by (simp add: removal_scope_def latin_def colon_def)
    have "colon \<notin> set (latin ''filter'')" by (simp add: latin_def colon_def)
    then have "split_char colon s = [latin ''filter'', decimal n, to_str (jfield r ''scope_id'')]"
      unfolding s by (simp add: split_char_cut split_char_one digits_no_colon decimal_digits valid_uuid_no_colon [OF valid(2)])
    then show ?thesis using valid n by (simp add: valid_scope_def)
  next
    case False
    then show ?thesis
      using assms by (auto simp: removal_scope_def valid_record_def valid_pin_def valid_order_def Let_def latin_eq_iff
          split: if_splits)
  qed
qed

lemma set_foldl_insert:
  "set (foldl (\<lambda>s v. case f v of Some x \<Rightarrow> asc_insert x s | None \<Rightarrow> s) s vs) = set s \<union> {x. \<exists>v\<in>set vs. f v = Some x}"
  by (induction vs arbitrary: s) (auto simp: set_asc_insert split: option.splits)

lemma strict_foldl_insert:
  "strict_asc s \<Longrightarrow> strict_asc (foldl (\<lambda>s v. case f v of Some x \<Rightarrow> asc_insert x s | None \<Rightarrow> s) s vs)"
  by (induction vs arbitrary: s) (auto intro: strict_asc_insert split: option.splits)

lemma visible_scopes_fold:
  "visible_scopes st =
     foldl (\<lambda>s v. case (case v of (i, f) \<Rightarrow> Some (scope_text i (fi_incarnation f))) of Some x \<Rightarrow> asc_insert x s | None \<Rightarrow> s)
      (foldl (\<lambda>s v. case if starts_filter v then Some v else None of Some x \<Rightarrow> asc_insert x s | None \<Rightarrow> s)
        (asc_merge [] [latin ''main'', latin ''archive'']) (state_scopes st)) (ps_filters st)"
proof -
  have 1: "(\<lambda>scopes s. if starts_filter s then asc_insert s scopes else scopes)
      = (\<lambda>s v. case if starts_filter v then Some v else None of Some x \<Rightarrow> asc_insert x s | None \<Rightarrow> s)"
    by (auto simp: fun_eq_iff)
  have 2: "(\<lambda>scopes (i, f). asc_insert (scope_text i (fi_incarnation f)) scopes)
      = (\<lambda>s v. case (case v of (i, f) \<Rightarrow> Some (scope_text i (fi_incarnation f))) of Some x \<Rightarrow> asc_insert x s | None \<Rightarrow> s)"
    by (auto simp: fun_eq_iff)
  show ?thesis unfolding visible_scopes_def 1 2 ..
qed

lemma record_scopes_visible:
  assumes ok: "records_ok u5 account records"
  shows "record_scopes records = visible_scopes (parse_records records)"
proof (rule strict_asc_unique)
  let ?base = "asc_merge [] [latin ''main'', latin ''archive'']"
  have base: "strict_asc ?base" by (rule strict_asc_merge) simp
  show "strict_asc (record_scopes records)" unfolding record_scopes_def by (rule strict_foldl_insert [OF base])
  show "strict_asc (visible_scopes (parse_records records))"
    unfolding visible_scopes_fold by (intro strict_foldl_insert base)
  have valid: "valid_record u5 account (obj v)" if "v \<in> set records" for v
    using ok that by (simp add: records_ok_def)
  have scopes: "s \<in> set (state_scopes (parse_records records)) \<longleftrightarrow> map_of (ps_scopes (parse_records records)) s \<noteq> None" for s
    by (auto simp: state_scopes_def map_of_eq_None_iff)
  have filters: "(i, f) \<in> set (ps_filters (parse_records records)) \<longleftrightarrow> map_of (ps_filters (parse_records records)) i = Some f" for i f
    by (rule map_of_eq_Some_iff [OF asc_keys_distinct, symmetric]) (simp add: parse_records_sorted)
  have "(\<exists>v\<in>set records. removal_scope (obj v) = Some s) \<longleftrightarrow>
      s \<in> set (state_scopes (parse_records records)) \<and> starts_filter s
      \<or> (\<exists>i f. (i, f) \<in> set (ps_filters (parse_records records)) \<and> s = scope_text i (fi_incarnation f))" for s
    unfolding scopes filters parsed_scopes [OF ok] parsed_filters [OF ok]
    using removal_scope_slot [OF valid] by blast
  then show "set (record_scopes records) = set (visible_scopes (parse_records records))"
    unfolding record_scopes_def visible_scopes_fold set_foldl_insert
    by (auto split: if_splits)
qed

lemma record_scopes_valid:
  assumes ok: "records_ok u5 account records" and s: "s \<in> set (record_scopes records)"
  shows "valid_scope s"
proof -
  have "s \<in> {latin ''main'', latin ''archive''} \<or> (\<exists>v\<in>set records. removal_scope (obj v) = Some s)"
    using s unfolding record_scopes_def set_foldl_insert by (auto simp: set_asc_merge)
  then show ?thesis
  proof
    assume "s \<in> {latin ''main'', latin ''archive''}"
    then show ?thesis unfolding valid_scope_def by blast
  next
    assume "\<exists>v\<in>set records. removal_scope (obj v) = Some s"
    then show ?thesis using ok removal_scope_valid by (auto simp: records_ok_def)
  qed
qed

end
