(* ===== verification/PinnedAgree.thy ===== *)
theory PinnedAgree
  imports PinnedProofs "HOL-Library.Code_Target_Nat"
begin

text \<open>
  The theorems on local pins: an accepted change leads to the state already shown, and the list of pins shown is
  the list of the server with the local decisions laid over it.
\<close>

section \<open>Commands\<close>

text \<open>What the requests guarantee of a command.\<close>

fun command_ok :: "pin_command \<Rightarrow> bool" where
  "command_ok (SetPinned scope peer pinned visible) \<longleftrightarrow> valid_scope scope \<and> valid_peer peer \<and> list_all valid_peer visible"
| "command_ok (SaveOrder scope visible) \<longleftrightarrow> valid_scope scope \<and> list_all valid_peer visible"
| "command_ok (RemovePeer peer) \<longleftrightarrow> valid_peer peer"
| "command_ok (SyncFilters changes) \<longleftrightarrow>
     list_all (\<lambda>(i, f). 0 < i \<and> i \<le> 2147483647 \<and> valid_uuid (fi_incarnation f)) changes"

text \<open>The keys whose identities a command looks for.\<close>

definition scope_keys :: "peer_id \<Rightarrow> qstring \<Rightarrow> qstring set" where
  "scope_keys peer scope = {pin_key scope (peer_text peer), order_key scope}"

fun command_keys :: "pin_command \<Rightarrow> json list \<Rightarrow> qstring set" where
  "command_keys (SetPinned scope peer pinned visible) records = scope_keys peer scope"
| "command_keys (SaveOrder scope visible) records = {order_key scope}"
| "command_keys (RemovePeer peer) records = (\<Union>scope\<in>set (record_scopes records). scope_keys peer scope)"
| "command_keys (SyncFilters changes) records = (\<lambda>c. filter_key (decimal_int (fst c))) ` set changes"

definition no_deleted_order :: "json_object \<Rightarrow> bool" where
  "no_deleted_order m \<longleftrightarrow> list_all (\<lambda>v. \<not> deleted_order (obj v)) (module_records m)"

lemma requests_ok:
  "set_pinned scope peer pinned visible = Inr c \<Longrightarrow> command_ok c"
  "save_order scope visible = Inr c \<Longrightarrow> command_ok c"
  "remove_peer peer = Inr c \<Longrightarrow> command_ok c"
  by (auto simp: set_pinned_def save_order_def remove_peer_def Let_def list_all_iff split: if_splits)

lemma valid_records_ok:
  assumes "valid_records u5 account ids counts records" and "list_all (\<lambda>v. \<not> deleted_order (obj v)) records"
  shows "records_ok u5 account records \<and> (\<forall>v\<in>set records. record_id (obj v) \<notin> set ids)"
  using assms
proof (induction records arbitrary: ids counts)
  case Nil
  show ?case by (simp add: records_ok_def)
next
  case (Cons v vs)
  then have v: "record_id (obj v) \<notin> set ids" "valid_record u5 account (obj v)" "\<not> deleted_order (obj v)"
    by (simp_all add: record_id_def Let_def)
  obtain counts' where rest: "valid_records u5 account (record_id (obj v) # ids) counts' vs"
    using Cons.prems(1) by (auto simp: record_id_def Let_def split: if_splits)
  have "records_ok u5 account vs \<and> (\<forall>w\<in>set vs. record_id (obj w) \<notin> set (record_id (obj v) # ids))"
    by (rule Cons.IH [OF rest]) (use Cons.prems(2) in simp)
  then show ?case using v by (auto simp: records_ok_def)
qed

lemma valid_module_sound:
  assumes "pinned_items_valid u5 account m" and "no_deleted_order m" and "no_clash u5 account keys (module_records m)"
  shows "sound u5 account keys (module_records m)"
  using assms valid_records_ok [of u5 account "[]" "[]" "module_records m"]
  by (simp add: sound_def pinned_items_valid_def module_records_def no_deleted_order_def)

lemma unpin_all_sound:
  assumes "sound u5 account keys records" and "valid_peer peer"
    and "\<And>s. s \<in> set scopes \<Longrightarrow> valid_scope s \<and> scope_keys peer s \<subseteq> keys"
  shows "parse_records (foldl (\<lambda>rs s. prune_order_peer u5 account s peer (update_pin u5 account s peer False rs)) records scopes)
    = foldl (\<lambda>st s. set_pinned_state s peer False [] st) (parse_records records) scopes"
  using assms(1,3)
proof (induction scopes arbitrary: records)
  case (Cons s scopes)
  have s: "valid_scope s" "pin_key s (peer_text peer) \<in> keys" "order_key s \<in> keys"
    using Cons.prems(2) [of s] by (auto simp: scope_keys_def)
  note step = unpin_sound [OF Cons.prems(1) s(2,3,1) assms(2)]
  show ?case using Cons.IH [OF step(2)] Cons.prems(2) by (simp add: step(1))
qed simp

lemma put_filters_sound:
  assumes "sound u5 account keys records" and "command_ok (SyncFilters changes)"
    and "command_keys (SyncFilters changes) [] \<subseteq> keys"
  shows "parse_records (foldl (\<lambda>rs (i, f). put_filter u5 account i f rs) records changes)
    = sync_filters_state changes (parse_records records)"
  using assms
proof (induction changes arbitrary: records)
  case (Cons c changes)
  obtain i f where c: "c = (i, f)" by (cases c)
  note step = put_filter_sound [OF Cons.prems(1), of i f]
  show ?case using Cons.IH [OF step(2)] Cons.prems(2,3) step(1) by (simp add: c sync_filters_state_def)
qed (simp add: sync_filters_state_def)

section \<open>The four changes\<close>

lemma accepted_change_parse:
  assumes "pinned_items_valid u5 account m" and "no_deleted_order m" and "command_ok c"
    and "no_clash u5 account (command_keys c (module_records m)) (module_records m)"
    and "pin_change u5 account c m = Inr m'"
  shows "parse_pinned_items m' = pin_optimistic c (parse_pinned_items m)"
proof -
  let ?rs = "module_records m"
  note sound = valid_module_sound [OF assms(1,2,4)]
  have parse: "parse_pinned_items x = parse_records (module_records x)" for x
    by (simp add: parse_pinned_items_def parse_records_def)
  have read: "module_records (jput ''records'' (JsArr rs) m) = rs" for rs by (simp add: module_records_def)
  show ?thesis
  proof (cases c)
    case (SetPinned scope peer pinned visible)
    have valid: "valid_scope scope" "valid_peer peer" "list_all valid_peer visible" using assms(3) SetPinned by simp_all
    have keys: "pin_key scope (peer_text peer) \<in> command_keys c ?rs" "order_key scope \<in> command_keys c ?rs"
      using SetPinned by (simp_all add: scope_keys_def)
    show ?thesis
    proof (cases pinned)
      case True
      note pin = update_pin_sound [OF sound keys(1) valid(1,2), where pinned = True]
      obtain ordered where ordered: "update_order u5 account scope visible (update_pin u5 account scope peer True ?rs) = Inr ordered"
          "m' = jput ''records'' (JsArr ordered) m"
        using assms(5) True by (auto simp: SetPinned set_pinned_change_def split: if_splits sum.splits)
      show ?thesis
        using update_order_sound(1) [OF pin(2) keys(2) valid(1,3) ordered(1)] pin(1) True
        by (simp add: SetPinned ordered(2) parse read set_pinned_state_def scope_order_def Let_def)
    next
      case False
      then have "m' = jput ''records'' (JsArr (prune_order_peer u5 account scope peer (update_pin u5 account scope peer False ?rs))) m"
        using assms(5) by (simp add: SetPinned set_pinned_change_def split: if_splits)
      then show ?thesis
        using unpin_sound(1) [OF sound keys valid(1,2)] False by (simp add: SetPinned parse read set_pinned_state_def Let_def)
    qed
  next
    case (SaveOrder scope visible)
    obtain ordered where ordered: "update_order u5 account scope visible ?rs = Inr ordered"
        "m' = jput ''records'' (JsArr ordered) m"
      using assms(5) by (auto simp: SaveOrder save_order_change_def split: if_splits sum.splits)
    show ?thesis
      using update_order_sound(1) [OF sound _ _ _ ordered(1)] assms(3)
      by (simp add: SaveOrder ordered(2) parse read save_order_state_def scope_order_def)
  next
    case (RemovePeer peer)
    have ok: "records_ok u5 account ?rs" using sound by (simp add: sound_def)
    have scopes: "valid_scope s \<and> scope_keys peer s \<subseteq> command_keys c ?rs" if "s \<in> set (record_scopes ?rs)" for s
      using that record_scopes_valid [OF ok that] by (auto simp: RemovePeer)
    have "m' = jput ''records'' (JsArr (foldl (\<lambda>rs s. prune_order_peer u5 account s peer (update_pin u5 account s peer False rs))
        ?rs (record_scopes ?rs))) m"
      using assms(5) by (simp add: RemovePeer remove_peer_change_def)
    then show ?thesis
      using unpin_all_sound [OF sound _ scopes] assms(3) record_scopes_visible [OF ok]
      by (simp add: RemovePeer parse read remove_peer_state_def)
  next
    case (SyncFilters changes)
    have "m' = jput ''records'' (JsArr (foldl (\<lambda>rs (i, f). put_filter u5 account i f rs) ?rs changes)) m"
      using assms(5) by (simp add: SyncFilters sync_filters_change_def)
    then show ?thesis
      using put_filters_sound [OF sound] assms(3) by (simp add: SyncFilters parse read)
  qed
qed

section \<open>Properties\<close>

text \<open>C1: local pins are changed twice, at once in the state on the screen and later in the stored
  records. Whenever the store accepts a change of valid records, what is read back from them is exactly the state
  already shown, for each of the four changes.\<close>

theorem pin_changes_agree:
  assumes "pinned_items_valid u5 account m" and "no_deleted_order m" and "command_ok c"
    and "no_clash u5 account (command_keys c (module_records m)) (module_records m)"
    and "pin_change u5 account c m = Inr m'"
  shows "parse_pinned_items m' = pin_optimistic c (parse_pinned_items m)"
  using assms by (rule accepted_change_parse)

text \<open>A list with two pins, one of which is taken off; a hash that tells the two keys apart.\<close>

lemma decimal_code [code]:
  "decimal n = (if int n < 10 then [0x30 + int n] else decimal (nat (int n div 10)) @ [0x30 + int n mod 10])"
  by (subst decimal.simps) (auto simp: nat_div_distrib zmod_int)

definition sample_u5 :: uuid5 where
  "sample_u5 space name =
     latin (if last (take (length name - 7) name) = 0x6E then ''00000000-0000-5000-8000-000000000001''
       else ''00000000-0000-5000-8000-000000000002'')"

definition sample_account :: local_account where
  "sample_account = \<lparr>la_environment = latin ''test'', la_user = latin ''7''\<rparr>"

definition sample_order :: json_object where
  "sample_order =
     [(latin ''deleted'', JsBool False),
      (latin ''id'', JsStr (latin ''00000000-0000-5000-8000-000000000002'')),
      (latin ''kind'', JsStr (latin ''order'')),
      (latin ''peers'', JsArr
        [JsObj [(latin ''peer_id'', JsStr (latin ''5'')), (latin ''peer_type'', JsStr (latin ''user''))],
         JsObj [(latin ''peer_id'', JsStr (latin ''6'')), (latin ''peer_type'', JsStr (latin ''chat''))]]),
      (latin ''scope'', JsStr (latin ''main''))]"

definition sample_pins :: json_object where
  "sample_pins =
     [(latin ''module_id'', JsStr (latin ''pinned_items'')), (latin ''records'', JsArr [JsObj sample_order]),
      (latin ''schema_version'', JsNum 1)]"

definition sample_removal :: pin_command where
  "sample_removal = SetPinned (latin ''main'') (peer_of chat_shift 6) False []"

definition sample_removed :: json_object where
  "sample_removed = (case pin_change sample_u5 sample_account sample_removal sample_pins of Inr m \<Rightarrow> m | Inl e \<Rightarrow> [])"

lemma sample_pins_valid: "pinned_items_valid sample_u5 sample_account sample_pins"
  by code_simp

lemma sample_pins_order: "no_deleted_order sample_pins"
  by code_simp

lemma sample_removal_ok: "command_ok sample_removal"
  by code_simp

lemma sample_main_active: "active_scope sample_u5 sample_account sample_pins (latin ''main'')"
  by code_simp

lemma sample_removal_runs: "pin_change sample_u5 sample_account sample_removal sample_pins = Inr sample_removed"
  using sample_main_active by (simp add: sample_removal_def sample_removed_def set_pinned_change_def)

lemma sample_pins_records: "module_records sample_pins = [JsObj sample_order]"
  by (simp add: sample_pins_def module_records_def jfield_def latin_eq_iff)

lemma sample_numbers: "to_ulonglong (latin ''5'') = Some 5" "to_ulonglong (latin ''6'') = Some 6"
  by code_simp+

lemma sample_peers_apart: "peer_of user_shift 5 \<noteq> 0" "peer_of chat_shift 6 \<noteq> 0" "peer_of user_shift 5 \<noteq> peer_of chat_shift 6"
  by code_simp+

lemma sample_parsed:
  "parse_pinned_items sample_pins = set_order (latin ''main'') [peer_of user_shift 5, peer_of chat_shift 6] empty_pinned_state"
  using sample_peers_apart
  by (simp add: parse_pinned_items_def sample_pins_records parse_record_def record_kind_def sample_order_def jfield_def
      latin_eq_iff read_order_def read_peer_def sample_numbers Let_def)

lemma sample_shown:
  "sc_order (scope_of (latin ''main'') (pin_optimistic sample_removal (parse_pinned_items sample_pins))) = [peer_of user_shift 5]"
  using sample_peers_apart
  by (simp add: sample_parsed sample_removal_def set_pinned_state_def set_order_def set_pin_def scope_of_def Let_def
      empty_pinned_state_def)

lemma sample_record_keys: "record_keys (module_records sample_pins) = {order_key (latin ''main'')}"
proof -
  have "record_key sample_order = Some (order_key (latin ''main''))" by code_simp
  then show ?thesis by (auto simp: record_keys_def sample_pins_records)
qed

lemma sample_no_clash:
  "no_clash sample_u5 sample_account (command_keys sample_removal (module_records sample_pins)) (module_records sample_pins)"
proof -
  have ids: "stable_id sample_u5 sample_account (pin_key (latin ''main'') (peer_text (peer_of chat_shift 6)))
      \<noteq> stable_id sample_u5 sample_account (order_key (latin ''main''))"
    by code_simp
  have key: "record_key sample_order = Some (order_key (latin ''main''))" by code_simp
  show ?thesis
    unfolding no_clash_def sample_record_keys using ids key
    by (auto simp: sample_removal_def scope_keys_def inj_on_def sample_pins_records)
qed

theorem pin_changes_agree_witness:
  "sc_order (scope_of (latin ''main'') (parse_pinned_items sample_removed)) = [peer_of user_shift 5]"
  using pin_changes_agree [OF sample_pins_valid sample_pins_order sample_removal_ok sample_no_clash sample_removal_runs]
    sample_shown
  by simp

end
