(* ===== verification/PinnedQueue.thy ===== *)
theory PinnedQueue
  imports PinnedAgree
begin

text \<open>
  The queue of changes of local pins (\<open>LocalPinnedItems\<close> in \<open>data/local_pinned_items.cpp\<close>). A request is shown at
  once and put in a queue; one change at a time goes to the store, on another thread, whose answer is brought back
  to the main thread. \<open>pq_flight\<close> holds the tasks the store has not answered yet, \<open>pq_log\<close> what the observers saw:
  the firing of \<open>_changes\<close> and the calls of the \<open>done\<close> callbacks, which have a number.

  An observer that makes a request while it is told of a change makes it after the operation under way. The answer
  of \<open>Store::mutate\<close> and of \<open>Store::snapshot\<close> are arguments: \<open>None\<close> for success, the module as it was read.
\<close>

section \<open>The state\<close>

datatype pin_task = LoadTask | CommitTask pin_command

datatype pin_event = PinsChanged | PinDone nat bool

record pin_queue =
  pq_committed :: pinned_state
  pq_state :: pinned_state
  pq_mutations :: "(pin_command \<times> nat option) list"
  pq_error :: qstring
  pq_loaded :: bool
  pq_busy :: bool
  pq_reload_pending :: bool
  pq_flight :: "pin_task list"
  pq_log :: "pin_event list"

definition initial_queue :: pin_queue where
  "initial_queue = \<lparr>pq_committed = empty_pinned_state, pq_state = empty_pinned_state, pq_mutations = [], pq_error = [],
     pq_loaded = False, pq_busy = False, pq_reload_pending = False, pq_flight = [], pq_log = []\<rparr>"

definition queue_busy :: "pin_queue \<Rightarrow> bool" where
  "queue_busy q \<longleftrightarrow> pq_busy q \<or> pq_mutations q \<noteq> []"

definition log_event :: "pin_event \<Rightarrow> pin_queue \<Rightarrow> pin_queue" where
  "log_event e q = q\<lparr>pq_log := pq_log q @ [e]\<rparr>"

definition call_done :: "nat option \<Rightarrow> bool \<Rightarrow> pin_queue \<Rightarrow> pin_queue" where
  "call_done d ok q = (case d of None \<Rightarrow> q | Some i \<Rightarrow> log_event (PinDone i ok) q)"

section \<open>The operations\<close>

definition optimistic_all :: "(pin_command \<times> nat option) list \<Rightarrow> pinned_state \<Rightarrow> pinned_state" where
  "optimistic_all mutations st = foldl (\<lambda>st (c, d). pin_optimistic c st) st mutations"

definition rebuild_visible :: "pin_queue \<Rightarrow> pin_queue" where
  "rebuild_visible q = q\<lparr>pq_state := optimistic_all (pq_mutations q) (pq_committed q)\<rparr>"

definition load_snapshot :: "pin_queue \<Rightarrow> pin_queue" where
  "load_snapshot q = q\<lparr>pq_busy := True, pq_flight := pq_flight q @ [LoadTask]\<rparr>"

definition reload :: "pin_queue \<Rightarrow> pin_queue" where
  "reload q = (if pq_busy q \<or> pq_mutations q \<noteq> [] then q\<lparr>pq_reload_pending := True\<rparr> else load_snapshot q)"

definition run_next_mutation :: "pin_queue \<Rightarrow> pin_queue" where
  "run_next_mutation q =
     (if pq_busy q then q
      else if \<not> pq_loaded q \<and> pq_mutations q \<noteq> [] then load_snapshot q
      else (case pq_mutations q of
          [] \<Rightarrow> if pq_reload_pending q then load_snapshot (q\<lparr>pq_reload_pending := False\<rparr>) else q
        | (c, d) # rest \<Rightarrow> q\<lparr>pq_busy := True, pq_flight := pq_flight q @ [CommitTask c]\<rparr>))"

definition fail :: "qstring \<Rightarrow> nat option \<Rightarrow> pin_queue \<Rightarrow> pin_queue" where
  "fail message d q = call_done d False (log_event PinsChanged (q\<lparr>pq_error := message\<rparr>))"

definition mutate :: "pin_command \<Rightarrow> nat option \<Rightarrow> pin_queue \<Rightarrow> pin_queue" where
  "mutate c d q =
     run_next_mutation (log_event PinsChanged
       (q\<lparr>pq_error := [], pq_mutations := pq_mutations q @ [(c, d)], pq_state := pin_optimistic c (pq_state q)\<rparr>))"

text \<open>What a task does with the module it reads, and the two handlers of its answer.\<close>

definition read_back :: "uuid5 \<Rightarrow> local_account \<Rightarrow> qstring + json_object \<Rightarrow> qstring option \<times> pinned_state" where
  "read_back u5 account snapshot =
     (case snapshot of
        Inl e \<Rightarrow> (Some e, empty_pinned_state)
      | Inr m \<Rightarrow>
          (case validate_loaded u5 account m of
             Some e \<Rightarrow> (Some e, empty_pinned_state)
           | None \<Rightarrow> (None, parse_pinned_items m)))"

definition message_of :: "qstring option \<Rightarrow> qstring" where
  "message_of result = (case result of None \<Rightarrow> [] | Some e \<Rightarrow> e)"

definition load_answered :: "uuid5 \<Rightarrow> local_account \<Rightarrow> qstring + json_object \<Rightarrow> pin_queue \<Rightarrow> pin_queue" where
  "load_answered u5 account snapshot q =
     (let (result, parsed) = read_back u5 account snapshot;
          q1 = q\<lparr>pq_flight := tl (pq_flight q), pq_busy := False, pq_error := message_of result\<rparr>;
          q2 =
            (if result = None then rebuild_visible (q1\<lparr>pq_committed := parsed, pq_loaded := True\<rparr>)
             else foldl (\<lambda>q (c, d). call_done d False q)
               (rebuild_visible (q1\<lparr>pq_mutations := [], pq_reload_pending := False\<rparr>)) (pq_mutations q1)) in
      run_next_mutation (log_event PinsChanged q2))"

definition commit_answered ::
  "uuid5 \<Rightarrow> local_account \<Rightarrow> qstring option \<Rightarrow> qstring + json_object \<Rightarrow> pin_queue \<Rightarrow> pin_queue" where
  "commit_answered u5 account stored snapshot q =
     (let (readable, parsed) = read_back u5 account snapshot;
          result = (if stored = None \<and> readable \<noteq> None then readable else stored);
          d = snd (hd (pq_mutations q));
          q1 = q\<lparr>pq_flight := tl (pq_flight q), pq_mutations := tl (pq_mutations q), pq_busy := False,
            pq_error := message_of result\<rparr>;
          q2 = (if readable = None then q1\<lparr>pq_committed := parsed\<rparr> else q1) in
      run_next_mutation (call_done d (result = None) (log_event PinsChanged (rebuild_visible q2))))"

section \<open>Requests\<close>

datatype pin_request =
  AskPinned qstring peer_id bool "peer_id list"
| AskOrder qstring "peer_id list"
| AskRemove peer_id
| AskFilters "int list"

fun request_command ::
  "uuid5 \<Rightarrow> local_account \<Rightarrow> (int \<Rightarrow> qstring) \<Rightarrow> bool \<Rightarrow> pinned_state \<Rightarrow> pin_request \<Rightarrow> qstring + pin_command option" where
  "request_command u5 account fresh loaded st (AskPinned scope peer pinned visible) =
     map_sum id Some (set_pinned scope peer pinned visible)"
| "request_command u5 account fresh loaded st (AskOrder scope visible) = map_sum id Some (save_order scope visible)"
| "request_command u5 account fresh loaded st (AskRemove peer) = map_sum id Some (remove_peer peer)"
| "request_command u5 account fresh loaded st (AskFilters ids) = sync_filters u5 account fresh loaded ids st"

definition ask ::
  "uuid5 \<Rightarrow> local_account \<Rightarrow> (int \<Rightarrow> qstring) \<Rightarrow> pin_request \<Rightarrow> nat option \<Rightarrow> pin_queue \<Rightarrow> pin_queue" where
  "ask u5 account fresh r d q =
     (case request_command u5 account fresh (pq_loaded q) (pq_state q) r of
        Inl e \<Rightarrow> fail e d q
      | Inr None \<Rightarrow> call_done d True q
      | Inr (Some c) \<Rightarrow> mutate c d q)"

text \<open>An answer is given to the task that waits for it.\<close>

type_synonym pin_answer = "(qstring + json_object) \<times> qstring option \<times> (qstring + json_object)"

definition answer :: "uuid5 \<Rightarrow> local_account \<Rightarrow> pin_answer \<Rightarrow> pin_queue \<Rightarrow> pin_queue" where
  "answer u5 account a q =
     (case pq_flight q of
        [] \<Rightarrow> q
      | LoadTask # _ \<Rightarrow> load_answered u5 account (fst a) q
      | CommitTask c # _ \<Rightarrow> commit_answered u5 account (fst (snd a)) (snd (snd a)) q)"

text \<open>The reachable states, with the numbers of the callbacks that were handed over.\<close>

inductive queue_reachable :: "uuid5 \<Rightarrow> local_account \<Rightarrow> nat list \<Rightarrow> pin_queue \<Rightarrow> bool"
  for u5 :: uuid5 and account :: local_account
where
  queue_start: "queue_reachable u5 account [] initial_queue"
| queue_ask: "queue_reachable u5 account ds q \<Longrightarrow>
    queue_reachable u5 account (ds @ (case d of None \<Rightarrow> [] | Some i \<Rightarrow> [i])) (ask u5 account fresh r d q)"
| queue_reload: "queue_reachable u5 account ds q \<Longrightarrow> queue_reachable u5 account ds (reload q)"
| queue_answer: "queue_reachable u5 account ds q \<Longrightarrow> pq_flight q \<noteq> [] \<Longrightarrow>
    queue_reachable u5 account ds (answer u5 account a q)"

section \<open>The invariant\<close>

text \<open>What holds also while a handler runs, and what holds between two of them.\<close>

definition queue_core :: "pin_queue \<Rightarrow> bool" where
  "queue_core q \<longleftrightarrow>
     (if pq_busy q
      then pq_flight q = [LoadTask]
        \<or> (\<exists>c d rest. pq_flight q = [CommitTask c] \<and> pq_mutations q = (c, d) # rest \<and> pq_loaded q)
      else pq_flight q = [])
     \<and> pq_state q = optimistic_all (pq_mutations q) (pq_committed q)"

definition queue_settled :: "pin_queue \<Rightarrow> bool" where
  "queue_settled q \<longleftrightarrow> queue_core q \<and> (pq_mutations q \<noteq> [] \<or> pq_reload_pending q \<longrightarrow> pq_busy q)"

lemma optimistic_all_simps [simp]:
  "optimistic_all [] st = st"
  "optimistic_all ((c, d) # rest) st = optimistic_all rest (pin_optimistic c st)"
  "optimistic_all (ms @ [(c, d)]) st = pin_optimistic c (optimistic_all ms st)"
  by (simp_all add: optimistic_all_def)

lemma log_event_simps [simp]:
  "pq_committed (log_event e q) = pq_committed q" "pq_state (log_event e q) = pq_state q"
  "pq_mutations (log_event e q) = pq_mutations q" "pq_loaded (log_event e q) = pq_loaded q"
  "pq_busy (log_event e q) = pq_busy q" "pq_reload_pending (log_event e q) = pq_reload_pending q"
  "pq_flight (log_event e q) = pq_flight q" "pq_error (log_event e q) = pq_error q"
  "pq_log (log_event e q) = pq_log q @ [e]"
  by (simp_all add: log_event_def)

lemma call_done_simps [simp]:
  "pq_committed (call_done d ok q) = pq_committed q" "pq_state (call_done d ok q) = pq_state q"
  "pq_mutations (call_done d ok q) = pq_mutations q" "pq_loaded (call_done d ok q) = pq_loaded q"
  "pq_busy (call_done d ok q) = pq_busy q" "pq_reload_pending (call_done d ok q) = pq_reload_pending q"
  "pq_flight (call_done d ok q) = pq_flight q" "pq_error (call_done d ok q) = pq_error q"
  "pq_log (call_done d ok q) = pq_log q @ (case d of None \<Rightarrow> [] | Some i \<Rightarrow> [PinDone i ok])"
  by (simp_all add: call_done_def split: option.splits)

text \<open>All the callbacks of a list of changes are told of its failure.\<close>

lemma fail_all_simps [simp]:
  "pq_committed (foldl (\<lambda>q (c, d). call_done d ok q) q ms) = pq_committed q"
  "pq_state (foldl (\<lambda>q (c, d). call_done d ok q) q ms) = pq_state q"
  "pq_mutations (foldl (\<lambda>q (c, d). call_done d ok q) q ms) = pq_mutations q"
  "pq_loaded (foldl (\<lambda>q (c, d). call_done d ok q) q ms) = pq_loaded q"
  "pq_busy (foldl (\<lambda>q (c, d). call_done d ok q) q ms) = pq_busy q"
  "pq_reload_pending (foldl (\<lambda>q (c, d). call_done d ok q) q ms) = pq_reload_pending q"
  "pq_flight (foldl (\<lambda>q (c, d). call_done d ok q) q ms) = pq_flight q"
  by (induction ms arbitrary: q) auto

lemma run_next_simps [simp]:
  "pq_committed (run_next_mutation q) = pq_committed q" "pq_state (run_next_mutation q) = pq_state q"
  "pq_mutations (run_next_mutation q) = pq_mutations q" "pq_loaded (run_next_mutation q) = pq_loaded q"
  "pq_error (run_next_mutation q) = pq_error q" "pq_log (run_next_mutation q) = pq_log q"
  by (simp_all add: run_next_mutation_def load_snapshot_def split: list.splits)

lemma run_next_commits:
  "\<not> pq_busy q \<Longrightarrow> pq_loaded q \<Longrightarrow> pq_mutations q = (c, d) # rest \<Longrightarrow>
    pq_flight (run_next_mutation q) = pq_flight q @ [CommitTask c]"
  by (simp add: run_next_mutation_def)

lemma run_next_settled:
  assumes "queue_core q"
  shows "queue_settled (run_next_mutation q)"
  using assms unfolding queue_settled_def queue_core_def run_next_mutation_def load_snapshot_def
  by (auto split: list.splits if_splits)

lemma core_log [simp]: "queue_core (log_event e q) = queue_core q"
  by (simp add: queue_core_def)

lemma core_done [simp]: "queue_core (call_done d ok q) = queue_core q"
  by (simp add: queue_core_def)

lemma settled_log [simp]: "queue_settled (log_event e q) = queue_settled q"
  by (simp add: queue_settled_def)

lemma settled_done [simp]: "queue_settled (call_done d ok q) = queue_settled q"
  by (simp add: queue_settled_def)

lemma mutate_settled:
  assumes "queue_core q"
  shows "queue_settled (mutate c d q)"
  unfolding mutate_def
  by (rule run_next_settled) (use assms in \<open>auto simp: queue_core_def split: if_splits\<close>)

lemma fail_settled: "queue_settled (fail message d q) = queue_settled q"
  by (simp add: fail_def queue_settled_def queue_core_def)

lemma ask_settled:
  assumes "queue_settled q"
  shows "queue_settled (ask u5 account fresh r d q)"
  using assms mutate_settled [of q] fail_settled
  by (simp add: ask_def queue_settled_def [of q] split: sum.splits option.splits)

lemma reload_settled:
  assumes "queue_settled q"
  shows "queue_settled (reload q)"
  using assms by (auto simp: reload_def load_snapshot_def queue_settled_def queue_core_def)

lemma load_answered_settled:
  assumes "queue_settled q" and "pq_flight q = LoadTask # rest"
  shows "queue_settled (load_answered u5 account snapshot q)"
proof -
  obtain result parsed where read: "read_back u5 account snapshot = (result, parsed)" by (cases "read_back u5 account snapshot")
  show ?thesis
    unfolding load_answered_def read prod.case Let_def
    by (rule run_next_settled)
      (use assms in \<open>auto simp: queue_settled_def queue_core_def rebuild_visible_def split: if_splits\<close>)
qed

lemma commit_answered_settled:
  assumes "queue_settled q" and "pq_flight q = CommitTask c # rest"
  shows "queue_settled (commit_answered u5 account stored snapshot q)"
proof -
  obtain result parsed where read: "read_back u5 account snapshot = (result, parsed)" by (cases "read_back u5 account snapshot")
  show ?thesis
    unfolding commit_answered_def read prod.case Let_def
    by (rule run_next_settled)
      (use assms in \<open>auto simp: queue_settled_def queue_core_def rebuild_visible_def split: if_splits\<close>)
qed

lemma answer_settled:
  assumes "queue_settled q"
  shows "queue_settled (answer u5 account a q)"
  using assms load_answered_settled commit_answered_settled
  by (auto simp: answer_def split: list.splits pin_task.splits)

lemma reachable_settled: "queue_reachable u5 account ds q \<Longrightarrow> queue_settled q"
proof (induction rule: queue_reachable.induct)
  case queue_start
  show ?case by (simp add: initial_queue_def queue_settled_def queue_core_def)
qed (simp_all add: ask_settled reload_settled answer_settled)

section \<open>Every callback is called once\<close>

definition done_numbers :: "pin_event list \<Rightarrow> nat list" where
  "done_numbers es = concat (map (\<lambda>e. case e of PinDone i ok \<Rightarrow> [i] | PinsChanged \<Rightarrow> []) es)"

definition waiting_numbers :: "(pin_command \<times> nat option) list \<Rightarrow> nat list" where
  "waiting_numbers ms = concat (map (\<lambda>(c, d). case d of Some i \<Rightarrow> [i] | None \<Rightarrow> []) ms)"

definition number_of :: "nat option \<Rightarrow> nat list" where
  "number_of d = (case d of None \<Rightarrow> [] | Some i \<Rightarrow> [i])"

definition all_numbers :: "pin_queue \<Rightarrow> nat multiset" where
  "all_numbers q = mset (done_numbers (pq_log q)) + mset (waiting_numbers (pq_mutations q))"

lemma done_numbers_simps [simp]:
  "done_numbers [] = []" "done_numbers (es @ es') = done_numbers es @ done_numbers es'"
  "done_numbers (PinsChanged # es) = done_numbers es" "done_numbers (PinDone i ok # es) = i # done_numbers es"
  by (simp_all add: done_numbers_def)

lemma waiting_numbers_simps [simp]:
  "waiting_numbers [] = []" "waiting_numbers (ms @ ms') = waiting_numbers ms @ waiting_numbers ms'"
  "waiting_numbers ((c, d) # ms) = number_of d @ waiting_numbers ms"
  by (auto simp: waiting_numbers_def number_of_def split: option.splits)

lemma done_numbers_of: "done_numbers (case d of None \<Rightarrow> [] | Some i \<Rightarrow> [PinDone i ok]) = number_of d"
  by (simp add: number_of_def split: option.splits)

lemma fail_all_numbers:
  "done_numbers (pq_log (foldl (\<lambda>q (c, d). call_done d ok q) q ms)) = done_numbers (pq_log q) @ waiting_numbers ms"
  by (induction ms arbitrary: q) (auto simp: done_numbers_of)

lemma run_next_numbers [simp]: "all_numbers (run_next_mutation q) = all_numbers q"
  by (simp add: all_numbers_def run_next_mutation_def load_snapshot_def split: list.splits)

lemma log_numbers [simp]:
  "all_numbers (log_event PinsChanged q) = all_numbers q"
  "all_numbers (call_done d ok q) = all_numbers q + mset (number_of d)"
  by (simp_all add: all_numbers_def done_numbers_of)

lemma mutate_numbers: "all_numbers (mutate c d q) = all_numbers q + mset (number_of d)"
  by (simp add: mutate_def) (simp add: all_numbers_def)

lemma fail_numbers: "all_numbers (fail message d q) = all_numbers q + mset (number_of d)"
  by (simp add: fail_def all_numbers_def done_numbers_of)

lemma ask_numbers: "all_numbers (ask u5 account fresh r d q) = all_numbers q + mset (number_of d)"
  by (simp add: ask_def mutate_numbers fail_numbers split: sum.splits option.splits)

lemma load_answered_numbers: "all_numbers (load_answered u5 account snapshot q) = all_numbers q"
proof -
  obtain result parsed where read: "read_back u5 account snapshot = (result, parsed)" by (cases "read_back u5 account snapshot")
  show ?thesis
    by (simp add: load_answered_def read Let_def rebuild_visible_def)
      (simp add: all_numbers_def fail_all_numbers)
qed

lemma commit_answered_numbers:
  assumes "pq_mutations q \<noteq> []"
  shows "all_numbers (commit_answered u5 account stored snapshot q) = all_numbers q"
proof -
  obtain readable parsed where read: "read_back u5 account snapshot = (readable, parsed)"
    by (cases "read_back u5 account snapshot")
  obtain c d rest where front: "pq_mutations q = (c, d) # rest" using assms by (metis list.exhaust surj_pair)
  show ?thesis
    by (simp add: commit_answered_def read front Let_def rebuild_visible_def) (simp add: all_numbers_def front)
qed

lemma answer_numbers:
  assumes "queue_settled q"
  shows "all_numbers (answer u5 account a q) = all_numbers q"
proof (cases "pq_flight q")
  case (Cons t ts)
  show ?thesis
  proof (cases t)
    case (CommitTask c)
    then have "pq_mutations q \<noteq> []" using assms Cons by (auto simp: queue_settled_def queue_core_def split: if_splits)
    then show ?thesis using Cons CommitTask by (simp add: answer_def commit_answered_numbers)
  qed (simp add: answer_def Cons load_answered_numbers)
qed (simp add: answer_def)

lemma reload_numbers: "all_numbers (reload q) = all_numbers q"
  by (simp add: reload_def load_snapshot_def all_numbers_def)

lemma reachable_numbers: "queue_reachable u5 account ds q \<Longrightarrow> all_numbers q = mset ds"
proof (induction rule: queue_reachable.induct)
  case queue_start
  show ?case by (simp add: initial_queue_def all_numbers_def)
next
  case (queue_ask ds q d fresh r)
  then show ?case by (simp add: ask_numbers number_of_def)
next
  case (queue_reload ds q)
  then show ?case by (simp add: reload_numbers)
next
  case (queue_answer ds q a)
  then show ?case using answer_numbers [OF reachable_settled] by simp
qed

section \<open>Answers come to an end\<close>

definition work_left :: "pin_queue \<Rightarrow> nat" where
  "work_left q = length (pq_mutations q) + (if pq_flight q = [LoadTask] then 1 else 0) + (if pq_reload_pending q then 1 else 0)"

lemma idle_work: "queue_settled q \<Longrightarrow> work_left q = 0 \<longleftrightarrow> \<not> pq_busy q"
  by (auto simp: work_left_def queue_settled_def queue_core_def split: if_splits)

lemma run_next_work:
  assumes "queue_core q" and "\<not> pq_busy q" and "pq_loaded q \<or> pq_mutations q = []"
  shows "work_left (run_next_mutation q) = length (pq_mutations q) + (if pq_reload_pending q then 1 else 0)"
  using assms by (auto simp: run_next_mutation_def load_snapshot_def work_left_def queue_core_def split: list.splits)

lemma load_answered_work:
  assumes "queue_settled q" and "pq_flight q = [LoadTask]"
  shows "work_left (load_answered u5 account snapshot q) < work_left q"
proof -
  obtain result parsed where read: "read_back u5 account snapshot = (result, parsed)" by (cases "read_back u5 account snapshot")
  show ?thesis
    unfolding load_answered_def read prod.case Let_def
    by (subst run_next_work)
      (use assms in \<open>auto simp: queue_settled_def queue_core_def rebuild_visible_def work_left_def split: if_splits\<close>)
qed

lemma commit_answered_work:
  assumes "queue_settled q" and "pq_flight q = [CommitTask c]"
  shows "work_left (commit_answered u5 account stored snapshot q) < work_left q"
proof -
  obtain readable parsed where read: "read_back u5 account snapshot = (readable, parsed)"
    by (cases "read_back u5 account snapshot")
  show ?thesis
    unfolding commit_answered_def read prod.case Let_def
    by (subst run_next_work)
      (use assms in \<open>auto simp: queue_settled_def queue_core_def rebuild_visible_def work_left_def split: if_splits\<close>)
qed

lemma answer_work:
  assumes "queue_settled q" and "pq_busy q"
  shows "work_left (answer u5 account a q) < work_left q"
  using assms load_answered_work [OF assms(1)] commit_answered_work [OF assms(1)]
  by (auto simp: answer_def queue_settled_def queue_core_def split: if_splits)

lemma idle_answer: "queue_settled q \<Longrightarrow> \<not> pq_busy q \<Longrightarrow> answer u5 account a q = q"
  by (simp add: answer_def queue_settled_def queue_core_def)

lemma answers_end:
  assumes "queue_settled q" and "work_left q \<le> length answers"
  shows "queue_settled (foldl (\<lambda>q a. answer u5 account a q) q answers)
    \<and> \<not> pq_busy (foldl (\<lambda>q a. answer u5 account a q) q answers)"
  using assms
proof (induction answers arbitrary: q)
  case Nil
  then show ?case using idle_work by simp
next
  case (Cons a answers)
  show ?case
  proof (cases "pq_busy q")
    case True
    then show ?thesis using Cons answer_work [OF Cons.prems(1) True, of u5 account a] answer_settled by simp
  next
    case False
    then have "answer u5 account a q = q" "work_left q = 0"
      using Cons.prems(1) idle_answer idle_work by auto
    then show ?thesis using Cons.IH [of q] Cons.prems(1) by simp
  qed
qed

lemma work_bound: "queue_settled q \<Longrightarrow> work_left q \<le> length (pq_mutations q) + 2"
  by (simp add: work_left_def)

lemma answers_numbers:
  assumes "queue_settled q"
  shows "all_numbers (foldl (\<lambda>q a. answer u5 account a q) q answers) = all_numbers q"
  using assms
proof (induction answers arbitrary: q)
  case (Cons a answers)
  then show ?case using answer_settled answer_numbers by simp
qed simp

section \<open>Properties\<close>

text \<open>C3: in every state the queue of local pins can reach, what is shown is the committed state with
  every queued change laid over it in order, at most one task is given to the store at a time, a task that commits
  a change is the one at the front of the queue and the pins were loaded, and no change and no reload waits while
  nothing is under way.\<close>

theorem queue_invariant:
  assumes "queue_reachable u5 account ds q"
  shows "pq_state q = optimistic_all (pq_mutations q) (pq_committed q) \<and> length (pq_flight q) = (if pq_busy q then 1 else 0)
    \<and> (\<forall>c. CommitTask c \<in> set (pq_flight q) \<longrightarrow> pq_loaded q \<and> (\<exists>d rest. pq_mutations q = (c, d) # rest))
    \<and> (pq_mutations q \<noteq> [] \<or> pq_reload_pending q \<longrightarrow> pq_busy q)"
  using reachable_settled [OF assms] by (auto simp: queue_settled_def queue_core_def split: if_splits)

text \<open>C7: of the callbacks handed over with the requests, each one either was called or waits in
  the queue, and none was called twice or belongs to no request: as multisets, the calls and the waiting ones are
  the ones handed over.\<close>

theorem callbacks_called_once:
  assumes "queue_reachable u5 account ds q"
  shows "mset (done_numbers (pq_log q)) + mset (waiting_numbers (pq_mutations q)) = mset ds"
  using reachable_numbers [OF assms] by (simp add: all_numbers_def)

text \<open>C2: whatever the store answers, errors included, once it has answered two times more than there
  are changes in the queue, nothing is under way, no change and no reload waits, and every callback handed over
  has been called.\<close>

theorem queue_drains:
  assumes "queue_reachable u5 account ds q" and "length (pq_mutations q) + 2 \<le> length answers"
  shows "let q' = foldl (\<lambda>q a. answer u5 account a q) q answers in
    \<not> pq_busy q' \<and> pq_mutations q' = [] \<and> \<not> pq_reload_pending q' \<and> pq_state q' = pq_committed q'
    \<and> mset (done_numbers (pq_log q')) = mset ds"
proof -
  define q' where "q' = foldl (\<lambda>q a. answer u5 account a q) q answers"
  note settled = reachable_settled [OF assms(1)]
  have bound: "work_left q \<le> length answers" using work_bound [OF settled] assms(2) by simp
  have idle: "queue_settled q' \<and> \<not> pq_busy q'" unfolding q'_def by (rule answers_end [OF settled bound])
  have "all_numbers q' = mset ds"
    unfolding q'_def reachable_numbers [OF assms(1), symmetric] by (rule answers_numbers [OF settled])
  then show ?thesis
    using idle unfolding q'_def [symmetric] Let_def
    by (auto simp: queue_settled_def queue_core_def all_numbers_def)
qed


text \<open>C6: when the store refuses the change at the front, its callback is told so and only that
  change disappears from the screen: the ones behind it stay, laid over the state read back, and the next of
  them goes to the store.\<close>

theorem refused_commit_rolls_back:
  assumes "queue_reachable u5 account ds q" and "pq_flight q = [CommitTask c]" and "pq_mutations q = (c, d) # rest"
    and "validate_loaded u5 account m = None"
  shows "let q' = commit_answered u5 account (Some e) (Inr m) q in
    pq_error q' = e \<and> pq_mutations q' = rest \<and> pq_state q' = optimistic_all rest (parse_pinned_items m)
    \<and> pq_log q' = pq_log q @ PinsChanged # (case d of None \<Rightarrow> [] | Some i \<Rightarrow> [PinDone i False])
    \<and> (rest \<noteq> [] \<longrightarrow> pq_flight q' = [CommitTask (fst (hd rest))])"
proof -
  have loaded: "pq_loaded q" using reachable_settled [OF assms(1)] assms(2) by (auto simp: queue_settled_def queue_core_def split: if_splits)
  show ?thesis
    using loaded assms(2-)
    by (cases rest) (auto simp: Let_def commit_answered_def read_back_def rebuild_visible_def message_of_def run_next_commits)
qed

text \<open>An order is saved while nothing is loaded: the queue loads, then commits.\<close>

abbreviation sample_fresh :: "int \<Rightarrow> qstring" where
  "sample_fresh i \<equiv> []"

definition sample_module :: json_object where
  "sample_module =
     [(latin ''module_id'', JsStr (latin ''pinned_items'')), (latin ''records'', JsArr []), (latin ''schema_version'', JsNum 1)]"

definition sample_saving :: pin_command where
  "sample_saving = SaveOrder (latin ''main'') [peer_of user_shift 5]"

definition sample_saved :: json_object where
  "sample_saved = (case pin_change sample_u5 sample_account sample_saving sample_module of Inr m \<Rightarrow> m | Inl e \<Rightarrow> [])"

definition sample_asked :: pin_queue where
  "sample_asked =
     ask sample_u5 sample_account sample_fresh (AskOrder (latin ''main'') [peer_of user_shift 5]) (Some 7) initial_queue"

definition sample_committing :: pin_queue where
  "sample_committing = answer sample_u5 sample_account (Inr sample_module, None, Inl []) sample_asked"

lemma sample_asked_reachable: "queue_reachable sample_u5 sample_account [7] sample_asked"
  using queue_ask [OF queue_start, where d = "Some 7"] by (simp add: sample_asked_def)

lemma sample_peer_valid: "valid_scope (latin ''main'')" "valid_peer (peer_of user_shift 5)"
  by code_simp+

lemma sample_command: "save_order (latin ''main'') [peer_of user_shift 5] = Inr sample_saving"
  using sample_peer_valid by (simp add: save_order_def sample_saving_def maximum_order_def)

lemma sample_asked_fields:
  "pq_flight sample_asked = [LoadTask]" "pq_mutations sample_asked = [(sample_saving, Some 7)]"
  by (simp_all add: sample_asked_def ask_def sample_command mutate_def run_next_mutation_def load_snapshot_def initial_queue_def)

lemma sample_committing_reachable: "queue_reachable sample_u5 sample_account [7] sample_committing"
  unfolding sample_committing_def by (rule queue_answer [OF sample_asked_reachable]) (simp add: sample_asked_fields)

lemma sample_module_valid: "pinned_items_valid sample_u5 sample_account sample_module"
  by code_simp

lemma sample_module_readable: "validate_loaded sample_u5 sample_account sample_module = None"
  by code_simp

lemma sample_module_records: "module_records sample_module = []"
  by code_simp

lemma sample_committing_fields:
  "pq_flight sample_committing = [CommitTask sample_saving]" "pq_mutations sample_committing = [(sample_saving, Some 7)]"
  "pq_committed sample_committing = parse_pinned_items sample_module"
  by (simp_all add: sample_committing_def answer_def sample_asked_fields load_answered_def read_back_def
      sample_module_readable rebuild_visible_def run_next_commits)

lemma sample_saving_ok:
  "command_ok sample_saving" "no_deleted_order sample_module"
  "no_clash sample_u5 sample_account (command_keys sample_saving (module_records sample_module)) (module_records sample_module)"
  using sample_peer_valid
  by (simp_all add: sample_saving_def no_deleted_order_def sample_module_records no_clash_def record_keys_def)

lemma sample_saving_runs: "pin_change sample_u5 sample_account sample_saving sample_module = Inr sample_saved"
proof -
  have "active_scope sample_u5 sample_account sample_module (latin ''main'')" by code_simp
  then show ?thesis
    by (simp add: sample_saved_def sample_saving_def save_order_change_def update_order_def sample_module_records
        record_at_def read_order_def merge_order_def maximum_order_def Let_def split: sum.splits)
qed

lemma sample_saved_readable: "validate_loaded sample_u5 sample_account sample_saved = None"
  by code_simp

theorem queue_invariant_witness: "pq_state sample_committing = pin_optimistic sample_saving (parse_pinned_items sample_module)"
  using queue_invariant [OF sample_committing_reachable] by (simp add: sample_committing_fields)

theorem callbacks_called_once_witness: "mset (done_numbers (pq_log sample_committing)) = {#}"
  using callbacks_called_once [OF sample_committing_reachable] by (simp add: sample_committing_fields number_of_def)

theorem queue_drains_witness:
  "mset (done_numbers (pq_log (foldl (\<lambda>q a. answer sample_u5 sample_account a q) sample_asked
     (replicate 3 (Inl [], Some [], Inl []))))) = {#7#}"
  using queue_drains [OF sample_asked_reachable, of "replicate 3 (Inl [], Some [], Inl [])"]
  by (simp add: sample_asked_fields Let_def)


theorem refused_commit_rolls_back_witness:
  "pq_state (commit_answered sample_u5 sample_account (Some (latin ''full'')) (Inr sample_module) sample_committing)
    = parse_pinned_items sample_module"
  using refused_commit_rolls_back [OF sample_committing_reachable sample_committing_fields(1,2) sample_module_readable]
  by (simp add: Let_def)

end
