(* ===== verification/PinnedOverlay.thy ===== *)
theory PinnedOverlay
  imports PinnedQueue
begin

text \<open>
  What the observers of local pins see (\<open>LocalPinnedItems::overlay\<close> in \<open>data/local_pinned_items.cpp\<close>): the maps of
  the state stay sorted, and the list of pins of a scope is the list of the server with the local decisions and
  the saved order laid over it.
\<close>

section \<open>The maps of the state\<close>

definition scope_sorted :: "pinned_scope \<Rightarrow> bool" where
  "scope_sorted d \<longleftrightarrow> asc_keys (sc_pins d)"

definition state_sorted :: "pinned_state \<Rightarrow> bool" where
  "state_sorted st \<longleftrightarrow>
     asc_keys (ps_scopes st) \<and> asc_keys (ps_filters st) \<and> list_all (\<lambda>(s, d). scope_sorted d) (ps_scopes st)"

lemma list_all_put: "list_all P m \<Longrightarrow> P (k, v) \<Longrightarrow> list_all P (amap_put k v m)"
  using set_amap_put [of k v m] by (auto simp: list_all_iff)

lemma scope_of_sorted: "state_sorted st \<Longrightarrow> scope_sorted (scope_of scope st)"
  by (auto simp: scope_of_def state_sorted_def scope_sorted_def list_all_iff split: option.splits dest!: map_of_SomeD)

lemma setters_sorted:
  assumes "state_sorted st"
  shows "state_sorted (set_pin scope peer pinned st)" "state_sorted (set_order scope order st)"
    "state_sorted (set_filter i f st)"
  using assms scope_of_sorted [OF assms, of scope]
  by (auto simp: set_pin_def set_order_def set_filter_def state_sorted_def scope_sorted_def Let_def
      intro!: asc_keys_put list_all_put)

lemma foldl_keeps: "P s \<Longrightarrow> (\<And>s x. P s \<Longrightarrow> P (f s x)) \<Longrightarrow> P (foldl f s xs)"
  by (induction xs arbitrary: s) auto

lemma empty_sorted: "state_sorted empty_pinned_state"
  by (simp add: state_sorted_def empty_pinned_state_def)

lemma parse_sorted: "state_sorted (parse_pinned_items m)"
  unfolding parse_pinned_items_def
  by (rule foldl_keeps [where P = state_sorted]) (simp_all add: empty_sorted parse_record_def Let_def setters_sorted)

lemma set_pinned_state_sorted: "state_sorted st \<Longrightarrow> state_sorted (set_pinned_state scope peer pinned visible st)"
  by (simp add: set_pinned_state_def Let_def setters_sorted)

lemma optimistic_sorted: "state_sorted st \<Longrightarrow> state_sorted (pin_optimistic c st)"
proof (cases c)
  case (RemovePeer peer)
  assume "state_sorted st"
  then show ?thesis
    unfolding RemovePeer pin_optimistic.simps remove_peer_state_def
    by (rule foldl_keeps) (rule set_pinned_state_sorted)
next
  case (SyncFilters changes)
  assume "state_sorted st"
  then show ?thesis
    unfolding SyncFilters pin_optimistic.simps sync_filters_state_def
    by (rule foldl_keeps) (auto simp: setters_sorted split: prod.splits)
qed (simp_all add: set_pinned_state_sorted save_order_state_def setters_sorted)

lemma optimistic_all_sorted: "state_sorted st \<Longrightarrow> state_sorted (optimistic_all ms st)"
  unfolding optimistic_all_def by (rule foldl_keeps) (auto simp: optimistic_sorted split: prod.splits)

lemma committed_sorted: "queue_reachable u5 account ds q \<Longrightarrow> state_sorted (pq_committed q)"
proof (induction rule: queue_reachable.induct)
  case (queue_ask ds q d fresh r)
  then show ?case by (simp add: ask_def fail_def mutate_def split: sum.splits option.splits)
next
  case (queue_reload ds q)
  then show ?case by (simp add: reload_def load_snapshot_def)
next
  case (queue_answer ds q a)
  have "state_sorted (snd (read_back u5 account s))" for s
    by (simp add: read_back_def empty_sorted parse_sorted split: sum.splits option.splits)
  then show ?case
    using queue_answer
    by (auto simp: answer_def load_answered_def commit_answered_def rebuild_visible_def Let_def
        split: list.splits pin_task.splits prod.splits)
      (metis snd_conv)+
qed (simp add: initial_queue_def empty_sorted)

section \<open>The overlay\<close>

definition pin_shown :: "peer_id list \<Rightarrow> pinned_scope \<Rightarrow> peer_id \<Rightarrow> bool" where
  "pin_shown cloud d p = (case map_of (sc_pins d) p of Some pinned \<Rightarrow> pinned | None \<Rightarrow> p \<in> set cloud)"

lemma active_peers_asc: "strict_asc (active_peers cloud pins)"
  unfolding active_peers_def
  by (rule foldl_keeps) (auto simp: strict_asc_merge strict_asc_insert strict_asc_remove split: prod.splits)

lemma active_fold_set:
  assumes "distinct (map fst pins)"
  shows "p \<in> set (foldl (\<lambda>active (peer, pinned). if pinned then asc_insert peer active else asc_remove peer active) active pins)
    \<longleftrightarrow> (case map_of pins p of Some pinned \<Rightarrow> pinned | None \<Rightarrow> p \<in> set active)"
  using assms
proof (induction pins arbitrary: active)
  case (Cons x pins)
  obtain peer pinned where x: "x = (peer, pinned)" by (cases x)
  have "map_of pins peer = None" using Cons.prems x by (simp add: map_of_eq_None_iff)
  then show ?case using Cons x by (auto simp: container_simps split: option.splits)
qed simp

lemma active_peers_set:
  assumes "scope_sorted d"
  shows "set (active_peers cloud (sc_pins d)) = {p. pin_shown cloud d p}"
proof -
  have "distinct (map fst (sc_pins d))" using assms by (simp add: scope_sorted_def asc_keys_distinct)
  note member = active_fold_set [OF this, of _ "asc_merge [] cloud"]
  show ?thesis unfolding active_peers_def by (rule set_eqI) (simp add: member pin_shown_def container_simps cong: option.case_cong)
qed

lemma take_active_spec:
  assumes "set active \<inter> set result = {}" and "distinct result"
  shows "take_active (active, result) order
    = (filter (\<lambda>p. p \<notin> set order) active,
       foldl (\<lambda>result p. if p \<in> set result then result else result @ [p]) result
         (filter (\<lambda>p. p \<in> set active \<union> set result) order))"
  using assms
proof (induction order arbitrary: active result)
  case (Cons p order)
  show ?case
  proof (cases "p \<in> set active")
    case True
    have step: "take_active (active, result) (p # order) = take_active (asc_remove p active, result @ [p]) order"
      using True by (simp add: take_active_def)
    have "set (asc_remove p active) \<inter> set (result @ [p]) = {}" "distinct (result @ [p])"
      using Cons.prems True by (auto simp: container_simps)
    note rest = Cons.IH [OF this]
    have sets: "set (asc_remove p active) \<union> set (result @ [p]) = set active \<union> set result"
      using True by (auto simp: container_simps)
    have filters: "filter (\<lambda>x. x \<notin> set order) (asc_remove p active) = filter (\<lambda>x. x \<notin> set (p # order)) active"
      by (simp add: asc_remove_def conj_commute)
    show ?thesis
      using Cons.prems(1) True unfolding step rest sets filters by auto
  next
    case False
    have step: "take_active (active, result) (p # order) = take_active (active, result) order"
      using False by (simp add: take_active_def)
    have filters: "filter (\<lambda>x. x \<notin> set order) active = filter (\<lambda>x. x \<notin> set (p # order)) active"
      using False by (auto intro: filter_cong)
    show ?thesis
      using False unfolding step Cons.IH [OF Cons.prems] filters by auto
  qed
qed (simp add: take_active_def)

lemma dedupe_set:
  "set (foldl (\<lambda>result p. if p \<in> set result then result else result @ [p]) result xs) = set result \<union> set xs"
  by (induction xs arbitrary: result) auto

lemma overlay_is:
  assumes "map_of (ps_scopes st) scope = Some d" and "scope_sorted d"
  shows "overlay_order scope cloud st =
    merge_order (filter (pin_shown cloud d) (sc_order d)) (filter (pin_shown cloud d) cloud)
    @ filter (\<lambda>p. p \<notin> set (sc_order d) \<union> set cloud) (active_peers cloud (sc_pins d))"
proof -
  define active where "active = active_peers cloud (sc_pins d)"
  note set = active_peers_set [OF assms(2), of cloud, folded active_def]
  define first where "first = merge_order (filter (pin_shown cloud d) (sc_order d)) []"
  define rest where "rest = filter (\<lambda>p. p \<notin> set (sc_order d)) active"
  have one: "take_active (active, []) (sc_order d) = (rest, first)"
    by (simp add: take_active_spec set rest_def first_def merge_order_def)
  have firsts: "set first = set (filter (pin_shown cloud d) (sc_order d))" "distinct first"
    by (simp_all add: first_def merge_order_props)
  have sets: "set rest \<union> set first = {p. pin_shown cloud d p}" "set rest \<inter> set first = {}"
    using firsts(1) set by (auto simp: rest_def)
  have two: "take_active (rest, first) cloud
      = (filter (\<lambda>p. p \<notin> set cloud) rest, merge_order (filter (pin_shown cloud d) (sc_order d)) (filter (pin_shown cloud d) cloud))"
    by (simp add: take_active_spec [OF sets(2) firsts(2)] sets(1)) (simp add: first_def merge_order_def)
  have "filter (\<lambda>p. p \<notin> set cloud) rest = filter (\<lambda>p. p \<notin> set (sc_order d) \<union> set cloud) active"
    by (auto simp: rest_def intro!: filter_cong)
  then show ?thesis
    using one two by (simp add: overlay_order_def assms(1) active_def)
qed

section \<open>Properties\<close>


text \<open>C5: the pins shown in a scope are, without repetition, exactly the chats pinned locally and
  the ones pinned on the server that were not taken off locally: the saved order first, then the order of the
  server, then the others by their number. A scope without local decisions shows the list of the server.\<close>

theorem overlay_of_reachable:
  assumes "queue_reachable u5 account ds q"
  shows "case map_of (ps_scopes (pq_state q)) scope of
      None \<Rightarrow> overlay_order scope cloud (pq_state q) = cloud
    | Some d \<Rightarrow>
        distinct (overlay_order scope cloud (pq_state q))
        \<and> set (overlay_order scope cloud (pq_state q)) = {p. pin_shown cloud d p}
        \<and> (\<exists>others. strict_asc others \<and> set others \<inter> (set (sc_order d) \<union> set cloud) = {}
            \<and> overlay_order scope cloud (pq_state q)
              = merge_order (filter (pin_shown cloud d) (sc_order d)) (filter (pin_shown cloud d) cloud) @ others)"
proof (cases "map_of (ps_scopes (pq_state q)) scope")
  case (Some d)
  have "state_sorted (pq_state q)"
    using reachable_settled [OF assms] committed_sorted [OF assms] optimistic_all_sorted
    by (simp add: queue_settled_def queue_core_def)
  then have sorted: "scope_sorted d" using scope_of_sorted [of "pq_state q" scope] Some by (simp add: scope_of_def)
  define others where "others = filter (\<lambda>p. p \<notin> set (sc_order d) \<union> set cloud) (active_peers cloud (sc_pins d))"
  have "strict_asc others" unfolding others_def by (rule sorted_wrt_filter [OF active_peers_asc])
  moreover from this have "distinct others" by (simp add: strict_sorted_iff)
  ultimately show ?thesis
    using overlay_is [OF Some sorted, of cloud, folded others_def] active_peers_set [OF sorted, of cloud]
    by (auto simp: Some merge_order_props others_def intro!: exI [of _ others])
qed (simp add: overlay_order_def)


lemma sample_shown_scope:
  "map_of (ps_scopes (pq_state sample_committing)) (latin ''main'') = Some \<lparr>sc_pins = [], sc_order = [peer_of user_shift 5]\<rparr>"
proof -
  have "pq_state sample_committing = pin_optimistic sample_saving (parse_pinned_items sample_module)"
    using reachable_settled [OF sample_committing_reachable]
    by (simp add: queue_settled_def queue_core_def sample_committing_fields)
  moreover have "parse_pinned_items sample_module = empty_pinned_state"
    by (simp add: parse_pinned_items_def sample_module_records)
  ultimately show ?thesis
    by (simp add: sample_saving_def save_order_state_def set_order_def scope_of_def empty_pinned_state_def merge_order_def)
qed

theorem overlay_of_reachable_witness:
  "set (overlay_order (latin ''main'') [9, 4] (pq_state sample_committing)) = {9, 4}"
proof -
  have "set (overlay_order (latin ''main'') [9, 4] (pq_state sample_committing))
      = {p. pin_shown [9, 4] \<lparr>sc_pins = [], sc_order = [peer_of user_shift 5]\<rparr> p}"
    using overlay_of_reachable [OF sample_committing_reachable, where scope = "latin ''main''" and cloud = "[9, 4]"]
    unfolding sample_shown_scope option.case by (elim conjE) assumption
  then show ?thesis by (auto simp: pin_shown_def)
qed

end
