(* ===== verification/StoreVersions.thy ===== *)
theory StoreVersions
  imports PinnedItems
begin

text \<open>
  The versions of local records (\<open>storage/local_data_store.cpp\<close>): a record carries a counter per device that changed
  it. Counters are JSON numbers, which are integers up to \<open>2^53 - 1\<close> in a valid vector, where the arithmetic of
  \<open>double\<close> is exact. A fallible operation gives \<open>Inl\<close> with the code and the message of the error.
\<close>

section \<open>Errors\<close>

datatype store_error = Cancelled | Invalid | Io | Locked | Conflict | Stale | Corrupt | Unsupported

type_synonym store_failure = "store_error \<times> qstring"

text \<open>\<open>ValidId\<close>, \<open>ValidHash\<close>, \<open>Decimal\<close> and \<open>ModuleId\<close> of the store.\<close>

definition valid_hash :: "qstring \<Rightarrow> bool" where
  "valid_hash s \<longleftrightarrow> length s = 64 \<and> list_all is_hex s"

definition store_decimal :: "qstring \<Rightarrow> bool" where
  "store_decimal s \<longleftrightarrow> s \<noteq> [] \<and> length s \<le> 20 \<and> 0x31 \<le> hd s \<and> hd s \<le> 0x39 \<and> list_all is_digit s"

definition module_id_ok :: "qstring \<Rightarrow> bool" where
  "module_id_ok s \<longleftrightarrow> s \<noteq> [] \<and> length s \<le> 96 \<and> list_all (\<lambda>c. (0x61 \<le> c \<and> c \<le> 0x7A) \<or> is_digit c \<or> c = 0x5F) s"

section \<open>Version vectors\<close>

definition max_counter :: rat where
  "max_counter = 9007199254740991"

definition vector_of :: "json_object \<Rightarrow> json_object" where
  "vector_of r = to_obj (jfield r ''version_vector'')"

definition counter :: "json_object \<Rightarrow> qstring \<Rightarrow> rat" where
  "counter v device = to_double 0 (map_of v device)"

definition valid_vector :: "json option \<Rightarrow> bool" where
  "valid_vector value \<longleftrightarrow>
     is_obj value \<and> to_obj value \<noteq> [] \<and> length (to_obj value) \<le> 256
     \<and> list_all (\<lambda>(device, v).
          let c = to_double (- 1) (Some v) in
          valid_uuid device \<and> 1 \<le> c \<and> c \<le> max_counter \<and> of_int \<lfloor>c\<rfloor> = c) (to_obj value)"

definition joined_vector :: "json_object \<Rightarrow> json_object \<Rightarrow> json_object" where
  "joined_vector first second =
     foldl (\<lambda>joined (device, v). amap_put device (JsNum (max (counter joined device) (to_double 0 (Some v)))) joined)
       first second"

definition advance :: "qstring \<Rightarrow> json_object \<Rightarrow> store_failure + json_object" where
  "advance device r =
     (let vector = vector_of r; c = counter vector device in
      if max_counter \<le> c \<or> 256 < length vector \<or> (length vector = 256 \<and> map_of vector device = None)
      then Inl (Invalid, latin ''Record version limit exceeded.'')
      else Inr (jput ''version_vector'' (JsObj (amap_put device (JsNum (c + 1)) vector)) r))"

datatype ordering = Equal | Before | After | Concurrent

definition compare_versions :: "json_object \<Rightarrow> json_object \<Rightarrow> ordering" where
  "compare_versions local incoming =
     (let first = vector_of local; second = vector_of incoming;
          greater = list_ex (\<lambda>(device, v). counter second device < to_double 0 (Some v)) first;
          less = (list_ex (\<lambda>(device, v). to_double 0 (Some v) < counter second device) first
            \<or> list_ex (\<lambda>(device, v). counter first device < to_double 0 (Some v)) second) in
      if greater \<and> less then Concurrent
      else if greater then After
      else if less then Before
      else Equal)"

section \<open>The order of versions\<close>

definition vector_le :: "json_object \<Rightarrow> json_object \<Rightarrow> bool" where
  "vector_le v w \<longleftrightarrow> (\<forall>device. counter v device \<le> counter w device)"

text \<open>A vector as a JSON object: sorted, with counters that are not negative.\<close>

definition vector_ok :: "json_object \<Rightarrow> bool" where
  "vector_ok v \<longleftrightarrow> asc_keys v \<and> list_all (\<lambda>(device, c). 0 \<le> to_double 0 (Some c)) v"

lemma counter_entry:
  assumes "asc_keys v" and "(device, c) \<in> set v"
  shows "counter v device = to_double 0 (Some c)"
  using map_of_is_SomeI [OF asc_keys_distinct [OF assms(1)] assms(2)] by (simp add: counter_def)

lemma counter_absent: "device \<notin> fst ` set v \<Longrightarrow> counter v device = 0"
  by (simp add: counter_def map_of_eq_None_iff [THEN iffD2])

lemma counter_nonneg:
  assumes "vector_ok v"
  shows "0 \<le> counter v device"
proof (cases "map_of v device")
  case (Some c)
  then show ?thesis using assms map_of_SomeD [OF Some] by (force simp: vector_ok_def counter_def list_all_iff)
qed (simp add: counter_def)

lemma counter_present: "0 < counter v device \<Longrightarrow> \<exists>c. map_of v device = Some c"
  by (cases "map_of v device") (simp_all add: counter_def)

lemma some_greater:
  assumes "vector_ok v" and "vector_ok w"
  shows "list_ex (\<lambda>(device, c). counter w device < to_double 0 (Some c)) v \<longleftrightarrow> \<not> vector_le v w"
proof
  assume "list_ex (\<lambda>(device, c). counter w device < to_double 0 (Some c)) v"
  then obtain device c where "(device, c) \<in> set v" "counter w device < to_double 0 (Some c)"
    by (auto simp: list_ex_iff)
  moreover have "counter v device = to_double 0 (Some c)"
    using assms(1) by (intro counter_entry) (simp_all add: vector_ok_def calculation)
  ultimately show "\<not> vector_le v w" by (auto simp: vector_le_def not_le intro!: exI [of _ device])
next
  assume "\<not> vector_le v w"
  then obtain device where less: "counter w device < counter v device" by (auto simp: vector_le_def not_le)
  then have "0 < counter v device" using counter_nonneg [OF assms(2), of device] by simp
  then obtain c where c: "map_of v device = Some c" using counter_present by blast
  then show "list_ex (\<lambda>(device, c). counter w device < to_double 0 (Some c)) v"
    using less map_of_SomeD [OF c] by (auto simp: list_ex_iff counter_def)
qed

lemma some_less:
  assumes "vector_ok v" and "list_ex (\<lambda>(device, c). to_double 0 (Some c) < counter w device) v"
  shows "\<not> vector_le w v"
proof -
  obtain device c where c: "(device, c) \<in> set v" "to_double 0 (Some c) < counter w device"
    using assms(2) by (auto simp: list_ex_iff)
  then have "counter v device = to_double 0 (Some c)" using assms(1) by (intro counter_entry) (simp_all add: vector_ok_def)
  then show ?thesis using c(2) by (auto simp: vector_le_def not_le intro!: exI [of _ device])
qed

lemma compare_is_order:
  assumes "vector_ok (vector_of a)" and "vector_ok (vector_of b)"
  shows "compare_versions a b =
    (if vector_le (vector_of a) (vector_of b) then (if vector_le (vector_of b) (vector_of a) then Equal else Before)
     else if vector_le (vector_of b) (vector_of a) then After else Concurrent)"
  using some_greater [OF assms] some_greater [OF assms(2,1)] some_less [OF assms(1), of "vector_of b"]
  by (auto simp: compare_versions_def Let_def)

lemma vector_le_refl [simp]: "vector_le v v"
  by (simp add: vector_le_def)

lemma vector_le_trans: "vector_le u v \<Longrightarrow> vector_le v w \<Longrightarrow> vector_le u w"
  by (meson order_trans vector_le_def)

lemma vector_le_both: "vector_le v w \<and> vector_le w v \<longleftrightarrow> (\<forall>d. counter v d = counter w d)"
  by (auto simp: vector_le_def intro: antisym)

section \<open>Joining and advancing\<close>

lemma counter_put [simp]: "counter (amap_put d (JsNum c) v) device = (if device = d then c else counter v device)"
  by (simp add: counter_def)

lemma vector_ok_put: "vector_ok v \<Longrightarrow> 0 \<le> c \<Longrightarrow> vector_ok (amap_put d (JsNum c) v)"
  using set_amap_put [of d "JsNum c" v] by (auto simp: vector_ok_def asc_keys_put list_all_iff)

lemma joined_vector_spec:
  assumes "vector_ok v" and "vector_ok w"
  shows "vector_ok (joined_vector v w) \<and> (\<forall>device. counter (joined_vector v w) device = max (counter v device) (counter w device))"
  using assms
proof (induction w arbitrary: v)
  case Nil
  have "counter [] device = 0" for device by (simp add: counter_def)
  then show ?case using Nil counter_nonneg by (simp add: joined_vector_def max_absorb1)
next
  case (Cons x w)
  obtain d c where x: "x = (d, c)" by (cases x)
  define v' where "v' = amap_put d (JsNum (max (counter v d) (to_double 0 (Some c)))) v"
  have w: "vector_ok w" using Cons.prems(2) by (simp add: vector_ok_def)
  have nonneg: "0 \<le> to_double 0 (Some c)" using Cons.prems(2) x by (simp add: vector_ok_def)
  then have ok: "vector_ok v'" unfolding v'_def using Cons.prems(1) by (intro vector_ok_put) (simp_all add: le_max_iff_disj)
  have step: "joined_vector v (x # w) = joined_vector v' w" by (simp add: joined_vector_def v'_def x)
  have "d \<notin> fst ` set w" using Cons.prems(2) x by (auto simp: vector_ok_def)
  then have absent: "counter w d = 0" by (rule counter_absent)
  have head: "counter (x # w) device = (if device = d then to_double 0 (Some c) else counter w device)" for device
    by (simp add: counter_def x)
  show ?case
    using Cons.IH [OF ok w] counter_nonneg [OF Cons.prems(1), of d] nonneg
    unfolding step by (auto simp: v'_def head absent max_def)
qed

lemma advance_spec:
  assumes "advance device r = Inr r'" and "vector_ok (vector_of r)"
  shows "vector_ok (vector_of r')"
    "counter (vector_of r') d = (if d = device then counter (vector_of r) d + 1 else counter (vector_of r) d)"
  using assms counter_nonneg [OF assms(2), of device]
  by (auto simp: advance_def Let_def vector_of_def intro!: vector_ok_put split: if_splits)

lemma advance_frame: "advance device r = Inr r' \<Longrightarrow> name \<noteq> ''version_vector'' \<Longrightarrow> jfield r' name = jfield r name"
  by (auto simp: advance_def Let_def split: if_splits)

lemma advance_asc: "advance device r = Inr r' \<Longrightarrow> asc_keys r \<Longrightarrow> asc_keys r'"
  by (auto simp: advance_def Let_def asc_keys_jput split: if_splits)

section \<open>Valid vectors\<close>

definition counter_valid :: "qstring \<times> json \<Rightarrow> bool" where
  "counter_valid x \<longleftrightarrow>
     (let c = to_double (- 1) (Some (snd x)) in
      valid_uuid (fst x) \<and> 1 \<le> c \<and> c \<le> max_counter \<and> of_int \<lfloor>c\<rfloor> = c)"

lemma valid_vector_alt:
  "valid_vector value \<longleftrightarrow>
     is_obj value \<and> to_obj value \<noteq> [] \<and> length (to_obj value) \<le> 256 \<and> list_all counter_valid (to_obj value)"
  by (simp add: valid_vector_def counter_valid_def list_all_iff Let_def split_beta)

lemma counter_valid_int: "counter_valid (device, JsNum (of_int n)) \<longleftrightarrow> valid_uuid device \<and> 1 \<le> n \<and> n \<le> 9007199254740991"
proof -
  have "(of_int n :: rat) \<le> 9007199254740991 \<longleftrightarrow> n \<le> 9007199254740991"
    using of_int_le_iff [of n 9007199254740991, where 'a = rat] by simp
  then show ?thesis by (simp add: counter_valid_def max_counter_def)
qed

lemma counter_valid_num:
  assumes "counter_valid (device, c)"
  obtains n where "c = JsNum (of_int n)" and "1 \<le> n" and "n \<le> 9007199254740991" and "valid_uuid device"
proof (cases c)
  case (JsNum r)
  have "r = of_int \<lfloor>r\<rfloor>" using assms JsNum unfolding counter_valid_def Let_def by auto
  then have c: "c = JsNum (of_int \<lfloor>r\<rfloor>)" using JsNum by simp
  then show ?thesis using that [OF c] assms unfolding c counter_valid_int by simp
qed (use assms in \<open>simp_all add: counter_valid_def\<close>)

lemma counter_valid_nonneg: "counter_valid (device, c) \<Longrightarrow> 0 \<le> to_double 0 (Some c)"
  by (erule counter_valid_num) simp

lemma valid_vector_ok:
  assumes "valid_vector value" and "asc_keys (to_obj value)"
  shows "vector_ok (to_obj value)"
  using assms counter_valid_nonneg by (force simp: valid_vector_alt vector_ok_def list_all_iff)

lemma amap_put_ne: "amap_put k v m \<noteq> []"
  by (cases m) (auto split: if_splits)

lemma length_amap_put:
  "asc_keys m \<Longrightarrow> length (amap_put k v m) = (if map_of m k = None then Suc (length m) else length m)"
  using length_asc_insert [of "map fst m" k] keys_amap_put [of k v m]
  by (metis length_map map_of_eq_None_iff set_map)

lemma advance_valid:
  assumes "advance device r = Inr r'" and "valid_uuid device" and "asc_keys (vector_of r)"
    and "length (vector_of r) \<le> 256" and "list_all counter_valid (vector_of r)"
  shows "valid_vector (jfield r' ''version_vector'')"
proof -
  define v where "v = vector_of r"
  have c: "counter v device < max_counter" "length v \<noteq> 256 \<or> map_of v device \<noteq> None"
    and r': "jfield r' ''version_vector'' = Some (JsObj (amap_put device (JsNum (counter v device + 1)) v))"
    using assms(1) by (auto simp: advance_def Let_def v_def split: if_splits)
  have "\<exists>n. counter v device = of_int n \<and> 0 \<le> n"
  proof (cases "map_of v device")
    case (Some x)
    then have "counter_valid (device, x)" using assms(5) map_of_SomeD [OF Some] by (auto simp: v_def list_all_iff)
    then show ?thesis using Some by (metis counter_def counter_valid_num int_one_le_iff_zero_less less_imp_le to_double.simps(1))
  qed (auto simp: counter_def intro!: exI [of _ 0])
  then obtain n where n: "counter v device = of_int n" "0 \<le> n" by blast
  then have "n < 9007199254740991" using c(1) unfolding max_counter_def by linarith
  then have new: "counter_valid (device, JsNum (counter v device + 1))"
    using n assms(2) counter_valid_int [of device "n + 1"] by simp
  have "list_all counter_valid (amap_put device (JsNum (counter v device + 1)) v)"
    using set_amap_put [of device _ v] new assms(5) by (fastforce simp: v_def list_all_iff)
  moreover have "length (amap_put device (JsNum (counter v device + 1)) v) \<le> 256"
    using length_amap_put [of v device] assms(3,4) c(2) by (auto simp: v_def)
  moreover have "amap_put device (JsNum (counter v device + 1)) v \<noteq> []" by (rule amap_put_ne)
  ultimately show ?thesis by (simp add: r' valid_vector_alt)
qed

lemma joined_valid:
  assumes "list_all counter_valid v" and "list_all counter_valid w"
  shows "list_all counter_valid (joined_vector v w)"
  using assms
proof (induction w arbitrary: v)
  case (Cons x w)
  obtain d c where x: "x = (d, c)" by (cases x)
  have c: "counter_valid (d, c)" using Cons.prems(2) x by simp
  have "counter_valid (d, JsNum (max (counter v d) (to_double 0 (Some c))))"
  proof (cases "map_of v d")
    case (Some y)
    then have "counter_valid (d, y)" using Cons.prems(1) map_of_SomeD [OF Some] by (auto simp: list_all_iff)
    then show ?thesis using c Some by (auto simp: counter_def max_def counter_valid_int elim!: counter_valid_num)
  next
    case None
    then show ?thesis using c by (auto simp: counter_def max_def counter_valid_int elim!: counter_valid_num)
  qed
  then have "list_all counter_valid (amap_put d (JsNum (max (counter v d) (to_double 0 (Some c)))) v)"
    using set_amap_put [of d "JsNum (max (counter v d) (to_double 0 (Some c)))" v] Cons.prems(1) unfolding list_all_iff by blast
  from Cons.IH [OF this] show ?case using Cons.prems(2) by (simp add: joined_vector_def x)
qed (simp add: joined_vector_def)

lemma joined_advance_newer:
  assumes "vector_ok (vector_of local)" and "vector_ok (vector_of incoming)"
    and "advance device (jput ''version_vector'' (JsObj (joined_vector (vector_of local) (vector_of incoming))) chosen) = Inr r"
  shows "vector_ok (vector_of r)" "compare_versions r local = After" "compare_versions r incoming = After"
proof -
  define j where "j = joined_vector (vector_of local) (vector_of incoming)"
  have j: "vector_ok j" "\<And>d. counter j d = max (counter (vector_of local) d) (counter (vector_of incoming) d)"
    using joined_vector_spec [OF assms(1,2)] by (simp_all add: j_def)
  have vec: "vector_of (jput ''version_vector'' (JsObj j) chosen) = j" by (simp add: vector_of_def)
  have adv: "advance device (jput ''version_vector'' (JsObj j) chosen) = Inr r" using assms(3) by (simp add: j_def)
  have r: "vector_ok (vector_of r)" "\<And>d. counter (vector_of r) d = counter j d + (if d = device then 1 else 0)"
    using advance_spec [OF adv] j(1) by (simp_all add: vec)
  have above: "vector_le (vector_of a) (vector_of r)" "\<not> vector_le (vector_of r) (vector_of a)"
    if "a = local \<or> a = incoming" for a
  proof -
    show "vector_le (vector_of a) (vector_of r)" using that by (auto simp: vector_le_def r(2) j(2) le_max_iff_disj add_increasing2)
    have "counter (vector_of a) device < counter (vector_of r) device" using that by (auto simp: r(2) j(2) less_max_iff_disj max_def)
    then show "\<not> vector_le (vector_of r) (vector_of a)" by (auto simp: vector_le_def not_le)
  qed
  show "vector_ok (vector_of r)" by (rule r(1))
  show "compare_versions r local = After" "compare_versions r incoming = After"
    using compare_is_order [OF r(1) assms(1)] compare_is_order [OF r(1) assms(2)] above by simp_all
qed

section \<open>Properties\<close>

text \<open>Comparing two records compares their vectors as functions that are 0 for a device
  that is not in them: one is before the other when no counter of it is greater, and they are concurrent when each
  has a greater one. So the comparison is antisymmetric and transitive.\<close>

theorem compare_versions_is_order:
  assumes "vector_ok (vector_of a)" and "vector_ok (vector_of b)" and "vector_ok (vector_of c)"
  shows "(compare_versions a b = Equal \<longleftrightarrow> (\<forall>d. counter (vector_of a) d = counter (vector_of b) d))
    \<and> (compare_versions a b = Before \<longleftrightarrow> compare_versions b a = After)
    \<and> (compare_versions a b = Concurrent \<longleftrightarrow> compare_versions b a = Concurrent)
    \<and> (compare_versions a b = Before \<and> compare_versions b c \<in> {Before, Equal} \<longrightarrow> compare_versions a c = Before)"
proof -
  note ab = compare_is_order [OF assms(1,2)] and ba = compare_is_order [OF assms(2,1)]
    and bc = compare_is_order [OF assms(2,3)] and ac = compare_is_order [OF assms(1,3)]
  have "compare_versions a c = Before" if less: "compare_versions a b = Before" "compare_versions b c \<in> {Before, Equal}"
  proof -
    have le: "vector_le (vector_of a) (vector_of b)" "\<not> vector_le (vector_of b) (vector_of a)"
      "vector_le (vector_of b) (vector_of c)"
      using less ab bc by (auto split: if_splits)
    then have "vector_le (vector_of a) (vector_of c)" "\<not> vector_le (vector_of c) (vector_of a)"
      using vector_le_trans by blast+
    then show ?thesis by (simp add: ac)
  qed
  moreover have "compare_versions a b = Equal \<longleftrightarrow> (\<forall>d. counter (vector_of a) d = counter (vector_of b) d)"
    unfolding vector_le_both [symmetric] ab by simp
  ultimately show ?thesis by (simp add: ab ba)
qed

text \<open>A record that resolves a conflict, with the joined vector advanced by this device, is newer
  than both sides, whichever content was chosen, and its vector is valid: no device will see the conflict again.\<close>

theorem resolution_dominates:
  assumes "valid_vector (jfield local ''version_vector'')" and "asc_keys (vector_of local)"
    and "valid_vector (jfield incoming ''version_vector'')" and "asc_keys (vector_of incoming)"
    and "length (joined_vector (vector_of local) (vector_of incoming)) \<le> 256" and "valid_uuid device"
    and "advance device (jput ''version_vector'' (JsObj (joined_vector (vector_of local) (vector_of incoming))) chosen) = Inr r"
  shows "compare_versions r local = After \<and> compare_versions r incoming = After
    \<and> valid_vector (jfield r ''version_vector'')"
proof -
  have ok: "vector_ok (vector_of local)" "vector_ok (vector_of incoming)"
    using valid_vector_ok assms(1-4) by (simp_all add: vector_of_def)
  have "asc_keys (joined_vector (vector_of local) (vector_of incoming))"
    using joined_vector_spec [OF ok] by (simp add: vector_ok_def)
  then have "valid_vector (jfield r ''version_vector'')"
    using advance_valid [OF assms(7,6)] assms(1,3,5) joined_valid by (simp add: valid_vector_alt vector_of_def)
  then show ?thesis using joined_advance_newer [OF ok assms(7)] by simp
qed

text \<open>Two devices; the second changed the record without knowing the change of the first.\<close>

definition sample_device :: qstring where
  "sample_device = latin ''00000000-0000-4000-8000-000000000001''"

definition sample_other :: qstring where
  "sample_other = latin ''00000000-0000-4000-8000-000000000002''"

definition versioned :: "(qstring \<times> int) list \<Rightarrow> json_object" where
  "versioned v = [(latin ''version_vector'', JsObj (map (\<lambda>(d, n). (d, JsNum (of_int n))) v))]"

lemma vector_of_versioned [simp]: "vector_of (versioned v) = map (\<lambda>(d, n). (d, JsNum (of_int n))) v"
  by (simp add: versioned_def vector_of_def jfield_def)

lemma jfield_versioned [simp]: "jfield (versioned v) ''version_vector'' = Some (JsObj (map (\<lambda>(d, n). (d, JsNum (of_int n))) v))"
  by (simp add: versioned_def jfield_def)

lemma sample_devices: "valid_uuid sample_device" "valid_uuid sample_other" "sample_device < sample_other"
  "sample_device \<noteq> sample_other"
  by code_simp+

theorem compare_versions_is_order_witness:
  "compare_versions (versioned [(sample_device, 1)]) (versioned [(sample_device, 2), (sample_other, 1)]) = Before"
proof -
  have ok: "vector_ok (vector_of (versioned [(sample_device, 1)]))" "vector_ok (vector_of (versioned [(sample_device, 2)]))"
    "vector_ok (vector_of (versioned [(sample_device, 2), (sample_other, 1)]))"
    using sample_devices by (simp_all add: vector_ok_def)
  have "compare_versions (versioned [(sample_device, 1)]) (versioned [(sample_device, 2)]) = Before"
    "compare_versions (versioned [(sample_device, 2)]) (versioned [(sample_device, 2), (sample_other, 1)]) = Before"
    using sample_devices(4) by (simp_all add: compare_versions_def counter_def)
  then show ?thesis using compare_versions_is_order [OF ok] by simp
qed

theorem resolution_dominates_witness:
  "compare_versions (versioned [(sample_device, 2), (sample_other, 1)]) (versioned [(sample_other, 1)]) = After"
proof -
  have local: "valid_vector (jfield (versioned [(sample_device, 1)]) ''version_vector'')"
    "asc_keys (vector_of (versioned [(sample_device, 1)]))"
    using sample_devices(1) counter_valid_int [of sample_device 1] by (simp_all add: valid_vector_alt)
  have incoming: "valid_vector (jfield (versioned [(sample_other, 1)]) ''version_vector'')"
    "asc_keys (vector_of (versioned [(sample_other, 1)]))"
    using sample_devices(2) counter_valid_int [of sample_other 1] by (simp_all add: valid_vector_alt)
  have joined: "joined_vector (vector_of (versioned [(sample_device, 1)])) (vector_of (versioned [(sample_other, 1)]))
      = [(sample_device, JsNum 1), (sample_other, JsNum 1)]"
    using sample_devices(3,4) by (simp add: joined_vector_def counter_def)
  have "advance sample_device (jput ''version_vector'' (JsObj [(sample_device, JsNum 1), (sample_other, JsNum 1)]) (versioned []))
      = Inr (versioned [(sample_device, 2), (sample_other, 1)])"
    using sample_devices(4) by (simp add: advance_def vector_of_def counter_def max_counter_def jput_def versioned_def jfield_def Let_def)
  note adv = this [folded joined]
  have small: "length (joined_vector (vector_of (versioned [(sample_device, 1)])) (vector_of (versioned [(sample_other, 1)]))) \<le> 256"
    unfolding joined by simp
  show ?thesis using resolution_dominates [OF local incoming small sample_devices(1) adv] by blast
qed

end
