(* ===== verification/StoreMerge.thy ===== *)
theory StoreMerge
  imports StoreVersions
begin

text \<open>
  Merging the metadata of local data (\<open>storage/local_data_store.cpp\<close>): the fields of an object beside its records.
  Fields of the other side that do not fit are kept as variants in fields of the object itself, the bookkeeping
  fields, which \<open>SemanticValue\<close> leaves out.
\<close>

section \<open>Bookkeeping fields\<close>

definition metadata_variants :: qstring where
  "metadata_variants = latin ''_telegravim_metadata_variants''"

definition opaque_variants :: qstring where
  "opaque_variants = latin ''_telegravim_opaque_variants''"

definition conflict_versions :: qstring where
  "conflict_versions = latin ''_telegravim_conflict_versions''"

definition resolutions :: qstring where
  "resolutions = latin ''_telegravim_resolutions''"

definition bookkeeping_field :: "qstring \<Rightarrow> bool" where
  "bookkeeping_field k \<longleftrightarrow> k = metadata_variants \<or> k = opaque_variants \<or> k = conflict_versions \<or> k = resolutions"

fun semantic_value :: "json \<Rightarrow> json" where
  "semantic_value (JsObj m) = JsObj (map (\<lambda>(k, v). (k, semantic_value v)) (filter (\<lambda>(k, v). \<not> bookkeeping_field k) m))"
| "semantic_value (JsArr vs) = JsArr (map semantic_value vs)"
| "semantic_value v = v"

section \<open>Merging\<close>

definition add_missing :: "json list \<Rightarrow> json list \<Rightarrow> json list" where
  "add_missing combined values = foldl (\<lambda>vs v. if v \<in> set vs then vs else vs @ [v]) combined values"

definition metadata_variant :: "qstring \<Rightarrow> json \<Rightarrow> json" where
  "metadata_variant k v = JsObj (jput ''value'' v (jput ''field'' (JsStr k) []))"

definition merge_field :: "qstring \<Rightarrow> json \<Rightarrow> json_object \<Rightarrow> json_object" where
  "merge_field k v local =
     (case map_of local k of
        None \<Rightarrow> amap_put k v local
      | Some old \<Rightarrow>
          if bookkeeping_field k \<and> is_arr (Some old) \<and> is_arr (Some v)
          then amap_put k (JsArr (add_missing (to_arr (Some old)) (to_arr (Some v)))) local
          else if old \<noteq> v
          then amap_put metadata_variants
            (JsArr (add_missing (to_arr (map_of local metadata_variants)) [metadata_variant k v])) local
          else local)"

definition merge_extra :: "json_object \<Rightarrow> json_object \<Rightarrow> json_object" where
  "merge_extra local incoming = foldl (\<lambda>local (k, v). merge_field k v local) local incoming"

datatype conflict_choice = KeepLocal | UseIncoming | KeepBoth

definition resolve_metadata :: "json_object \<Rightarrow> json_object \<Rightarrow> conflict_choice \<Rightarrow> json_object" where
  "resolve_metadata local incoming choice =
     (if choice = KeepBoth then merge_extra local incoming
      else
        let selected = (if choice = UseIncoming then incoming else local);
            remainder = (if choice = UseIncoming then local else incoming) in
        merge_extra selected
          (foldl (\<lambda>rest (k, v). if \<not> bookkeeping_field k then amap_remove k rest else rest) remainder selected))"

definition metadata_conflict :: "json_object \<Rightarrow> json_object \<Rightarrow> bool" where
  "metadata_conflict local incoming =
     list_ex (\<lambda>(k, v). \<not> bookkeeping_field k \<and> (case map_of local k of None \<Rightarrow> False | Some w \<Rightarrow> semantic_value w \<noteq> semantic_value v))
       incoming"

section \<open>What a merge keeps\<close>

text \<open>An object whose bookkeeping fields are arrays, as the code writes them.\<close>

definition metadata_ok :: "json_object \<Rightarrow> bool" where
  "metadata_ok m \<longleftrightarrow> asc_keys m \<and> (\<forall>k v. map_of m k = Some v \<longrightarrow> bookkeeping_field k \<longrightarrow> is_arr (Some v))"

text \<open>The field is in the object, as its value or among the variants.\<close>

definition absorbed :: "qstring \<Rightarrow> json \<Rightarrow> json_object \<Rightarrow> bool" where
  "absorbed k v m \<longleftrightarrow>
     (if bookkeeping_field k then map_of m k \<noteq> None \<and> set (to_arr (Some v)) \<subseteq> set (to_arr (map_of m k))
      else map_of m k = Some v
        \<or> (map_of m k \<noteq> None \<and> metadata_variant k v \<in> set (to_arr (map_of m metadata_variants))))"

lemma add_missing_set [simp]: "set (add_missing xs ys) = set xs \<union> set ys"
  unfolding add_missing_def by (induction ys arbitrary: xs) auto

lemma add_missing_same: "set ys \<subseteq> set xs \<Longrightarrow> add_missing xs ys = xs"
  unfolding add_missing_def by (induction ys) auto

lemma variants_bookkeeping [simp]: "bookkeeping_field metadata_variants"
  by (simp add: bookkeeping_field_def)

lemma is_arr_cases: "is_arr (Some v) \<longleftrightarrow> (\<exists>xs. v = JsArr xs)"
  by (cases v) auto

lemma metadata_ok_put:
  "metadata_ok m \<Longrightarrow> (bookkeeping_field k \<Longrightarrow> is_arr (Some v)) \<Longrightarrow> metadata_ok (amap_put k v m)"
  by (auto simp: metadata_ok_def asc_keys_put)

lemma metadata_ok_arr: "metadata_ok m \<Longrightarrow> map_of m k = Some v \<Longrightarrow> bookkeeping_field k \<Longrightarrow> \<exists>xs. v = JsArr xs"
  unfolding metadata_ok_def is_arr_cases [symmetric] by blast

lemma merge_field_ok:
  assumes "metadata_ok m" and "bookkeeping_field k \<Longrightarrow> is_arr (Some v)"
  shows "metadata_ok (merge_field k v m)"
  using assms by (auto simp: merge_field_def intro!: metadata_ok_put split: option.splits)

lemma merge_field_value:
  "\<not> bookkeeping_field k' \<Longrightarrow> map_of m k' = Some w \<Longrightarrow> map_of (merge_field k v m) k' = Some w"
  by (auto simp: merge_field_def split: option.splits)

lemma merge_field_array:
  assumes "metadata_ok m" and "bookkeeping_field k \<Longrightarrow> is_arr (Some v)" and "bookkeeping_field k'"
  shows "set (to_arr (map_of m k')) \<subseteq> set (to_arr (map_of (merge_field k v m) k'))"
proof (cases "map_of m k")
  case (Some old)
  show ?thesis using Some by (auto simp: merge_field_def)
qed (auto simp: merge_field_def)

lemma merge_field_present: "map_of m k' \<noteq> None \<Longrightarrow> map_of (merge_field k v m) k' \<noteq> None"
  by (auto simp: merge_field_def split: option.splits)

lemma merge_field_absorbs:
  assumes "metadata_ok m" and "bookkeeping_field k \<Longrightarrow> is_arr (Some v)"
  shows "absorbed k v (merge_field k v m)"
proof (cases "map_of m k")
  case None
  then show ?thesis by (simp add: merge_field_def absorbed_def)
next
  case (Some old)
  show ?thesis
  proof (cases "bookkeeping_field k")
    case True
    then have "is_arr (Some old)" "is_arr (Some v)" using assms metadata_ok_arr [OF assms(1) Some] by auto
    then show ?thesis using True Some by (simp add: merge_field_def absorbed_def)
  next
    case False
    then have "k \<noteq> metadata_variants" using variants_bookkeeping by metis
    then show ?thesis using False Some by (simp add: merge_field_def absorbed_def)
  qed
qed

lemma absorbed_kept:
  assumes "absorbed k' w m" and "metadata_ok m" and "bookkeeping_field k \<Longrightarrow> is_arr (Some v)"
  shows "absorbed k' w (merge_field k v m)"
proof -
  have arrays: "set (to_arr (map_of m b)) \<subseteq> set (to_arr (map_of (merge_field k v m) b))" if "bookkeeping_field b" for b
    by (rule merge_field_array [OF assms(2) _ that]) (rule assms(3))
  show ?thesis
    using assms(1) arrays [of k'] arrays [OF variants_bookkeeping] merge_field_value [of k' m w k v]
      merge_field_present [of m k' k v]
    unfolding absorbed_def by (cases "bookkeeping_field k'") (simp_all, blast+)
qed

lemma absorbed_same:
  assumes "absorbed k v m" and "metadata_ok m" and "bookkeeping_field k \<Longrightarrow> is_arr (Some v)"
  shows "merge_field k v m = m"
proof -
  obtain old where old: "map_of m k = Some old" using assms(1) by (auto simp: absorbed_def split: if_splits)
  have asc: "asc_keys m" using assms(2) by (simp add: metadata_ok_def)
  show ?thesis
  proof (cases "bookkeeping_field k")
    case True
    then obtain xs where xs: "old = JsArr xs" using metadata_ok_arr [OF assms(2) old] by blast
    then have "set (to_arr (Some v)) \<subseteq> set xs" using assms(1) True old by (simp add: absorbed_def)
    then show ?thesis using True old xs assms(3) amap_put_same [OF asc] by (simp add: merge_field_def add_missing_same)
  next
    case False
    show ?thesis
    proof (cases "old = v")
      case True
      then show ?thesis using old False by (simp add: merge_field_def)
    next
      case other: False
      then have kept: "metadata_variant k v \<in> set (to_arr (map_of m metadata_variants))"
        using assms(1) False old by (simp add: absorbed_def)
      then obtain u where u: "map_of m metadata_variants = Some u" by (cases "map_of m metadata_variants") auto
      then obtain xs where "u = JsArr xs" using metadata_ok_arr [OF assms(2) u] by auto
      then show ?thesis
        using old False other kept u amap_put_same [OF asc] by (simp add: merge_field_def add_missing_same)
    qed
  qed
qed

definition arrays_kept :: "json_object \<Rightarrow> bool" where
  "arrays_kept m \<longleftrightarrow> (\<forall>(k, v)\<in>set m. bookkeeping_field k \<longrightarrow> is_arr (Some v))"

lemma metadata_arrays: "metadata_ok m \<Longrightarrow> arrays_kept m"
  unfolding metadata_ok_def arrays_kept_def using map_of_is_SomeI asc_keys_distinct by fastforce

lemma merge_extra_spec:
  assumes "metadata_ok m" and "arrays_kept incoming"
  shows "metadata_ok (merge_extra m incoming)
    \<and> (\<forall>(k, v)\<in>set incoming. absorbed k v (merge_extra m incoming))
    \<and> (\<forall>k v. absorbed k v m \<longrightarrow> absorbed k v (merge_extra m incoming))
    \<and> (\<forall>k w. \<not> bookkeeping_field k \<and> map_of m k = Some w \<longrightarrow> map_of (merge_extra m incoming) k = Some w)"
  using assms
proof (induction incoming arbitrary: m)
  case Nil
  then show ?case by (simp add: merge_extra_def)
next
  case (Cons x incoming)
  obtain k v where x: "x = (k, v)" by (cases x)
  have arr: "bookkeeping_field k \<Longrightarrow> is_arr (Some v)" and rest: "arrays_kept incoming"
    using Cons.prems(2) x by (auto simp: arrays_kept_def)
  define m' where "m' = merge_field k v m"
  have step: "merge_extra m (x # incoming) = merge_extra m' incoming" by (simp add: merge_extra_def m'_def x)
  have ok: "metadata_ok m'" unfolding m'_def by (rule merge_field_ok [OF Cons.prems(1) arr])
  note ih = Cons.IH [OF ok rest]
  have "absorbed k v m'" unfolding m'_def by (rule merge_field_absorbs [OF Cons.prems(1) arr])
  moreover have "absorbed k' w m'" if "absorbed k' w m" for k' w
    unfolding m'_def by (rule absorbed_kept [OF that Cons.prems(1) arr])
  moreover have "map_of m' k' = Some w" if "\<not> bookkeeping_field k'" "map_of m k' = Some w" for k' w
    unfolding m'_def by (rule merge_field_value [OF that])
  ultimately show ?case unfolding step using ih x by auto
qed

lemma merge_extra_absorbed:
  "metadata_ok m \<Longrightarrow> arrays_kept incoming \<Longrightarrow> \<forall>(k, v)\<in>set incoming. absorbed k v m \<Longrightarrow> merge_extra m incoming = m"
proof (induction incoming)
  case (Cons x incoming)
  obtain k v where x: "x = (k, v)" by (cases x)
  have "merge_field k v m = m" using Cons.prems x by (intro absorbed_same) (auto simp: arrays_kept_def)
  then show ?case using Cons x by (auto simp: merge_extra_def arrays_kept_def)
qed (simp add: merge_extra_def)

lemma asc_lookup: "asc_keys m \<Longrightarrow> (k, v) \<in> set m \<Longrightarrow> map_of m k = Some v"
  by (rule map_of_is_SomeI [OF asc_keys_distinct])

lemma absorbed_self: "asc_keys m \<Longrightarrow> (k, v) \<in> set m \<Longrightarrow> absorbed k v m"
  using asc_lookup [of m k v] by (simp add: absorbed_def)

lemma removed_arrays:
  "arrays_kept rest \<Longrightarrow>
    arrays_kept (foldl (\<lambda>rest (k, v). if \<not> bookkeeping_field k then amap_remove k rest else rest) rest selected)"
proof (induction selected arbitrary: rest)
  case (Cons x selected)
  have "arrays_kept (amap_remove k rest)" for k using Cons.prems by (auto simp: arrays_kept_def amap_remove_def)
  then show ?case using Cons by (auto split: prod.splits)
qed simp

section \<open>Properties\<close>

text \<open>C20: merging metadata keeps every field of this side, and of the other side every field is
  found again: as the value of the field, among its variants when the values differ, and entry by entry for the
  bookkeeping arrays.\<close>

theorem merge_extra_loses_nothing:
  assumes "metadata_ok local" and "metadata_ok incoming"
  shows "metadata_ok (merge_extra local incoming)
    \<and> (\<forall>k v. \<not> bookkeeping_field k \<and> map_of local k = Some v \<longrightarrow> map_of (merge_extra local incoming) k = Some v)
    \<and> (\<forall>(k, v)\<in>set local \<union> set incoming. absorbed k v (merge_extra local incoming))"
proof -
  note spec = merge_extra_spec [OF assms(1) metadata_arrays [OF assms(2)]]
  have "asc_keys local" using assms(1) by (simp add: metadata_ok_def)
  then show ?thesis using spec absorbed_self by blast
qed

text \<open>Merging the same metadata again changes nothing.\<close>

theorem merge_extra_idempotent:
  assumes "metadata_ok local" and "metadata_ok incoming"
  shows "merge_extra (merge_extra local incoming) incoming = merge_extra local incoming"
  using merge_extra_spec [OF assms(1) metadata_arrays [OF assms(2)]] metadata_arrays [OF assms(2)]
  by (intro merge_extra_absorbed) auto

text \<open>Resolving a conflict of metadata gives the fields the values of the chosen side; keeping
  both gives them the values of this side, and every value of the other is found again.\<close>

theorem resolution_takes_the_chosen:
  assumes "metadata_ok local" and "metadata_ok incoming"
  shows "(\<forall>k v. \<not> bookkeeping_field k \<and> map_of (if choice = UseIncoming then incoming else local) k = Some v
        \<longrightarrow> map_of (resolve_metadata local incoming choice) k = Some v)
    \<and> metadata_ok (resolve_metadata local incoming choice)
    \<and> (choice = KeepBoth \<longrightarrow> (\<forall>(k, v)\<in>set incoming. absorbed k v (resolve_metadata local incoming choice)))"
proof -
  have arr: "arrays_kept local" "arrays_kept incoming" using metadata_arrays assms by blast+
  show ?thesis
    using merge_extra_spec [OF assms(1) arr(2)] merge_extra_spec [OF assms(1) removed_arrays [OF arr(2), of local]]
      merge_extra_spec [OF assms(2) removed_arrays [OF arr(1), of incoming]]
    by (cases choice) (simp_all add: resolve_metadata_def)
qed

text \<open>Two sides that disagree on one field.\<close>

definition sample_local :: json_object where
  "sample_local = [(latin ''color'', JsNum 1)]"

definition sample_incoming :: json_object where
  "sample_incoming = [(latin ''color'', JsNum 2), (latin ''title'', JsNull)]"

lemma sample_fields_plain: "\<not> bookkeeping_field (latin ''color'')" "\<not> bookkeeping_field (latin ''title'')"
  by (simp_all add: bookkeeping_field_def metadata_variants_def opaque_variants_def conflict_versions_def resolutions_def
      latin_eq_iff)

lemma sample_sides_ok: "metadata_ok sample_local" "metadata_ok sample_incoming"
proof -
  have "latin ''color'' < latin ''title''" by code_simp
  then show "metadata_ok sample_local" "metadata_ok sample_incoming"
    using sample_fields_plain by (auto simp: metadata_ok_def sample_local_def sample_incoming_def split: if_splits)
qed

theorem merge_extra_loses_nothing_witness: "map_of (merge_extra sample_local sample_incoming) (latin ''color'') = Some (JsNum 1)"
  using merge_extra_loses_nothing [OF sample_sides_ok] sample_fields_plain(1) by (simp add: sample_local_def)

theorem merge_extra_idempotent_witness:
  "merge_extra (merge_extra sample_local sample_incoming) sample_incoming = merge_extra sample_local sample_incoming"
  by (rule merge_extra_idempotent [OF sample_sides_ok])

theorem resolution_takes_the_chosen_witness:
  "map_of (resolve_metadata sample_local sample_incoming UseIncoming) (latin ''color'') = Some (JsNum 2)"
  using resolution_takes_the_chosen [OF sample_sides_ok, of UseIncoming] sample_fields_plain(1) by (simp add: sample_incoming_def)

end
