(* ===== verification/StoreRecords.thy ===== *)
theory StoreRecords
  imports StoreMerge PinnedRecords
begin

text \<open>
  Changing the records of a module (\<open>Store::mutateWithAssets\<close> and \<open>NormalizeBindings\<close> in
  \<open>storage/local_data_store.cpp\<close>): records get an identity and a version, removed ones stay as deleted, and of the
  bindings of a saved tag to a message one stays active.
\<close>

section \<open>Loops that may fail\<close>

fun sum_fold :: "('s \<Rightarrow> 'x \<Rightarrow> 'e + 's) \<Rightarrow> 's \<Rightarrow> 'x list \<Rightarrow> 'e + 's" where
  "sum_fold f s [] = Inr s"
| "sum_fold f s (x # xs) = (case f s x of Inl e \<Rightarrow> Inl e | Inr s' \<Rightarrow> sum_fold f s' xs)"

lemma sum_fold_keeps:
  assumes "sum_fold f s xs = Inr t" and "P s" and "\<And>s x s'. P s \<Longrightarrow> x \<in> set xs \<Longrightarrow> f s x = Inr s' \<Longrightarrow> P s'"
  shows "P t"
  using assms
proof (induction xs arbitrary: s)
  case (Cons x xs)
  obtain s' where s': "f s x = Inr s'" "sum_fold f s' xs = Inr t" using Cons.prems(1) by (cases "f s x") simp_all
  show ?case
  proof (rule Cons.IH [OF s'(2)])
    show "P s'" by (rule Cons.prems(3) [OF Cons.prems(2) _ s'(1)]) simp
    show "P v" if "P u" "y \<in> set xs" "f u y = Inr v" for u y v
      by (rule Cons.prems(3) [OF that(1) _ that(3)]) (simp add: that(2))
  qed
qed simp

section \<open>Records\<close>

definition records_of :: "json_object \<Rightarrow> (qstring \<times> json_object) list" where
  "records_of m = foldl (\<lambda>rs v. amap_put (record_id (obj v)) (obj v) rs) [] (module_records m)"

definition set_records :: "(qstring \<times> json_object) list \<Rightarrow> json_object \<Rightarrow> json_object" where
  "set_records records m = jput ''records'' (JsArr (map (\<lambda>(k, r). JsObj r) records)) m"

definition collect_record ::
  "qstring \<Rightarrow> (nat \<Rightarrow> qstring) \<Rightarrow> (qstring \<times> json_object) list \<Rightarrow> (qstring \<times> json_object) list \<Rightarrow> nat \<times> json
    \<Rightarrow> store_failure + (qstring \<times> json_object) list" where
  "collect_record device fresh previous after entry =
     (let r0 = obj (snd entry);
          i = (if record_id r0 = [] then fresh (fst entry) else record_id r0);
          r1 = (if record_id r0 = [] then jput ''id'' (JsStr i) r0 else r0) in
      if \<not> valid_uuid i \<or> map_of after i \<noteq> None
      then Inl (Invalid, latin ''Duplicate or invalid record identity.'')
      else
        let r2 = (if jfield r1 ''deleted'' = None then jput ''deleted'' (JsBool False) r1 else r1) in
        if map_of previous i = Some r2 then Inr (amap_put i r2 after)
        else
          let old = (case map_of previous i of None \<Rightarrow> [] | Some p \<Rightarrow> vector_of p) in
          (case advance device (jput ''version_vector'' (JsObj old) r2) of
             Inl e \<Rightarrow> Inl e
           | Inr r3 \<Rightarrow> Inr (amap_put i r3 after)))"

definition keep_removed ::
  "qstring \<Rightarrow> (qstring \<times> json_object) list \<Rightarrow> qstring \<times> json_object \<Rightarrow> store_failure + (qstring \<times> json_object) list" where
  "keep_removed device after entry =
     (let (i, r) = entry in
      if map_of after i \<noteq> None then Inr after
      else if to_bool (jfield r ''deleted'') then Inr (amap_put i r after)
      else
        (case advance device (jput ''deleted'' (JsBool True) r) of
           Inl e \<Rightarrow> Inl e
         | Inr r' \<Rightarrow> Inr (amap_put i r' after)))"

section \<open>Bindings of saved tags\<close>

definition active_binding :: "json_object \<Rightarrow> bool" where
  "active_binding r \<longleftrightarrow> record_kind r = latin ''binding'' \<and> \<not> to_bool (jfield r ''deleted'')"

definition binding_tag :: "json_object \<Rightarrow> qstring" where
  "binding_tag r = to_str (jfield r ''tag_id'')"

definition binding_identity :: "json_object \<Rightarrow> qstring" where
  "binding_identity r = binding_tag r @ colon # to_str (jfield (to_obj (jfield r ''message'')) ''message_id'')"

definition retire_binding :: "qstring \<Rightarrow> qstring \<Rightarrow> json_object \<Rightarrow> store_failure + json_object" where
  "retire_binding device duplicate r =
     (let previous = amap_remove conflict_versions r;
          variants = add_missing (to_arr (map_of r conflict_versions)) [JsObj previous];
          r1 = jput ''deleted'' (JsBool True) (amap_put conflict_versions (JsArr variants) r) in
      advance device (if duplicate \<noteq> [] then jput ''_telegravim_duplicate_of'' (JsStr duplicate) r1 else r1))"

definition record_of :: "(qstring \<times> json_object) list \<Rightarrow> qstring \<Rightarrow> json_object" where
  "record_of records i = (case map_of records i of None \<Rightarrow> [] | Some r \<Rightarrow> r)"

definition normalize_binding ::
  "qstring \<Rightarrow> (qstring \<times> json_object) list \<times> (qstring \<times> qstring) list \<Rightarrow> qstring
    \<Rightarrow> store_failure + (qstring \<times> json_object) list \<times> (qstring \<times> qstring) list" where
  "normalize_binding device s i =
     (let (records, active) = s; r = record_of records i in
      if \<not> active_binding r then Inr (records, active)
      else
        let duplicate = (case map_of active (binding_identity r) of None \<Rightarrow> [] | Some k \<Rightarrow> k) in
        if to_bool (jfield (record_of records (binding_tag r)) ''deleted'') \<or> duplicate \<noteq> [] then
          (case retire_binding device duplicate r of
             Inl e \<Rightarrow> Inl e
           | Inr r' \<Rightarrow> Inr (amap_put i r' records, active))
        else Inr (records, amap_put (binding_identity r) i active))"

definition normalize_records ::
  "qstring \<Rightarrow> (qstring \<times> json_object) list \<Rightarrow> store_failure + (qstring \<times> json_object) list" where
  "normalize_records device records =
     map_sum id fst (sum_fold (normalize_binding device) (records, []) (map fst records))"

definition normalize_bindings :: "qstring \<Rightarrow> json_object \<Rightarrow> store_failure + json_object" where
  "normalize_bindings device m =
     (if to_str (jfield m ''module_id'') \<noteq> latin ''saved_tags''
        \<or> (to_int (jfield m ''schema_version'') \<noteq> 1 \<and> to_int (jfield m ''schema_version'') \<noteq> 2)
      then Inr m
      else map_sum id (\<lambda>records. set_records records m) (normalize_records device (records_of m)))"

section \<open>The change of a module\<close>

definition stored_records ::
  "qstring \<Rightarrow> (nat \<Rightarrow> qstring) \<Rightarrow> json_object \<Rightarrow> json_object \<Rightarrow> store_failure + (qstring \<times> json_object) list" where
  "stored_records device fresh before m =
     (case sum_fold (collect_record device fresh (records_of before)) [] (enumerate 0 (module_records m)) of
        Inl e \<Rightarrow> Inl e
      | Inr after \<Rightarrow> sum_fold (keep_removed device) after (records_of before))"

text \<open>No change: \<open>Inr None\<close>.\<close>

definition mutate_module ::
  "qstring \<Rightarrow> (nat \<Rightarrow> qstring) \<Rightarrow> bool \<Rightarrow> (json_object \<Rightarrow> store_failure + json_object) \<Rightarrow> json_object
    \<Rightarrow> store_failure + json_object option" where
  "mutate_module device fresh with_assets change before =
     (case change before of
        Inl e \<Rightarrow> Inl e
      | Inr m \<Rightarrow>
          if m = before \<and> \<not> with_assets then Inr None
          else
            (case stored_records device fresh before m of
               Inl e \<Rightarrow> Inl e
             | Inr after \<Rightarrow> map_sum id Some (normalize_bindings device (set_records after m))))"

section \<open>Records as a sorted map\<close>

definition records_sorted :: "(qstring \<times> json_object) list \<Rightarrow> bool" where
  "records_sorted rs \<longleftrightarrow> asc_keys rs \<and> (\<forall>(i, r)\<in>set rs. record_id r = i)"

lemma records_sorted_lookup: "records_sorted rs \<Longrightarrow> map_of rs i = Some r \<Longrightarrow> record_id r = i"
  by (auto simp: records_sorted_def dest!: map_of_SomeD)

lemma records_sorted_put: "records_sorted rs \<Longrightarrow> record_id r = i \<Longrightarrow> records_sorted (amap_put i r rs)"
  using set_amap_put [of i r rs] by (auto simp: records_sorted_def asc_keys_put)

lemma records_of_sorted: "records_sorted (records_of m)"
proof -
  have "records_sorted (foldl (\<lambda>rs v. amap_put (record_id (obj v)) (obj v) rs) rs vs)" if "records_sorted rs" for rs vs
    using that by (induction vs arbitrary: rs) (simp_all add: records_sorted_put)
  moreover have "records_sorted []" by (simp add: records_sorted_def)
  ultimately show ?thesis unfolding records_of_def by blast
qed

lemma amap_put_last: "(\<forall>k'\<in>fst ` set m. k' < k) \<Longrightarrow> amap_put k v m = m @ [(k, v)]"
  by (induction m) (auto dest: less_asym)

lemma put_all_sorted:
  "asc_keys (xs @ ys) \<Longrightarrow> foldl (\<lambda>rs (k, r). amap_put k r rs) xs ys = xs @ ys"
proof (induction ys arbitrary: xs)
  case (Cons y ys)
  obtain k r where y: "y = (k, r)" by (cases y)
  have "\<forall>k'\<in>fst ` set xs. k' < k" using Cons.prems y by (auto simp: sorted_wrt_append)
  then have "amap_put k r xs = xs @ [(k, r)]" by (rule amap_put_last)
  then show ?case using Cons.IH [of "xs @ [(k, r)]"] Cons.prems y by simp
qed simp

lemma records_of_set_records:
  assumes "records_sorted rs"
  shows "records_of (set_records rs m) = rs"
proof -
  have "foldl (\<lambda>rs v. amap_put (record_id (obj v)) (obj v) rs) acc (map (\<lambda>(k, r). JsObj r) ys)
      = foldl (\<lambda>rs (k, r). amap_put k r rs) acc ys" if "\<forall>(i, r)\<in>set ys. record_id r = i" for acc ys
    using that by (induction ys arbitrary: acc) auto
  from this [of rs "[]"] show ?thesis
    using assms put_all_sorted [of "[]" rs]
    by (simp add: records_of_def set_records_def module_records_def records_sorted_def)
qed

section \<open>Versions only grow\<close>

text \<open>The record is the same, or has a greater vector.\<close>

definition grown :: "json_object \<Rightarrow> json_object \<Rightarrow> bool" where
  "grown r r' \<longleftrightarrow> r' = r
     \<or> (vector_le (vector_of r) (vector_of r') \<and> \<not> vector_le (vector_of r') (vector_of r))"

lemma grown_refl [simp]: "grown r r"
  by (simp add: grown_def)

lemma grown_trans: "grown a b \<Longrightarrow> grown b c \<Longrightarrow> grown a c"
  unfolding grown_def using vector_le_trans by blast

lemma grown_compare:
  "vector_ok (vector_of a) \<Longrightarrow> vector_ok (vector_of b) \<Longrightarrow> grown a b \<Longrightarrow>
    b = a \<or> compare_versions a b = Before"
  using compare_is_order by (auto simp: grown_def)

lemma advance_grown:
  assumes "advance device r' = Inr r''" and "vector_of r' = vector_of r" and "vector_ok (vector_of r)"
  shows "grown r r''" and "vector_ok (vector_of r'')"
proof -
  have ok: "vector_ok (vector_of r')" using assms(2,3) by simp
  note spec = advance_spec [OF assms(1) ok]
  have "counter (vector_of r) device < counter (vector_of r'') device"
    using spec(2) assms(2) by simp
  then have "\<not> vector_le (vector_of r'') (vector_of r)" by (auto simp: vector_le_def not_le)
  moreover have "vector_le (vector_of r) (vector_of r'')" using spec(2) assms(2) by (simp add: vector_le_def)
  ultimately show "grown r r''" by (simp add: grown_def)
  show "vector_ok (vector_of r'')" by (rule spec(1))
qed

lemma vector_of_jput [simp]: "name \<noteq> ''version_vector'' \<Longrightarrow> vector_of (jput name v r) = vector_of r"
  "vector_of (jput ''version_vector'' (JsObj w) r) = w"
  by (simp_all add: vector_of_def)

lemma record_id_jput [simp]: "name \<noteq> ''id'' \<Longrightarrow> record_id (jput name v r) = record_id r"
  "record_id (jput ''id'' (JsStr i) r) = i"
  by (simp_all add: record_id_def)

lemma record_id_advance: "advance device r = Inr r' \<Longrightarrow> record_id r' = record_id r"
  by (simp add: record_id_def advance_frame)

definition records_versioned :: "(qstring \<times> json_object) list \<Rightarrow> bool" where
  "records_versioned rs \<longleftrightarrow> (\<forall>i r. map_of rs i = Some r \<longrightarrow> vector_ok (vector_of r))"

text \<open>What a step may make of the records that were there.\<close>

definition follows :: "(qstring \<times> json_object) list \<Rightarrow> (qstring \<times> json_object) list \<Rightarrow> bool" where
  "follows previous after \<longleftrightarrow>
     records_sorted after \<and> records_versioned after
     \<and> (\<forall>i r r'. map_of previous i = Some r \<longrightarrow> map_of after i = Some r' \<longrightarrow> grown r r')"

lemma follows_put:
  assumes "follows previous after" and "record_id r' = i" and "vector_ok (vector_of r')"
    and "\<And>r. map_of previous i = Some r \<Longrightarrow> grown r r'"
  shows "follows previous (amap_put i r' after)"
  using assms by (auto simp: follows_def records_versioned_def records_sorted_put)

lemma collect_follows:
  assumes "follows previous after" and "records_versioned previous"
    and "collect_record device fresh previous after entry = Inr after'"
  shows "follows previous after'"
proof -
  define r0 where "r0 = obj (snd entry)"
  define i where "i = (if record_id r0 = [] then fresh (fst entry) else record_id r0)"
  define r1 where "r1 = (if record_id r0 = [] then jput ''id'' (JsStr i) r0 else r0)"
  define r2 where "r2 = (if jfield r1 ''deleted'' = None then jput ''deleted'' (JsBool False) r1 else r1)"
  define adv where "adv = advance device (jput ''version_vector'' (JsObj (case map_of previous i of None \<Rightarrow> [] | Some p \<Rightarrow> vector_of p)) r2)"
  have step_id: "record_id r2 = i" by (simp add: r2_def r1_def i_def)
  have "collect_record device fresh previous after entry =
      (if \<not> valid_uuid i \<or> map_of after i \<noteq> None then Inl (Invalid, latin ''Duplicate or invalid record identity.'')
       else if map_of previous i = Some r2 then Inr (amap_put i r2 after)
       else (case adv of Inl e \<Rightarrow> Inl e | Inr r3 \<Rightarrow> Inr (amap_put i r3 after)))"
    unfolding adv_def collect_record_def Let_def r0_def [symmetric] i_def [symmetric] r1_def [symmetric] r2_def [symmetric] ..
  then have step: "(map_of previous i = Some r2 \<and> after' = amap_put i r2 after)
      \<or> (\<exists>r3. adv = Inr r3 \<and> after' = amap_put i r3 after)"
    using assms(3) by (auto split: if_splits sum.splits)
  from step show ?thesis
  proof (elim disjE conjE exE)
    assume same: "map_of previous i = Some r2" "after' = amap_put i r2 after"
    then show ?thesis
      using follows_put [OF assms(1) step_id] assms(2) by (auto simp: records_versioned_def)
  next
    fix r3
    let ?old = "case map_of previous i of None \<Rightarrow> [] | Some p \<Rightarrow> vector_of p"
    assume found: "adv = Inr r3" and after: "after' = amap_put i r3 after"
    have adv: "advance device (jput ''version_vector'' (JsObj ?old) r2) = Inr r3" using found by (simp add: adv_def)
    have ok: "vector_ok ?old" using assms(2) by (auto simp: records_versioned_def vector_ok_def split: option.splits)
    have "vector_ok (vector_of r3)" using advance_spec(1) [OF adv] ok by simp
    moreover have "grown r r3" if "map_of previous i = Some r" for r
      using advance_grown(1) [OF adv, of r] that ok by simp
    moreover have "record_id r3 = i" using record_id_advance [OF adv] step_id by simp
    ultimately show ?thesis unfolding after using follows_put [OF assms(1)] by blast
  qed
qed

lemma keep_removed_follows:
  assumes "follows previous after" and "records_versioned previous" and "records_sorted previous"
    and "entry \<in> set previous" and "keep_removed device after entry = Inr after'"
  shows "follows previous after' \<and> map_of after' (fst entry) \<noteq> None
    \<and> (\<forall>j. map_of after j \<noteq> None \<longrightarrow> map_of after' j \<noteq> None)
    \<and> (map_of after (fst entry) = None \<longrightarrow> to_bool (jfield (record_of after' (fst entry)) ''deleted''))"
proof -
  obtain i r where entry: "entry = (i, r)" by (cases entry)
  have found: "map_of previous i = Some r"
    using assms(3,4) asc_lookup [of previous i r] by (simp add: entry records_sorted_def)
  have ok: "vector_ok (vector_of r)" "record_id r = i"
    using found assms(2) records_sorted_lookup [OF assms(3) found] by (auto simp: records_versioned_def)
  have removed: ?thesis if r': "after' = amap_put i r' after" "record_id r' = i" "vector_ok (vector_of r')" "grown r r'"
      "to_bool (jfield r' ''deleted'')" for r'
    using follows_put [OF assms(1) r'(2,3)] r' found by (auto simp: entry record_of_def)
  show ?thesis
  proof (cases "map_of after i = None")
    case False
    then show ?thesis using assms(1,5) by (auto simp: keep_removed_def entry)
  next
    case True
    show ?thesis
    proof (cases "to_bool (jfield r ''deleted'')")
      case deleted: True
      then have after: "after' = amap_put i r after" using assms(5) True by (simp add: keep_removed_def entry)
      show ?thesis by (rule removed [OF after]) (use ok deleted in simp_all)
    next
      case False
      then obtain r' where r': "advance device (jput ''deleted'' (JsBool True) r) = Inr r'" "after' = amap_put i r' after"
        using assms(5) True by (auto simp: keep_removed_def entry split: sum.splits)
      show ?thesis
        by (rule removed [OF r'(2)])
          (use record_id_advance [OF r'(1)] advance_grown [OF r'(1) _ ok(1)] advance_frame [OF r'(1), of "''deleted''"] ok(2)
            in simp_all)
    qed
  qed
qed

lemma follows_start: "follows previous []"
  by (simp add: follows_def records_sorted_def records_versioned_def)

lemma keep_removed_all:
  assumes "follows previous after" and "records_versioned previous" and "records_sorted previous"
    and "set xs \<subseteq> set previous" and "sum_fold (keep_removed device) after xs = Inr after'"
  shows "follows previous after' \<and> (\<forall>e\<in>set xs. map_of after' (fst e) \<noteq> None)
    \<and> (\<forall>j. map_of after j \<noteq> None \<longrightarrow> map_of after' j \<noteq> None)"
  using assms(1,4,5)
proof (induction xs arbitrary: after)
  case (Cons x xs)
  obtain mid where mid: "keep_removed device after x = Inr mid" "sum_fold (keep_removed device) mid xs = Inr after'"
    using Cons.prems(3) by (cases "keep_removed device after x") simp_all
  have x: "x \<in> set previous" and xs: "set xs \<subseteq> set previous" using Cons.prems(2) by simp_all
  note step = keep_removed_follows [OF Cons.prems(1) assms(2,3) x mid(1)]
  have "follows previous mid" using step by blast
  note rest = Cons.IH [OF this xs mid(2)]
  show ?case using step rest by auto
qed simp

lemma stored_records_follow:
  assumes "stored_records device fresh before m = Inr after" and "records_versioned (records_of before)"
  shows "follows (records_of before) after \<and> (\<forall>i. map_of (records_of before) i \<noteq> None \<longrightarrow> map_of after i \<noteq> None)"
proof -
  let ?prev = "records_of before"
  obtain mid where mid: "sum_fold (collect_record device fresh ?prev) [] (enumerate 0 (module_records m)) = Inr mid"
      "sum_fold (keep_removed device) mid ?prev = Inr after"
    using assms(1) by (auto simp: stored_records_def split: sum.splits)
  have "follows ?prev mid"
    by (rule sum_fold_keeps [where P = "follows ?prev", OF mid(1) follows_start]) (rule collect_follows [OF _ assms(2)])
  from keep_removed_all [OF this assms(2) records_of_sorted _ mid(2)]
  have "follows ?prev after" "\<forall>e\<in>set ?prev. map_of after (fst e) \<noteq> None" by simp_all
  then show ?thesis using map_of_SomeD by fastforce
qed

section \<open>Normalizing keeps the records\<close>

lemma conflict_versions_jput: "amap_put conflict_versions v r = jput ''_telegravim_conflict_versions'' v r"
  by (simp add: conflict_versions_def jput_def)

lemma retire_grown:
  assumes "retire_binding device duplicate r = Inr r'" and "vector_ok (vector_of r)"
  shows "grown r r'" "vector_ok (vector_of r')" "record_id r' = record_id r" "to_bool (jfield r' ''deleted'')"
    "record_kind r' = record_kind r"
proof -
  define r0 where "r0 = jput ''deleted'' (JsBool True) (amap_put conflict_versions
    (JsArr (add_missing (to_arr (map_of r conflict_versions)) [JsObj (amap_remove conflict_versions r)])) r)"
  define r1 where "r1 = (if duplicate \<noteq> [] then jput ''_telegravim_duplicate_of'' (JsStr duplicate) r0 else r0)"
  have r1: "advance device r1 = Inr r'" "vector_of r1 = vector_of r" "record_id r1 = record_id r"
      "to_bool (jfield r1 ''deleted'')" "record_kind r1 = record_kind r"
    using assms(1) unfolding retire_binding_def Let_def r0_def [symmetric] r1_def [symmetric]
    by (simp_all add: r1_def r0_def conflict_versions_jput record_kind_def)
  show "grown r r'" "vector_ok (vector_of r')" using advance_grown [OF r1(1,2) assms(2)] by simp_all
  show "record_id r' = record_id r" using record_id_advance [OF r1(1)] r1(3) by simp
  show "to_bool (jfield r' ''deleted'')" using advance_frame [OF r1(1), of "''deleted''"] r1(4) by simp
  show "record_kind r' = record_kind r" using advance_frame [OF r1(1), of "''kind''"] r1(5) by (simp add: record_kind_def)
qed

text \<open>The records of the loop: the ones it began with, but for the active bindings it retired.\<close>

definition retired_some :: "(qstring \<times> json_object) list \<Rightarrow> (qstring \<times> json_object) list \<Rightarrow> bool" where
  "retired_some start records \<longleftrightarrow>
     records_sorted records \<and> records_versioned records
     \<and> (\<forall>k. map_of records k = map_of start k
          \<or> (\<exists>r r'. map_of start k = Some r \<and> map_of records k = Some r' \<and> active_binding r \<and> grown r r'
              \<and> \<not> active_binding r'))"

lemma record_of_same: "map_of a k = map_of b k \<Longrightarrow> record_of a k = record_of b k"
  by (simp add: record_of_def)

lemma active_found: "active_binding (record_of records k) \<Longrightarrow> map_of records k = Some (record_of records k)"
  by (auto simp: record_of_def active_binding_def record_kind_def split: option.splits)

lemma retired_active:
  "retired_some start records \<Longrightarrow> active_binding (record_of records k) \<Longrightarrow> map_of records k = map_of start k"
  using active_found [of records k] unfolding retired_some_def by (metis option.inject)

lemma retired_other:
  "retired_some start records \<Longrightarrow> \<not> active_binding (record_of start k) \<Longrightarrow> map_of records k = map_of start k"
  unfolding retired_some_def by (metis option.simps(5) record_of_def)

lemma retire_step:
  assumes "retired_some start records" and "active_binding (record_of records i)"
    and "retire_binding device duplicate (record_of records i) = Inr r'"
  shows "retired_some start (amap_put i r' records)"
proof -
  let ?r = "record_of records i"
  have found: "map_of records i = Some ?r" by (rule active_found [OF assms(2)])
  have sorted: "records_sorted records" "records_versioned records" using assms(1) by (simp_all add: retired_some_def)
  have ok: "vector_ok (vector_of ?r)" "record_id ?r = i"
    using found sorted(2) records_sorted_lookup [OF sorted(1) found] by (auto simp: records_versioned_def)
  note r' = retire_grown [OF assms(3) ok(1)]
  have start: "map_of start i = Some ?r" using retired_active [OF assms(1,2)] found by simp
  have inactive: "\<not> active_binding r'" using r'(4) by (simp add: active_binding_def)
  have "records_sorted (amap_put i r' records)" using sorted(1) r'(3) ok(2) by (intro records_sorted_put) simp_all
  moreover have "records_versioned (amap_put i r' records)" using sorted(2) r'(2) by (auto simp: records_versioned_def)
  ultimately show ?thesis
    using assms(1,2) start r'(1) inactive unfolding retired_some_def by auto
qed

end
