(* ===== verification/StoreBindings.thy ===== *)
theory StoreBindings
  imports StoreRecords
begin

text \<open>
  What a change of a module guarantees (\<open>Store::mutateWithAssets\<close> and \<open>NormalizeBindings\<close> in
  \<open>storage/local_data_store.cpp\<close>): no record is lost, versions only grow, and a message carries an active saved tag
  at most once.
\<close>

section \<open>The loop over the bindings\<close>

text \<open>The record a binding names as its tag is not itself an active binding.\<close>

definition tags_apart :: "(qstring \<times> json_object) list \<Rightarrow> bool" where
  "tags_apart records \<longleftrightarrow>
     (\<forall>k r. map_of records k = Some r \<longrightarrow> active_binding r \<longrightarrow> \<not> active_binding (record_of records (binding_tag r)))"

definition tag_deleted :: "(qstring \<times> json_object) list \<Rightarrow> json_object \<Rightarrow> bool" where
  "tag_deleted records r \<longleftrightarrow> to_bool (jfield (record_of records (binding_tag r)) ''deleted'')"

definition loop_ok ::
  "(qstring \<times> json_object) list \<Rightarrow> qstring set \<Rightarrow> (qstring \<times> json_object) list \<Rightarrow> (qstring \<times> qstring) list \<Rightarrow> bool" where
  "loop_ok start seen records active \<longleftrightarrow>
     retired_some start records \<and> (\<forall>k. k \<notin> seen \<longrightarrow> map_of records k = map_of start k)
     \<and> (\<forall>k\<in>seen. active_binding (record_of records k) \<longrightarrow>
          map_of active (binding_identity (record_of records k)) = Some k \<and> \<not> tag_deleted records (record_of records k))"

lemma tag_kept:
  assumes "retired_some start records" and "tags_apart start" and "active_binding (record_of records k)"
  shows "tag_deleted records (record_of records k) = tag_deleted start (record_of records k)"
proof -
  have same: "map_of records k = map_of start k" by (rule retired_active [OF assms(1,3)])
  then have "map_of start k = Some (record_of records k)" using active_found [OF assms(3)] by simp
  then have "\<not> active_binding (record_of start (binding_tag (record_of records k)))"
    using assms(2,3) by (simp add: tags_apart_def)
  from retired_other [OF assms(1) this] show ?thesis by (simp add: tag_deleted_def record_of_def)
qed

lemma record_of_put: "record_of (amap_put i r records) k = (if k = i then r else record_of records k)"
  by (simp add: record_of_def)

lemma normalize_step:
  assumes "loop_ok start seen records active" and "tags_apart start" and "i \<notin> seen" and "i \<noteq> []" and "[] \<notin> seen"
    and "normalize_binding device (records, active) i = Inr (records', active')"
  shows "loop_ok start (insert i seen) records' active'"
proof -
  let ?r = "record_of records i"
  have some: "retired_some start records" using assms(1) by (simp add: loop_ok_def)
  show ?thesis
  proof (cases "active_binding ?r")
    case False
    then have "records' = records" "active' = active" using assms(6) by (simp_all add: normalize_binding_def)
    then show ?thesis using assms(1) False by (auto simp: loop_ok_def)
  next
    case True
    define duplicate where "duplicate = (case map_of active (binding_identity ?r) of None \<Rightarrow> [] | Some k \<Rightarrow> k)"
    have step: "normalize_binding device (records, active) i =
        (if tag_deleted records ?r \<or> duplicate \<noteq> []
         then (case retire_binding device duplicate ?r of Inl e \<Rightarrow> Inl e | Inr r' \<Rightarrow> Inr (amap_put i r' records, active))
         else Inr (records, amap_put (binding_identity ?r) i active))"
      using True unfolding normalize_binding_def Let_def prod.case duplicate_def tag_deleted_def by simp
    show ?thesis
    proof (cases "tag_deleted records ?r \<or> duplicate \<noteq> []")
      case retire: True
      then obtain r' where r': "retire_binding device duplicate ?r = Inr r'" "records' = amap_put i r' records" "active' = active"
        using assms(6) step by (auto split: sum.splits)
      have some': "retired_some start records'" unfolding r'(2) by (rule retire_step [OF some True r'(1)])
      have "vector_ok (vector_of ?r)"
        using some active_found [OF True] by (auto simp: retired_some_def records_versioned_def)
      then have gone: "\<not> active_binding r'" using retire_grown(4) [OF r'(1)] by (simp add: active_binding_def)
      have "map_of active (binding_identity (record_of records' k)) = Some k \<and> \<not> tag_deleted records' (record_of records' k)"
        if k: "k \<in> insert i seen" "active_binding (record_of records' k)" for k
      proof -
        have ki: "k \<noteq> i" using k(2) gone r'(2) by (auto simp: record_of_put)
        then have same: "record_of records' k = record_of records k" by (simp add: r'(2) record_of_put)
        have act: "active_binding (record_of records k)" using k(2) same by simp
        have "\<not> tag_deleted records (record_of records k)"
          "map_of active (binding_identity (record_of records k)) = Some k"
          using assms(1) k(1) ki act by (auto simp: loop_ok_def)
        then show ?thesis
          using tag_kept [OF some' assms(2) k(2)] tag_kept [OF some assms(2) act] by (simp add: same)
      qed
      then show ?thesis using assms(1) some' r'(2,3) by (auto simp: loop_ok_def)
    next
      case keep: False
      then have "normalize_binding device (records, active) i = Inr (records, amap_put (binding_identity ?r) i active)"
        by (simp add: step)
      then have "Inr (records', active') = (Inr (records, amap_put (binding_identity ?r) i active)
          :: store_failure + (qstring \<times> json_object) list \<times> (qstring \<times> qstring) list)"
        by (rule trans [OF assms(6) [symmetric]])
      then have new: "records' = records" "active' = amap_put (binding_identity ?r) i active" by simp_all
      have other: "binding_identity (record_of records k) \<noteq> binding_identity ?r"
        if "k \<in> seen" "active_binding (record_of records k)" for k
      proof
        assume "binding_identity (record_of records k) = binding_identity ?r"
        then have "map_of active (binding_identity ?r) = Some k" using assms(1) that by (auto simp: loop_ok_def)
        then have "k = []" using keep by (simp add: duplicate_def)
        then show False using that(1) assms(5) by simp
      qed
      show ?thesis
        unfolding loop_ok_def new
      proof (intro conjI ballI allI impI)
        show "retired_some start records" by (rule some)
        show "map_of records k = map_of start k" if "k \<notin> insert i seen" for k using assms(1) that by (simp add: loop_ok_def)
        fix k assume k: "k \<in> insert i seen" "active_binding (record_of records k)"
        show "map_of (amap_put (binding_identity ?r) i active) (binding_identity (record_of records k)) = Some k"
          using other [of k] k assms(1) by (cases "k = i") (auto simp: loop_ok_def)
        show "\<not> tag_deleted records (record_of records k)"
          using keep k assms(1) by (cases "k = i") (auto simp: loop_ok_def)
      qed
    qed
  qed
qed

lemma normalize_loop:
  assumes "loop_ok start seen records active" and "tags_apart start" and "distinct keys" and "set keys \<inter> seen = {}"
    and "[] \<notin> set keys \<union> seen" and "sum_fold (normalize_binding device) (records, active) keys = Inr (records', active')"
  shows "loop_ok start (seen \<union> set keys) records' active'"
  using assms(1,3-)
proof (induction keys arbitrary: seen records active)
  case (Cons i keys)
  obtain mid where mid: "normalize_binding device (records, active) i = Inr mid"
      "sum_fold (normalize_binding device) mid keys = Inr (records', active')"
    using Cons.prems(5) by (cases "normalize_binding device (records, active) i") simp_all
  obtain rs act where pair: "mid = (rs, act)" by (cases mid)
  have "loop_ok start (insert i seen) rs act"
    by (rule normalize_step [OF Cons.prems(1) assms(2) _ _ _ mid(1) [unfolded pair]]) (use Cons.prems in auto)
  from Cons.IH [OF this _ _ _ mid(2) [unfolded pair]] Cons.prems show ?case by simp
qed simp

lemma normalize_records_ok:
  assumes "records_sorted records" and "records_versioned records" and "tags_apart records" and "map_of records [] = None"
    and "normalize_records device records = Inr records'"
  shows "\<exists>active. loop_ok records (fst ` set records) records' active"
proof -
  obtain active where run: "sum_fold (normalize_binding device) (records, []) (map fst records) = Inr (records', active)"
    using assms(5) by (auto simp: normalize_records_def map_sum_def split: sum.splits)
  have "loop_ok records {} records []" using assms(1,2) by (simp add: loop_ok_def retired_some_def)
  moreover have "distinct (map fst records)" "[] \<notin> set (map fst records)"
    using assms(1,4) asc_keys_distinct by (auto simp: records_sorted_def map_of_eq_None_iff)
  ultimately have "loop_ok records ({} \<union> set (map fst records)) records' active"
    by (intro normalize_loop [OF _ assms(3) _ _ _ run]) simp_all
  then show ?thesis by auto
qed

lemma normalize_retires:
  assumes "records_sorted records" and "records_versioned records" and "normalize_records device records = Inr records'"
  shows "retired_some records records'"
proof -
  obtain active where run: "sum_fold (normalize_binding device) (records, []) (map fst records) = Inr (records', active)"
    using assms(3) by (auto simp: normalize_records_def map_sum_def split: sum.splits)
  have start: "retired_some records (fst (records, []))" using assms(1,2) by (simp add: retired_some_def)
  have step: "retired_some records (fst s')" if "retired_some records (fst s)" "normalize_binding device s i = Inr s'" for s i s'
  proof -
    obtain rs act where s: "s = (rs, act)" by (cases s)
    show ?thesis
      using that retire_step [of records rs i device]
      by (auto simp: normalize_binding_def s Let_def split: if_splits sum.splits)
  qed
  have "retired_some records (fst (records', active))"
    by (rule sum_fold_keeps [where P = "\<lambda>s. retired_some records (fst s)", OF run start]) (rule step)
  then show ?thesis by simp
qed

lemma retired_follows:
  assumes "follows previous after" and "retired_some after records" and "records_versioned previous"
  shows "follows previous records"
  using assms grown_trans unfolding follows_def retired_some_def by (metis option.inject)

lemma retired_present: "retired_some start records \<Longrightarrow> map_of start k \<noteq> None \<Longrightarrow> map_of records k \<noteq> None"
  unfolding retired_some_def by (metis option.distinct(1))

lemma retired_deleted:
  assumes "retired_some start records" and "to_bool (jfield (record_of start k) ''deleted'')"
  shows "map_of records k = map_of start k"
  by (rule retired_other [OF assms(1)]) (use assms(2) in \<open>simp add: active_binding_def\<close>)

lemma set_records_module [simp]:
  "jfield (set_records rs m) ''module_id'' = jfield m ''module_id''"
  "jfield (set_records rs m) ''schema_version'' = jfield m ''schema_version''"
  by (simp_all add: set_records_def)

lemma normalize_module_retires:
  assumes "records_sorted rs" and "records_versioned rs" and "normalize_bindings device (set_records rs m) = Inr m'"
  shows "retired_some rs (records_of m')"
proof -
  have same: "retired_some rs rs" using assms(1,2) by (simp add: retired_some_def)
  show ?thesis
  proof (cases "m' = set_records rs m")
    case True
    then show ?thesis using same by (simp add: records_of_set_records [OF assms(1)])
  next
    case False
    then obtain rs' where rs': "normalize_records device rs = Inr rs'" "m' = set_records rs' (set_records rs m)"
      using assms(3) by (auto simp: normalize_bindings_def records_of_set_records [OF assms(1)] map_sum_def split: if_splits sum.splits)
    have "retired_some rs rs'" by (rule normalize_retires [OF assms(1,2) rs'(1)])
    moreover from this have "records_sorted rs'" by (simp add: retired_some_def)
    ultimately show ?thesis by (simp add: rs'(2) records_of_set_records)
  qed
qed

text \<open>The record a change has left out stays, as deleted.\<close>

lemma collected_ids:
  assumes "sum_fold (collect_record device fresh previous) after (enumerate n vs) = Inr after'"
    and "\<forall>v\<in>set vs. record_id (obj v) \<noteq> []" and "map_of after' i \<noteq> None"
  shows "map_of after i \<noteq> None \<or> i \<in> (\<lambda>v. record_id (obj v)) ` set vs"
  using assms
proof (induction vs arbitrary: after n)
  case (Cons v vs)
  obtain mid where mid: "collect_record device fresh previous after (n, v) = Inr mid"
      "sum_fold (collect_record device fresh previous) mid (enumerate (Suc n) vs) = Inr after'"
    using Cons.prems(1) by (cases "collect_record device fresh previous after (n, v)") simp_all
  have "map_of mid i \<noteq> None \<Longrightarrow> map_of after i \<noteq> None \<or> i = record_id (obj v)"
    using mid(1) Cons.prems(2) by (auto simp: collect_record_def Let_def split: if_splits sum.splits)
  then show ?case using Cons.IH [OF mid(2) _ Cons.prems(3)] Cons.prems(2) by auto
qed simp

lemma keep_removed_same: "map_of after k \<noteq> None \<Longrightarrow> keep_removed device after x = Inr after' \<Longrightarrow> map_of after' k = map_of after k"
  by (auto simp: keep_removed_def split: prod.splits if_splits sum.splits)

lemma keep_removed_deletes:
  assumes "follows previous after" and "records_versioned previous" and "records_sorted previous"
    and "set xs \<subseteq> set previous" and "sum_fold (keep_removed device) after xs = Inr after'"
    and "i \<in> fst ` set xs" and "map_of after i = None"
  shows "to_bool (jfield (record_of after' i) ''deleted'')"
  using assms(1,4-)
proof (induction xs arbitrary: after)
  case (Cons x xs)
  obtain mid where mid: "keep_removed device after x = Inr mid" "sum_fold (keep_removed device) mid xs = Inr after'"
    using Cons.prems(3) by (cases "keep_removed device after x") simp_all
  have x: "x \<in> set previous" and xs: "set xs \<subseteq> set previous" using Cons.prems(2) by simp_all
  note step = keep_removed_follows [OF Cons.prems(1) assms(2,3) x mid(1)]
  have fol: "follows previous mid" using step by blast
  show ?case
  proof (cases "map_of mid i = None")
    case True
    then have "fst x \<noteq> i" using step by auto
    then show ?thesis using Cons.IH [OF fol xs mid(2) _ True] Cons.prems(4) by auto
  next
    case False
    have "fst x = i"
      using False Cons.prems(5) mid(1) by (auto simp: keep_removed_def split: prod.splits if_splits sum.splits)
    then have now: "to_bool (jfield (record_of mid i) ''deleted'')" using step Cons.prems(5) by auto
    have "map_of after' i = map_of mid i"
      by (rule sum_fold_keeps [where P = "\<lambda>a. map_of a i = map_of mid i", OF mid(2)])
        (use False keep_removed_same in \<open>metis (no_types, lifting)\<close>)+
    then show ?thesis using now by (simp add: record_of_def)
  qed
qed simp

section \<open>Properties\<close>

text \<open>C8: a change of a module loses no record. Each record there was is still there, either the same
  or with a version that is newer; a record the change left out is still there as deleted, so that the removal
  reaches the other devices.\<close>

theorem mutation_keeps_records:
  assumes "mutate_module device fresh with_assets change before = Inr (Some after)" and "records_versioned (records_of before)"
    and "change before = Inr changed" and "\<forall>v\<in>set (module_records changed). record_id (obj v) \<noteq> []"
    and "map_of (records_of before) i = Some r"
  shows "\<exists>r'. map_of (records_of after) i = Some r' \<and> (r' = r \<or> compare_versions r r' = Before)
    \<and> (i \<notin> (\<lambda>v. record_id (obj v)) ` set (module_records changed) \<longrightarrow> to_bool (jfield r' ''deleted''))"
proof -
  obtain stored where stored: "stored_records device fresh before changed = Inr stored"
      "normalize_bindings device (set_records stored changed) = Inr after"
    using assms(1,3) by (auto simp: mutate_module_def map_sum_def split: if_splits sum.splits)
  note sf = stored_records_follow [OF stored(1) assms(2)]
  then have sorted: "records_sorted stored" "records_versioned stored" by (simp_all add: follows_def)
  note retired = normalize_module_retires [OF sorted stored(2)]
  have fol: "follows (records_of before) (records_of after)"
    using retired_follows [OF _ retired assms(2)] sf by blast
  have "map_of stored i \<noteq> None" using sf assms(5) by simp
  from retired_present [OF retired this] obtain r' where r': "map_of (records_of after) i = Some r'" by blast
  have "grown r r'" "vector_ok (vector_of r)" "vector_ok (vector_of r')"
    using fol assms(2,5) r' by (auto simp: follows_def records_versioned_def)
  then have newer: "r' = r \<or> compare_versions r r' = Before" using grown_compare by blast
  have "to_bool (jfield r' ''deleted'')" if out: "i \<notin> (\<lambda>v. record_id (obj v)) ` set (module_records changed)"
  proof -
    obtain mid where mid: "sum_fold (collect_record device fresh (records_of before)) [] (enumerate 0 (module_records changed)) = Inr mid"
        "sum_fold (keep_removed device) mid (records_of before) = Inr stored"
      using stored(1) by (auto simp: stored_records_def split: sum.splits)
    have "follows (records_of before) mid"
      by (rule sum_fold_keeps [where P = "follows (records_of before)", OF mid(1) follows_start])
        (rule collect_follows [OF _ assms(2)])
    moreover have "map_of mid i = None" using collected_ids [OF mid(1) assms(4), of i] out by auto
    moreover have "i \<in> fst ` set (records_of before)" using map_of_SomeD [OF assms(5)] by force
    ultimately have "to_bool (jfield (record_of stored i) ''deleted'')"
      using keep_removed_deletes [OF _ assms(2) records_of_sorted _ mid(2)] by blast
    then show ?thesis using retired_deleted [OF retired] r' by (simp add: record_of_def)
  qed
  then show ?thesis using r' newer by blast
qed

text \<open>C21: after a change of the saved tags, no two active bindings put the same tag on the same message, and
  no active binding has a deleted tag; the bindings that were retired for it are kept as deleted, with a newer version,
  and every other record is untouched.\<close>

theorem binding_active_once:
  assumes "normalize_bindings device m = Inr m'" and "to_str (jfield m ''module_id'') = latin ''saved_tags''"
    and "to_int (jfield m ''schema_version'') \<in> {1, 2}" and "records_versioned (records_of m)" and "tags_apart (records_of m)"
    and "map_of (records_of m) [] = None"
  shows "(\<forall>i j r s. map_of (records_of m') i = Some r \<and> map_of (records_of m') j = Some s \<and> i \<noteq> j
        \<and> active_binding r \<and> active_binding s \<longrightarrow> binding_identity r \<noteq> binding_identity s)
    \<and> (\<forall>i r. map_of (records_of m') i = Some r \<and> active_binding r \<longrightarrow> \<not> tag_deleted (records_of m') r)
    \<and> retired_some (records_of m) (records_of m')"
proof -
  have "normalize_bindings device m = map_sum id (\<lambda>records. set_records records m) (normalize_records device (records_of m))"
    using assms(2,3) by (auto simp: normalize_bindings_def)
  then obtain rs where rs: "normalize_records device (records_of m) = Inr rs" "m' = set_records rs m"
    using assms(1) by (cases "normalize_records device (records_of m)") simp_all
  obtain active where ok: "loop_ok (records_of m) (fst ` set (records_of m)) rs active"
    using normalize_records_ok [OF records_of_sorted assms(4-6) rs(1)] by blast
  then have retired: "retired_some (records_of m) rs" by (simp add: loop_ok_def)
  then have "records_sorted rs" by (simp add: retired_some_def)
  then have recs: "records_of m' = rs" by (simp add: rs(2) records_of_set_records)
  have known: "map_of active (binding_identity r) = Some i \<and> \<not> tag_deleted rs r"
    if "map_of rs i = Some r" "active_binding r" for i r
  proof -
    have r: "record_of rs i = r" using that(1) by (simp add: record_of_def)
    then have "map_of (records_of m) i = Some r" using retired_active [OF retired, of i] that by simp
    then have "i \<in> fst ` set (records_of m)" using map_of_SomeD by force
    then show ?thesis using ok r that(2) by (auto simp: loop_ok_def)
  qed
  show ?thesis
    unfolding recs
  proof (intro conjI allI impI)
    fix i j r s
    assume two: "map_of rs i = Some r \<and> map_of rs j = Some s \<and> i \<noteq> j \<and> active_binding r \<and> active_binding s"
    show "binding_identity r \<noteq> binding_identity s" using known [of i r] known [of j s] two by auto
  next
    fix i r assume "map_of rs i = Some r \<and> active_binding r"
    then show "\<not> tag_deleted rs r" using known by blast
  qed (rule retired)
qed

text \<open>A record that a change leaves out, and two bindings of one tag to one message.\<close>

definition sample_record :: "string \<Rightarrow> json_object" where
  "sample_record i =
     [(latin ''deleted'', JsBool False), (latin ''id'', JsStr (latin i)),
      (latin ''version_vector'', JsObj [(sample_device, JsNum 1)])]"

definition sample_binding :: "string \<Rightarrow> json_object" where
  "sample_binding i =
     [(latin ''deleted'', JsBool False), (latin ''id'', JsStr (latin i)), (latin ''kind'', JsStr (latin ''binding'')),
      (latin ''message'', JsObj [(latin ''message_id'', JsStr (latin ''8''))]), (latin ''tag_id'', JsStr (latin ''t'')),
      (latin ''version_vector'', JsObj [(sample_device, JsNum 1)])]"

definition sample_before :: json_object where
  "sample_before = [(latin ''records'', JsArr [JsObj (sample_record ''00000000-0000-4000-8000-00000000000a'')])]"

definition sample_after :: json_object where
  "sample_after = (case mutate_module sample_device (\<lambda>n. []) False (\<lambda>m. Inr (set_records [] m)) sample_before of
     Inr (Some m) \<Rightarrow> m | _ \<Rightarrow> [])"

definition sample_tags :: json_object where
  "sample_tags =
     [(latin ''module_id'', JsStr (latin ''saved_tags'')),
      (latin ''records'', JsArr [JsObj (sample_binding ''b''), JsObj (sample_binding ''c'')]),
      (latin ''schema_version'', JsNum 2)]"

definition sample_normal :: json_object where
  "sample_normal = (case normalize_bindings sample_device sample_tags of Inr m \<Rightarrow> m | Inl e \<Rightarrow> [])"

lemma sample_runs:
  "mutate_module sample_device (\<lambda>n. []) False (\<lambda>m. Inr (set_records [] m)) sample_before = Inr (Some sample_after)"
proof -
  have "case mutate_module sample_device (\<lambda>n. []) False (\<lambda>m. Inr (set_records [] m)) sample_before of
      Inr (Some m) \<Rightarrow> True | _ \<Rightarrow> False"
    by code_simp
  then show ?thesis by (auto simp: sample_after_def split: sum.splits option.splits)
qed

lemma sample_vector: "vector_ok [(sample_device, JsNum 1)]"
  by (simp add: vector_ok_def)

lemma sample_before_records:
  "records_of sample_before = [(latin ''00000000-0000-4000-8000-00000000000a'', sample_record ''00000000-0000-4000-8000-00000000000a'')]"
  by (simp add: records_of_def module_records_def sample_before_def jfield_def record_id_def sample_record_def latin_eq_iff)

theorem mutation_keeps_records_witness:
  "to_bool (jfield (record_of (records_of sample_after) (latin ''00000000-0000-4000-8000-00000000000a'')) ''deleted'')"
proof -
  have versioned: "records_versioned (records_of sample_before)"
    using sample_vector
    by (auto simp: records_versioned_def sample_before_records vector_of_def sample_record_def jfield_def latin_eq_iff split: if_splits)
  have found: "map_of (records_of sample_before) (latin ''00000000-0000-4000-8000-00000000000a'')
      = Some (sample_record ''00000000-0000-4000-8000-00000000000a'')"
    by (simp add: sample_before_records)
  have none: "\<forall>v\<in>set (module_records (set_records [] sample_before)). record_id (obj v) \<noteq> []"
    by (simp add: set_records_def module_records_def)
  obtain r' where "map_of (records_of sample_after) (latin ''00000000-0000-4000-8000-00000000000a'') = Some r'"
      "to_bool (jfield r' ''deleted'')"
    using mutation_keeps_records [OF sample_runs versioned refl none found] by (auto simp: set_records_def module_records_def)
  then show ?thesis by (simp add: record_of_def)
qed

lemma sample_tags_records:
  "records_of sample_tags = [(latin ''b'', sample_binding ''b''), (latin ''c'', sample_binding ''c'')]"
proof -
  have "latin ''b'' < latin ''c''" by code_simp
  then show ?thesis
    by (auto simp: records_of_def module_records_def sample_tags_def jfield_def record_id_def sample_binding_def latin_eq_iff)
qed

lemma sample_normalizes: "normalize_bindings sample_device sample_tags = Inr sample_normal"
proof -
  have "case normalize_bindings sample_device sample_tags of Inr m \<Rightarrow> True | Inl e \<Rightarrow> False" by code_simp
  then show ?thesis by (auto simp: sample_normal_def split: sum.splits)
qed

theorem binding_active_once_witness:
  "\<not> (active_binding (record_of (records_of sample_normal) (latin ''b''))
      \<and> active_binding (record_of (records_of sample_normal) (latin ''c''))
      \<and> binding_identity (record_of (records_of sample_normal) (latin ''b''))
        = binding_identity (record_of (records_of sample_normal) (latin ''c'')))"
proof -
  have tags: "to_str (jfield sample_tags ''module_id'') = latin ''saved_tags''" "to_int (jfield sample_tags ''schema_version'') \<in> {1, 2}"
    by (simp_all add: sample_tags_def jfield_def latin_eq_iff)
  have versioned: "records_versioned (records_of sample_tags)"
    using sample_vector
    by (auto simp: records_versioned_def sample_tags_records vector_of_def sample_binding_def jfield_def latin_eq_iff split: if_splits)
  have "binding_tag (sample_binding i) = latin ''t''" for i
    by (simp add: binding_tag_def sample_binding_def jfield_def latin_eq_iff)
  then have apart: "tags_apart (records_of sample_tags)"
    by (auto simp: tags_apart_def sample_tags_records record_of_def active_binding_def record_kind_def latin_eq_iff split: if_splits)
  have nonempty: "map_of (records_of sample_tags) [] = None" by (simp add: sample_tags_records)
  have other: "latin ''b'' \<noteq> latin ''c''" by (simp add: latin_eq_iff)
  show ?thesis
  proof (intro notI, elim conjE)
    assume two: "active_binding (record_of (records_of sample_normal) (latin ''b''))"
      "active_binding (record_of (records_of sample_normal) (latin ''c''))"
      and same: "binding_identity (record_of (records_of sample_normal) (latin ''b''))
        = binding_identity (record_of (records_of sample_normal) (latin ''c''))"
    have "binding_identity (record_of (records_of sample_normal) (latin ''b''))
        \<noteq> binding_identity (record_of (records_of sample_normal) (latin ''c''))"
      by (rule binding_active_once [OF sample_normalizes tags versioned apart nonempty, THEN conjunct1, rule_format,
            where i = "latin ''b''" and j = "latin ''c''"])
        (intro conjI active_found two other)
    then show False using same by simp
  qed
qed

end
