(* ===== verification/StoreImport.thy ===== *)
theory StoreImport
  imports StoreBindings
begin

text \<open>
  Importing the data of another device (\<open>Store::prepareImport\<close> and \<open>Store::applyImport\<close> in
  \<open>storage/local_data_store.cpp\<close>): a plan is made of the merge and its conflicts, the user chooses, and the plan is
  applied to the state it was made for.

  What is not part of this file is an argument: \<open>digest\<close>, the hash of a JSON text; \<open>supported\<close>, the registry of
  modules; \<open>validate\<close>, the limits of \<open>ValidateSnapshot\<close>; new identities; and the failure of the file system, \<open>io\<close>. The
  reader of an asset is left out, and so is cancelling, which ends a run before it changes anything.
\<close>

section \<open>Snapshots\<close>

record local_asset =
  as_sha256 :: qstring
  as_size :: int
  as_extra :: json_object
  as_transfer :: json_object

record local_profile =
  pf_id :: qstring
  pf_account :: local_account
  pf_extra :: json_object
  pf_modules :: "(qstring \<times> json_object) list"
  pf_transfer :: json_object

record snapshot =
  sn_generation :: qstring
  sn_device :: qstring
  sn_extra :: json_object
  sn_profiles :: "(qstring \<times> local_profile) list"
  sn_assets :: "(qstring \<times> local_asset) list"
  sn_transfer :: json_object

record store_conflict =
  cf_id :: qstring
  cf_profile :: qstring
  cf_module :: qstring
  cf_record :: qstring
  cf_local :: json_object
  cf_incoming :: json_object

record merge_plan =
  mp_base :: qstring
  mp_merged :: snapshot
  mp_conflicts :: "store_conflict list"
  mp_unsupported :: "qstring list"
  mp_accounts :: "qstring list"

definition account_id :: "local_account \<Rightarrow> qstring" where
  "account_id account = la_environment account @ colon # la_user account"

definition account_json :: "local_account \<Rightarrow> json_object" where
  "account_json account = jput ''user_id'' (JsStr (la_user account)) (jput ''environment'' (JsStr (la_environment account)) [])"

definition empty_profile :: "qstring \<Rightarrow> local_account \<Rightarrow> local_profile" where
  "empty_profile i account = \<lparr>pf_id = i, pf_account = account, pf_extra = [], pf_modules = [], pf_transfer = []\<rparr>"

text \<open>The identity of the profile of an account, empty when there is none.\<close>

definition profile_id :: "local_account \<Rightarrow> (qstring \<times> local_profile) list \<Rightarrow> qstring" where
  "profile_id account profiles =
     (case find (\<lambda>(k, p). pf_account p = account) profiles of None \<Rightarrow> [] | Some (k, p) \<Rightarrow> pf_id p)"

section \<open>The plan\<close>

definition semantic_object :: "json_object \<Rightarrow> json_object" where
  "semantic_object m = to_obj (Some (semantic_value (JsObj m)))"

definition conflict_sides :: "qstring \<Rightarrow> json_object \<Rightarrow> json_object \<Rightarrow> json_object \<times> json_object" where
  "conflict_sides rid local incoming =
     (let here = semantic_object local; there = semantic_object incoming in
      if take 1 rid = latin ''@'' then
        let differing = filter (\<lambda>(k, v). map_of there k \<noteq> None \<and> map_of there k \<noteq> Some v) here in
        (differing, filter (\<lambda>(k, v). map_of differing k \<noteq> None) there)
      else (here, there))"

definition fingerprint ::
  "(json_object \<Rightarrow> qstring) \<Rightarrow> qstring \<Rightarrow> qstring \<Rightarrow> qstring \<Rightarrow> json_object \<Rightarrow> json_object \<Rightarrow> qstring" where
  "fingerprint digest profile mid rid local incoming =
     (let (here, there) = conflict_sides rid local incoming in
      digest (jput ''profile'' (JsStr profile) (jput ''module'' (JsStr mid) (jput ''record'' (JsStr rid)
        (jput ''local'' (JsObj here) (jput ''incoming'' (JsObj there) []))))))"

definition resolved_before :: "qstring \<Rightarrow> merge_plan \<Rightarrow> bool" where
  "resolved_before f plan \<longleftrightarrow> JsStr f \<in> set (to_arr (map_of (sn_extra (mp_merged plan)) resolutions))"

definition add_conflict ::
  "(json_object \<Rightarrow> qstring) \<Rightarrow> qstring \<Rightarrow> qstring \<Rightarrow> qstring \<Rightarrow> json_object \<Rightarrow> json_object \<Rightarrow> merge_plan
    \<Rightarrow> bool \<times> merge_plan" where
  "add_conflict digest profile mid rid local incoming plan =
     (let f = fingerprint digest profile mid rid local incoming in
      if resolved_before f plan then (False, plan)
      else (True, plan\<lparr>mp_conflicts := mp_conflicts plan @
        [\<lparr>cf_id = f, cf_profile = profile, cf_module = mid, cf_record = rid, cf_local = local, cf_incoming = incoming\<rparr>]\<rparr>))"

definition merge_metadata ::
  "(json_object \<Rightarrow> qstring) \<Rightarrow> qstring \<Rightarrow> qstring \<Rightarrow> qstring \<Rightarrow> json_object \<Rightarrow> json_object \<Rightarrow> merge_plan
    \<Rightarrow> json_object \<times> merge_plan" where
  "merge_metadata digest profile mid scope local incoming plan =
     (if metadata_conflict local incoming then
        (case add_conflict digest profile mid scope local incoming plan of
           (False, plan') \<Rightarrow> (resolve_metadata local incoming KeepLocal, plan')
         | (True, plan') \<Rightarrow> (merge_extra local incoming, plan'))
      else (merge_extra local incoming, plan))"

definition merge_record ::
  "(json_object \<Rightarrow> qstring) \<Rightarrow> qstring \<Rightarrow> qstring \<Rightarrow> (qstring \<times> json_object) list \<times> merge_plan \<Rightarrow> json
    \<Rightarrow> (qstring \<times> json_object) list \<times> merge_plan" where
  "merge_record digest profile mid s value =
     (let (records, plan) = s; remote = obj value; rid = record_id remote in
      case map_of records rid of
        None \<Rightarrow> (amap_put rid remote records, plan)
      | Some local \<Rightarrow>
          (case compare_versions local remote of
             Before \<Rightarrow> (amap_put rid remote records, plan)
           | After \<Rightarrow> (records, plan)
           | Concurrent \<Rightarrow> (records, snd (add_conflict digest profile mid rid local remote plan))
           | Equal \<Rightarrow>
               if local \<noteq> remote then (records, snd (add_conflict digest profile mid rid local remote plan))
               else (records, plan)))"

definition schema_of :: "json_object \<Rightarrow> int" where
  "schema_of m = to_int (jfield m ''schema_version'')"

definition module_metadata :: "qstring \<Rightarrow> json_object \<Rightarrow> json_object" where
  "module_metadata i m =
     amap_remove (latin ''records'') (if i = latin ''saved_tags'' then jput ''schema_version'' (JsNum 2) m else m)"

definition merge_module ::
  "(json_object \<Rightarrow> qstring) \<Rightarrow> (qstring \<Rightarrow> int \<Rightarrow> bool) \<Rightarrow> qstring \<Rightarrow> (qstring \<times> json_object) list \<times> merge_plan
    \<Rightarrow> qstring \<times> json_object \<Rightarrow> (qstring \<times> json_object) list \<times> merge_plan" where
  "merge_module digest supported profile s entry =
     (let (modules, plan0) = s; (i, theirs) = entry; known = supported i (schema_of theirs);
          plan = (if known then plan0 else plan0\<lparr>mp_unsupported := mp_unsupported plan0 @ [i]\<rparr>) in
      case map_of modules i of
        None \<Rightarrow> (amap_put i theirs modules, plan)
      | Some mine \<Rightarrow>
          if mine = theirs then (modules, plan)
          else if \<not> known \<or> \<not> supported i (schema_of mine)
          then (modules, snd (add_conflict digest profile i [] mine theirs plan))
          else
            let (meta, plan1) = merge_metadata digest profile i (latin ''@module-extra'')
                  (module_metadata i mine) (module_metadata i theirs) plan;
                (records, plan2) = foldl (merge_record digest profile i) (records_of mine, plan1) (module_records theirs) in
            (amap_put i (set_records records meta) modules, plan2))"

definition put_profile :: "qstring \<Rightarrow> local_profile \<Rightarrow> merge_plan \<Rightarrow> merge_plan" where
  "put_profile pid p plan =
     plan\<lparr>mp_merged := (mp_merged plan)\<lparr>sn_profiles := amap_put pid p (sn_profiles (mp_merged plan))\<rparr>\<rparr>"

text \<open>The profile of the account \<open>source\<close> has, which is added when there is none: its identity and its data.\<close>

definition target_profile ::
  "(local_account \<Rightarrow> qstring) \<Rightarrow> local_profile \<Rightarrow> (qstring \<times> local_profile) list \<Rightarrow> qstring \<times> local_profile" where
  "target_profile new_id source profiles =
     (let found = profile_id (pf_account source) profiles in
      if found = [] then
        let pid = (if map_of profiles (pf_id source) \<noteq> None then new_id (pf_account source) else pf_id source) in
        (pid, empty_profile pid (pf_account source))
      else
        (found, case map_of profiles found of Some p \<Rightarrow> p | None \<Rightarrow> empty_profile [] \<lparr>la_environment = [], la_user = []\<rparr>))"

definition merge_profile ::
  "(json_object \<Rightarrow> qstring) \<Rightarrow> (qstring \<Rightarrow> int \<Rightarrow> bool) \<Rightarrow> (local_account \<Rightarrow> qstring) \<Rightarrow> merge_plan \<Rightarrow> local_profile
    \<Rightarrow> merge_plan" where
  "merge_profile digest supported new_id plan0 source =
     (let plan1 = plan0\<lparr>mp_accounts := mp_accounts plan0 @ [account_id (pf_account source)]\<rparr>;
          (pid, target) = target_profile new_id source (sn_profiles (mp_merged plan1));
          (extra, plan2) = merge_metadata digest pid [] (latin ''@profile-extra'') (pf_extra target) (pf_extra source) plan1;
          (transfer, plan3) =
            merge_metadata digest pid [] (latin ''@profile-transfer'') (pf_transfer target) (pf_transfer source) plan2;
          (modules, plan4) = foldl (merge_module digest supported pid) (pf_modules target, plan3) (pf_modules source) in
      put_profile pid (target\<lparr>pf_extra := extra, pf_transfer := transfer, pf_modules := modules\<rparr>) plan4)"

definition merge_asset ::
  "(json_object \<Rightarrow> qstring) \<Rightarrow> merge_plan \<Rightarrow> qstring \<times> local_asset \<Rightarrow> store_failure + merge_plan" where
  "merge_asset digest plan entry =
     (let (i, theirs) = entry; merged = mp_merged plan in
      case map_of (sn_assets merged) i of
        None \<Rightarrow> Inr (plan\<lparr>mp_merged := merged\<lparr>sn_assets := amap_put i theirs (sn_assets merged)\<rparr>\<rparr>)
      | Some mine \<Rightarrow>
          if as_size mine \<noteq> as_size theirs
          then Inl (Invalid, latin ''Imported asset size conflicts with existing data.'')
          else
            let (extra, plan1) = merge_metadata digest [] i (latin ''@asset-extra'') (as_extra mine) (as_extra theirs) plan;
                (transfer, plan2) =
                  merge_metadata digest [] i (latin ''@asset-transfer'') (as_transfer mine) (as_transfer theirs) plan1 in
            Inr (plan2\<lparr>mp_merged := merged\<lparr>sn_assets :=
              amap_put i (mine\<lparr>as_extra := extra, as_transfer := transfer\<rparr>) (sn_assets merged)\<rparr>\<rparr>))"

definition prepare_import ::
  "(json_object \<Rightarrow> qstring) \<Rightarrow> (qstring \<Rightarrow> int \<Rightarrow> bool) \<Rightarrow> (local_account \<Rightarrow> qstring) \<Rightarrow> (snapshot \<Rightarrow> store_failure option)
    \<Rightarrow> snapshot \<Rightarrow> snapshot \<Rightarrow> store_failure + merge_plan" where
  "prepare_import digest supported new_id validate state incoming =
     (case validate incoming of
        Some e \<Rightarrow> Inl e
      | None \<Rightarrow>
          let plan0 = \<lparr>mp_base = sn_generation state, mp_merged = state, mp_conflicts = [], mp_unsupported = [], mp_accounts = []\<rparr>;
              (extra, plan1) = merge_metadata digest [] [] (latin ''@root-extra'') (sn_extra state) (sn_extra incoming) plan0;
              plan2 = plan1\<lparr>mp_merged := (mp_merged plan1)\<lparr>sn_extra := extra\<rparr>\<rparr>;
              (transfer, plan3) =
                merge_metadata digest [] [] (latin ''@root-transfer'') (sn_transfer state) (sn_transfer incoming) plan2;
              plan4 = plan3\<lparr>mp_merged := (mp_merged plan3)\<lparr>sn_transfer := transfer\<rparr>\<rparr>;
              plan5 = foldl (\<lambda>plan (k, p). merge_profile digest supported new_id plan p) plan4 (sn_profiles incoming) in
          case sum_fold (merge_asset digest) plan5 (sn_assets incoming) of
            Inl e \<Rightarrow> Inl e
          | Inr plan6 \<Rightarrow>
              let plan7 = plan6\<lparr>mp_unsupported := rev (remdups (rev (mp_unsupported plan6)))\<rparr> in
              (case validate (mp_merged plan7) of Some e \<Rightarrow> Inl e | None \<Rightarrow> Inr plan7))"

section \<open>Applying the plan\<close>

definition keep_both :: "json_object \<Rightarrow> json_object \<Rightarrow> json_object" where
  "keep_both local other =
     (let variants = add_missing (to_arr (map_of local conflict_versions)) (to_arr (map_of other conflict_versions)) in
      amap_put conflict_versions (JsArr (add_missing variants [JsObj (amap_remove conflict_versions other)])) local)"

definition resolved_record ::
  "qstring \<Rightarrow> conflict_choice \<Rightarrow> json_object \<Rightarrow> json_object \<Rightarrow> store_failure + json_object" where
  "resolved_record device choice local incoming =
     (let chosen = (case choice of UseIncoming \<Rightarrow> incoming | KeepLocal \<Rightarrow> local | KeepBoth \<Rightarrow> keep_both local incoming) in
      advance device (jput ''version_vector'' (JsObj (joined_vector (vector_of local) (vector_of incoming))) chosen))"

definition module_of :: "qstring \<Rightarrow> (qstring \<times> json_object) list \<Rightarrow> json_object" where
  "module_of i modules = (case map_of modules i of None \<Rightarrow> [] | Some m \<Rightarrow> m)"

text \<open>A conflict of a whole module, and one of its metadata or of one of its records.\<close>

definition resolve_opaque :: "conflict_choice \<Rightarrow> store_conflict \<Rightarrow> local_profile \<Rightarrow> snapshot \<Rightarrow> snapshot" where
  "resolve_opaque choice c p next =
     (let selected = (if choice = UseIncoming then cf_incoming c else cf_local c);
          p' = p\<lparr>pf_modules := amap_put (cf_module c) selected (pf_modules p)\<rparr>;
          next' = next\<lparr>sn_profiles := amap_put (cf_profile c) p' (sn_profiles next)\<rparr>;
          variant = JsObj (jput ''id'' (JsStr (cf_id c)) (jput ''account'' (JsObj (account_json (pf_account p)))
            (jput ''module'' (JsObj (cf_incoming c)) []))) in
      if choice = KeepBoth
      then next'\<lparr>sn_extra := amap_put opaque_variants
        (JsArr (add_missing (to_arr (map_of (sn_extra next') opaque_variants)) [variant])) (sn_extra next')\<rparr>
      else next')"

definition resolve_in_module ::
  "qstring \<Rightarrow> conflict_choice \<Rightarrow> store_conflict \<Rightarrow> json_object \<Rightarrow> store_failure + json_object" where
  "resolve_in_module device choice c m =
     (if cf_record c = latin ''@module-extra''
      then Inr (set_records (records_of m) (resolve_metadata (cf_local c) (cf_incoming c) choice))
      else map_sum id (\<lambda>r. set_records (amap_put (cf_record c) r (records_of m)) m)
        (resolved_record device choice (cf_local c) (cf_incoming c)))"

definition resolve_profile ::
  "qstring \<Rightarrow> conflict_choice \<Rightarrow> store_conflict \<Rightarrow> local_profile \<Rightarrow> snapshot \<Rightarrow> store_failure + snapshot" where
  "resolve_profile device choice c p next =
     (let metadata = resolve_metadata (cf_local c) (cf_incoming c) choice;
          put = (\<lambda>p'. next\<lparr>sn_profiles := amap_put (cf_profile c) p' (sn_profiles next)\<rparr>) in
      if cf_record c = latin ''@profile-extra'' then Inr (put (p\<lparr>pf_extra := metadata\<rparr>))
      else if cf_record c = latin ''@profile-transfer'' then Inr (put (p\<lparr>pf_transfer := metadata\<rparr>))
      else if cf_record c = [] then Inr (resolve_opaque choice c p next)
      else map_sum id (\<lambda>m. put (p\<lparr>pf_modules := amap_put (cf_module c) m (pf_modules p)\<rparr>))
        (resolve_in_module device choice c (module_of (cf_module c) (pf_modules p))))"

definition add_receipt :: "qstring \<Rightarrow> snapshot \<Rightarrow> snapshot" where
  "add_receipt f next =
     next\<lparr>sn_extra := amap_put resolutions (JsArr (add_missing (to_arr (map_of (sn_extra next) resolutions)) [JsStr f])) (sn_extra next)\<rparr>"

definition resolve_conflict ::
  "qstring \<Rightarrow> conflict_choice \<Rightarrow> store_conflict \<Rightarrow> snapshot \<Rightarrow> store_failure + snapshot" where
  "resolve_conflict device choice c next =
     (let metadata = resolve_metadata (cf_local c) (cf_incoming c) choice in
      if cf_record c = latin ''@root-extra'' then Inr (next\<lparr>sn_extra := metadata\<rparr>)
      else if cf_record c = latin ''@root-transfer'' then Inr (next\<lparr>sn_transfer := metadata\<rparr>)
      else if cf_record c = latin ''@asset-extra'' \<or> cf_record c = latin ''@asset-transfer'' then
        (case map_of (sn_assets next) (cf_module c) of
           None \<Rightarrow> Inl (Invalid, latin ''Import asset disappeared.'')
         | Some a \<Rightarrow>
             let a' = (if cf_record c = latin ''@asset-extra'' then a\<lparr>as_extra := metadata\<rparr> else a\<lparr>as_transfer := metadata\<rparr>) in
             Inr (next\<lparr>sn_assets := amap_put (cf_module c) a' (sn_assets next)\<rparr>))
      else
        (case map_of (sn_profiles next) (cf_profile c) of
           None \<Rightarrow> Inl (Invalid, latin ''Import profile disappeared.'')
         | Some p \<Rightarrow> resolve_profile device choice c p next))"

definition apply_conflict ::
  "(qstring \<Rightarrow> conflict_choice option) \<Rightarrow> snapshot \<Rightarrow> store_conflict \<Rightarrow> store_failure + snapshot" where
  "apply_conflict choices next c =
     (case choices (cf_id c) of
        None \<Rightarrow> Inl (Conflict, latin ''Choose a resolution for every conflict.'')
      | Some choice \<Rightarrow> map_sum id (add_receipt (cf_id c)) (resolve_conflict (sn_device next) choice c next))"

fun normalize_modules :: "qstring \<Rightarrow> (qstring \<times> json_object) list \<Rightarrow> store_failure + (qstring \<times> json_object) list" where
  "normalize_modules device [] = Inr []"
| "normalize_modules device ((i, m) # modules) =
     (case normalize_bindings device m of
        Inl e \<Rightarrow> Inl e
      | Inr m' \<Rightarrow> map_sum id (\<lambda>rest. (i, m') # rest) (normalize_modules device modules))"

fun normalize_profiles :: "qstring \<Rightarrow> (qstring \<times> local_profile) list \<Rightarrow> store_failure + (qstring \<times> local_profile) list" where
  "normalize_profiles device [] = Inr []"
| "normalize_profiles device ((i, p) # profiles) =
     (case normalize_modules device (pf_modules p) of
        Inl e \<Rightarrow> Inl e
      | Inr modules \<Rightarrow> map_sum id (\<lambda>rest. (i, p\<lparr>pf_modules := modules\<rparr>) # rest) (normalize_profiles device profiles))"

text \<open>\<open>Private::commit\<close>: the state that is stored has a new generation and the device of this one.\<close>

definition commit_snapshot ::
  "(snapshot \<Rightarrow> store_failure option) \<Rightarrow> store_failure option \<Rightarrow> qstring \<Rightarrow> snapshot \<Rightarrow> snapshot \<Rightarrow> store_failure + snapshot" where
  "commit_snapshot validate io generation state next =
     (case validate next of
        Some e \<Rightarrow> Inl e
      | None \<Rightarrow> (case io of Some e \<Rightarrow> Inl e | None \<Rightarrow> Inr (next\<lparr>sn_device := sn_device state, sn_generation := generation\<rparr>)))"

text \<open>What ends an import, and the restoring of an archived version: the bindings are put in order and the state is stored.\<close>

definition commit_normalized ::
  "(snapshot \<Rightarrow> store_failure option) \<Rightarrow> store_failure option \<Rightarrow> qstring \<Rightarrow> snapshot \<Rightarrow> snapshot \<Rightarrow> store_failure + snapshot" where
  "commit_normalized validate io generation state next =
     (case normalize_profiles (sn_device next) (sn_profiles next) of
        Inl e \<Rightarrow> Inl e
      | Inr profiles \<Rightarrow> commit_snapshot validate io generation state (next\<lparr>sn_profiles := profiles\<rparr>))"

definition apply_import ::
  "(snapshot \<Rightarrow> store_failure option) \<Rightarrow> store_failure option \<Rightarrow> qstring \<Rightarrow> merge_plan \<Rightarrow> (qstring \<Rightarrow> conflict_choice option)
    \<Rightarrow> snapshot \<Rightarrow> store_failure + snapshot" where
  "apply_import validate io generation plan choices state =
     (if mp_base plan \<noteq> sn_generation state
      then Inl (Stale, latin ''Local data changed; review the import again.'')
      else
        (case sum_fold (apply_conflict choices) (mp_merged plan) (mp_conflicts plan) of
           Inl e \<Rightarrow> Inl e
         | Inr next \<Rightarrow> commit_normalized validate io generation state next))"

text \<open>A state that was stored.\<close>

lemma commit_normalized_stored:
  assumes "commit_normalized validate io generation state next = Inr state'"
  shows "io = None" "validate (state'\<lparr>sn_device := sn_device next, sn_generation := sn_generation next\<rparr>) = None"
    "sn_generation state' = generation" "sn_device state' = sn_device state" "sn_extra state' = sn_extra next"
    "sn_transfer state' = sn_transfer next" "sn_assets state' = sn_assets next"
    "normalize_profiles (sn_device next) (sn_profiles next) = Inr (sn_profiles state')"
  using assms by (auto simp: commit_normalized_def commit_snapshot_def split: sum.splits option.splits)

end
