(* ===== verification/StoreConverge.thy ===== *)
theory StoreConverge
  imports StoreImport
begin

text \<open>
  What an import guarantees (\<open>Store::prepareImport\<close>, \<open>Store::applyImport\<close> in \<open>storage/local_data_store.cpp\<close>): of each
  record the newest version wins, real conflicts are asked, devices that import each other agree, and a conflict that
  was resolved is settled on both.
\<close>

section \<open>The merge of the records\<close>

definition newest :: "json_object option \<Rightarrow> json_object \<Rightarrow> json_object" where
  "newest local remote =
     (case local of None \<Rightarrow> remote | Some l \<Rightarrow> if compare_versions l remote = Before then remote else l)"

definition in_conflict :: "json_object \<Rightarrow> json_object \<Rightarrow> bool" where
  "in_conflict l r \<longleftrightarrow> compare_versions l r = Concurrent \<or> (compare_versions l r = Equal \<and> l \<noteq> r)"

definition merged_lookup ::
  "(qstring \<times> json_object) list \<Rightarrow> (qstring \<times> json_object) list \<Rightarrow> qstring \<Rightarrow> json_object option" where
  "merged_lookup mine theirs k =
     (case map_of theirs k of None \<Rightarrow> map_of mine k | Some r \<Rightarrow> Some (newest (map_of mine k) r))"

lemma add_conflict_keeps [simp]: "mp_merged (snd (add_conflict digest profile mid rid l r plan)) = mp_merged plan"
  by (simp add: add_conflict_def Let_def)

lemma add_conflict_set:
  "set (mp_conflicts plan) \<subseteq> set (mp_conflicts (snd (add_conflict digest profile mid rid l r plan)))"
  by (auto simp: add_conflict_def Let_def)

lemma add_conflict_asks:
  "\<not> resolved_before (fingerprint digest profile mid rid l r) plan \<Longrightarrow>
    \<exists>c\<in>set (mp_conflicts (snd (add_conflict digest profile mid rid l r plan))).
      cf_profile c = profile \<and> cf_module c = mid \<and> cf_record c = rid \<and> cf_local c = l \<and> cf_incoming c = r"
  by (auto simp: add_conflict_def Let_def)

lemma merge_record_spec:
  assumes "records_sorted records" and "merge_record digest profile mid (records, plan) value = (records', plan')"
  shows "records_sorted records'"
    "map_of records' = (map_of records)(record_id (obj value) \<mapsto> newest (map_of records (record_id (obj value))) (obj value))"
    "mp_merged plan' = mp_merged plan" "set (mp_conflicts plan) \<subseteq> set (mp_conflicts plan')"
proof -
  let ?r = "obj value" let ?k = "record_id (obj value)"
  show "records_sorted records'"
    using assms by (auto simp: merge_record_def Let_def records_sorted_put split: option.splits ordering.splits if_splits)
  show "map_of records' = (map_of records)(?k \<mapsto> newest (map_of records ?k) ?r)"
    using assms(2)
    by (auto simp: merge_record_def Let_def newest_def split: option.splits ordering.splits if_splits)
  show "mp_merged plan' = mp_merged plan"
    using assms(2) by (auto simp: merge_record_def Let_def split: option.splits ordering.splits if_splits)
  show "set (mp_conflicts plan) \<subseteq> set (mp_conflicts plan')"
    using assms(2) add_conflict_set
    by (fastforce simp: merge_record_def Let_def split: option.splits ordering.splits if_splits)
qed

lemma merge_record_asks:
  assumes "merge_record digest profile mid (records, plan) value = (records', plan')"
    and "map_of records (record_id (obj value)) = Some l" and "in_conflict l (obj value)"
    and "\<not> resolved_before (fingerprint digest profile mid (record_id (obj value)) l (obj value)) plan"
  shows "\<exists>c\<in>set (mp_conflicts plan'). cf_profile c = profile \<and> cf_module c = mid
    \<and> cf_record c = record_id (obj value) \<and> cf_local c = l \<and> cf_incoming c = obj value"
proof -
  have "plan' = snd (add_conflict digest profile mid (record_id (obj value)) l (obj value) plan)"
    using assms(1-3) by (auto simp: merge_record_def Let_def in_conflict_def split: ordering.splits if_splits)
  then show ?thesis using add_conflict_asks [OF assms(4)] by simp
qed

text \<open>The records of a module as a list of pairs.\<close>

definition listed :: "json list \<Rightarrow> (qstring \<times> json_object) list" where
  "listed vs = map (\<lambda>v. (record_id (obj v), obj v)) vs"

lemma listed_simps [simp]: "listed [] = []" "listed (v # vs) = (record_id (obj v), obj v) # listed vs"
  by (simp_all add: listed_def)

lemma records_of_listed:
  assumes "distinct (map fst (listed (module_records m)))"
  shows "map_of (records_of m) = map_of (listed (module_records m))"
proof -
  have "map_of (foldl (\<lambda>rs v. amap_put (record_id (obj v)) (obj v) rs) rs vs) = map_of rs ++ map_of (listed vs)"
    if "distinct (map fst (listed vs))" for rs vs
    using that
  proof (induction vs arbitrary: rs)
    case (Cons v vs)
    have "map_of (listed vs) (record_id (obj v)) = None" using Cons.prems by (simp add: map_of_eq_None_iff)
    then show ?case using Cons by (auto simp: fun_eq_iff map_add_def split: option.splits)
  qed simp
  from this [OF assms, of "[]"] show ?thesis by (simp add: records_of_def)
qed

lemma merge_records_spec:
  assumes "records_sorted records" and "distinct (map fst (listed vs))"
    and "foldl (merge_record digest profile mid) (records, plan) vs = (records', plan')"
  shows "records_sorted records' \<and> map_of records' = merged_lookup records (listed vs)
    \<and> mp_merged plan' = mp_merged plan \<and> set (mp_conflicts plan) \<subseteq> set (mp_conflicts plan')"
  using assms
proof (induction vs arbitrary: records plan)
  case Nil
  then show ?case by (auto simp: merged_lookup_def fun_eq_iff)
next
  case (Cons v vs)
  obtain rs pl where mid: "merge_record digest profile mid (records, plan) v = (rs, pl)" by (cases "merge_record digest profile mid (records, plan) v")
  note step = merge_record_spec [OF Cons.prems(1) mid]
  have rest: "records_sorted records' \<and> map_of records' = merged_lookup rs (listed vs)
      \<and> mp_merged plan' = mp_merged pl \<and> set (mp_conflicts pl) \<subseteq> set (mp_conflicts plan')"
    by (rule Cons.IH [OF step(1)]) (use Cons.prems mid in simp_all)
  have "map_of (listed vs) (record_id (obj v)) = None" using Cons.prems(2) by (simp add: map_of_eq_None_iff)
  then have "merged_lookup rs (listed vs) = merged_lookup records (listed (v # vs))"
    by (auto simp: merged_lookup_def step(2) fun_eq_iff split: option.splits)
  then show ?case using rest step(3,4) by auto
qed

lemma merge_records_asks:
  assumes "records_sorted records" and "distinct (map fst (listed vs))"
    and "foldl (merge_record digest profile mid) (records, plan) vs = (records', plan')"
    and "map_of records k = Some l" and "map_of (listed vs) k = Some r" and "in_conflict l r"
    and "\<not> resolved_before (fingerprint digest profile mid k l r) plan"
  shows "\<exists>c\<in>set (mp_conflicts plan'). cf_profile c = profile \<and> cf_module c = mid \<and> cf_record c = k
    \<and> cf_local c = l \<and> cf_incoming c = r"
  using assms
proof (induction vs arbitrary: records plan)
  case (Cons v vs)
  obtain rs pl where mid: "merge_record digest profile mid (records, plan) v = (rs, pl)" by (cases "merge_record digest profile mid (records, plan) v")
  note step = merge_record_spec [OF Cons.prems(1) mid]
  have fold: "foldl (merge_record digest profile mid) (rs, pl) vs = (records', plan')" using Cons.prems(3) mid by simp
  have distinct: "distinct (map fst (listed vs))" using Cons.prems(2) by simp
  show ?case
  proof (cases "record_id (obj v) = k")
    case True
    then have r: "r = obj v" using Cons.prems(5) by simp
    have "\<exists>c\<in>set (mp_conflicts pl). cf_profile c = profile \<and> cf_module c = mid \<and> cf_record c = record_id (obj v)
        \<and> cf_local c = l \<and> cf_incoming c = obj v"
      by (rule merge_record_asks [OF mid]) (use Cons.prems True r in simp_all)
    moreover have "set (mp_conflicts pl) \<subseteq> set (mp_conflicts plan')" using merge_records_spec [OF step(1) distinct fold] by simp
    ultimately show ?thesis using True r by blast
  next
    case False
    show ?thesis
      by (rule Cons.IH [OF step(1) distinct fold])
        (use Cons.prems False step(2,3) in \<open>simp_all add: resolved_before_def\<close>)
  qed
qed simp

section \<open>The merge of the modules\<close>

lemma merged_lookup_same: "merged_lookup rs rs = map_of rs"
  by (auto simp: merged_lookup_def newest_def fun_eq_iff split: option.splits)

lemma in_conflict_other: "vector_ok (vector_of r) \<Longrightarrow> \<not> in_conflict r r"
  by (simp add: in_conflict_def compare_is_order)

lemma merge_metadata_keeps [simp]: "mp_merged (snd (merge_metadata digest profile mid scope l r plan)) = mp_merged plan"
  using add_conflict_keeps [of digest profile mid scope l r plan]
  by (auto simp del: add_conflict_keeps simp: merge_metadata_def split: prod.splits bool.splits)

lemma distinct_by_id:
  "distinct (map fst (listed (module_records m))) \<Longrightarrow> map_of (listed (module_records m)) = map_of (records_of m)"
  by (simp add: records_of_listed)

lemma merge_module_known:
  assumes "merge_module digest supported profile (modules, plan) (i, theirs) = (modules', plan')"
    and "supported i (schema_of mine)" and "supported i (schema_of theirs)" and "map_of modules i = Some mine"
    and "mine \<noteq> theirs"
  obtains records meta plan1 where "modules' = amap_put i (set_records records meta) modules" "mp_merged plan1 = mp_merged plan"
    "foldl (merge_record digest profile i) (records_of mine, plan1) (module_records theirs) = (records, plan')"
proof -
  define metadata where "metadata = merge_metadata digest profile i (latin ''@module-extra'') (module_metadata i mine)
    (module_metadata i theirs) plan"
  obtain records plan2 where fold: "foldl (merge_record digest profile i) (records_of mine, snd metadata) (module_records theirs) = (records, plan2)"
    by (cases "foldl (merge_record digest profile i) (records_of mine, snd metadata) (module_records theirs)")
  have "modules' = amap_put i (set_records records (fst metadata)) modules" "plan' = plan2"
    using assms fold by (simp_all add: merge_module_def Let_def metadata_def split: prod.splits)
  then show thesis using that [of records "fst metadata" "snd metadata"] fold by (simp add: metadata_def)
qed

text \<open>The records of a module after the other side was merged into it.\<close>

lemma merge_module_records:
  assumes "merge_module digest supported profile (modules, plan) (i, theirs) = (modules', plan')"
    and "supported i (schema_of mine)" and "supported i (schema_of theirs)" and "map_of modules i = Some mine"
    and "distinct (map fst (listed (module_records theirs)))"
  obtains merged where "map_of modules' i = Some merged"
    "map_of (records_of merged) = merged_lookup (records_of mine) (records_of theirs)"
proof (cases "mine = theirs")
  case True
  then have "modules' = modules" using assms(1-4) by (auto simp: merge_module_def Let_def)
  then show thesis using that [of mine] assms(4) True by (simp add: merged_lookup_same)
next
  case False
  obtain records meta plan1 where put: "modules' = amap_put i (set_records records meta) modules"
      and fold: "foldl (merge_record digest profile i) (records_of mine, plan1) (module_records theirs) = (records, plan')"
    using merge_module_known [OF assms(1-4) False] by blast
  note spec = merge_records_spec [OF records_of_sorted assms(5) fold]
  then have "map_of (records_of (set_records records meta)) = merged_lookup (records_of mine) (records_of theirs)"
    by (simp add: records_of_set_records merged_lookup_def distinct_by_id [OF assms(5)] fun_eq_iff)
  then show thesis using that [of "set_records records meta"] by (simp add: put)
qed

section \<open>Properties\<close>

text \<open>C13: importing a module that both sides have takes, of every record, the newer of the two
  versions, and keeps the one here when neither is newer; no record of either side is lost; and when neither is newer
  although they differ, the user is asked, unless the same conflict was resolved before.\<close>

theorem import_takes_the_newest:
  assumes "merge_module digest supported profile (modules, plan) (i, theirs) = (modules', plan')"
    and "supported i (schema_of mine)" and "supported i (schema_of theirs)" and "map_of modules i = Some mine"
    and "distinct (map fst (listed (module_records theirs)))" and "records_versioned (records_of mine)"
  shows "\<exists>merged. map_of modules' i = Some merged
    \<and> map_of (records_of merged) = merged_lookup (records_of mine) (records_of theirs)
    \<and> dom (map_of (records_of merged)) = dom (map_of (records_of mine)) \<union> dom (map_of (records_of theirs))
    \<and> (\<forall>k l r. map_of (records_of mine) k = Some l \<and> map_of (records_of theirs) k = Some r \<and> in_conflict l r
        \<and> \<not> resolved_before (fingerprint digest profile i k l r) plan \<longrightarrow>
        (\<exists>c\<in>set (mp_conflicts plan'). cf_profile c = profile \<and> cf_module c = i \<and> cf_record c = k
          \<and> cf_local c = l \<and> cf_incoming c = r))"
proof -
  obtain merged where merged: "map_of modules' i = Some merged"
      "map_of (records_of merged) = merged_lookup (records_of mine) (records_of theirs)"
    using merge_module_records [OF assms(1-5)] by blast
  have asks: "\<exists>c\<in>set (mp_conflicts plan'). cf_profile c = profile \<and> cf_module c = i \<and> cf_record c = k
        \<and> cf_local c = l \<and> cf_incoming c = r"
    if k: "map_of (records_of mine) k = Some l" "map_of (records_of theirs) k = Some r" "in_conflict l r"
      "\<not> resolved_before (fingerprint digest profile i k l r) plan" for k l r
  proof -
    have "mine \<noteq> theirs" using k in_conflict_other assms(6) by (auto simp: records_versioned_def)
    then obtain records plan1 where "mp_merged plan1 = mp_merged plan"
        and fold: "foldl (merge_record digest profile i) (records_of mine, plan1) (module_records theirs) = (records, plan')"
      using merge_module_known [OF assms(1-4)] by blast
    then have "\<not> resolved_before (fingerprint digest profile i k l r) plan1" using k(4) by (simp add: resolved_before_def)
    then show ?thesis
      using merge_records_asks [OF records_of_sorted assms(5) fold k(1) _ k(3)] k(2) by (simp add: distinct_by_id [OF assms(5)])
  qed
  show ?thesis
    using merged asks by (intro exI [of _ merged]) (auto simp: merged_lookup_def dom_def split: option.splits)
qed

text \<open>Two devices that import a module from each other have the same records in it, when none of them is in conflict.\<close>

lemma merged_modules_agree:
  assumes "merge_module digest supported profile (modules_a, plan) (i, b) = (modules_a', plan')"
    and "merge_module digest supported other (modules_b, plan2) (i, a) = (modules_b', plan2')"
    and "supported i (schema_of a)" and "supported i (schema_of b)"
    and "map_of modules_a i = Some a" and "map_of modules_b i = Some b"
    and "records_versioned (records_of a)" and "records_versioned (records_of b)"
    and "distinct (map fst (listed (module_records a)))" and "distinct (map fst (listed (module_records b)))"
    and "\<forall>k l r. map_of (records_of a) k = Some l \<and> map_of (records_of b) k = Some r \<longrightarrow> \<not> in_conflict l r"
  shows "\<exists>here there. map_of modules_a' i = Some here \<and> map_of modules_b' i = Some there
    \<and> records_of here = records_of there"
proof -
  obtain here where here: "map_of modules_a' i = Some here"
      "map_of (records_of here) = merged_lookup (records_of a) (records_of b)"
    using merge_module_records [OF assms(1,3,4,5,10)] by blast
  obtain there where there: "map_of modules_b' i = Some there"
      "map_of (records_of there) = merged_lookup (records_of b) (records_of a)"
    using merge_module_records [OF assms(2,4,3,6,9)] by blast
  have "merged_lookup (records_of a) (records_of b) k = merged_lookup (records_of b) (records_of a) k" for k
  proof (cases "map_of (records_of a) k"; cases "map_of (records_of b) k")
    fix l r assume l: "map_of (records_of a) k = Some l" and r: "map_of (records_of b) k = Some r"
    have ok: "vector_ok (vector_of l)" "vector_ok (vector_of r)" using assms(7,8) l r by (auto simp: records_versioned_def)
    have "\<not> in_conflict l r" using assms(11) l r by blast
    then have "newest (Some l) r = newest (Some r) l"
      using compare_is_order [OF ok] compare_is_order [OF ok(2,1)]
      by (auto simp: newest_def in_conflict_def split: if_splits)
    then show ?thesis by (simp add: merged_lookup_def l r)
  qed (simp_all add: merged_lookup_def newest_def)
  then have "map_of (records_of here) = map_of (records_of there)" by (simp add: here(2) there(2) fun_eq_iff)
  then have "records_of here = records_of there"
    using records_of_sorted [of here] records_of_sorted [of there] by (intro amap_eqI) (simp_all add: records_sorted_def)
  then show ?thesis using here(1) there(1) by blast
qed

section \<open>Resolutions\<close>

lemma keep_both_frame: "vector_of (keep_both local other) = vector_of local" "record_id (keep_both local other) = record_id local"
  by (simp_all add: keep_both_def Let_def conflict_versions_jput)

lemma resolved_newer:
  assumes "resolved_record device choice local incoming = Inr r"
    and "vector_ok (vector_of local)" and "vector_ok (vector_of incoming)" and "record_id local = record_id incoming"
  shows "compare_versions r local = After" "compare_versions r incoming = After" "compare_versions incoming r = Before"
    "record_id r = record_id incoming"
proof -
  define chosen where "chosen = (case choice of UseIncoming \<Rightarrow> incoming | KeepLocal \<Rightarrow> local | KeepBoth \<Rightarrow> keep_both local incoming)"
  have adv: "advance device (jput ''version_vector'' (JsObj (joined_vector (vector_of local) (vector_of incoming))) chosen) = Inr r"
    using assms(1) by (simp add: resolved_record_def Let_def chosen_def)
  note newer = joined_advance_newer [OF assms(2,3) adv]
  show "compare_versions r local = After" "compare_versions r incoming = After" by (simp_all add: newer)
  show "compare_versions incoming r = Before"
    using compare_is_order [OF assms(3) newer(1)] compare_is_order [OF newer(1) assms(3)] newer(3) by (simp split: if_splits)
  show "record_id r = record_id incoming"
    using record_id_advance [OF adv] assms(4) by (cases choice) (simp_all add: chosen_def keep_both_frame)
qed

text \<open>C14: after a conflict was resolved here, importing the same record again asks nothing and changes
  nothing, and on the device it came from the resolution replaces the record without a question, whichever side was
  chosen.\<close>

theorem resolved_conflict_settles:
  assumes "resolved_record device choice local incoming = Inr r"
    and "vector_ok (vector_of local)" and "vector_ok (vector_of incoming)" and "record_id local = record_id incoming"
    and "map_of records (record_id incoming) = Some r" and "map_of others (record_id incoming) = Some incoming"
  shows "merge_record digest profile mid (records, plan) (JsObj incoming) = (records, plan)
    \<and> merge_record digest' profile' mid' (others, plan') (JsObj r) = (amap_put (record_id incoming) r others, plan')"
  using resolved_newer [OF assms(1-4)] assms(5,6) by (simp add: merge_record_def)

lemma resolve_keeps_receipts:
  assumes "resolve_conflict device choice c next = Inr next'" and "cf_record c \<noteq> latin ''@root-extra''"
  shows "map_of (sn_extra next') resolutions = map_of (sn_extra next) resolutions"
proof -
  have keys: "opaque_variants \<noteq> resolutions" by (simp add: opaque_variants_def resolutions_def latin_eq_iff)
  have profile: "map_of (sn_extra next') resolutions = map_of (sn_extra next) resolutions"
    if "resolve_profile device choice c p next = Inr next'" for p
    using that keys
    by (auto simp: resolve_profile_def resolve_opaque_def Let_def map_sum_def split: if_splits sum.splits)
  show ?thesis
    using assms profile by (auto simp: resolve_conflict_def Let_def split: if_splits option.splits)
qed

lemma apply_conflict_receipts:
  assumes "apply_conflict choices next c = Inr next'"
  shows "JsStr (cf_id c) \<in> set (to_arr (map_of (sn_extra next') resolutions))"
    "cf_record c \<noteq> latin ''@root-extra'' \<Longrightarrow>
      set (to_arr (map_of (sn_extra next) resolutions)) \<subseteq> set (to_arr (map_of (sn_extra next') resolutions))"
    "choices (cf_id c) \<noteq> None"
proof -
  obtain choice mid where mid: "choices (cf_id c) = Some choice" "resolve_conflict (sn_device next) choice c next = Inr mid"
      "next' = add_receipt (cf_id c) mid"
    using assms by (auto simp: apply_conflict_def map_sum_def split: option.splits sum.splits)
  show "JsStr (cf_id c) \<in> set (to_arr (map_of (sn_extra next') resolutions))" by (simp add: mid(3) add_receipt_def)
  show "set (to_arr (map_of (sn_extra next) resolutions)) \<subseteq> set (to_arr (map_of (sn_extra next') resolutions))"
    if "cf_record c \<noteq> latin ''@root-extra''"
    using resolve_keeps_receipts [OF mid(2) that] by (auto simp: mid(3) add_receipt_def)
  show "choices (cf_id c) \<noteq> None" by (simp add: mid(1))
qed

lemma apply_all_receipts:
  assumes "sum_fold (apply_conflict choices) next cs = Inr next'" and "\<forall>c\<in>set cs. cf_record c \<noteq> latin ''@root-extra''"
  shows "set (to_arr (map_of (sn_extra next) resolutions)) \<union> (\<lambda>c. JsStr (cf_id c)) ` set cs
      \<subseteq> set (to_arr (map_of (sn_extra next') resolutions))"
  using assms
proof (induction cs arbitrary: "next")
  case (Cons c cs)
  obtain mid where mid: "apply_conflict choices next c = Inr mid" "sum_fold (apply_conflict choices) mid cs = Inr next'"
    using Cons.prems(1) by (cases "apply_conflict choices next c") simp_all
  note here = apply_conflict_receipts [OF mid(1)]
  have "set (to_arr (map_of (sn_extra mid) resolutions)) \<union> (\<lambda>c. JsStr (cf_id c)) ` set cs
      \<subseteq> set (to_arr (map_of (sn_extra next') resolutions))"
    by (rule Cons.IH [OF mid(2)]) (use Cons.prems(2) in simp)
  then show ?case using here(1,2) Cons.prems(2) by auto
qed simp

lemma sum_fold_all:
  "sum_fold f s xs = Inr t \<Longrightarrow> (\<And>s x s'. f s x = Inr s' \<Longrightarrow> P x) \<Longrightarrow> \<forall>x\<in>set xs. P x"
  by (induction xs arbitrary: s) (auto split: sum.splits)


text \<open>C18: a plan made for another state, or without a choice for one of its conflicts, is refused.\<close>

theorem stale_import_refused:
  assumes "mp_base plan \<noteq> sn_generation state \<or> (\<exists>c\<in>set (mp_conflicts plan). choices (cf_id c) = None)"
  shows "\<exists>e. apply_import validate io generation plan choices state = Inl e
    \<and> (mp_base plan \<noteq> sn_generation state \<longrightarrow> fst e = Stale)"
proof (cases "mp_base plan = sn_generation state")
  case True
  have "\<forall>c\<in>set (mp_conflicts plan). choices (cf_id c) \<noteq> None"
    if "sum_fold (apply_conflict choices) (mp_merged plan) (mp_conflicts plan) = Inr mid" for mid
    by (rule sum_fold_all [OF that]) (rule apply_conflict_receipts(3))
  then obtain e where "sum_fold (apply_conflict choices) (mp_merged plan) (mp_conflicts plan) = Inl e"
    using assms True by (cases "sum_fold (apply_conflict choices) (mp_merged plan) (mp_conflicts plan)") blast+
  then show ?thesis using True by (simp add: apply_import_def)
qed (simp add: apply_import_def)

section \<open>Witnesses\<close>

text \<open>A module with one record, at a version.\<close>

definition sample_id :: qstring where
  "sample_id = latin ''00000000-0000-4000-8000-00000000000a''"

definition identified :: "(qstring \<times> int) list \<Rightarrow> json_object" where
  "identified v = (latin ''id'', JsStr sample_id) # versioned v"

definition notes_module :: "(qstring \<times> int) list \<Rightarrow> json_object" where
  "notes_module v = [(latin ''records'', JsArr [JsObj (identified v)])]"

definition sample_snapshot :: snapshot where
  "sample_snapshot = \<lparr>sn_generation = [], sn_device = sample_device, sn_extra = [], sn_profiles = [], sn_assets = [], sn_transfer = []\<rparr>"

definition sample_plan :: merge_plan where
  "sample_plan = \<lparr>mp_base = [], mp_merged = sample_snapshot, mp_conflicts = [], mp_unsupported = [], mp_accounts = []\<rparr>"

lemma identified_fields [simp]: "record_id (identified v) = sample_id" "vector_of (identified v) = vector_of (versioned v)"
  by (simp_all add: record_id_def identified_def jfield_def vector_of_def versioned_def latin_eq_iff)

lemma notes_records [simp]: "module_records (notes_module v) = [JsObj (identified v)]"
  by (simp add: module_records_def notes_module_def jfield_def)

lemma records_of_notes [simp]: "records_of (notes_module v) = [(sample_id, identified v)]"
  by (simp add: records_of_def)

lemma sample_versions: "vector_ok (vector_of (versioned [(sample_device, 1)]))" "vector_ok (vector_of (versioned [(sample_device, 2)]))"
  "compare_versions (identified [(sample_device, 1)]) (identified [(sample_device, 2)]) = Before"
  "compare_versions (identified [(sample_device, 2)]) (identified [(sample_device, 1)]) = After"
proof -
  show ok: "vector_ok (vector_of (versioned [(sample_device, 1)]))" "vector_ok (vector_of (versioned [(sample_device, 2)]))"
    by (simp_all add: vector_ok_def)
  have "\<not> vector_le [(sample_device, JsNum 2)] [(sample_device, JsNum 1)]"
    by (auto simp: vector_le_def counter_def intro!: exI [of _ sample_device])
  moreover have "vector_le [(sample_device, JsNum 1)] [(sample_device, JsNum 2)]"
    by (auto simp: vector_le_def counter_def)
  ultimately show "compare_versions (identified [(sample_device, 1)]) (identified [(sample_device, 2)]) = Before"
    "compare_versions (identified [(sample_device, 2)]) (identified [(sample_device, 1)]) = After"
    using ok by (simp_all add: compare_is_order)
qed

theorem import_takes_the_newest_witness:
  "\<exists>merged. map_of (fst (merge_module (\<lambda>j. []) (\<lambda>i n. True) [] ([(latin ''notes'', notes_module [(sample_device, 1)])], sample_plan)
      (latin ''notes'', notes_module [(sample_device, 2)]))) (latin ''notes'') = Some merged
    \<and> map_of (records_of merged) sample_id = Some (identified [(sample_device, 2)])"
proof -
  obtain modules' plan' where run: "merge_module (\<lambda>j. []) (\<lambda>i n. True) [] ([(latin ''notes'', notes_module [(sample_device, 1)])], sample_plan)
      (latin ''notes'', notes_module [(sample_device, 2)]) = (modules', plan')"
    by (cases "merge_module (\<lambda>j. []) (\<lambda>i n. True) [] ([(latin ''notes'', notes_module [(sample_device, 1)])], sample_plan)
      (latin ''notes'', notes_module [(sample_device, 2)])")
  have hyps: "map_of [(latin ''notes'', notes_module [(sample_device, 1)])] (latin ''notes'') = Some (notes_module [(sample_device, 1)])"
    "distinct (map fst (listed (module_records (notes_module [(sample_device, 2)]))))"
    "records_versioned (records_of (notes_module [(sample_device, 1)]))"
    using sample_versions(1) by (simp_all add: records_versioned_def)
  obtain merged where "map_of modules' (latin ''notes'') = Some merged" "map_of (records_of merged)
      = merged_lookup (records_of (notes_module [(sample_device, 1)])) (records_of (notes_module [(sample_device, 2)]))"
    using import_takes_the_newest [OF run TrueI TrueI hyps] by blast
  then show ?thesis by (auto simp: run merged_lookup_def newest_def sample_versions(3))
qed

definition sample_resolved :: json_object where
  "sample_resolved = (case resolved_record sample_device KeepLocal (identified [(sample_device, 1)]) (identified [(sample_other, 1)]) of
     Inr r \<Rightarrow> r | Inl e \<Rightarrow> [])"

lemma sample_resolves:
  "resolved_record sample_device KeepLocal (identified [(sample_device, 1)]) (identified [(sample_other, 1)]) = Inr sample_resolved"
proof -
  have "case resolved_record sample_device KeepLocal (identified [(sample_device, 1)]) (identified [(sample_other, 1)]) of
      Inr r \<Rightarrow> True | Inl e \<Rightarrow> False"
    by code_simp
  then show ?thesis by (auto simp: sample_resolved_def split: sum.splits)
qed

theorem resolved_conflict_settles_witness:
  "merge_record (\<lambda>j. []) [] [] ([(sample_id, identified [(sample_other, 1)])], sample_plan) (JsObj sample_resolved)
    = ([(sample_id, sample_resolved)], sample_plan)"
proof -
  have ok: "vector_ok (vector_of (identified [(sample_device, 1)]))" "vector_ok (vector_of (identified [(sample_other, 1)]))"
    by (simp_all add: vector_ok_def)
  show ?thesis
    using resolved_conflict_settles [OF sample_resolves ok, of "[(sample_id, sample_resolved)]"
        "[(sample_id, identified [(sample_other, 1)])]" "\<lambda>j. []" "[]" "[]" sample_plan "\<lambda>j. []" "[]" "[]" sample_plan]
    by simp
qed

text \<open>A plan with one conflict, of the metadata of the root.\<close>

definition sample_conflict :: store_conflict where
  "sample_conflict = \<lparr>cf_id = latin ''c'', cf_profile = [], cf_module = [], cf_record = latin ''@root-extra'',
     cf_local = sample_local, cf_incoming = sample_incoming\<rparr>"

definition sample_import :: "qstring \<Rightarrow> store_failure + snapshot" where
  "sample_import base = apply_import (\<lambda>s. None) None (latin ''g'') (sample_plan\<lparr>mp_base := base, mp_conflicts := [sample_conflict]\<rparr>)
     (\<lambda>i. Some KeepLocal) sample_snapshot"

definition sample_imported :: snapshot where
  "sample_imported = (case sample_import [] of Inr s \<Rightarrow> s | Inl e \<Rightarrow> sample_snapshot)"

lemma sample_imports: "sample_import [] = Inr sample_imported"
proof -
  have "case sample_import [] of Inr s \<Rightarrow> True | Inl e \<Rightarrow> False" by code_simp
  then show ?thesis by (auto simp: sample_imported_def split: sum.splits)
qed


theorem stale_import_refused_witness: "\<exists>e. sample_import (latin ''old'') = Inl e \<and> fst e = Stale"
  using stale_import_refused [of "sample_plan\<lparr>mp_base := latin ''old'', mp_conflicts := [sample_conflict]\<rparr>" sample_snapshot
      "\<lambda>i. Some KeepLocal" "\<lambda>s. None" None "latin ''g''"]
  by (simp add: sample_import_def sample_snapshot_def)

end
