(* ===== verification/StoreFormats.thy ===== *)
theory StoreFormats
  imports StoreRecords "HOL-Library.Code_Target_Nat"
begin

text \<open>
  The formats of two modules of the local data: the folders of chats (\<open>storage/local_chat_folders_format.cpp\<close>) and the
  preferences of the navigation (\<open>storage/local_navigation_preferences_format.cpp\<close>). The hash \<open>QUuid::createUuidV5\<close> is
  the parameter \<open>u5\<close>, as for the pins.
\<close>

section \<open>Values\<close>

text \<open>\<open>QChar::isSpace\<close>, and whether something is left of a text after \<open>trimmed()\<close>.\<close>

definition is_space :: "int \<Rightarrow> bool" where
  "is_space c \<longleftrightarrow> c \<in> {0x20, 0x85, 0xA0, 0x1680, 0x2028, 0x2029, 0x202F, 0x205F, 0x3000}
     \<or> (0x09 \<le> c \<and> c \<le> 0x0D) \<or> (0x2000 \<le> c \<and> c \<le> 0x200A)"

definition blank_text :: "qstring \<Rightarrow> bool" where
  "blank_text s \<longleftrightarrow> list_all is_space s"

definition integral_in_range :: "json option \<Rightarrow> int \<Rightarrow> int \<Rightarrow> bool" where
  "integral_in_range v lo hi =
     (case v of Some (JsNum r) \<Rightarrow> of_int \<lfloor>r\<rfloor> = r \<and> of_int lo \<le> r \<and> r \<le> of_int hi | _ \<Rightarrow> False)"

fun is_container :: "json \<Rightarrow> bool" where
  "is_container (JsArr vs) = True"
| "is_container (JsObj m) = True"
| "is_container v = False"

text \<open>A field that may be missing.\<close>

definition if_present :: "json_object \<Rightarrow> string \<Rightarrow> (json option \<Rightarrow> bool) \<Rightarrow> bool" where
  "if_present m name ok \<longleftrightarrow> jfield m name = None \<or> ok (jfield m name)"

definition max_int32 :: int where
  "max_int32 = 2147483647"

section \<open>Preferences of the navigation\<close>

definition nav_maximum_order :: nat where
  "nav_maximum_order = 4096"

definition valid_reference :: "qstring \<Rightarrow> bool" where
  "valid_reference ref \<longleftrightarrow>
     ref = latin ''all''
     \<or> (let parts = split_char colon ref in
        if length parts = 2 \<and> parts ! 0 = latin ''local'' then valid_uuid (parts ! 1)
        else length parts = 3 \<and> parts ! 0 = latin ''filter'' \<and> canonical_decimal 2147483647 (parts ! 1) \<and> valid_uuid (parts ! 2))"

definition nav_settings_id :: "uuid5 \<Rightarrow> local_account \<Rightarrow> qstring" where
  "nav_settings_id u5 account =
     u5 (latin ''{8e5e7aaf-58e6-4c5a-ae47-90c23a2e24fb}'')
       (la_environment account @ latin '':'' @ la_user account @ latin '':navigation_preferences:settings:account'')"

fun distinct_references :: "qstring list \<Rightarrow> json list \<Rightarrow> bool" where
  "distinct_references seen [] = True"
| "distinct_references seen (v # vs) =
     (let ref = to_str (Some v) in
      is_str (Some v) \<and> valid_reference ref \<and> ref \<notin> set seen \<and> distinct_references (ref # seen) vs)"

definition optional_reference :: "json option \<Rightarrow> bool" where
  "optional_reference v \<longleftrightarrow> v = None \<or> v = Some JsNull \<or> (is_str v \<and> valid_reference (to_str v))"

definition valid_nav_settings :: "uuid5 \<Rightarrow> local_account \<Rightarrow> json_object \<Rightarrow> bool" where
  "valid_nav_settings u5 account r \<longleftrightarrow>
     to_str (jfield r ''id'') = nav_settings_id u5 account \<and> to_str (jfield r ''scope'') = latin ''account''
     \<and> is_bool (jfield r ''restore_last_section'') \<and> is_arr (jfield r ''visible_order'')
     \<and> length (to_arr (jfield r ''visible_order'')) \<le> nav_maximum_order
     \<and> distinct_references [] (to_arr (jfield r ''visible_order''))
     \<and> list_all (\<lambda>key. optional_reference (jfield r key)) [''startup_ref'', ''last_section_ref'']"

fun valid_nav_records :: "uuid5 \<Rightarrow> local_account \<Rightarrow> qstring list \<Rightarrow> json list \<Rightarrow> bool" where
  "valid_nav_records u5 account ids [] = True"
| "valid_nav_records u5 account ids (v # vs) =
     (let r = to_obj (Some v); i = to_str (jfield r ''id'') in
      is_obj (Some v) \<and> valid_uuid i \<and> i \<notin> set ids \<and> is_bool (jfield r ''deleted'')
      \<and> (record_kind r = latin ''settings'' \<longrightarrow> valid_nav_settings u5 account r)
      \<and> valid_nav_records u5 account (i # ids) vs)"

definition navigation_valid :: "uuid5 \<Rightarrow> json_object \<Rightarrow> local_account \<Rightarrow> bool" where
  "navigation_valid u5 m account \<longleftrightarrow>
     to_str (jfield m ''module_id'') = latin ''navigation_preferences'' \<and> to_int (jfield m ''schema_version'') = 1
     \<and> is_arr (jfield m ''records'') \<and> valid_nav_records u5 account [] (to_arr (jfield m ''records''))"

section \<open>Folders of chats\<close>

definition maximum_folders :: nat where
  "maximum_folders = 4096"

definition maximum_members :: nat where
  "maximum_members = 4096"

definition maximum_rule_depth :: nat where
  "maximum_rule_depth = 16"

definition maximum_rules :: nat where
  "maximum_rules = 128"

definition maximum_rule_properties :: nat where
  "maximum_rule_properties = 64"

definition maximum_rule_op :: nat where
  "maximum_rule_op = 128"

definition maximum_title_entities :: nat where
  "maximum_title_entities = 128"

fun valid_rule_value :: "nat \<Rightarrow> json \<Rightarrow> bool" where
  "valid_rule_value depth (JsArr vs) =
     (depth \<le> maximum_rule_depth \<and> length vs \<le> maximum_rule_properties
      \<and> list_all (\<lambda>v. is_container v \<longrightarrow> valid_rule_value (Suc depth) v) vs)"
| "valid_rule_value depth (JsObj m) =
     (depth \<le> maximum_rule_depth \<and> length m \<le> maximum_rule_properties
      \<and> list_all (\<lambda>(k, v). is_container v \<longrightarrow> valid_rule_value (Suc depth) v) m)"
| "valid_rule_value depth v = (depth \<le> maximum_rule_depth)"

definition folders_stable_id :: "uuid5 \<Rightarrow> local_account \<Rightarrow> qstring \<Rightarrow> qstring" where
  "folders_stable_id u5 account key =
     u5 (latin ''{1f9b4b61-3c7c-4f26-9e49-ecb3a31c11de}'')
       (la_environment account @ latin '':'' @ la_user account @ latin '':chat_folders:'' @ key)"

definition folder_id :: "uuid5 \<Rightarrow> local_account \<Rightarrow> qstring \<Rightarrow> qstring" where
  "folder_id u5 account folder = folders_stable_id u5 account (latin ''folder:'' @ folder)"

definition folders_settings_id :: "uuid5 \<Rightarrow> local_account \<Rightarrow> qstring" where
  "folders_settings_id u5 account = folders_stable_id u5 account (latin ''settings:account'')"

definition valid_cloud_color_scope :: "qstring \<Rightarrow> bool" where
  "valid_cloud_color_scope scope \<longleftrightarrow> take 7 scope = latin ''filter:'' \<and> valid_scope scope"

definition cloud_color_id :: "uuid5 \<Rightarrow> local_account \<Rightarrow> qstring \<Rightarrow> qstring" where
  "cloud_color_id u5 account scope = folders_stable_id u5 account (latin ''cloud_color:'' @ scope)"

definition member_id :: "uuid5 \<Rightarrow> local_account \<Rightarrow> qstring \<Rightarrow> json_object \<Rightarrow> qstring \<Rightarrow> qstring" where
  "member_id u5 account folder peer mode =
     folders_stable_id u5 account (latin ''member:'' @ folder @ colon # peer_key peer @ colon # mode)"

definition valid_title_entity :: "qstring \<Rightarrow> json \<Rightarrow> bool" where
  "valid_title_entity title v \<longleftrightarrow>
     (let e = to_obj (Some v); offset = to_double 0 (jfield e ''offset''); len = to_double 0 (jfield e ''length'') in
      is_obj (Some v) \<and> is_str (jfield e ''type'') \<and> to_str (jfield e ''type'') \<noteq> []
      \<and> integral_in_range (jfield e ''offset'') 0 max_int32 \<and> integral_in_range (jfield e ''length'') 1 max_int32
      \<and> (to_str (jfield e ''type'') = latin ''custom_emoji'' \<longrightarrow> offset + len \<le> of_nat (length title))
      \<and> if_present e ''data'' (\<lambda>d. is_str d \<and> length (to_str d) \<le> 1024))"

definition valid_rule :: "json \<Rightarrow> bool" where
  "valid_rule v \<longleftrightarrow>
     (let r = to_obj (Some v); operator = jfield r ''op'' in
      is_obj (Some v) \<and> is_str operator \<and> to_str operator \<noteq> [] \<and> length (to_str operator) \<le> maximum_rule_op
      \<and> if_present r ''enabled'' is_bool \<and> valid_rule_value 0 v)"

definition valid_folder :: "uuid5 \<Rightarrow> local_account \<Rightarrow> json_object \<Rightarrow> bool" where
  "valid_folder u5 account r \<longleftrightarrow>
     (let folder = to_str (jfield r ''folder_id''); title = jfield r ''title''; rules = jfield r ''rules'' in
      valid_uuid folder \<and> to_str (jfield r ''id'') = folder_id u5 account folder
      \<and> is_str title \<and> \<not> blank_text (to_str title) \<and> length (to_str title) \<le> 100
      \<and> is_arr rules \<and> length (to_arr rules) \<le> maximum_rules \<and> integral_in_range (jfield r ''position'') 0 max_int32
      \<and> if_present r ''icon'' (\<lambda>i. is_str i \<and> length (to_str i) \<le> 32) \<and> if_present r ''static_title'' is_bool
      \<and> if_present r ''title_entities'' (\<lambda>es. is_arr es \<and> length (to_arr es) \<le> maximum_title_entities
          \<and> list_all (valid_title_entity (to_str title)) (to_arr es))
      \<and> if_present r ''color'' (\<lambda>c. integral_in_range c 0 255) \<and> list_all valid_rule (to_arr rules))"

definition member_key :: "json_object \<Rightarrow> qstring" where
  "member_key r = to_str (jfield r ''folder_id'') @ colon # to_str (jfield r ''mode'')"

definition valid_member :: "uuid5 \<Rightarrow> local_account \<Rightarrow> json_object \<Rightarrow> bool" where
  "valid_member u5 account r \<longleftrightarrow>
     (let folder = to_str (jfield r ''folder_id''); peer = to_obj (jfield r ''peer''); mode = to_str (jfield r ''mode'') in
      valid_uuid folder \<and> peer_key peer \<noteq> [] \<and> mode \<in> {latin ''include'', latin ''exclude''}
      \<and> to_str (jfield r ''id'') = member_id u5 account folder peer mode)"

definition valid_cloud_color :: "uuid5 \<Rightarrow> local_account \<Rightarrow> json_object \<Rightarrow> bool" where
  "valid_cloud_color u5 account r \<longleftrightarrow>
     (let scope = to_str (jfield r ''scope''); color = jfield r ''color_index'' in
      valid_cloud_color_scope scope \<and> to_str (jfield r ''id'') = cloud_color_id u5 account scope
      \<and> (color = Some JsNull \<or> integral_in_range color 0 255))"

definition valid_folders_settings :: "uuid5 \<Rightarrow> local_account \<Rightarrow> json_object \<Rightarrow> bool" where
  "valid_folders_settings u5 account r \<longleftrightarrow>
     to_str (jfield r ''scope'') = latin ''account'' \<and> to_str (jfield r ''id'') = folders_settings_id u5 account
     \<and> is_bool (jfield r ''tags_enabled'')"

definition valid_folders_record :: "uuid5 \<Rightarrow> local_account \<Rightarrow> json_object \<Rightarrow> bool" where
  "valid_folders_record u5 account r =
     (if record_kind r = latin ''folder'' then valid_folder u5 account r
      else if record_kind r = latin ''member'' then valid_member u5 account r
      else if record_kind r = latin ''cloud_color'' then valid_cloud_color u5 account r
      else if record_kind r = latin ''settings'' then valid_folders_settings u5 account r
      else True)"

definition live_kind :: "string \<Rightarrow> json_object \<Rightarrow> bool" where
  "live_kind kind r \<longleftrightarrow> record_kind r = latin kind \<and> \<not> to_bool (jfield r ''deleted'')"

text \<open>The loop: the ids of the records, the folders, and how many members each folder has, by mode.\<close>

definition member_count :: "(qstring \<times> nat) list \<Rightarrow> qstring \<Rightarrow> nat" where
  "member_count counts key = (case map_of counts key of None \<Rightarrow> 0 | Some n \<Rightarrow> n)"

definition add_folder :: "json_object \<Rightarrow> qstring list \<Rightarrow> qstring list" where
  "add_folder r folders = (if live_kind ''folder'' r then to_str (jfield r ''folder_id'') # folders else folders)"

definition add_member :: "json_object \<Rightarrow> (qstring \<times> nat) list \<Rightarrow> (qstring \<times> nat) list" where
  "add_member r counts =
     (if live_kind ''member'' r then amap_put (member_key r) (member_count counts (member_key r) + 1) counts else counts)"

fun valid_folders_records ::
  "uuid5 \<Rightarrow> local_account \<Rightarrow> qstring list \<Rightarrow> qstring list \<Rightarrow> (qstring \<times> nat) list \<Rightarrow> json list \<Rightarrow> bool" where
  "valid_folders_records u5 account ids folders counts [] = True"
| "valid_folders_records u5 account ids folders counts (v # vs) =
     (let r = to_obj (Some v); i = to_str (jfield r ''id'') in
      is_obj (Some v) \<and> valid_uuid i \<and> i \<notin> set ids \<and> is_bool (jfield r ''deleted'') \<and> valid_folders_record u5 account r
      \<and> (live_kind ''folder'' r \<longrightarrow> to_str (jfield r ''folder_id'') \<notin> set folders \<and> length folders < maximum_folders)
      \<and> (live_kind ''member'' r \<longrightarrow> member_count counts (member_key r) + 1 \<le> maximum_members)
      \<and> valid_folders_records u5 account (i # ids) (add_folder r folders) (add_member r counts) vs)"

definition chat_folders_valid :: "uuid5 \<Rightarrow> json_object \<Rightarrow> local_account \<Rightarrow> bool" where
  "chat_folders_valid u5 m account \<longleftrightarrow>
     to_str (jfield m ''module_id'') = latin ''chat_folders'' \<and> to_int (jfield m ''schema_version'') = 1
     \<and> is_arr (jfield m ''records'') \<and> valid_folders_records u5 account [] [] [] (to_arr (jfield m ''records''))"

section \<open>What the loops check\<close>

lemma distinct_by_key:
  "distinct (map f xs) \<Longrightarrow> (\<And>x. x \<in> set xs \<Longrightarrow> P x \<Longrightarrow> f x = g (key x)) \<Longrightarrow> distinct (map key (filter P xs))"
proof (induction xs)
  case (Cons x xs)
  have rest: "distinct (map key (filter P xs))" using Cons by simp
  have "key x \<notin> key ` set (filter P xs)" if "P x"
  proof
    assume "key x \<in> key ` set (filter P xs)"
    then obtain y where y: "y \<in> set xs" "P y" "key x = key y" by auto
    then have "f x = f y" using Cons.prems(2) [of x] Cons.prems(2) [of y] that by simp
    then show False using Cons.prems(1) y(1) by simp
  qed
  then show ?case using rest by simp
qed simp

lemma valid_nav_records_ids:
  "valid_nav_records u5 account ids vs \<Longrightarrow>
    distinct (map (\<lambda>v. to_str (jfield (obj v) ''id'')) vs) \<and> (\<forall>v\<in>set vs. to_str (jfield (obj v) ''id'') \<notin> set ids)
    \<and> (\<forall>v\<in>set vs. record_kind (obj v) = latin ''settings'' \<longrightarrow> valid_nav_settings u5 account (obj v))"
proof (induction vs arbitrary: ids)
  case (Cons v vs)
  then have "valid_nav_records u5 account (to_str (jfield (obj v) ''id'') # ids) vs"
    and here: "to_str (jfield (obj v) ''id'') \<notin> set ids"
      "record_kind (obj v) = latin ''settings'' \<longrightarrow> valid_nav_settings u5 account (obj v)"
    by (simp_all add: Let_def)
  from Cons.IH [OF this(1)] show ?case using here by auto
qed simp

lemma distinct_references_spec:
  "distinct_references seen vs \<Longrightarrow>
    distinct vs \<and> JsStr ` set seen \<inter> set vs = {} \<and> (\<forall>v\<in>set vs. \<exists>ref. v = JsStr ref \<and> valid_reference ref)"
proof (induction vs arbitrary: seen)
  case (Cons v vs)
  obtain ref where ref: "v = JsStr ref" using Cons.prems by (cases v) (auto simp: Let_def)
  have "valid_reference ref" "ref \<notin> set seen" "distinct_references (ref # seen) vs" using Cons.prems by (simp_all add: ref Let_def)
  then show ?case using Cons.IH [of "ref # seen"] by (auto simp: ref)
qed simp

lemma folders_loop:
  "valid_folders_records u5 account ids folders counts vs \<Longrightarrow>
    distinct (map (\<lambda>v. to_str (jfield (obj v) ''id'')) vs) \<and> (\<forall>v\<in>set vs. to_str (jfield (obj v) ''id'') \<notin> set ids)
    \<and> (\<forall>v\<in>set vs. valid_folders_record u5 account (obj v))
    \<and> length (filter (live_kind ''folder'') (map obj vs)) \<le> maximum_folders - length folders
    \<and> length (filter (\<lambda>r. live_kind ''member'' r \<and> member_key r = k) (map obj vs)) \<le> maximum_members - member_count counts k"
proof (induction vs arbitrary: ids folders counts)
  case (Cons v vs)
  then have "valid_folders_records u5 account (to_str (jfield (obj v) ''id'') # ids) (add_folder (obj v) folders)
        (add_member (obj v) counts) vs"
    and here: "to_str (jfield (obj v) ''id'') \<notin> set ids" "valid_folders_record u5 account (obj v)"
      "live_kind ''folder'' (obj v) \<longrightarrow> length folders < maximum_folders"
      "live_kind ''member'' (obj v) \<longrightarrow> member_count counts (member_key (obj v)) + 1 \<le> maximum_members"
    by (simp_all add: Let_def)
  note rest = Cons.IH [OF this(1)]
  have "length (filter (live_kind ''folder'') (map obj (v # vs))) \<le> maximum_folders - length folders"
    using rest here(3) by (auto simp: add_folder_def split: if_splits)
  moreover have "length (filter (\<lambda>r. live_kind ''member'' r \<and> member_key r = k) (map obj (v # vs)))
      \<le> maximum_members - member_count counts k"
    using rest here(4) by (auto simp: add_member_def member_count_def split: if_splits)
  ultimately show ?case using rest here(1,2) by auto
qed simp

section \<open>Properties\<close>

text \<open>C12: in a valid module of chat folders no two records are about the same folder, the same chat in
  the same list of a folder, or the same color; there are at most 4096 folders, and at most 4096 chats in a list.\<close>

theorem chat_folders_distinct:
  assumes "chat_folders_valid u5 m account"
  shows "distinct (map (\<lambda>r. to_str (jfield r ''folder_id'')) (filter (\<lambda>r. record_kind r = latin ''folder'') (map obj (module_records m))))
    \<and> distinct (map (\<lambda>r. (to_str (jfield r ''folder_id''), peer_key (to_obj (jfield r ''peer'')), to_str (jfield r ''mode'')))
        (filter (\<lambda>r. record_kind r = latin ''member'') (map obj (module_records m))))
    \<and> distinct (map (\<lambda>r. to_str (jfield r ''scope'')) (filter (\<lambda>r. record_kind r = latin ''cloud_color'') (map obj (module_records m))))
    \<and> length (filter (live_kind ''folder'') (map obj (module_records m))) \<le> 4096
    \<and> length (filter (\<lambda>r. live_kind ''member'' r \<and> to_str (jfield r ''folder_id'') = folder \<and> to_str (jfield r ''mode'') = mode)
        (map obj (module_records m))) \<le> 4096"
proof -
  define records where "records = map obj (module_records m)"
  have ok: "valid_folders_records u5 account [] [] [] (module_records m)"
    using assms by (simp add: chat_folders_valid_def module_records_def)
  note loop = folders_loop [OF ok]
  have ids: "distinct (map (\<lambda>r. to_str (jfield r ''id'')) records)" using loop by (simp add: records_def comp_def)
  have valid: "valid_folders_record u5 account r" if "r \<in> set records" for r using that loop by (auto simp: records_def)
  have folder: "to_str (jfield r ''id'') = folder_id u5 account (to_str (jfield r ''folder_id''))"
    if "r \<in> set records" "record_kind r = latin ''folder''" for r
    using valid [OF that(1)] that(2) by (simp add: valid_folders_record_def valid_folder_def Let_def)
  have member: "to_str (jfield r ''id'') = (\<lambda>(folder, peer, mode).
      folders_stable_id u5 account (latin ''member:'' @ folder @ colon # peer @ colon # mode))
        (to_str (jfield r ''folder_id''), peer_key (to_obj (jfield r ''peer'')), to_str (jfield r ''mode''))"
    if "r \<in> set records" "record_kind r = latin ''member''" for r
    using valid [OF that(1)] that(2) by (simp add: valid_folders_record_def valid_member_def member_id_def Let_def)
  have color: "to_str (jfield r ''id'') = cloud_color_id u5 account (to_str (jfield r ''scope''))"
    if "r \<in> set records" "record_kind r = latin ''cloud_color''" for r
    using valid [OF that(1)] that(2) by (simp add: valid_folders_record_def valid_cloud_color_def Let_def)
  have folders: "distinct (map (\<lambda>r. to_str (jfield r ''folder_id'')) (filter (\<lambda>r. record_kind r = latin ''folder'') records))"
    by (rule distinct_by_key [OF ids, where g = "folder_id u5 account"]) (rule folder)
  have members: "distinct (map (\<lambda>r. (to_str (jfield r ''folder_id''), peer_key (to_obj (jfield r ''peer'')), to_str (jfield r ''mode'')))
      (filter (\<lambda>r. record_kind r = latin ''member'') records))"
    by (rule distinct_by_key [OF ids, where g = "\<lambda>(folder, peer, mode).
      folders_stable_id u5 account (latin ''member:'' @ folder @ colon # peer @ colon # mode)"]) (rule member)
  have colors: "distinct (map (\<lambda>r. to_str (jfield r ''scope'')) (filter (\<lambda>r. record_kind r = latin ''cloud_color'') records))"
    by (rule distinct_by_key [OF ids, where g = "cloud_color_id u5 account"]) (rule color)
  have "length (filter (live_kind ''folder'') records) \<le> 4096"
    using loop by (simp add: records_def maximum_folders_def)
  moreover have "length (filter (\<lambda>r. live_kind ''member'' r \<and> member_key r = folder @ colon # mode) records) \<le> 4096"
    using folders_loop [OF ok, of "folder @ colon # mode"] by (simp add: records_def maximum_members_def member_count_def)
  moreover have "length (filter (\<lambda>r. live_kind ''member'' r \<and> to_str (jfield r ''folder_id'') = folder \<and> to_str (jfield r ''mode'') = mode) records)
      \<le> length (filter (\<lambda>r. live_kind ''member'' r \<and> member_key r = folder @ colon # mode) records)"
    by (induction records) (auto simp: member_key_def)
  ultimately show ?thesis using folders members colors by (simp add: records_def)
qed

text \<open>Valid preferences of the navigation have at most one record of settings, whose order
  names every section at most once, and only sections that can exist.\<close>

theorem navigation_settings_once:
  assumes "navigation_valid u5 m account"
  shows "length (filter (\<lambda>r. record_kind r = latin ''settings'') (map obj (module_records m))) \<le> 1
    \<and> (\<forall>r\<in>set (filter (\<lambda>r. record_kind r = latin ''settings'') (map obj (module_records m))).
        distinct (to_arr (jfield r ''visible_order''))
        \<and> length (to_arr (jfield r ''visible_order'')) \<le> 4096
        \<and> (\<forall>v\<in>set (to_arr (jfield r ''visible_order'')). \<exists>ref. v = JsStr ref \<and> valid_reference ref))"
proof -
  define settings where "settings = filter (\<lambda>r. record_kind r = latin ''settings'') (map obj (module_records m))"
  have ok: "valid_nav_records u5 account [] (module_records m)" using assms by (simp add: navigation_valid_def module_records_def)
  note loop = valid_nav_records_ids [OF ok]
  have valid: "valid_nav_settings u5 account r" if "r \<in> set settings" for r using that loop by (auto simp: settings_def)
  have "distinct (map (\<lambda>r. to_str (jfield r ''id'')) (map obj (module_records m)))" using loop by (simp add: comp_def)
  then have "distinct (map (\<lambda>_. ()) settings)"
    unfolding settings_def
    by (rule distinct_by_key [where g = "\<lambda>_. nav_settings_id u5 account"])
      (use valid in \<open>simp add: settings_def valid_nav_settings_def\<close>)
  then have "length settings \<le> 1"
    by (cases settings; cases "tl settings") (auto simp: image_constant_conv)
  then show ?thesis
    using valid distinct_references_spec [of "[]"] unfolding settings_def [symmetric]
    by (auto simp: valid_nav_settings_def nav_maximum_order_def)
qed

text \<open>A folder with one chat, and an order of two sections.\<close>

definition sample_hash :: uuid5 where
  "sample_hash space name = (if length name < 70 then sample_device else sample_other)"

definition sample_owner :: local_account where
  "sample_owner = \<lparr>la_environment = latin ''test'', la_user = latin ''7''\<rparr>"

definition sample_folders :: json_object where
  "sample_folders =
     [(latin ''module_id'', JsStr (latin ''chat_folders'')),
      (latin ''records'', JsArr
        [JsObj [(latin ''deleted'', JsBool False), (latin ''folder_id'', JsStr sample_device), (latin ''id'', JsStr sample_device),
           (latin ''kind'', JsStr (latin ''folder'')), (latin ''position'', JsNum 0), (latin ''rules'', JsArr []),
           (latin ''title'', JsStr (latin ''Work''))],
         JsObj [(latin ''deleted'', JsBool False), (latin ''folder_id'', JsStr sample_device), (latin ''id'', JsStr sample_other),
           (latin ''kind'', JsStr (latin ''member'')), (latin ''mode'', JsStr (latin ''include'')),
           (latin ''peer'', JsObj [(latin ''peer_id'', JsStr (latin ''8'')), (latin ''peer_type'', JsStr (latin ''user''))])]]),
      (latin ''schema_version'', JsNum 1)]"

definition sample_navigation :: json_object where
  "sample_navigation =
     [(latin ''module_id'', JsStr (latin ''navigation_preferences'')),
      (latin ''records'', JsArr
        [JsObj [(latin ''deleted'', JsBool False), (latin ''id'', JsStr sample_other), (latin ''kind'', JsStr (latin ''settings'')),
           (latin ''restore_last_section'', JsBool True), (latin ''scope'', JsStr (latin ''account'')),
           (latin ''visible_order'', JsArr [JsStr (latin ''all''), JsStr (latin ''local:'' @ sample_device)])]]),
      (latin ''schema_version'', JsNum 1)]"

lemma sample_folders_valid: "chat_folders_valid sample_hash sample_folders sample_owner"
  by code_simp

lemma sample_navigation_valid: "navigation_valid (\<lambda>_ _. sample_other) sample_navigation sample_owner"
  by code_simp

theorem chat_folders_distinct_witness:
  "length (filter (live_kind ''folder'') (map obj (module_records sample_folders))) \<le> 4096"
  using chat_folders_distinct [OF sample_folders_valid] by blast

theorem navigation_settings_once_witness:
  "length (filter (\<lambda>r. record_kind r = latin ''settings'') (map obj (module_records sample_navigation))) \<le> 1"
  using navigation_settings_once [OF sample_navigation_valid] by blast

end
