(* ===== verification/StoreLimits.thy ===== *)
theory StoreLimits
  imports StoreConverge StoreFormats
begin

text \<open>
  What the store accepts (\<open>ValidateTags\<close>, \<open>ValidateSnapshot\<close>, the registry of modules) and the change of a module as a
  whole (\<open>Store::mutateWithAssets\<close>, \<open>storage/local_data_store.cpp\<close>).

  The size of a JSON text is the parameter \<open>js_size\<close>, the check of the shape of a transfer is \<open>shape\<close>. A module of the
  registry is its version with its two functions; the check that they are set is left out.
\<close>

section \<open>The registry\<close>

record module_definition =
  md_version :: int
  md_validate :: "json_object \<Rightarrow> local_account \<Rightarrow> store_failure option"
  md_assets :: "json_object \<Rightarrow> qstring list"

type_synonym registry = "(qstring \<times> module_definition) list"

definition invalid_unless :: "bool \<Rightarrow> string \<Rightarrow> store_failure option" where
  "invalid_unless ok message = (if ok then None else Some (Invalid, latin message))"

definition initial_registry ::
  "uuid5 \<Rightarrow> (json_object \<Rightarrow> local_account \<Rightarrow> store_failure option) \<Rightarrow> (json_object \<Rightarrow> qstring list) \<Rightarrow> registry" where
  "initial_registry u5 replies_valid replies_assets =
     [(latin ''chat_folders'', \<lparr>md_version = 1,
         md_validate = (\<lambda>m account. invalid_unless (chat_folders_valid u5 m account) ''Invalid local chat folders data.''),
         md_assets = (\<lambda>m. [])\<rparr>),
      (latin ''navigation_preferences'', \<lparr>md_version = 1,
         md_validate = (\<lambda>m account. invalid_unless (navigation_valid u5 m account) ''Invalid local navigation preferences data.''),
         md_assets = (\<lambda>m. [])\<rparr>),
      (latin ''pinned_items'', \<lparr>md_version = 1,
         md_validate = (\<lambda>m account. invalid_unless (pinned_items_valid u5 account m) ''Invalid local pinned items data.''),
         md_assets = (\<lambda>m. [])\<rparr>),
      (latin ''quick_replies'', \<lparr>md_version = 1, md_validate = replies_valid, md_assets = replies_assets\<rparr>),
      (latin ''saved_tags'', \<lparr>md_version = 2, md_validate = (\<lambda>m account. None), md_assets = (\<lambda>m. [])\<rparr>)]"

definition definition_of :: "registry \<Rightarrow> qstring \<Rightarrow> int \<Rightarrow> module_definition option" where
  "definition_of registry i version =
     (case map_of registry i of
        None \<Rightarrow> None
      | Some d \<Rightarrow>
          if version < 0 \<or> md_version d = version \<or> (i = latin ''saved_tags'' \<and> version = 1 \<and> md_version d = 2) then Some d else None)"

definition supported_module :: "registry \<Rightarrow> qstring \<Rightarrow> int \<Rightarrow> bool" where
  "supported_module registry i version \<longleftrightarrow> definition_of registry i version \<noteq> None"

definition register_module :: "qstring \<Rightarrow> module_definition \<Rightarrow> registry \<Rightarrow> store_failure + registry" where
  "register_module i d registry =
     (if \<not> module_id_ok i \<or> md_version d < 1 then Inl (Invalid, latin ''Invalid local module registration.'')
      else if map_of registry i \<noteq> None then Inl (Conflict, latin ''Local module is already registered.'')
      else Inr (amap_put i d registry))"

definition empty_module :: "registry \<Rightarrow> qstring \<Rightarrow> json_object" where
  "empty_module registry i =
     jput ''module_id'' (JsStr i) (jput ''schema_version''
       (JsNum (case definition_of registry i (- 1) of None \<Rightarrow> 1 | Some d \<Rightarrow> of_int (md_version d))) (jput ''records'' (JsArr []) []))"

definition module_or_empty :: "registry \<Rightarrow> qstring \<Rightarrow> local_profile \<Rightarrow> json_object" where
  "module_or_empty registry i p = (case map_of (pf_modules p) i of None \<Rightarrow> empty_module registry i | Some m \<Rightarrow> m)"

definition read_module :: "registry \<Rightarrow> snapshot \<Rightarrow> local_account \<Rightarrow> qstring \<Rightarrow> json_object" where
  "read_module registry s account i =
     (case find (\<lambda>(k, p). pf_account p = account) (sn_profiles s) of
        None \<Rightarrow> empty_module registry i
      | Some (k, p) \<Rightarrow> module_or_empty registry i p)"

section \<open>Limits\<close>

record store_limits =
  lm_json :: int
  lm_module :: int
  lm_record :: int
  lm_asset :: int
  lm_asset_total :: int
  lm_profiles :: nat
  lm_modules :: nat
  lm_records :: nat
  lm_assets :: nat
  lm_depth :: int

definition default_limits :: store_limits where
  "default_limits = \<lparr>lm_json = 256 * 1024 * 1024, lm_module = 16 * 1024 * 1024, lm_record = 256 * 1024,
     lm_asset = 32 * 1024 * 1024 * 1024, lm_asset_total = 32 * 1024 * 1024 * 1024, lm_profiles = 128, lm_modules = 128,
     lm_records = 1000000, lm_assets = 100000, lm_depth = 32\<rparr>"

fun bounded_json :: "int \<Rightarrow> json \<Rightarrow> bool" where
  "bounded_json remaining (JsArr vs) = (0 \<le> remaining \<and> list_all (bounded_json (remaining - 1)) vs)"
| "bounded_json remaining (JsObj m) = (0 \<le> remaining \<and> list_all (\<lambda>(k, v). bounded_json (remaining - 1) v) m)"
| "bounded_json remaining v = (0 \<le> remaining)"

section \<open>Records\<close>

definition ulonglong :: "qstring \<Rightarrow> nat" where
  "ulonglong s = (case to_ulonglong s of None \<Rightarrow> 0 | Some n \<Rightarrow> n)"

definition valid_account :: "local_account \<Rightarrow> bool" where
  "valid_account a \<longleftrightarrow> la_environment a \<in> {latin ''production'', latin ''test''} \<and> store_decimal (la_user a)
     \<and> to_ulonglong (la_user a) \<noteq> None \<and> ulonglong (la_user a) \<noteq> 0"

definition position_ok :: "json option \<Rightarrow> bool" where
  "position_ok v \<longleftrightarrow> (let p = to_double (- 1) v in 0 \<le> p \<and> p \<le> 2147483647 \<and> of_int \<lfloor>p\<rfloor> = p)"

definition native_reaction_ok :: "json option \<Rightarrow> bool" where
  "native_reaction_ok native \<longleftrightarrow>
     (let reaction = to_obj native; kind = to_str (jfield reaction ''kind''); document = to_str (jfield reaction ''document_id'');
          emoji = jfield reaction ''emoji'' in
      is_obj native
      \<and> ((kind = latin ''custom'' \<and> store_decimal document \<and> ulonglong document > 0)
        \<or> (kind = latin ''emoji'' \<and> is_str emoji \<and> to_str emoji \<noteq> [] \<and> to_str emoji \<noteq> latin ''*'' \<and> length (to_str emoji) \<le> 32)))"

definition saved_tag_ok :: "json_object \<Rightarrow> bool" where
  "saved_tag_ok r \<longleftrightarrow>
     (let title = jfield r ''title''; emoji = jfield r ''emoji''; native = jfield r ''native_reaction'' in
      is_str title \<and> (blank_text (to_str title) \<longrightarrow> native_reaction_ok native)
      \<and> (native \<noteq> None \<longrightarrow> native_reaction_ok native) \<and> length (to_str title) \<le> 100
      \<and> is_str emoji \<and> length (to_str emoji) \<le> 32 \<and> position_ok (jfield r ''position''))"

definition saved_peer_ok :: "json option \<Rightarrow> bool" where
  "saved_peer_ok saved \<longleftrightarrow>
     (let peer = to_obj saved; i = to_str (jfield peer ''peer_id'') in
      is_obj saved \<and> to_str (jfield peer ''peer_type'') \<in> {latin ''user'', latin ''chat'', latin ''channel''}
      \<and> store_decimal i \<and> ulonglong i \<noteq> 0 \<and> ulonglong i \<le> 0xFFFFFFFFFFFF)"

definition saved_binding_ok :: "local_account \<Rightarrow> json_object \<Rightarrow> bool" where
  "saved_binding_ok account r \<longleftrightarrow>
     (let message = to_obj (jfield r ''message''); i = to_str (jfield message ''message_id'') in
      valid_uuid (to_str (jfield r ''tag_id'')) \<and> to_str (jfield message ''peer_type'') = latin ''user''
      \<and> to_str (jfield message ''peer_id'') = la_user account
      \<and> store_decimal i \<and> length i \<le> 10 \<and> ulonglong i \<le> 2147483647
      \<and> if_present r ''source_text'' (\<lambda>t. is_str t \<and> length (to_str t) \<le> 32768)
      \<and> if_present r ''source_hash'' (\<lambda>h. valid_hash (to_str h))
      \<and> if_present r ''reaction_position'' position_ok \<and> if_present r ''saved_peer'' saved_peer_ok)"

definition saved_filter_ok :: "json_object \<Rightarrow> bool" where
  "saved_filter_ok r \<longleftrightarrow> is_arr (jfield r ''tags'') \<and> is_str (jfield r ''text'') \<and> length (to_str (jfield r ''text'')) \<le> 4096"

definition check_saved_tags :: "local_account \<Rightarrow> json_object \<Rightarrow> store_failure option" where
  "check_saved_tags account r =
     (if record_kind r = latin ''tag'' then invalid_unless (saved_tag_ok r) ''Invalid saved tag.''
      else if record_kind r = latin ''binding'' then invalid_unless (saved_binding_ok account r) ''Invalid saved-message binding.''
      else if record_kind r = latin ''filter'' then
        (if \<not> saved_filter_ok r then Some (Invalid, latin ''Invalid saved-message filter.'')
         else invalid_unless (list_all (\<lambda>t. valid_uuid (to_str (Some t))) (to_arr (jfield r ''tags''))) ''Invalid filter tag identity.'')
      else None)"

definition record_envelope_ok :: "store_limits \<Rightarrow> (json_object \<Rightarrow> int) \<Rightarrow> json_object \<Rightarrow> bool" where
  "record_envelope_ok limits js_size r \<longleftrightarrow>
     valid_uuid (record_id r) \<and> is_bool (jfield r ''deleted'') \<and> if_present r ''kind'' is_str
     \<and> valid_vector (jfield r ''version_vector'') \<and> js_size r \<le> lm_record limits"

fun check_records ::
  "store_limits \<Rightarrow> (json_object \<Rightarrow> int) \<Rightarrow> bool \<Rightarrow> local_account \<Rightarrow> qstring list \<Rightarrow> json list \<Rightarrow> store_failure option" where
  "check_records limits js_size tags account seen [] = None"
| "check_records limits js_size tags account seen (v # vs) =
     (let r = obj v in
      if \<not> record_envelope_ok limits js_size r \<or> record_id r \<in> set seen
      then Some (Invalid, latin ''Invalid record identity or version.'')
      else
        (case if tags \<and> \<not> to_bool (jfield r ''deleted'') then check_saved_tags account r else None of
           Some e \<Rightarrow> Some e
         | None \<Rightarrow> check_records limits js_size tags account (record_id r # seen) vs))"

definition validate_tags :: "store_limits \<Rightarrow> (json_object \<Rightarrow> int) \<Rightarrow> json_object \<Rightarrow> local_account \<Rightarrow> store_failure option" where
  "validate_tags limits js_size m account =
     (if \<not> is_arr (jfield m ''records'') \<or> length (module_records m) > lm_records limits
      then Some (Invalid, latin ''Invalid module records.'')
      else check_records limits js_size (to_str (jfield m ''module_id'') = latin ''saved_tags'') account [] (module_records m))"

section \<open>Snapshots\<close>

definition envelope_ok :: "store_limits \<Rightarrow> qstring \<Rightarrow> json_object \<Rightarrow> bool" where
  "envelope_ok limits key m \<longleftrightarrow>
     (let i = to_str (jfield m ''module_id''); version = to_double 0 (jfield m ''schema_version'') in
      module_id_ok i \<and> key = i \<and> 1 \<le> version \<and> version \<le> 2147483647 \<and> of_int \<lfloor>version\<rfloor> = version
      \<and> bounded_json (lm_depth limits) (JsObj m))"

definition check_module ::
  "registry \<Rightarrow> store_limits \<Rightarrow> (json_object \<Rightarrow> int) \<Rightarrow> (qstring \<times> local_asset) list \<Rightarrow> local_account \<Rightarrow> int \<times> nat
    \<Rightarrow> qstring \<times> json_object \<Rightarrow> store_failure + int \<times> nat" where
  "check_module registry limits js_size assets account s entry =
     (let (key, m) = entry; used = fst s + js_size m in
      if \<not> envelope_ok limits key m then Inl (Invalid, latin ''Invalid module envelope.'')
      else if js_size m > lm_module limits \<or> used > lm_json limits then Inl (Invalid, latin ''Local JSON exceeds its size limit.'')
      else
        (case definition_of registry key \<lfloor>to_double 0 (jfield m ''schema_version'')\<rfloor> of
           None \<Rightarrow> Inr (used, snd s)
         | Some d \<Rightarrow>
             let records = snd s + length (module_records m) in
             if records > lm_records limits then Inl (Invalid, latin ''Too many local records.'')
             else
               (case validate_tags limits js_size m account of
                  Some e \<Rightarrow> Inl e
                | None \<Rightarrow>
                    (case md_validate d m account of
                       Some e \<Rightarrow> Inl e
                     | None \<Rightarrow>
                         if list_all (\<lambda>a. valid_hash a \<and> map_of assets a \<noteq> None) (md_assets d m) then Inr (used, records)
                         else Inl (Invalid, latin ''Module attachment is missing.'')))))"

definition check_profile ::
  "registry \<Rightarrow> store_limits \<Rightarrow> (json_object \<Rightarrow> int) \<Rightarrow> (qstring \<times> local_asset) list \<Rightarrow> (int \<times> nat) \<times> qstring list
    \<Rightarrow> qstring \<times> local_profile \<Rightarrow> store_failure + (int \<times> nat) \<times> qstring list" where
  "check_profile registry limits js_size assets s entry =
     (let (key, p) = entry; ((used, records), accounts) = s; account = account_id (pf_account p) in
      if \<not> valid_uuid (pf_id p) \<or> key \<noteq> pf_id p \<or> \<not> valid_account (pf_account p) \<or> account \<in> set accounts
        \<or> length (pf_modules p) > lm_modules limits \<or> \<not> bounded_json (lm_depth limits) (JsObj (pf_extra p))
        \<or> \<not> bounded_json (lm_depth limits) (JsObj (pf_transfer p))
      then Inl (Invalid, latin ''Invalid account profile.'')
      else map_sum id (\<lambda>counts. (counts, account # accounts))
        (sum_fold (check_module registry limits js_size assets (pf_account p))
          (used + js_size (pf_extra p) + js_size (pf_transfer p), records) (pf_modules p)))"

definition check_asset ::
  "store_limits \<Rightarrow> (json_object \<Rightarrow> int) \<Rightarrow> int \<times> int \<Rightarrow> qstring \<times> local_asset \<Rightarrow> store_failure + int \<times> int" where
  "check_asset limits js_size s entry =
     (let (key, a) = entry; (used, bytes) = s in
      if \<not> valid_hash (as_sha256 a) \<or> key \<noteq> as_sha256 a \<or> as_size a < 0 \<or> as_size a > lm_asset limits
        \<or> \<not> bounded_json (lm_depth limits) (JsObj (as_extra a)) \<or> \<not> bounded_json (lm_depth limits) (JsObj (as_transfer a))
        \<or> bytes > lm_asset_total limits - as_size a
      then Inl (Invalid, latin ''Invalid asset or asset size limit.'')
      else Inr (used + js_size (as_extra a) + js_size (as_transfer a), bytes + as_size a))"

definition validate_snapshot ::
  "registry \<Rightarrow> store_limits \<Rightarrow> (json_object \<Rightarrow> int) \<Rightarrow> (snapshot \<Rightarrow> store_failure option) \<Rightarrow> snapshot \<Rightarrow> store_failure option" where
  "validate_snapshot registry limits js_size shape s =
     (if length (sn_profiles s) > lm_profiles limits \<or> length (sn_assets s) > lm_assets limits
        \<or> \<not> bounded_json (lm_depth limits) (JsObj (sn_extra s)) \<or> \<not> bounded_json (lm_depth limits) (JsObj (sn_transfer s))
      then Some (Invalid, latin ''Local data exceeds its limits.'')
      else
        (case sum_fold (check_profile registry limits js_size (sn_assets s))
            ((js_size (sn_extra s) + js_size (sn_transfer s), 0), []) (sn_profiles s) of
           Inl e \<Rightarrow> Some e
         | Inr ((used, records), accounts) \<Rightarrow>
             (case sum_fold (check_asset limits js_size) (used, 0) (sn_assets s) of
                Inl e \<Rightarrow> Some e
              | Inr (used', bytes) \<Rightarrow>
                  if used' > lm_json limits then Some (Invalid, latin ''Local JSON exceeds its size limit.'') else shape s)))"

section \<open>The change of a module\<close>

definition add_asset ::
  "(qstring \<times> local_asset) list \<Rightarrow> qstring \<times> local_asset \<Rightarrow> store_failure + (qstring \<times> local_asset) list" where
  "add_asset assets entry =
     (let (i, a) = entry in
      case map_of assets i of
        Some old \<Rightarrow> if as_size old \<noteq> as_size a then Inl (Invalid, latin ''Asset size conflicts with existing data.'')
          else Inr (amap_put i a assets)
      | None \<Rightarrow> Inr (amap_put i a assets))"

text \<open>The profile of the account, which is added when there is none.\<close>

definition own_profile :: "qstring \<Rightarrow> local_account \<Rightarrow> (qstring \<times> local_profile) list \<Rightarrow> qstring \<times> local_profile" where
  "own_profile new_id account profiles =
     (let found = profile_id account profiles in
      if found = [] then (new_id, empty_profile new_id account)
      else (found, case map_of profiles found of Some p \<Rightarrow> p | None \<Rightarrow> empty_profile [] \<lparr>la_environment = [], la_user = []\<rparr>))"

definition store_mutate ::
  "registry \<Rightarrow> (snapshot \<Rightarrow> store_failure option) \<Rightarrow> store_failure option \<Rightarrow> qstring \<Rightarrow> qstring \<Rightarrow> (nat \<Rightarrow> qstring)
    \<Rightarrow> local_account \<Rightarrow> qstring \<Rightarrow> (json_object \<Rightarrow> store_failure + json_object) \<Rightarrow> (qstring \<times> local_asset) list
    \<Rightarrow> snapshot \<Rightarrow> store_failure + snapshot" where
  "store_mutate registry validate io generation new_id fresh account i change assets state =
     (if \<not> valid_account account \<or> definition_of registry i (- 1) = None
      then Inl (Invalid, latin ''Unsupported account or module.'')
      else
        (case sum_fold add_asset (sn_assets state) assets of
           Inl e \<Rightarrow> Inl e
         | Inr assets' \<Rightarrow>
             let (pid, p) = own_profile new_id account (sn_profiles state); before = module_or_empty registry i p in
             if \<not> supported_module registry i (schema_of before)
             then Inl (Unsupported, latin ''This module requires a newer application.'')
             else
               (case mutate_module (sn_device state) fresh (assets \<noteq> []) change before of
                  Inl e \<Rightarrow> Inl e
                | Inr None \<Rightarrow> Inr state
                | Inr (Some m) \<Rightarrow> commit_snapshot validate io generation state
                    (state\<lparr>sn_assets := assets',
                       sn_profiles := amap_put pid (p\<lparr>pf_modules := amap_put i m (pf_modules p)\<rparr>) (sn_profiles state)\<rparr>))))"

end
