(* ===== verification/StoreArchives.thy ===== *)
theory StoreArchives
  imports StoreConverge
begin

text \<open>
  The versions a merge kept beside the current ones (\<open>WalkArchives\<close>, \<open>ArchivedConflicts\<close>, \<open>Store::restoreConflict\<close> in
  \<open>storage/local_data_store.cpp\<close>): listing them, by pages, and making one of them the current version again.
\<close>

section \<open>Archived versions\<close>

datatype archive_scope =
  ScRecord | ScModule | ScRootExtra | ScRootTransfer | ScProfileExtra | ScProfileTransfer | ScModuleExtra
  | ScAssetExtra | ScAssetTransfer

fun scope_number :: "archive_scope \<Rightarrow> rat" where
  "scope_number ScRecord = 0"
| "scope_number ScModule = 1"
| "scope_number ScRootExtra = 2"
| "scope_number ScRootTransfer = 3"
| "scope_number ScProfileExtra = 4"
| "scope_number ScProfileTransfer = 5"
| "scope_number ScModuleExtra = 6"
| "scope_number ScAssetExtra = 7"
| "scope_number ScAssetTransfer = 8"

record archived_conflict =
  ac_id :: qstring
  ac_profile :: qstring
  ac_module :: qstring
  ac_record :: qstring
  ac_current :: json_object
  ac_alternate :: json_object
  ac_scope :: archive_scope
  ac_field :: qstring

definition archive_id :: "(json_object \<Rightarrow> qstring) \<Rightarrow> archived_conflict \<Rightarrow> qstring" where
  "archive_id digest a =
     digest (jput ''scope'' (JsNum (scope_number (ac_scope a))) (jput ''profile'' (JsStr (ac_profile a))
       (jput ''module'' (JsStr (ac_module a)) (jput ''record'' (JsStr (ac_record a))
         (jput ''field'' (JsStr (ac_field a)) (jput ''alternate'' (JsObj (ac_alternate a)) []))))))"

definition with_id :: "(json_object \<Rightarrow> qstring) \<Rightarrow> archived_conflict \<Rightarrow> archived_conflict" where
  "with_id digest a = a\<lparr>ac_id := archive_id digest a\<rparr>"

text \<open>A field of an object, which an undefined value removes.\<close>

definition opt_put :: "qstring \<Rightarrow> json option \<Rightarrow> json_object \<Rightarrow> json_object" where
  "opt_put k v m = (case v of None \<Rightarrow> amap_remove k m | Some w \<Rightarrow> amap_put k w m)"

definition read_account :: "json_object \<Rightarrow> local_account" where
  "read_account a = \<lparr>la_environment = to_str (jfield a ''environment''), la_user = to_str (jfield a ''user_id'')\<rparr>"

definition metadata_archives ::
  "(json_object \<Rightarrow> qstring) \<Rightarrow> archive_scope \<Rightarrow> qstring \<Rightarrow> qstring \<Rightarrow> json_object \<Rightarrow> archived_conflict list" where
  "metadata_archives digest scope profile mid m =
     concat (map (\<lambda>v.
       let variant = obj v; field = to_str (jfield variant ''field'') in
       if field = [] \<or> jfield variant ''value'' = None then []
       else [with_id digest \<lparr>ac_id = [], ac_profile = profile, ac_module = mid, ac_record = [],
         ac_current = opt_put field (map_of m field) [], ac_alternate = opt_put field (jfield variant ''value'') [],
         ac_scope = scope, ac_field = field\<rparr>]) (to_arr (map_of m metadata_variants)))"

definition record_archives :: "(json_object \<Rightarrow> qstring) \<Rightarrow> qstring \<Rightarrow> qstring \<Rightarrow> json \<Rightarrow> archived_conflict list" where
  "record_archives digest profile mid value =
     (let r = obj value in
      map (\<lambda>alternate. with_id digest \<lparr>ac_id = [], ac_profile = profile, ac_module = mid, ac_record = record_id r,
        ac_current = r, ac_alternate = obj alternate, ac_scope = ScRecord, ac_field = []\<rparr>) (to_arr (map_of r conflict_versions)))"

definition module_archives ::
  "(json_object \<Rightarrow> qstring) \<Rightarrow> (qstring \<Rightarrow> int \<Rightarrow> bool) \<Rightarrow> qstring \<Rightarrow> qstring \<times> json_object \<Rightarrow> archived_conflict list" where
  "module_archives digest supported profile entry =
     (let (i, m) = entry in
      if \<not> supported i (schema_of m) then []
      else metadata_archives digest ScModuleExtra profile i m @ concat (map (record_archives digest profile i) (module_records m)))"

definition profile_archives ::
  "(json_object \<Rightarrow> qstring) \<Rightarrow> (qstring \<Rightarrow> int \<Rightarrow> bool) \<Rightarrow> local_profile \<Rightarrow> archived_conflict list" where
  "profile_archives digest supported p =
     metadata_archives digest ScProfileExtra (pf_id p) [] (pf_extra p)
     @ metadata_archives digest ScProfileTransfer (pf_id p) [] (pf_transfer p)
     @ concat (map (module_archives digest supported (pf_id p)) (pf_modules p))"

definition opaque_archives :: "(json_object \<Rightarrow> qstring) \<Rightarrow> (qstring \<times> local_profile) list \<Rightarrow> json \<Rightarrow> archived_conflict list" where
  "opaque_archives digest profiles value =
     (let variant = obj value; account = read_account (to_obj (jfield variant ''account''));
          m = to_obj (jfield variant ''module''); mid = to_str (jfield m ''module_id'') in
      case find (\<lambda>(k, p). pf_account p = account) profiles of
        None \<Rightarrow> []
      | Some (k, p) \<Rightarrow> [with_id digest \<lparr>ac_id = [], ac_profile = pf_id p, ac_module = mid, ac_record = [],
          ac_current = module_of mid (pf_modules p), ac_alternate = m, ac_scope = ScModule, ac_field = []\<rparr>])"

definition asset_archives :: "(json_object \<Rightarrow> qstring) \<Rightarrow> qstring \<times> local_asset \<Rightarrow> archived_conflict list" where
  "asset_archives digest entry =
     (let (i, a) = entry in
      metadata_archives digest ScAssetExtra [] i (as_extra a) @ metadata_archives digest ScAssetTransfer [] i (as_transfer a))"

text \<open>\<open>WalkArchives\<close>: what the visitor sees until it stops.\<close>

definition archives ::
  "(json_object \<Rightarrow> qstring) \<Rightarrow> (qstring \<Rightarrow> int \<Rightarrow> bool) \<Rightarrow> snapshot \<Rightarrow> archived_conflict list" where
  "archives digest supported s =
     metadata_archives digest ScRootExtra [] [] (sn_extra s) @ metadata_archives digest ScRootTransfer [] [] (sn_transfer s)
     @ concat (map (\<lambda>(k, p). profile_archives digest supported p) (sn_profiles s))
     @ concat (map (opaque_archives digest (sn_profiles s)) (to_arr (map_of (sn_extra s) opaque_variants)))
     @ concat (map (asset_archives digest) (sn_assets s))"

text \<open>The visitor of \<open>ArchivedConflicts\<close>.\<close>

fun visit_page :: "int \<Rightarrow> int \<Rightarrow> 'a list \<Rightarrow> 'a list \<Rightarrow> 'a list" where
  "visit_page offset limit page [] = page"
| "visit_page offset limit page (a # rest) =
     (let offset' = (if 0 < offset then offset - 1 else offset);
          page' = (if 0 < offset then page else page @ [a]) in
      if int (length page') < limit then visit_page offset' limit page' rest else page')"

definition archived_conflicts ::
  "(json_object \<Rightarrow> qstring) \<Rightarrow> (qstring \<Rightarrow> int \<Rightarrow> bool) \<Rightarrow> snapshot \<Rightarrow> int \<Rightarrow> int \<Rightarrow> archived_conflict list" where
  "archived_conflicts digest supported s offset limit =
     (if offset < 0 \<or> limit \<le> 0 then [] else visit_page offset (min limit 100) [] (archives digest supported s))"

definition archived_conflict_count ::
  "(json_object \<Rightarrow> qstring) \<Rightarrow> (qstring \<Rightarrow> int \<Rightarrow> bool) \<Rightarrow> snapshot \<Rightarrow> nat" where
  "archived_conflict_count digest supported s = foldl (\<lambda>n a. Suc n) 0 (archives digest supported s)"

section \<open>Restoring\<close>

definition restored_blocked :: "qstring \<Rightarrow> json_object \<Rightarrow> (qstring \<times> json_object) list \<Rightarrow> store_failure option" where
  "restored_blocked rid restored records =
     (let tag = record_of records (binding_tag restored);
          message = (\<lambda>r. jfield (to_obj (jfield r ''message'')) ''message_id'') in
      if \<not> active_binding restored then None
      else if record_kind tag \<noteq> latin ''tag'' \<or> to_bool (jfield tag ''deleted'')
      then Some (Conflict, latin ''Restore the tag before its message binding.'')
      else if list_ex (\<lambda>(k, r). k \<noteq> rid \<and> active_binding r \<and> jfield r ''tag_id'' = jfield restored ''tag_id''
        \<and> message r = message restored) records
      then Some (Conflict, latin ''This tag is already assigned to the message.'')
      else None)"

definition restored_variants :: "json_object \<Rightarrow> json_object \<Rightarrow> json list" where
  "restored_variants current alternate =
     add_missing (add_missing [] (filter (\<lambda>v. v \<noteq> JsObj alternate) (to_arr (map_of current conflict_versions))))
       [JsObj (amap_remove conflict_versions current)]"

definition restore_record ::
  "qstring \<Rightarrow> archived_conflict \<Rightarrow> (qstring \<times> json_object) list \<Rightarrow> store_failure + (qstring \<times> json_object) list" where
  "restore_record device c records =
     (let current = ac_current c; alternate = ac_alternate c in
      if record_id alternate \<noteq> ac_record c then Inl (Invalid, latin ''Saved version identity does not match.'')
      else
        (case restored_blocked (ac_record c) alternate records of
           Some e \<Rightarrow> Inl e
         | None \<Rightarrow>
             (case advance device (jput ''version_vector'' (JsObj (joined_vector (vector_of current) (vector_of alternate)))
                 (amap_put conflict_versions (JsArr (restored_variants current alternate)) alternate)) of
                Inl e \<Rightarrow> Inl e
              | Inr r \<Rightarrow> Inr (amap_put (ac_record c) r records))))"

definition empty_account :: local_account where
  "empty_account = \<lparr>la_environment = [], la_user = []\<rparr>"

definition profile_at :: "qstring \<Rightarrow> snapshot \<Rightarrow> local_profile" where
  "profile_at i s = (case map_of (sn_profiles s) i of None \<Rightarrow> empty_profile [] empty_account | Some p \<Rightarrow> p)"

definition set_profile :: "qstring \<Rightarrow> local_profile \<Rightarrow> snapshot \<Rightarrow> snapshot" where
  "set_profile i p s = s\<lparr>sn_profiles := amap_put i p (sn_profiles s)\<rparr>"

definition opaque_variant :: "(json_object \<Rightarrow> qstring) \<Rightarrow> local_account \<Rightarrow> json_object \<Rightarrow> json" where
  "opaque_variant digest account m =
     JsObj (jput ''id'' (JsStr (digest m)) (jput ''account'' (JsObj (account_json account)) (jput ''module'' (JsObj m) [])))"

definition restore_module :: "(json_object \<Rightarrow> qstring) \<Rightarrow> archived_conflict \<Rightarrow> snapshot \<Rightarrow> snapshot" where
  "restore_module digest c s =
     (let p = profile_at (ac_profile c) s;
          s' = set_profile (ac_profile c) (p\<lparr>pf_modules := amap_put (ac_module c) (ac_alternate c) (pf_modules p)\<rparr>) s;
          kept = filter (\<lambda>v. jfield (obj v) ''module'' \<noteq> Some (JsObj (ac_alternate c))
            \<or> read_account (to_obj (jfield (obj v) ''account'')) \<noteq> pf_account p) (to_arr (map_of (sn_extra s') opaque_variants)) in
      s'\<lparr>sn_extra := amap_put opaque_variants
        (JsArr (add_missing kept [opaque_variant digest (pf_account p) (ac_current c)])) (sn_extra s')\<rparr>)"

text \<open>A field of metadata: \<open>selected\<close> is the archived value, and the value there was becomes a variant.\<close>

definition field_variant :: "qstring \<Rightarrow> json option \<Rightarrow> json" where
  "field_variant field v = JsObj (opt_put (latin ''value'') v (jput ''field'' (JsStr field) []))"

definition restore_field :: "qstring \<Rightarrow> json option \<Rightarrow> json_object \<Rightarrow> json_object" where
  "restore_field field selected target =
     (let kept = filter (\<lambda>v. to_str (jfield (obj v) ''field'') \<noteq> field \<or> jfield (obj v) ''value'' \<noteq> selected)
            (to_arr (map_of target metadata_variants));
          variants = add_missing kept [field_variant field (map_of target field)] in
      amap_put metadata_variants (JsArr variants) (opt_put field selected target))"

definition asset_at :: "qstring \<Rightarrow> snapshot \<Rightarrow> local_asset" where
  "asset_at i s = (case map_of (sn_assets s) i of
     None \<Rightarrow> \<lparr>as_sha256 = [], as_size = 0, as_extra = [], as_transfer = []\<rparr> | Some a \<Rightarrow> a)"

definition restore_metadata :: "archived_conflict \<Rightarrow> snapshot \<Rightarrow> snapshot" where
  "restore_metadata c s =
     (let put = restore_field (ac_field c) (map_of (ac_alternate c) (ac_field c));
          p = profile_at (ac_profile c) s; a = asset_at (ac_module c) s;
          put_asset = (\<lambda>a'. s\<lparr>sn_assets := amap_put (ac_module c) a' (sn_assets s)\<rparr>) in
      case ac_scope c of
        ScRootExtra \<Rightarrow> s\<lparr>sn_extra := put (sn_extra s)\<rparr>
      | ScRootTransfer \<Rightarrow> s\<lparr>sn_transfer := put (sn_transfer s)\<rparr>
      | ScProfileExtra \<Rightarrow> set_profile (ac_profile c) (p\<lparr>pf_extra := put (pf_extra p)\<rparr>) s
      | ScProfileTransfer \<Rightarrow> set_profile (ac_profile c) (p\<lparr>pf_transfer := put (pf_transfer p)\<rparr>) s
      | ScModuleExtra \<Rightarrow>
          set_profile (ac_profile c)
            (p\<lparr>pf_modules := amap_put (ac_module c) (put (module_of (ac_module c) (pf_modules p))) (pf_modules p)\<rparr>) s
      | ScAssetExtra \<Rightarrow> put_asset (a\<lparr>as_extra := put (as_extra a)\<rparr>)
      | ScAssetTransfer \<Rightarrow> put_asset (a\<lparr>as_transfer := put (as_transfer a)\<rparr>)
      | _ \<Rightarrow> s)"

definition restore_archived ::
  "(json_object \<Rightarrow> qstring) \<Rightarrow> archived_conflict \<Rightarrow> snapshot \<Rightarrow> store_failure + snapshot" where
  "restore_archived digest c s =
     (case ac_scope c of
        ScRecord \<Rightarrow>
          let p = profile_at (ac_profile c) s; m = module_of (ac_module c) (pf_modules p) in
          map_sum id (\<lambda>records. set_profile (ac_profile c)
              (p\<lparr>pf_modules := amap_put (ac_module c) (set_records records m) (pf_modules p)\<rparr>) s)
            (restore_record (sn_device s) c (records_of m))
      | ScModule \<Rightarrow> Inr (restore_module digest c s)
      | _ \<Rightarrow> Inr (restore_metadata c s))"

definition restore_conflict ::
  "(json_object \<Rightarrow> qstring) \<Rightarrow> (qstring \<Rightarrow> int \<Rightarrow> bool) \<Rightarrow> (snapshot \<Rightarrow> store_failure option) \<Rightarrow> store_failure option
    \<Rightarrow> qstring \<Rightarrow> qstring \<Rightarrow> qstring \<Rightarrow> snapshot \<Rightarrow> store_failure + snapshot" where
  "restore_conflict digest supported validate io generation i expected state =
     (if sn_generation state \<noteq> expected
      then Inl (Stale, latin ''Local data changed; review the saved version again.'')
      else
        (case find (\<lambda>a. ac_id a = i) (archives digest supported state) of
           None \<Rightarrow> Inl (Stale, latin ''The saved version is no longer available.'')
         | Some c \<Rightarrow>
             (case restore_archived digest c state of
                Inl e \<Rightarrow> Inl e
              | Inr next \<Rightarrow> commit_normalized validate io generation state next)))"

section \<open>Pages\<close>

lemma visit_page_is_slice:
  assumes "0 \<le> offset" and "int (length page) < limit" and "0 < offset \<longrightarrow> page = []"
  shows "visit_page offset limit page xs = page @ take (nat limit - length page) (drop (nat offset) xs)"
  using assms
proof (induction xs arbitrary: offset page)
  case (Cons a xs)
  show ?case
  proof (cases "0 < offset")
    case True
    then have "nat offset = Suc (nat (offset - 1))" by simp
    then show ?thesis using Cons.IH [of "offset - 1" page] Cons.prems True by (simp add: Let_def)
  next
    case False
    then have offset: "offset = 0" using Cons.prems(1) by simp
    show ?thesis
    proof (cases "int (length (page @ [a])) < limit")
      case True
      then have "nat limit - length page = Suc (nat limit - length (page @ [a]))" by simp
      then show ?thesis using Cons.IH [of 0 "page @ [a]"] True offset by (simp add: Let_def)
    next
      case False
      then have "nat limit - length page = 1" using Cons.prems(2) by simp
      then show ?thesis using False offset by (simp add: Let_def)
    qed
  qed
qed simp

lemma count_is_length: "archived_conflict_count digest supported s = length (archives digest supported s)"
proof -
  have "foldl (\<lambda>n a. Suc n) n xs = n + length xs" for n :: nat and xs :: "archived_conflict list"
    by (induction xs arbitrary: n) simp_all
  then show ?thesis by (simp add: archived_conflict_count_def)
qed

lemma pages_are_prefix:
  "concat (map (\<lambda>i. take k (drop (i * k) xs)) [0..<n]) = take (n * k) xs"
proof (induction n)
  case (Suc n)
  have "take (Suc n * k) xs = take (n * k + k) xs" by (simp add: add.commute)
  then have "take (Suc n * k) xs = take (n * k) xs @ take k (drop (n * k) xs)" by (simp only: take_add)
  then show ?case using Suc by simp
qed simp

text \<open>C19: a page of the archived versions is the slice of the list that was asked for, of at most 100
  entries, and the pages one after another, up to the count, are the whole list, every version once.\<close>

theorem archives_paged:
  "archived_conflicts digest supported s offset limit =
      (if offset < 0 \<or> limit \<le> 0 then [] else take (nat (min limit 100)) (drop (nat offset) (archives digest supported s)))
    \<and> concat (map (\<lambda>i. archived_conflicts digest supported s (100 * int i) 100)
        [0..<(archived_conflict_count digest supported s + 99) div 100]) = archives digest supported s"
proof -
  have slice: "archived_conflicts digest supported s from l =
      (if from < 0 \<or> l \<le> 0 then [] else take (nat (min l 100)) (drop (nat from) (archives digest supported s)))" for "from" l
    by (simp add: archived_conflicts_def visit_page_is_slice)
  have "nat (100 * int i) = i * 100" for i by (simp add: nat_mult_distrib)
  then have "concat (map (\<lambda>i. archived_conflicts digest supported s (100 * int i) 100) [0..<n])
      = take (n * 100) (archives digest supported s)" for n
    by (simp add: slice pages_are_prefix)
  then show ?thesis by (simp add: slice count_is_length)
qed

section \<open>Restored versions\<close>

lemma restored_variants_set:
  "set (restored_variants current alternate)
    = insert (JsObj (amap_remove conflict_versions current)) (set (to_arr (map_of current conflict_versions)) - {JsObj alternate})"
  by (auto simp: restored_variants_def)

text \<open>C15: restoring an archived version of a record gives the record the fields of that version, with
  a version vector newer than both, so that it wins on every device; the version there was and every other archived one
  are kept, and no other record changes.\<close>

theorem restored_version_wins:
  assumes "restore_record device c records = Inr records'"
    and "vector_ok (vector_of (ac_current c))" and "vector_ok (vector_of (ac_alternate c))"
  shows "\<exists>r. records' = amap_put (ac_record c) r records \<and> record_id r = ac_record c
    \<and> compare_versions r (ac_current c) = After \<and> compare_versions r (ac_alternate c) = After
    \<and> (\<forall>k. k \<noteq> conflict_versions \<and> k \<noteq> latin ''version_vector'' \<longrightarrow> map_of r k = map_of (ac_alternate c) k)
    \<and> set (to_arr (map_of r conflict_versions)) = insert (JsObj (amap_remove conflict_versions (ac_current c)))
        (set (to_arr (map_of (ac_current c) conflict_versions)) - {JsObj (ac_alternate c)})"
proof -
  define filled where "filled = amap_put conflict_versions (JsArr (restored_variants (ac_current c) (ac_alternate c))) (ac_alternate c)"
  have rid: "record_id (ac_alternate c) = ac_record c" using assms(1) by (simp add: restore_record_def Let_def split: if_splits)
  obtain r where adv: "advance device (jput ''version_vector''
        (JsObj (joined_vector (vector_of (ac_current c)) (vector_of (ac_alternate c)))) filled) = Inr r"
      and r: "records' = amap_put (ac_record c) r records"
    using assms(1) by (auto simp: restore_record_def Let_def filled_def split: if_splits option.splits sum.splits)
  note newer = joined_advance_newer [OF assms(2,3) adv]
  have frame: "map_of r k = map_of filled k" if "k \<noteq> latin ''version_vector''" for k
    using adv that by (auto simp: advance_def Let_def jput_def split: if_splits)
  have keys: "conflict_versions \<noteq> latin ''version_vector''" by (simp add: conflict_versions_def latin_eq_iff)
  have "record_id r = ac_record c"
    using record_id_advance [OF adv] rid by (simp add: filled_def conflict_versions_jput)
  then show ?thesis
    using r newer frame keys restored_variants_set [of "ac_current c" "ac_alternate c"]
    by (intro exI [of _ r]) (simp add: filled_def)
qed

lemma to_arr_some [simp]: "to_arr (Some (JsArr xs)) = xs"
  by simp

lemma field_variant_fields [simp]:
  "to_str (jfield (obj (field_variant field v)) ''field'') = field" "jfield (obj (field_variant field v)) ''value'' = v"
  by (cases v; simp add: field_variant_def opt_put_def jfield_def jput_def latin_eq_iff)+

lemma map_of_opt_put [simp]: "map_of (opt_put k v m) = (map_of m)(k := v)"
  by (cases v) (simp_all add: opt_put_def)

text \<open>Metadata as a merge writes it: sorted, with variants of fields.\<close>

definition variants_plain :: "json_object \<Rightarrow> bool" where
  "variants_plain m \<longleftrightarrow> (\<forall>v\<in>set (to_arr (map_of m metadata_variants)). \<exists>f w. v = field_variant f w)"

lemma restore_field_variants:
  assumes "variants_plain m"
  shows "set (to_arr (map_of (restore_field field selected m) metadata_variants)) =
    insert (field_variant field (map_of m field)) (set (to_arr (map_of m metadata_variants)) - {field_variant field selected})"
  using assms by (auto simp: restore_field_def Let_def variants_plain_def)


section \<open>Witnesses\<close>

definition sample_archived :: archived_conflict where
  "sample_archived = \<lparr>ac_id = [], ac_profile = [], ac_module = latin ''notes'', ac_record = sample_id,
     ac_current = identified [(sample_device, 1)], ac_alternate = identified [(sample_other, 1)], ac_scope = ScRecord, ac_field = []\<rparr>"

definition sample_restored :: "(qstring \<times> json_object) list" where
  "sample_restored = (case restore_record sample_device sample_archived (records_of (notes_module [(sample_device, 1)])) of
     Inr records \<Rightarrow> records | Inl e \<Rightarrow> [])"

lemma sample_restores:
  "restore_record sample_device sample_archived (records_of (notes_module [(sample_device, 1)])) = Inr sample_restored"
proof -
  have "case restore_record sample_device sample_archived (records_of (notes_module [(sample_device, 1)])) of
      Inr records \<Rightarrow> True | Inl e \<Rightarrow> False"
    by code_simp
  then show ?thesis by (auto simp: sample_restored_def split: sum.splits)
qed

theorem restored_version_wins_witness:
  "compare_versions (record_of sample_restored sample_id) (identified [(sample_device, 1)]) = After
    \<and> JsObj (amap_remove conflict_versions (identified [(sample_device, 1)]))
      \<in> set (to_arr (map_of (record_of sample_restored sample_id) conflict_versions))"
proof -
  have ok: "vector_ok (vector_of (ac_current sample_archived))" "vector_ok (vector_of (ac_alternate sample_archived))"
    by (simp_all add: sample_archived_def vector_ok_def)
  obtain r where r: "sample_restored = [(sample_id, r)]" "compare_versions r (identified [(sample_device, 1)]) = After"
      "JsObj (amap_remove conflict_versions (identified [(sample_device, 1)])) \<in> set (to_arr (map_of r conflict_versions))"
    using restored_version_wins [OF sample_restores ok] by (auto simp: sample_archived_def)
  have "record_of sample_restored sample_id = r" unfolding r(1) by (simp add: record_of_def)
  then show ?thesis using r(2,3) by simp
qed

definition sample_metadata :: json_object where
  "sample_metadata =
     [(metadata_variants, JsArr [field_variant (latin ''color'') (Some (JsNum 2))]), (latin ''color'', JsNum 1)]"


end
