(* ===== verification/StoreStates.thy ===== *)
theory StoreStates
  imports StoreLimits StoreArchives
begin

text \<open>
  The states the store keeps: what the validation guarantees of a state, that every operation stores a valid one, and
  that the change of a module changes nothing else.
\<close>

section \<open>What the validation checks\<close>

lemma is_check [simp]: "invalid_unless ok message = None \<longleftrightarrow> ok"
  by (simp add: invalid_unless_def)

lemma check_records_spec:
  "check_records limits js_size tags account seen vs = None \<Longrightarrow>
    distinct (map (\<lambda>v. record_id (obj v)) vs)
    \<and> (\<forall>v\<in>set vs. record_id (obj v) \<notin> set seen \<and> record_envelope_ok limits js_size (obj v))"
proof (induction vs arbitrary: seen)
  case (Cons v vs)
  then have "check_records limits js_size tags account (record_id (obj v) # seen) vs = None"
    and "record_envelope_ok limits js_size (obj v)" "record_id (obj v) \<notin> set seen"
    by (auto simp: Let_def split: if_splits option.splits)
  then show ?case using Cons.IH [of "record_id (obj v) # seen"] by auto
qed simp

text \<open>A module that the validation lets through.\<close>

definition module_fits ::
  "registry \<Rightarrow> store_limits \<Rightarrow> (json_object \<Rightarrow> int) \<Rightarrow> (qstring \<times> local_asset) list \<Rightarrow> local_account \<Rightarrow> qstring \<Rightarrow> json_object \<Rightarrow> bool" where
  "module_fits registry limits js_size assets account i m \<longleftrightarrow>
     envelope_ok limits i m \<and> js_size m \<le> lm_module limits
     \<and> (\<forall>d. definition_of registry i (schema_of m) = Some d \<longrightarrow>
         is_arr (jfield m ''records'') \<and> distinct (map (\<lambda>v. record_id (obj v)) (module_records m))
         \<and> (\<forall>v\<in>set (module_records m). record_envelope_ok limits js_size (obj v))
         \<and> md_validate d m account = None
         \<and> (\<forall>a\<in>set (md_assets d m). valid_hash a \<and> map_of assets a \<noteq> None))"

lemma envelope_schema: "envelope_ok limits i m \<Longrightarrow> schema_of m = \<lfloor>to_double 0 (jfield m ''schema_version'')\<rfloor>"
proof -
  assume ok: "envelope_ok limits i m"
  then obtain r where r: "jfield m ''schema_version'' = Some (JsNum r)"
    by (cases "jfield m ''schema_version''"; cases "the (jfield m ''schema_version'')") (auto simp: envelope_ok_def Let_def)
  then have "1 \<le> r" "r \<le> 2147483647" and "of_int \<lfloor>r\<rfloor> = r" using ok by (simp_all only: envelope_ok_def Let_def to_double.simps)
  moreover obtain n where "r = of_int n" using \<open>of_int \<lfloor>r\<rfloor> = r\<close> by metis
  ultimately show ?thesis using r by (simp add: schema_of_def)
qed

text \<open>The records of the modules the store knows.\<close>

definition known_records :: "registry \<Rightarrow> qstring \<times> json_object \<Rightarrow> nat" where
  "known_records registry entry =
     (if definition_of registry (fst entry) (schema_of (snd entry)) = None then 0 else length (module_records (snd entry)))"

lemma check_module_spec:
  assumes "check_module registry limits js_size assets account s entry = Inr s'"
  shows "module_fits registry limits js_size assets account (fst entry) (snd entry)"
    "fst s' = fst s + js_size (snd entry)" "snd s' = snd s + known_records registry entry"
    "snd s \<le> lm_records limits \<Longrightarrow> snd s' \<le> lm_records limits"
proof -
  obtain i m where entry: "entry = (i, m)" by fastforce
  have envelope: "envelope_ok limits i m" and size: "js_size m \<le> lm_module limits"
    using assms by (auto simp: entry check_module_def Let_def split: if_splits)
  note schema = envelope_schema [OF envelope]
  have "s' = (fst s + js_size m, snd s) \<and> definition_of registry i (schema_of m) = None
    \<or> (\<exists>d. definition_of registry i (schema_of m) = Some d
        \<and> s' = (fst s + js_size m, snd s + length (module_records m)) \<and> snd s + length (module_records m) \<le> lm_records limits
        \<and> validate_tags limits js_size m account = None \<and> md_validate d m account = None
        \<and> list_all (\<lambda>a. valid_hash a \<and> map_of assets a \<noteq> None) (md_assets d m))"
    using assms unfolding schema by (auto simp: entry check_module_def Let_def split: if_splits option.splits)
  then show "module_fits registry limits js_size assets account (fst entry) (snd entry)"
    "fst s' = fst s + js_size (snd entry)" "snd s' = snd s + known_records registry entry"
    "snd s \<le> lm_records limits \<Longrightarrow> snd s' \<le> lm_records limits"
    using envelope size check_records_spec
    by (auto simp: entry module_fits_def known_records_def validate_tags_def list_all_iff split: if_splits)
qed

lemma check_modules_spec:
  "sum_fold (check_module registry limits js_size assets account) s ms = Inr s' \<Longrightarrow>
    (\<forall>(i, m)\<in>set ms. module_fits registry limits js_size assets account i m)
    \<and> fst s' = fst s + sum_list (map (js_size \<circ> snd) ms) \<and> snd s' = snd s + sum_list (map (known_records registry) ms)
    \<and> (snd s \<le> lm_records limits \<longrightarrow> snd s' \<le> lm_records limits)"
proof (induction ms arbitrary: s)
  case (Cons e ms)
  obtain mid where mid: "check_module registry limits js_size assets account s e = Inr mid"
      "sum_fold (check_module registry limits js_size assets account) mid ms = Inr s'"
    using Cons.prems by (cases "check_module registry limits js_size assets account s e") simp_all
  then show ?case using Cons.IH [OF mid(2)] check_module_spec [OF mid(1)] by (auto split: prod.splits)
qed simp

definition profile_size :: "(json_object \<Rightarrow> int) \<Rightarrow> qstring \<times> local_profile \<Rightarrow> int" where
  "profile_size js_size entry =
     (let p = snd entry in js_size (pf_extra p) + js_size (pf_transfer p) + sum_list (map (js_size \<circ> snd) (pf_modules p)))"

definition profile_fits ::
  "registry \<Rightarrow> store_limits \<Rightarrow> (json_object \<Rightarrow> int) \<Rightarrow> (qstring \<times> local_asset) list \<Rightarrow> qstring \<Rightarrow> local_profile \<Rightarrow> bool" where
  "profile_fits registry limits js_size assets k p \<longleftrightarrow>
     k = pf_id p \<and> valid_uuid k \<and> valid_account (pf_account p) \<and> length (pf_modules p) \<le> lm_modules limits
     \<and> (\<forall>(i, m)\<in>set (pf_modules p). module_fits registry limits js_size assets (pf_account p) i m)"

lemma check_profiles_spec:
  "sum_fold (check_profile registry limits js_size assets) s ps = Inr s' \<Longrightarrow>
    (\<forall>(k, p)\<in>set ps. profile_fits registry limits js_size assets k p)
    \<and> fst (fst s') = fst (fst s) + sum_list (map (profile_size js_size) ps)
    \<and> snd (fst s') = snd (fst s) + sum_list (map (\<lambda>(k, p). sum_list (map (known_records registry) (pf_modules p))) ps)
    \<and> (snd (fst s) \<le> lm_records limits \<longrightarrow> snd (fst s') \<le> lm_records limits)
    \<and> distinct (map (\<lambda>e. account_id (pf_account (snd e))) ps)
    \<and> (\<forall>(k, p)\<in>set ps. account_id (pf_account p) \<notin> set (snd s))"
proof (induction ps arbitrary: s)
  case (Cons e ps)
  obtain mid where mid: "check_profile registry limits js_size assets s e = Inr mid"
      "sum_fold (check_profile registry limits js_size assets) mid ps = Inr s'"
    using Cons.prems by (cases "check_profile registry limits js_size assets s e") simp_all
  obtain k p where e: "e = (k, p)" by fastforce
  obtain used records accounts where s: "s = ((used, records), accounts)" by (metis surj_pair)
  obtain counts where counts: "sum_fold (check_module registry limits js_size assets (pf_account p))
        (used + js_size (pf_extra p) + js_size (pf_transfer p), records) (pf_modules p) = Inr counts"
      "mid = (counts, account_id (pf_account p) # accounts)"
    and ok: "k = pf_id p" "valid_uuid k" "valid_account (pf_account p)" "account_id (pf_account p) \<notin> set accounts"
      "length (pf_modules p) \<le> lm_modules limits"
    using mid(1) by (auto simp: e s check_profile_def Let_def map_sum_def split: if_splits sum.splits)
  note modules = check_modules_spec [OF counts(1)]
  have "profile_fits registry limits js_size assets k p" using ok modules by (simp add: profile_fits_def)
  then show ?case
    using Cons.IH [OF mid(2)] modules ok(4) by (auto simp: e s counts(2) profile_size_def Let_def)
qed simp

lemma check_assets_spec:
  "sum_fold (check_asset limits js_size) s as = Inr s' \<Longrightarrow>
    fst s' = fst s + sum_list (map (\<lambda>(i, a). js_size (as_extra a) + js_size (as_transfer a)) as)
    \<and> snd s' = snd s + sum_list (map (\<lambda>(i, a). as_size a) as)
    \<and> (snd s \<le> lm_asset_total limits \<longrightarrow> snd s' \<le> lm_asset_total limits)
    \<and> (\<forall>(i, a)\<in>set as. i = as_sha256 a \<and> valid_hash i \<and> 0 \<le> as_size a \<and> as_size a \<le> lm_asset limits)"
proof (induction as arbitrary: s)
  case (Cons e as)
  obtain mid where mid: "check_asset limits js_size s e = Inr mid" "sum_fold (check_asset limits js_size) mid as = Inr s'"
    using Cons.prems by (cases "check_asset limits js_size s e") simp_all
  then show ?case
    using Cons.IH [OF mid(2)] by (auto simp: check_asset_def Let_def split: prod.splits if_splits)
qed simp

text \<open>What holds of a state that was validated: \<open>snapshot_fits\<close>.\<close>

definition snapshot_size :: "(json_object \<Rightarrow> int) \<Rightarrow> snapshot \<Rightarrow> int" where
  "snapshot_size js_size s =
     js_size (sn_extra s) + js_size (sn_transfer s) + sum_list (map (profile_size js_size) (sn_profiles s))
     + sum_list (map (\<lambda>(i, a). js_size (as_extra a) + js_size (as_transfer a)) (sn_assets s))"

definition snapshot_fits :: "registry \<Rightarrow> store_limits \<Rightarrow> (json_object \<Rightarrow> int) \<Rightarrow> snapshot \<Rightarrow> bool" where
  "snapshot_fits registry limits js_size s \<longleftrightarrow>
     length (sn_profiles s) \<le> lm_profiles limits \<and> length (sn_assets s) \<le> lm_assets limits
     \<and> (\<forall>(k, p)\<in>set (sn_profiles s). profile_fits registry limits js_size (sn_assets s) k p)
     \<and> distinct (map (\<lambda>e. account_id (pf_account (snd e))) (sn_profiles s))
     \<and> sum_list (map (\<lambda>(k, p). sum_list (map (known_records registry) (pf_modules p))) (sn_profiles s)) \<le> lm_records limits
     \<and> (0 \<le> lm_asset_total limits \<longrightarrow> sum_list (map (\<lambda>(i, a). as_size a) (sn_assets s)) \<le> lm_asset_total limits)
     \<and> (\<forall>(i, a)\<in>set (sn_assets s). i = as_sha256 a \<and> valid_hash i \<and> 0 \<le> as_size a \<and> as_size a \<le> lm_asset limits)
     \<and> snapshot_size js_size s \<le> lm_json limits"

lemma validated_fits:
  assumes "validate_snapshot registry limits js_size shape s = None"
  shows "snapshot_fits registry limits js_size s"
proof -
  obtain used records accounts used' bytes where run:
      "sum_fold (check_profile registry limits js_size (sn_assets s)) ((js_size (sn_extra s) + js_size (sn_transfer s), 0), [])
        (sn_profiles s) = Inr ((used, records), accounts)"
      "sum_fold (check_asset limits js_size) (used, 0) (sn_assets s) = Inr (used', bytes)"
      "used' \<le> lm_json limits" "length (sn_profiles s) \<le> lm_profiles limits" "length (sn_assets s) \<le> lm_assets limits"
    using assms by (auto simp: validate_snapshot_def split: if_splits sum.splits prod.splits)
  show ?thesis
    using check_profiles_spec [OF run(1)] check_assets_spec [OF run(2)] run(3-5)
    by (auto simp: snapshot_fits_def snapshot_size_def)
qed

section \<open>The states of a store\<close>

definition fresh_snapshot :: "qstring \<Rightarrow> qstring \<Rightarrow> snapshot" where
  "fresh_snapshot device generation =
     \<lparr>sn_generation = generation, sn_device = device, sn_extra = [], sn_profiles = [], sn_assets = [], sn_transfer = []\<rparr>"

text \<open>Every state the store has: the first one, and what the operations make of it, whatever the changes, the plans, the
  new identities and the failures of the file system are.\<close>

inductive stored ::
  "registry \<Rightarrow> store_limits \<Rightarrow> (json_object \<Rightarrow> int) \<Rightarrow> (snapshot \<Rightarrow> store_failure option) \<Rightarrow> (json_object \<Rightarrow> qstring)
    \<Rightarrow> snapshot \<Rightarrow> bool"
  for registry limits js_size shape digest where
  first: "commit_snapshot (validate_snapshot registry limits js_size shape) io generation' s s = Inr s'
    \<Longrightarrow> s = fresh_snapshot device generation \<Longrightarrow> stored registry limits js_size shape digest s'"
| mutate: "stored registry limits js_size shape digest s
    \<Longrightarrow> store_mutate registry (validate_snapshot registry limits js_size shape) io generation new_id fresh account i change assets s
      = Inr s' \<Longrightarrow> stored registry limits js_size shape digest s'"
| imported: "stored registry limits js_size shape digest s
    \<Longrightarrow> apply_import (validate_snapshot registry limits js_size shape) io generation plan choices s = Inr s'
    \<Longrightarrow> stored registry limits js_size shape digest s'"
| restored: "stored registry limits js_size shape digest s
    \<Longrightarrow> restore_conflict digest (supported_module registry) (validate_snapshot registry limits js_size shape) io generation i expected s
      = Inr s' \<Longrightarrow> stored registry limits js_size shape digest s'"

lemma fits_stamp [simp]:
  "snapshot_fits registry limits js_size (s\<lparr>sn_device := d, sn_generation := g\<rparr>) = snapshot_fits registry limits js_size s"
  by (simp add: snapshot_fits_def snapshot_size_def)

lemma commit_fits:
  assumes "commit_snapshot (validate_snapshot registry limits js_size shape) io generation state next = Inr s'"
  shows "snapshot_fits registry limits js_size s'"
  using assms validated_fits by (fastforce simp: commit_snapshot_def split: option.splits)

lemma commit_normalized_fits:
  assumes "commit_normalized (validate_snapshot registry limits js_size shape) io generation state next = Inr s'"
  shows "snapshot_fits registry limits js_size s'"
  using assms commit_fits by (auto simp: commit_normalized_def split: sum.splits)

lemma store_mutate_cases:
  assumes "store_mutate registry validate io generation new_id fresh account i change assets s = Inr s'"
  obtains "s' = s"
    "mutate_module (sn_device s) fresh (assets \<noteq> []) change
      (module_or_empty registry i (snd (own_profile new_id account (sn_profiles s)))) = Inr None"
  | pid p m assets' where "own_profile new_id account (sn_profiles s) = (pid, p)"
    "mutate_module (sn_device s) fresh (assets \<noteq> []) change (module_or_empty registry i p) = Inr (Some m)"
    "commit_snapshot validate io generation s (s\<lparr>sn_assets := assets',
      sn_profiles := amap_put pid (p\<lparr>pf_modules := amap_put i m (pf_modules p)\<rparr>) (sn_profiles s)\<rparr>) = Inr s'"
  using assms
  by (auto simp: store_mutate_def Let_def split: if_splits sum.splits prod.splits option.splits)

lemma stored_fits:
  assumes "stored registry limits js_size shape digest s"
  shows "snapshot_fits registry limits js_size s"
  using assms
proof induction
  case (first io generation' s s' device generation)
  show ?case by (rule commit_fits [OF first(1)])
next
  case (mutate s io generation new_id fresh account i change assets s')
  show ?case by (rule store_mutate_cases [OF mutate(2)]) (use mutate(3) commit_fits in auto)
next
  case (imported s io generation plan choices s')
  then show ?case using commit_normalized_fits by (auto simp: apply_import_def split: if_splits sum.splits)
next
  case (restored s io generation i expected s')
  then show ?case using commit_normalized_fits by (auto simp: restore_conflict_def split: if_splits sum.splits option.splits)
qed

section \<open>A change stays in its module\<close>

lemma set_amap_put_asc: "asc_keys m \<Longrightarrow> set (amap_put k v m) = insert (k, v) {e \<in> set m. fst e \<noteq> k}"
proof (induction m)
  case (Cons e m)
  obtain k' w where e: "e = (k', w)" by fastforce
  have above: "\<forall>x\<in>set m. k' < fst x" using Cons.prems by (simp add: e)
  show ?case using Cons above by (auto simp: e)
qed simp

lemma find_unique:
  assumes "distinct (map (\<lambda>e. f (snd e)) xs)"
  shows "find (\<lambda>(k, p). f p = a) xs = Some e \<longleftrightarrow> e \<in> set xs \<and> f (snd e) = a"
  using assms
proof (induction xs)
  case (Cons x xs)
  have other: "f (snd e) \<noteq> f (snd x)" if "e \<in> set xs" using Cons.prems that by (auto simp: image_iff)
  show ?case
  proof (cases "f (snd x) = a")
    case True
    then show ?thesis using other by (auto simp: split_beta)
  next
    case False
    then show ?thesis using Cons by (auto simp: split_beta)
  qed
qed simp

text \<open>The module \<open>i\<close> of the account, if the state has one.\<close>

definition module_in :: "snapshot \<Rightarrow> local_account \<Rightarrow> qstring \<Rightarrow> json_object option" where
  "module_in s account i =
     (case find (\<lambda>(k, p). pf_account p = account) (sn_profiles s) of None \<Rightarrow> None | Some (k, p) \<Rightarrow> map_of (pf_modules p) i)"

lemma read_module_in:
  "read_module registry s account i = (case module_in s account i of None \<Rightarrow> empty_module registry i | Some m \<Rightarrow> m)"
  by (auto simp: read_module_def module_in_def module_or_empty_def split: option.splits)

definition accounts_apart :: "(qstring \<times> local_profile) list \<Rightarrow> bool" where
  "accounts_apart profiles \<longleftrightarrow> distinct (map (\<lambda>e. pf_account (snd e)) profiles) \<and> asc_keys profiles
     \<and> (\<forall>(k, p)\<in>set profiles. k = pf_id p \<and> k \<noteq> [])"

lemma module_in_iff:
  assumes "accounts_apart (sn_profiles s)"
  shows "module_in s account i = Some m
    \<longleftrightarrow> (\<exists>k p. (k, p) \<in> set (sn_profiles s) \<and> pf_account p = account \<and> map_of (pf_modules p) i = Some m)"
proof -
  have apart: "distinct (map (\<lambda>e. pf_account (snd e)) (sn_profiles s))" using assms by (simp add: accounts_apart_def)
  have "module_in s account i = Some m
      \<longleftrightarrow> (\<exists>e. find (\<lambda>(k, p). pf_account p = account) (sn_profiles s) = Some e \<and> map_of (pf_modules (snd e)) i = Some m)"
    by (auto simp: module_in_def split: option.splits)
  then show ?thesis by (auto simp: find_unique [OF apart])
qed

lemma fits_apart:
  assumes "snapshot_fits registry limits js_size s" and "asc_keys (sn_profiles s)"
  shows "accounts_apart (sn_profiles s)"
proof -
  have "distinct (map (\<lambda>e. account_id (pf_account (snd e))) (sn_profiles s))" using assms(1) by (simp add: snapshot_fits_def)
  then have "distinct (map account_id (map (\<lambda>e. pf_account (snd e)) (sn_profiles s)))" by (simp add: comp_def)
  then have "distinct (map (\<lambda>e. pf_account (snd e)) (sn_profiles s))" by (rule distinct_map [THEN iffD1, THEN conjunct1])
  moreover have "\<not> valid_uuid []" by code_simp
  ultimately show ?thesis
    using assms by (auto simp: accounts_apart_def snapshot_fits_def profile_fits_def)
qed

lemma own_profile_spec:
  assumes "accounts_apart profiles" and "own_profile new_id account profiles = (pid, p)" and "map_of profiles new_id = None" and "new_id \<noteq> []"
  shows "pid = pf_id p \<and> pid \<noteq> [] \<and> pf_account p = account
    \<and> ((pid, p) \<in> set profiles \<or> (p = empty_profile new_id account \<and> pid = new_id \<and> (\<forall>(k, q)\<in>set profiles. pf_account q \<noteq> account)))"
proof (cases "find (\<lambda>(k, p). pf_account p = account) profiles")
  case None
  then have none: "\<forall>(k, q)\<in>set profiles. pf_account q \<noteq> account" by (fastforce simp: find_None_iff)
  have "profile_id account profiles = []" using None by (simp add: profile_id_def)
  then have "pid = new_id" "p = empty_profile new_id account" using assms(2) by (auto simp: own_profile_def Let_def)
  then show ?thesis
    using none assms(4) by (simp add: empty_profile_def)
next
  case (Some e)
  obtain k q where e: "e = (k, q)" by fastforce
  have q: "(k, q) \<in> set profiles" "pf_account q = account"
    using Some find_unique [of pf_account profiles account e] assms(1) by (simp_all add: accounts_apart_def e)
  then have key: "k = pf_id q" "k \<noteq> []" using assms(1) by (auto simp: accounts_apart_def)
  have "map_of profiles k = Some q" using q(1) assms(1) by (simp add: accounts_apart_def asc_keys_distinct)
  moreover have "profile_id account profiles = k" using Some key by (simp add: profile_id_def e)
  ultimately have "pid = k" "p = q" using assms(2) key(2) by (auto simp: own_profile_def Let_def)
  then show ?thesis
    using q key by simp
qed

lemma put_module_in:
  assumes "accounts_apart (sn_profiles s)" and "own_profile new_id account (sn_profiles s) = (pid, p)"
    and "map_of (sn_profiles s) new_id = None" and "new_id \<noteq> []"
    and "sn_profiles s' = amap_put pid (p\<lparr>pf_modules := amap_put i m (pf_modules p)\<rparr>) (sn_profiles s)"
  shows "accounts_apart (sn_profiles s')"
    "module_in s' a j = (if a = account \<and> j = i then Some m else module_in s a j)"
    "map_of (pf_modules p) j = module_in s account j"
proof -
  have own: "pid = pf_id p" "pid \<noteq> []" "pf_account p = account"
    "(pid, p) \<in> set (sn_profiles s) \<or> (p = empty_profile new_id account \<and> pid = new_id \<and> (\<forall>(k, q)\<in>set (sn_profiles s). pf_account q \<noteq> account))"
    using own_profile_spec [OF assms(1-4)] by blast+
  let ?p = "p\<lparr>pf_modules := amap_put i m (pf_modules p)\<rparr>"
  have asc: "asc_keys (sn_profiles s)" using assms(1) by (simp add: accounts_apart_def)
  have set: "set (sn_profiles s') = insert (pid, ?p) {e \<in> set (sn_profiles s). fst e \<noteq> pid}"
    unfolding assms(5) by (rule set_amap_put_asc [OF asc])
  have inj: "e = e'" if "e \<in> set (sn_profiles s)" "e' \<in> set (sn_profiles s)" "pf_account (snd e) = pf_account (snd e')" for e e'
    using assms(1) that by (auto simp: accounts_apart_def distinct_map inj_on_def)
  have others: "pf_account (snd e) \<noteq> account" if e: "e \<in> set (sn_profiles s)" "fst e \<noteq> pid" for e
    using own(3,4) e inj [OF e(1), of "(pid, p)"] by auto
  have asc': "asc_keys (sn_profiles s')" unfolding assms(5) by (rule asc_keys_put [OF asc])
  have "inj_on (\<lambda>e. pf_account (snd e)) (set (sn_profiles s'))"
    unfolding set
  proof (rule inj_onI)
    fix e e' assume e: "e \<in> insert (pid, ?p) {e \<in> set (sn_profiles s). fst e \<noteq> pid}"
      and e': "e' \<in> insert (pid, ?p) {e \<in> set (sn_profiles s). fst e \<noteq> pid}"
      and same: "pf_account (snd e) = pf_account (snd e')"
    have fresh: "pf_account (snd x) \<noteq> pf_account (snd (pid, ?p))" if "x \<in> {e \<in> set (sn_profiles s). fst e \<noteq> pid}" for x
      using others [of x] that own(3) by simp
    show "e = e'"
    proof (cases "e = (pid, ?p)"; cases "e' = (pid, ?p)")
      assume "e = (pid, ?p)" "e' \<noteq> (pid, ?p)"
      then show ?thesis using fresh [of e'] e' same by simp
    next
      assume "e \<noteq> (pid, ?p)" "e' = (pid, ?p)"
      then show ?thesis using fresh [of e] e same by simp
    next
      assume "e \<noteq> (pid, ?p)" "e' \<noteq> (pid, ?p)"
      then have "e \<in> set (sn_profiles s)" "e' \<in> set (sn_profiles s)" using e e' by auto
      then show ?thesis by (rule inj [OF _ _ same])
    qed simp
  qed
  then have "distinct (map (\<lambda>e. pf_account (snd e)) (sn_profiles s'))"
    using asc_keys_distinct [OF asc'] by (simp add: distinct_map)
  then show apart: "accounts_apart (sn_profiles s')"
    using asc' assms(1) own(1,2) set by (auto simp: accounts_apart_def)
  have same: "q = p" if q: "(k, q) \<in> set (sn_profiles s)" "pf_account q = account" for k q
  proof -
    have "k = pid" using others [OF q(1)] q(2) by auto
    moreover have "(pid, p) \<in> set (sn_profiles s)" using own(4) q by auto
    ultimately show ?thesis using eq_key_imp_eq_value [OF asc_keys_distinct [OF asc], of pid q p] q(1) by simp
  qed
  have "module_in s account j = Some x \<longleftrightarrow> map_of (pf_modules p) j = Some x" for j x
  proof (cases "(pid, p) \<in> set (sn_profiles s)")
    case True
    then show ?thesis unfolding module_in_iff [OF assms(1)] using own(3) same by blast
  next
    case False
    then have "p = empty_profile new_id account" "\<forall>(k, q)\<in>set (sn_profiles s). pf_account q \<noteq> account" using own(4) by simp_all
    moreover from this(1) have "pf_modules p = []" by (simp add: empty_profile_def)
    ultimately show ?thesis unfolding module_in_iff [OF assms(1)] by auto
  qed
  then have before: "map_of (pf_modules p) j = module_in s account j" for j by (metis not_Some_eq)
  then show "map_of (pf_modules p) j = module_in s account j" .
  show "module_in s' a j = (if a = account \<and> j = i then Some m else module_in s a j)"
  proof (cases "a = account")
    case True
    have "module_in s' account j = Some x \<longleftrightarrow> map_of (pf_modules ?p) j = Some x" for x
      unfolding module_in_iff [OF apart] set using own(3) others by force
    then have "module_in s' account j = map_of (pf_modules ?p) j" by (metis not_Some_eq)
    then show ?thesis using True before [of j] by simp
  next
    case False
    have "k \<noteq> pid" if "(k, q) \<in> set (sn_profiles s)" "pf_account q = a" for k q
    proof
      assume pid: "k = pid"
      then have "map_of (sn_profiles s) pid = Some q" using that(1) asc_keys_distinct [OF asc] by simp
      then have "(pid, p) \<in> set (sn_profiles s)" using own(4) assms(3) by auto
      then have "q = p" using eq_key_imp_eq_value [OF asc_keys_distinct [OF asc], of pid q p] that(1) pid by simp
      then show False using that(2) own(3) False by simp
    qed
    then have "module_in s' a j = Some x \<longleftrightarrow> module_in s a j = Some x" for x
      unfolding module_in_iff [OF apart] module_in_iff [OF assms(1)] set using own(3) False by force
    then show ?thesis using False by (metis not_Some_eq)
  qed
qed

text \<open>C10: after a change was stored, the module of the account is what the change made of it,
  with the records it left out kept as deleted, and every other module of the account and every other account is
  as it was.\<close>

theorem change_stays_in_its_module:
  assumes "store_mutate registry validate io generation new_id fresh account i change assets s = Inr s'"
    and "snapshot_fits registry limits js_size s" and "asc_keys (sn_profiles s)"
    and "map_of (sn_profiles s) new_id = None" and "new_id \<noteq> []"
  shows "(case mutate_module (sn_device s) fresh (assets \<noteq> []) change (read_module registry s account i) of
      Inl e \<Rightarrow> False
    | Inr None \<Rightarrow> s' = s
    | Inr (Some m) \<Rightarrow> read_module registry s' account i = m \<and> sn_extra s' = sn_extra s \<and> sn_device s' = sn_device s
        \<and> (\<forall>a j. (a, j) \<noteq> (account, i) \<longrightarrow> read_module registry s' a j = read_module registry s a j))"
proof -
  note apart = fits_apart [OF assms(2,3)]
  obtain pid p where own: "own_profile new_id account (sn_profiles s) = (pid, p)" by fastforce
  have "read_module registry s account i = module_or_empty registry i p"
    using put_module_in(3) [OF apart own assms(4,5), of "s\<lparr>sn_profiles := amap_put pid (p\<lparr>pf_modules := amap_put i [] (pf_modules p)\<rparr>) (sn_profiles s)\<rparr>" i "[]" i]
    by (simp add: read_module_in module_or_empty_def)
  then show ?thesis
  proof (cases rule: store_mutate_cases [OF assms(1)])
    case 1
    then show ?thesis using \<open>read_module registry s account i = module_or_empty registry i p\<close> by (simp add: own)
  next
    case (2 pid' p' m assets')
    have same: "pid' = pid" "p' = p" using 2(1) own by simp_all
    have committed: "sn_profiles s' = amap_put pid (p\<lparr>pf_modules := amap_put i m (pf_modules p)\<rparr>) (sn_profiles s)"
      "sn_extra s' = sn_extra s" "sn_device s' = sn_device s"
      using 2(3) by (auto simp: same commit_snapshot_def split: option.splits)
    note put = put_module_in(2) [OF apart own assms(4,5) committed(1)]
    show ?thesis
      using 2(2) put committed(2,3) \<open>read_module registry s account i = module_or_empty registry i p\<close>
      by (simp add: same read_module_in)
  qed
qed

section \<open>Imports between stores\<close>

lemma fits_records:
  assumes "module_fits registry limits js_size assets account i m" and "supported_module registry i (schema_of m)"
    and "\<forall>v\<in>set (module_records m). asc_keys (vector_of (obj v))"
  shows "records_versioned (records_of m)" "distinct (map fst (listed (module_records m)))"
proof -
  have ok: "distinct (map (\<lambda>v. record_id (obj v)) (module_records m))"
    "\<forall>v\<in>set (module_records m). valid_vector (jfield (obj v) ''version_vector'')"
    using assms(1,2) by (auto simp: module_fits_def supported_module_def record_envelope_ok_def)
  show distinct: "distinct (map fst (listed (module_records m)))" using ok(1) by (simp add: listed_def comp_def)
  show "records_versioned (records_of m)"
    unfolding records_versioned_def records_of_listed [OF distinct]
  proof (intro allI impI)
    fix k r assume "map_of (listed (module_records m)) k = Some r"
    then obtain v where "v \<in> set (module_records m)" "r = obj v" by (auto simp: listed_def dest!: map_of_SomeD)
    then show "vector_ok (vector_of r)" using ok(2) assms(3) valid_vector_ok by (simp add: vector_of_def)
  qed
qed


section \<open>Bounds\<close>

text \<open>C11: every state of a store, after whatever changes, imports and restored versions, has at most
  one profile for an account, known modules whose records have distinct ids and valid versions and whose attachments
  are all there, and stays within the limits of its records, its attachments and its text.\<close>

theorem stored_states_bounded:
  assumes "stored registry default_limits js_size shape digest s"
  shows "length (sn_profiles s) \<le> 128 \<and> distinct (map (\<lambda>e. account_id (pf_account (snd e))) (sn_profiles s))
    \<and> (\<forall>(k, p)\<in>set (sn_profiles s). k = pf_id p \<and> valid_account (pf_account p)
        \<and> (\<forall>(i, m)\<in>set (pf_modules p). \<forall>d. definition_of registry i (schema_of m) = Some d \<longrightarrow>
            distinct (map (\<lambda>v. record_id (obj v)) (module_records m))
            \<and> (\<forall>v\<in>set (module_records m). valid_uuid (record_id (obj v)) \<and> valid_vector (jfield (obj v) ''version_vector''))
            \<and> md_validate d m (pf_account p) = None \<and> (\<forall>a\<in>set (md_assets d m). map_of (sn_assets s) a \<noteq> None)))
    \<and> sum_list (map (\<lambda>(k, p). sum_list (map (known_records registry) (pf_modules p))) (sn_profiles s)) \<le> 1000000
    \<and> sum_list (map (\<lambda>(i, a). as_size a) (sn_assets s)) \<le> 2 ^ 35 \<and> snapshot_size js_size s \<le> 2 ^ 28"
proof -
  have fits: "snapshot_fits registry default_limits js_size s" by (rule stored_fits [OF assms])
  have owner: "k = pf_id p \<and> valid_account (pf_account p)" if "(k, p) \<in> set (sn_profiles s)" for k p
    using fits that by (auto simp: snapshot_fits_def profile_fits_def)
  have known: "distinct (map (\<lambda>v. record_id (obj v)) (module_records m))
      \<and> (\<forall>v\<in>set (module_records m). valid_uuid (record_id (obj v)) \<and> valid_vector (jfield (obj v) ''version_vector''))
      \<and> md_validate d m (pf_account p) = None \<and> (\<forall>a\<in>set (md_assets d m). map_of (sn_assets s) a \<noteq> None)"
    if "(k, p) \<in> set (sn_profiles s)" "(i, m) \<in> set (pf_modules p)" "definition_of registry i (schema_of m) = Some d" for k p i m d
  proof -
    have "module_fits registry default_limits js_size (sn_assets s) (pf_account p) i m"
      using fits that(1,2) by (auto simp: snapshot_fits_def profile_fits_def)
    then show ?thesis using that(3) by (simp add: module_fits_def record_envelope_ok_def)
  qed
  have sums: "length (sn_profiles s) \<le> 128" "distinct (map (\<lambda>e. account_id (pf_account (snd e))) (sn_profiles s))"
    "sum_list (map (\<lambda>(k, p). sum_list (map (known_records registry) (pf_modules p))) (sn_profiles s)) \<le> 1000000"
    "sum_list (map (\<lambda>(i, a). as_size a) (sn_assets s)) \<le> 2 ^ 35" "snapshot_size js_size s \<le> 2 ^ 28"
    using fits by (simp_all add: snapshot_fits_def default_limits_def)
  show ?thesis by (intro conjI sums; clarify; use owner known in blast)
qed

section \<open>Witnesses\<close>

definition sample_registry :: registry where
  "sample_registry = [(latin ''notes'', \<lparr>md_version = 1, md_validate = (\<lambda>m account. None), md_assets = (\<lambda>m. [])\<rparr>)]"

definition sample_check :: "snapshot \<Rightarrow> store_failure option" where
  "sample_check = validate_snapshot sample_registry default_limits (\<lambda>m. 0) (\<lambda>s. None)"

text \<open>A store of a device, after one record was added.\<close>

definition sample_added :: "qstring \<Rightarrow> qstring \<Rightarrow> store_failure + snapshot" where
  "sample_added device i =
     store_mutate sample_registry sample_check None sample_id sample_other (\<lambda>n. i) sample_owner (latin ''notes'')
       (\<lambda>m. Inr (jput ''records'' (JsArr [JsObj []]) m)) [] (fresh_snapshot device sample_id)"

definition sample_store :: "qstring \<Rightarrow> qstring \<Rightarrow> snapshot" where
  "sample_store device i = (case sample_added device i of Inr s \<Rightarrow> s | Inl e \<Rightarrow> fresh_snapshot device sample_id)"

definition sample_profile :: "qstring \<Rightarrow> qstring \<Rightarrow> local_profile" where
  "sample_profile device i = (case map_of (sn_profiles (sample_store device i)) sample_other of Some p \<Rightarrow> p)"

definition sample_notes :: "qstring \<Rightarrow> qstring \<Rightarrow> json_object" where
  "sample_notes device i = (case map_of (pf_modules (sample_profile device i)) (latin ''notes'') of Some m \<Rightarrow> m)"

lemma sample_fresh: "commit_snapshot sample_check None sample_id (fresh_snapshot device sample_id) (fresh_snapshot device sample_id)
    = Inr (fresh_snapshot device sample_id)"
proof -
  have "sample_check (fresh_snapshot device sample_id) = None"
    by (simp add: sample_check_def validate_snapshot_def fresh_snapshot_def default_limits_def)
  then show ?thesis by (simp add: commit_snapshot_def fresh_snapshot_def)
qed

lemma sample_adds:
  "sample_added sample_device sample_id = Inr (sample_store sample_device sample_id)"
  "sample_added sample_other sample_other = Inr (sample_store sample_other sample_other)"
proof -
  have "case sample_added sample_device sample_id of Inr s \<Rightarrow> True | Inl e \<Rightarrow> False"
    "case sample_added sample_other sample_other of Inr s \<Rightarrow> True | Inl e \<Rightarrow> False"
    by code_simp+
  then show "sample_added sample_device sample_id = Inr (sample_store sample_device sample_id)"
    "sample_added sample_other sample_other = Inr (sample_store sample_other sample_other)"
    by (auto simp: sample_store_def split: sum.splits)
qed

lemma sample_stored:
  "stored sample_registry default_limits (\<lambda>m. 0) (\<lambda>s. None) digest (sample_store sample_device sample_id)"
  "stored sample_registry default_limits (\<lambda>m. 0) (\<lambda>s. None) digest (sample_store sample_other sample_other)"
  using stored.mutate [OF stored.first [OF sample_fresh [unfolded sample_check_def] refl] sample_adds(1) [unfolded sample_added_def sample_check_def]]
    stored.mutate [OF stored.first [OF sample_fresh [unfolded sample_check_def] refl] sample_adds(2) [unfolded sample_added_def sample_check_def]]
  by blast+

lemma sample_places:
  "(sample_other, sample_profile sample_device sample_id) \<in> set (sn_profiles (sample_store sample_device sample_id))"
  "(sample_other, sample_profile sample_other sample_other) \<in> set (sn_profiles (sample_store sample_other sample_other))"
  "map_of (pf_modules (sample_profile sample_device sample_id)) (latin ''notes'') = Some (sample_notes sample_device sample_id)"
  "map_of (pf_modules (sample_profile sample_other sample_other)) (latin ''notes'') = Some (sample_notes sample_other sample_other)"
  "supported_module sample_registry (latin ''notes'') (schema_of (sample_notes sample_device sample_id))"
  "supported_module sample_registry (latin ''notes'') (schema_of (sample_notes sample_other sample_other))"
  "\<forall>v\<in>set (module_records (sample_notes sample_device sample_id)) \<union> set (module_records (sample_notes sample_other sample_other)).
    asc_keys (vector_of (obj v))"
  "map fst (records_of (sample_notes sample_device sample_id)) = [sample_id]"
  "map fst (records_of (sample_notes sample_other sample_other)) = [sample_other]"
  "sample_id \<noteq> sample_other"
  by code_simp+

theorem stored_states_bounded_witness: "length (sn_profiles (sample_store sample_device sample_id)) \<le> 128"
  using stored_states_bounded [OF sample_stored(1)] by blast


theorem change_stays_in_its_module_witness:
  "sn_device (sample_store sample_device sample_id) = sample_device"
proof -
  have fits: "snapshot_fits sample_registry default_limits (\<lambda>m. 0) (fresh_snapshot sample_device sample_id)"
    by (rule stored_fits [OF stored.first [OF sample_fresh [unfolded sample_check_def] refl]])
  have "asc_keys (sn_profiles (fresh_snapshot sample_device sample_id))" "map_of (sn_profiles (fresh_snapshot sample_device sample_id)) sample_other = None"
    "sample_other \<noteq> []" "sn_device (fresh_snapshot sample_device sample_id) = sample_device"
    by (simp_all add: fresh_snapshot_def sample_other_def)
  then show ?thesis
    using change_stays_in_its_module [OF sample_adds(1) [unfolded sample_added_def] fits]
    by (auto split: sum.splits option.splits)
qed

end
