(* ===== verification/PtsWaiter.thy ===== *)
theory PtsWaiter
  imports Prelude "HOL-Library.Multiset"
begin

unbundle bit_operations_syntax

text \<open>
  The sequencer of server updates (\<open>PtsWaiter\<close>, \<open>data/data_pts_waiter.h\<close> and \<open>.cpp\<close>): every
  update carries the value \<open>pts\<close> of the server's counter after it and the \<open>count\<close> of steps it
  makes; updates that arrive ahead of a gap are queued and applied in order once it closes.

  The members are the fields of \<open>pts_waiter\<close>; the two payload maps are key/value lists in
  ascending key order. What the waiter asks of its owner (\<open>Api::Updates\<close>) is the list of effects
  an operation returns. The \<open>ChannelData\<close> pointer is only handed through to the owner, so it is
  left out; the owner's handlers do not re-enter the waiter (while the queue is applied
  \<open>_applySkippedLevel\<close> makes such a call a no-op that returns true, see \<open>pts_updated_nested\<close>).
  Counters are integers: signed overflow is undefined in the code.
\<close>

datatype pts_skipped_queue = SkippedUpdate | SkippedUpdates

datatype ('u, 'us) pts_payload = NoPayload | OneUpdate 'u | ManyUpdates 'us

datatype ('u, 'us) pts_effect =
  StartTimer int
| ApplyUpdate "'u option"
| ApplyUpdates "'us option"

record ('u, 'us) pts_waiter =
  pw_queue :: "(64 word \<times> pts_skipped_queue) list"
  pw_update_queue :: "(64 word \<times> 'u) list"
  pw_updates_queue :: "(64 word \<times> 'us) list"
  pw_good :: int
  pw_last :: int
  pw_count :: int
  pw_level :: int
  pw_requesting :: bool
  pw_waiting_skipped :: bool
  pw_waiting_short_poll :: bool
  pw_skipped_key :: "32 word"

definition wait_for_skipped_timeout :: int where
  "wait_for_skipped_timeout = 1000"

section \<open>Operations\<close>

definition pts_clear_skipped :: "('u, 'us) pts_waiter \<Rightarrow> ('u, 'us) pts_waiter" where
  "pts_clear_skipped s = s\<lparr>pw_queue := [], pw_update_queue := [], pw_updates_queue := [], pw_level := 0\<rparr>"

definition pts_init :: "int \<Rightarrow> ('u, 'us) pts_waiter \<Rightarrow> ('u, 'us) pts_waiter" where
  "pts_init pts s = pts_clear_skipped (s\<lparr>pw_good := pts, pw_last := pts, pw_count := pts\<rparr>)"

definition pts_inited :: "('u, 'us) pts_waiter \<Rightarrow> bool" where
  "pts_inited s = (pw_good s > 0)"

definition pts_set_requesting :: "bool \<Rightarrow> ('u, 'us) pts_waiter \<Rightarrow> ('u, 'us) pts_waiter" where
  "pts_set_requesting r s =
     (let s' = s\<lparr>pw_requesting := r\<rparr> in if pw_requesting s' then pts_clear_skipped s' else s')"

definition pts_check_for_waiting :: "('u, 'us) pts_waiter \<Rightarrow> ('u, 'us) pts_effect list" where
  "pts_check_for_waiting s =
     (if \<not> pw_waiting_skipped s \<and> \<not> pw_waiting_short_poll s then [StartTimer (-1)] else [])"

definition pts_set_waiting_for_skipped ::
  "int \<Rightarrow> ('u, 'us) pts_waiter \<Rightarrow> ('u, 'us) pts_waiter \<times> ('u, 'us) pts_effect list" where
  "pts_set_waiting_for_skipped ms s =
     (if ms \<ge> 0 then (s\<lparr>pw_waiting_skipped := True\<rparr>, [StartTimer ms])
      else let s' = s\<lparr>pw_waiting_skipped := False\<rparr> in (s', pts_check_for_waiting s'))"

definition pts_set_waiting_for_short_poll ::
  "int \<Rightarrow> ('u, 'us) pts_waiter \<Rightarrow> ('u, 'us) pts_waiter \<times> ('u, 'us) pts_effect list" where
  "pts_set_waiting_for_short_poll ms s =
     (if ms \<ge> 0 then (s\<lparr>pw_waiting_short_poll := True\<rparr>, [StartTimer ms])
      else let s' = s\<lparr>pw_waiting_short_poll := False\<rparr> in (s', pts_check_for_waiting s'))"

text \<open>The key of a queued update: \<open>uint64(uint32(pts)) << 32 | (++_skippedKey)\<close>.\<close>

definition pts_next_key :: "int \<Rightarrow> ('u, 'us) pts_waiter \<Rightarrow> 64 word" where
  "pts_next_key pts s =
     push_bit 32 (ucast (word_of_int pts :: 32 word)) OR ucast (pw_skipped_key s + 1)"

definition pts_key ::
  "pts_skipped_queue \<Rightarrow> int \<Rightarrow> ('u, 'us) pts_waiter \<Rightarrow> ('u, 'us) pts_waiter \<times> 64 word" where
  "pts_key queue pts s =
     (s\<lparr>pw_skipped_key := pw_skipped_key s + 1,
        pw_queue := amap_emplace (pts_next_key pts s) queue (pw_queue s)\<rparr>,
      pts_next_key pts s)"

definition pts_enqueue ::
  "int \<Rightarrow> ('u, 'us) pts_payload \<Rightarrow> ('u, 'us) pts_waiter \<Rightarrow> ('u, 'us) pts_waiter" where
  "pts_enqueue pts payload s =
     (case payload of
        NoPayload \<Rightarrow> s
      | OneUpdate u \<Rightarrow>
          let (s', key) = pts_key SkippedUpdate pts s in
          s'\<lparr>pw_update_queue := amap_emplace key u (pw_update_queue s')\<rparr>
      | ManyUpdates us \<Rightarrow>
          let (s', key) = pts_key SkippedUpdates pts s in
          s'\<lparr>pw_updates_queue := amap_emplace key us (pw_updates_queue s')\<rparr>)"

text \<open>\<open>operator[]\<close> of a flat map gives a default value for a missing key: \<open>None\<close> here.\<close>

definition pts_apply_entry ::
  "('u, 'us) pts_waiter \<Rightarrow> 64 word \<times> pts_skipped_queue \<Rightarrow> ('u, 'us) pts_effect" where
  "pts_apply_entry s entry =
     (case snd entry of
        SkippedUpdate \<Rightarrow> ApplyUpdate (map_of (pw_update_queue s) (fst entry))
      | SkippedUpdates \<Rightarrow> ApplyUpdates (map_of (pw_updates_queue s) (fst entry)))"

definition pts_apply_skipped ::
  "('u, 'us) pts_waiter \<Rightarrow> ('u, 'us) pts_waiter \<times> ('u, 'us) pts_effect list" where
  "pts_apply_skipped s =
     (if \<not> pw_waiting_skipped s then (s, [])
      else let (s1, effects) = pts_set_waiting_for_skipped (-1) s in
      if pw_queue s1 = [] then (s1, effects)
      else (pts_clear_skipped s1, effects @ map (pts_apply_entry s1) (pw_queue s1)))"

definition pts_check ::
  "int \<Rightarrow> int \<Rightarrow> ('u, 'us) pts_waiter \<Rightarrow> bool \<times> ('u, 'us) pts_waiter \<times> ('u, 'us) pts_effect list" where
  "pts_check pts cnt s =
     (if \<not> pts_inited s then (True, pts_init pts s, [])
      else let s1 = s\<lparr>pw_last := max (pw_last s) pts, pw_count := pw_count s + cnt\<rparr> in
      if pw_last s1 = pw_count s1 then (True, s1\<lparr>pw_good := pw_last s1\<rparr>, [])
      else let (s2, effects) = pts_set_waiting_for_skipped
             (if pw_last s1 < pw_count s1 then 1 else wait_for_skipped_timeout) s1 in
      (cnt = 0, s2, effects))"

definition pts_updated ::
  "int \<Rightarrow> int \<Rightarrow> ('u, 'us) pts_payload \<Rightarrow> ('u, 'us) pts_waiter
    \<Rightarrow> bool \<times> ('u, 'us) pts_waiter \<times> ('u, 'us) pts_effect list" where
  "pts_updated pts cnt payload s =
     (if pw_requesting s \<or> pw_level s \<noteq> 0 then (True, s, [])
      else if pts \<le> pw_good s \<and> cnt > 0 then (False, s, [])
      else let (ok, s1, effects) = pts_check pts cnt s in
      if ok then (True, s1, effects)
      else (False, pts_enqueue pts payload s1, effects))"

definition pts_update_and_apply ::
  "int \<Rightarrow> int \<Rightarrow> ('u, 'us) pts_payload \<Rightarrow> ('u, 'us) pts_waiter
    \<Rightarrow> bool \<times> ('u, 'us) pts_waiter \<times> ('u, 'us) pts_effect list" where
  "pts_update_and_apply pts cnt payload s =
     (let (ok, s1, effects) = pts_updated pts cnt payload s in
      if \<not> ok then (False, s1, effects)
      else case payload of
        NoPayload \<Rightarrow> let (s2, effects2) = pts_apply_skipped s1 in (True, s2, effects @ effects2)
      | _ \<Rightarrow>
          if \<not> pw_waiting_skipped s1 \<or> pw_queue s1 = [] then
            (True, s1, effects @ [case payload of
               OneUpdate u \<Rightarrow> ApplyUpdate (Some u)
             | ManyUpdates us \<Rightarrow> ApplyUpdates (Some us)])
          else let (s2, effects2) = pts_apply_skipped (pts_enqueue pts payload s1) in
            (True, s2, effects @ effects2))"

text \<open>A call made by a handler while the queue is being applied changes nothing.\<close>

lemma pts_updated_nested: "pw_level s \<noteq> 0 \<Longrightarrow> pts_updated pts cnt payload s = (True, s, [])"
  by (simp add: pts_updated_def)

section \<open>The queue as one ordered map\<close>

text \<open>The payloads waiting, with their keys, in the order in which they will be applied.\<close>

definition payload_effect :: "('u, 'us) pts_payload \<Rightarrow> ('u, 'us) pts_effect list" where
  "payload_effect p =
     (case p of NoPayload \<Rightarrow> [] | OneUpdate u \<Rightarrow> [ApplyUpdate (Some u)] | ManyUpdates us \<Rightarrow> [ApplyUpdates (Some us)])"

definition pts_pending :: "('u, 'us) pts_waiter \<Rightarrow> (64 word \<times> ('u, 'us) pts_effect) list" where
  "pts_pending s = map (\<lambda>entry. (fst entry, pts_apply_entry s entry)) (pw_queue s)"

text \<open>
  The invariant between calls: the tags of the queue are the keys of the two payload maps; a
  queue is only kept while waiting and once a first \<open>pts\<close> is known; keys carry a serial number
  that was used before.
\<close>

definition pts_inv :: "('u, 'us) pts_waiter \<Rightarrow> bool" where
  "pts_inv s \<longleftrightarrow> asc_keys (pw_queue s) \<and> asc_keys (pw_update_queue s) \<and> asc_keys (pw_updates_queue s)
     \<and> (\<forall>k. map_of (pw_queue s) k = Some SkippedUpdate \<longleftrightarrow> map_of (pw_update_queue s) k \<noteq> None)
     \<and> (\<forall>k. map_of (pw_queue s) k = Some SkippedUpdates \<longleftrightarrow> map_of (pw_updates_queue s) k \<noteq> None)
     \<and> pw_level s = 0 \<and> pw_good s \<le> pw_last s
     \<and> (pw_queue s \<noteq> [] \<longrightarrow> pw_waiting_skipped s \<and> 0 < pw_good s \<and> \<not> pw_requesting s)
     \<and> (\<forall>k\<in>set (map fst (pw_queue s)). (ucast k :: 32 word) \<le> pw_skipped_key s)"

datatype ('u, 'us) pts_op =
  OpInit int
| OpRequesting bool
| OpShortPoll int
| OpApplySkipped
| OpUpdate int int "('u, 'us) pts_payload"

definition pts_step ::
  "('u, 'us) pts_waiter \<Rightarrow> ('u, 'us) pts_op \<Rightarrow> ('u, 'us) pts_waiter \<times> ('u, 'us) pts_effect list" where
  "pts_step s c =
     (case c of
        OpInit pts \<Rightarrow> (pts_init pts s, [])
      | OpRequesting r \<Rightarrow> (pts_set_requesting r s, [])
      | OpShortPoll ms \<Rightarrow> pts_set_waiting_for_short_poll ms s
      | OpApplySkipped \<Rightarrow> pts_apply_skipped s
      | OpUpdate pts cnt payload \<Rightarrow>
          (let (ok, s', effects) = pts_update_and_apply pts cnt payload s in (s', effects)))"

text \<open>The serial number of the queue has 32 bits; the theorems are about the runs that do not
  exhaust it.\<close>

definition pts_serial_left :: "('u, 'us) pts_waiter \<Rightarrow> bool" where
  "pts_serial_left s \<longleftrightarrow> pw_skipped_key s \<noteq> - 1"

section \<open>Keys\<close>

lemma pts_next_key_uint:
  assumes "0 \<le> pts" and "pts < 2 ^ 32"
  shows "uint (pts_next_key pts s) = pts * 2 ^ 32 + uint (pw_skipped_key s + 1)"
proof -
  let ?lo = "ucast (pw_skipped_key s + 1) :: 64 word" and ?hi = "ucast (word_of_int pts :: 32 word) :: 64 word"
  have disjoint: "push_bit 32 ?hi AND ?lo = 0"
    by (rule bit_word_eqI) (auto simp: bit_simps dest: bit_imp_le_length)
  have hi: "uint ?hi = pts"
    using assms by (simp add: uint_up_ucast is_up uint_word_of_int)
  have lo: "uint ?lo = uint (pw_skipped_key s + 1)" by (simp add: uint_up_ucast is_up)
  have small: "uint (pw_skipped_key s + 1) < 2 ^ 32" using uint_lt2p [of "pw_skipped_key s + 1"] by simp
  have "uint (push_bit 32 ?hi) = pts * 2 ^ 32"
    unfolding unsigned_push_bit_eq hi using assms by (simp add: take_bit_eq_mod push_bit_eq_mult)
  moreover have "pts_next_key pts s = push_bit 32 ?hi + ?lo"
    by (simp only: pts_next_key_def disjunctive_add_eq_or [OF disjoint])
  ultimately show ?thesis
    using small assms by (simp add: uint_word_ariths lo)
qed

lemma pts_next_key_low: "(ucast (pts_next_key pts s) :: 32 word) = pw_skipped_key s + 1"
  by (rule bit_word_eqI) (simp add: pts_next_key_def bit_simps)

lemma pts_serial_next: "pts_serial_left s \<Longrightarrow> pw_skipped_key s < pw_skipped_key s + 1"
  using unatSuc [of "pw_skipped_key s"]
  by (simp add: pts_serial_left_def word_less_nat_alt add.commute eq_neg_iff_add_eq_0)

lemma pts_next_key_fresh:
  assumes "pts_inv s" and "pts_serial_left s"
  shows "pts_next_key pts s \<notin> set (map fst (pw_queue s))"
proof
  assume "pts_next_key pts s \<in> set (map fst (pw_queue s))"
  then have "(ucast (pts_next_key pts s) :: 32 word) \<le> pw_skipped_key s"
    using assms(1) unfolding pts_inv_def by blast
  with pts_serial_next [OF assms(2)] show False by (simp add: pts_next_key_low)
qed

section \<open>Queueing an update\<close>

lemma map_amap_emplace:
  "k \<notin> fst ` set m \<Longrightarrow>
     map (\<lambda>e. (fst e, f e)) (amap_emplace k v m) = amap_emplace k (f (k, v)) (map (\<lambda>e. (fst e, f e)) m)"
  by (induction m) auto

lemma lookup_emplace_fresh:
  assumes "asc_keys m" and "map_of m k = None"
  shows "map_of (amap_emplace k v m) k' = (if k' = k then Some v else map_of m k')"
  using assms by (simp add: amap_emplace_lookup)

lemma pts_keyless:
  assumes "pts_inv s" and "k \<notin> set (map fst (pw_queue s))"
  shows "map_of (pw_queue s) k = None" "map_of (pw_update_queue s) k = None"
    "map_of (pw_updates_queue s) k = None"
proof -
  show none: "map_of (pw_queue s) k = None" using assms(2) by (simp add: map_of_eq_None_iff)
  have "map_of (pw_queue s) k = Some SkippedUpdate \<longleftrightarrow> map_of (pw_update_queue s) k \<noteq> None"
    "map_of (pw_queue s) k = Some SkippedUpdates \<longleftrightarrow> map_of (pw_updates_queue s) k \<noteq> None"
    using assms(1) unfolding pts_inv_def by blast+
  with none show "map_of (pw_update_queue s) k = None" "map_of (pw_updates_queue s) k = None" by simp_all
qed

lemma pts_inv_keys:
  assumes "pts_inv s"
  shows "asc_keys (pw_queue s)" "asc_keys (pw_update_queue s)" "asc_keys (pw_updates_queue s)"
  using assms by (simp_all add: pts_inv_def)

definition payload_tag :: "('u, 'us) pts_payload \<Rightarrow> pts_skipped_queue" where
  "payload_tag p = (case p of ManyUpdates _ \<Rightarrow> SkippedUpdates | _ \<Rightarrow> SkippedUpdate)"

lemma pts_enqueue_fields:
  assumes "p \<noteq> NoPayload"
  shows "pw_queue (pts_enqueue pts p s) = amap_emplace (pts_next_key pts s) (payload_tag p) (pw_queue s)"
    "pw_update_queue (pts_enqueue pts p s) =
      (case p of OneUpdate u \<Rightarrow> amap_emplace (pts_next_key pts s) u (pw_update_queue s) | _ \<Rightarrow> pw_update_queue s)"
    "pw_updates_queue (pts_enqueue pts p s) =
      (case p of ManyUpdates u \<Rightarrow> amap_emplace (pts_next_key pts s) u (pw_updates_queue s) | _ \<Rightarrow> pw_updates_queue s)"
    "pw_skipped_key (pts_enqueue pts p s) = pw_skipped_key s + 1"
  using assms by (cases p; simp add: pts_enqueue_def pts_key_def Let_def payload_tag_def)+

lemma pts_enqueue_same [simp]:
  "pw_good (pts_enqueue pts p s) = pw_good s" "pw_last (pts_enqueue pts p s) = pw_last s"
  "pw_count (pts_enqueue pts p s) = pw_count s" "pw_level (pts_enqueue pts p s) = pw_level s"
  "pw_requesting (pts_enqueue pts p s) = pw_requesting s"
  "pw_waiting_skipped (pts_enqueue pts p s) = pw_waiting_skipped s"
  "pw_waiting_short_poll (pts_enqueue pts p s) = pw_waiting_short_poll s"
  "pts_enqueue pts NoPayload s = s"
  by (cases p; simp add: pts_enqueue_def pts_key_def Let_def)+

lemma pts_enqueue_pending:
  assumes inv: "pts_inv s" and left: "pts_serial_left s" and p: "p \<noteq> NoPayload"
  shows "pts_pending (pts_enqueue pts p s) =
    amap_emplace (pts_next_key pts s) (hd (payload_effect p)) (pts_pending s)"
proof -
  let ?k = "pts_next_key pts s" and ?s = "pts_enqueue pts p s"
  have fresh: "?k \<notin> set (map fst (pw_queue s))" by (rule pts_next_key_fresh [OF inv left])
  note none = pts_keyless [OF inv fresh] and asc = pts_inv_keys [OF inv]
  have new: "pts_apply_entry ?s (?k, payload_tag p) = hd (payload_effect p)"
    using p none by (cases p)
      (simp_all add: pts_apply_entry_def pts_enqueue_fields payload_tag_def payload_effect_def
        lookup_emplace_fresh asc)
  have old: "pts_apply_entry ?s e = pts_apply_entry s e" if "e \<in> set (pw_queue s)" for e
  proof -
    have "fst e \<in> set (map fst (pw_queue s))" using that by simp
    with fresh have "fst e \<noteq> ?k" by metis
    then show ?thesis
      using none p by (cases p)
        (simp_all add: pts_apply_entry_def pts_enqueue_fields lookup_emplace_fresh asc
          split: pts_skipped_queue.split)
  qed
  have "pts_pending ?s = map (\<lambda>e. (fst e, pts_apply_entry ?s e)) (amap_emplace ?k (payload_tag p) (pw_queue s))"
    by (simp add: pts_pending_def pts_enqueue_fields p)
  also have "\<dots> = amap_emplace ?k (hd (payload_effect p)) (map (\<lambda>e. (fst e, pts_apply_entry ?s e)) (pw_queue s))"
    using fresh by (subst map_amap_emplace) (simp_all add: new)
  also have "map (\<lambda>e. (fst e, pts_apply_entry ?s e)) (pw_queue s) = pts_pending s"
    using old by (simp add: pts_pending_def)
  finally show ?thesis .
qed

lemma pts_enqueue_inv:
  assumes inv: "pts_inv s" and left: "pts_serial_left s"
    and s: "pw_waiting_skipped s" "0 < pw_good s" "\<not> pw_requesting s"
  shows "pts_inv (pts_enqueue pts p s)"
proof (cases "p = NoPayload")
  case True
  with inv show ?thesis by simp
next
  case False
  let ?k = "pts_next_key pts s" and ?s = "pts_enqueue pts p s"
  have fresh: "?k \<notin> set (map fst (pw_queue s))" by (rule pts_next_key_fresh [OF inv left])
  note none = pts_keyless [OF inv fresh] and asc = pts_inv_keys [OF inv]
  have "map_of (pw_queue s) k = Some SkippedUpdate \<longleftrightarrow> map_of (pw_update_queue s) k \<noteq> None"
    "map_of (pw_queue s) k = Some SkippedUpdates \<longleftrightarrow> map_of (pw_updates_queue s) k \<noteq> None" for k
    using inv unfolding pts_inv_def by blast+
  then have tags: "map_of (pw_queue ?s) k = Some SkippedUpdate \<longleftrightarrow> map_of (pw_update_queue ?s) k \<noteq> None"
    "map_of (pw_queue ?s) k = Some SkippedUpdates \<longleftrightarrow> map_of (pw_updates_queue ?s) k \<noteq> None" for k
    using False none
    by (cases p; simp add: pts_enqueue_fields lookup_emplace_fresh asc payload_tag_def)+
  have asc': "asc_keys (pw_queue ?s)" "asc_keys (pw_update_queue ?s)" "asc_keys (pw_updates_queue ?s)"
    using False asc by (cases p; simp add: pts_enqueue_fields asc_keys_emplace)+
  have "(ucast k :: 32 word) \<le> pw_skipped_key ?s" if "k \<in> set (map fst (pw_queue ?s))" for k
  proof -
    from that have "k = ?k \<or> k \<in> set (map fst (pw_queue s))"
      using False by (simp add: pts_enqueue_fields keys_amap_emplace set_asc_insert del: set_map)
    moreover have "(ucast k :: 32 word) \<le> pw_skipped_key s" if "k \<in> set (map fst (pw_queue s))"
      using inv that unfolding pts_inv_def by blast
    ultimately have "(ucast k :: 32 word) \<le> pw_skipped_key s + 1"
      using pts_serial_next [OF left] pts_next_key_low [of pts s] by force
    with False show ?thesis by (simp add: pts_enqueue_fields)
  qed
  moreover have "pw_level s = 0" "pw_good s \<le> pw_last s" using inv by (simp_all add: pts_inv_def)
  ultimately show ?thesis using tags asc' s unfolding pts_inv_def by simp
qed

section \<open>What one update does\<close>

definition pts_applied :: "('u, 'us) pts_effect list \<Rightarrow> ('u, 'us) pts_effect list" where
  "pts_applied effects = filter (\<lambda>e. case e of StartTimer _ \<Rightarrow> False | _ \<Rightarrow> True) effects"

lemma pts_applied_simps [simp]:
  "pts_applied [] = []" "pts_applied (StartTimer ms # es) = pts_applied es"
  "pts_applied (xs @ ys) = pts_applied xs @ pts_applied ys"
  "pts_applied (map (pts_apply_entry s) q) = map (pts_apply_entry s) q"
  "pts_applied (payload_effect p) = payload_effect p"
  "pts_applied (pts_check_for_waiting s) = []"
  by (auto simp: pts_applied_def payload_effect_def pts_check_for_waiting_def pts_apply_entry_def filter_id_conv
      split: pts_payload.splits pts_skipped_queue.splits)

lemma map_snd_pending: "map snd (pts_pending s) = map (pts_apply_entry s) (pw_queue s)"
  by (simp add: pts_pending_def)

lemma pts_pending_cong:
  "pw_queue s' = pw_queue s \<Longrightarrow> pw_update_queue s' = pw_update_queue s \<Longrightarrow>
   pw_updates_queue s' = pw_updates_queue s \<Longrightarrow> pts_pending s' = pts_pending s"
  by (simp add: pts_pending_def pts_apply_entry_def [abs_def] split: pts_skipped_queue.split)

lemma pts_apply_entry_cong [simp]:
  "pts_apply_entry (s\<lparr>pw_waiting_skipped := b\<rparr>) = pts_apply_entry s"
  "pts_apply_entry (s\<lparr>pw_last := i\<rparr>) = pts_apply_entry s"
  "pts_apply_entry (s\<lparr>pw_count := i\<rparr>) = pts_apply_entry s"
  "pts_apply_entry (s\<lparr>pw_good := i\<rparr>) = pts_apply_entry s"
  by (simp_all add: pts_apply_entry_def fun_eq_iff split: pts_skipped_queue.split)

lemma pts_pending_same [simp]:
  "pts_pending (s\<lparr>pw_waiting_skipped := b\<rparr>) = pts_pending s"
  "pts_pending (s\<lparr>pw_last := i\<rparr>) = pts_pending s"
  "pts_pending (s\<lparr>pw_count := i\<rparr>) = pts_pending s"
  "pts_pending (s\<lparr>pw_good := i\<rparr>) = pts_pending s"
  "pts_pending (pts_clear_skipped s) = []"
  by (simp_all add: pts_pending_def pts_clear_skipped_def)

definition pts_flushed :: "('u, 'us) pts_waiter \<Rightarrow> ('u, 'us) pts_waiter" where
  "pts_flushed s = pts_clear_skipped (s\<lparr>pw_waiting_skipped := False\<rparr>)"

lemma pts_apply_skipped_spec:
  assumes "pw_queue s = [] \<or> pw_waiting_skipped s"
  shows "pts_applied (snd (pts_apply_skipped s)) = map snd (pts_pending s)"
    and "pw_queue s \<noteq> [] \<Longrightarrow> fst (pts_apply_skipped s) = pts_flushed s"
    and "pw_queue s = [] \<Longrightarrow> fst (pts_apply_skipped s) = s\<lparr>pw_waiting_skipped := False\<rparr>"
  using assms
  by (auto simp: pts_apply_skipped_def pts_set_waiting_for_skipped_def Let_def map_snd_pending pts_flushed_def)

text \<open>The counters after an update has been counted, and the state if a gap is left.\<close>

definition pts_counted :: "int \<Rightarrow> int \<Rightarrow> ('u, 'us) pts_waiter \<Rightarrow> ('u, 'us) pts_waiter" where
  "pts_counted pts cnt s = s\<lparr>pw_last := max (pw_last s) pts, pw_count := pw_count s + cnt\<rparr>"

definition pts_gap_timer :: "('u, 'us) pts_waiter \<Rightarrow> int" where
  "pts_gap_timer s = (if pw_last s < pw_count s then 1 else wait_for_skipped_timeout)"

lemma pts_check_eq:
  "pts_check pts cnt s =
     (let s1 = pts_counted pts cnt s in
      if \<not> pts_inited s then (True, pts_init pts s, [])
      else if pw_last s1 = pw_count s1 then (True, s1\<lparr>pw_good := pw_last s1\<rparr>, [])
      else (cnt = 0, s1\<lparr>pw_waiting_skipped := True\<rparr>, [StartTimer (pts_gap_timer s1)]))"
  by (simp add: pts_check_def pts_counted_def pts_gap_timer_def pts_set_waiting_for_skipped_def Let_def
      wait_for_skipped_timeout_def)

lemma pts_inv_simple:
  "pts_inv s \<Longrightarrow> pw_level s = 0" "pts_inv s \<Longrightarrow> pw_good s \<le> pw_last s"
  by (simp_all add: pts_inv_def)

lemma pts_inv_queue:
  assumes "pts_inv s" and "pw_queue s \<noteq> []"
  shows "pw_waiting_skipped s" "0 < pw_good s" "\<not> pw_requesting s"
  using assms by (simp_all add: pts_inv_def)

text \<open>The branches of \<open>updateAndApply\<close> for an update that carries a payload.\<close>

lemma pts_update_requesting:
  assumes "pts_inv s" and "pw_requesting s" and "p \<noteq> NoPayload"
  shows "pts_update_and_apply pts cnt p s = (True, s, payload_effect p)"
  using pts_inv_queue(3) [OF assms(1)] pts_inv_simple(1) [OF assms(1)] assms(2,3)
  by (cases p) (auto simp: pts_update_and_apply_def pts_updated_def payload_effect_def)

lemma pts_update_old:
  assumes "pts_inv s" and "\<not> pw_requesting s" and "pts \<le> pw_good s" "0 < cnt"
  shows "pts_update_and_apply pts cnt p s = (False, s, [])"
  using pts_inv_simple(1) [OF assms(1)] assms(2-) by (simp add: pts_update_and_apply_def pts_updated_def)

lemma pts_update_new:
  assumes inv: "pts_inv s" and r: "\<not> pw_requesting s" and n: "\<not> (pts \<le> pw_good s \<and> 0 < cnt)"
    and p: "p \<noteq> NoPayload" and c: "pts_check pts cnt s = (ok, s1, timers)"
  shows "pts_update_and_apply pts cnt p s =
    (if \<not> ok then (False, pts_enqueue pts p s1, timers)
     else if \<not> pw_waiting_skipped s1 \<or> pw_queue s1 = [] then (True, s1, timers @ payload_effect p)
     else (True, fst (pts_apply_skipped (pts_enqueue pts p s1)),
       timers @ snd (pts_apply_skipped (pts_enqueue pts p s1))))"
proof -
  have "pts_updated pts cnt p s =
      (if ok then (True, s1, timers) else (False, pts_enqueue pts p s1, timers))"
    using pts_inv_simple(1) [OF inv] r unfolding pts_updated_def c if_not_P [OF n] by simp
  with p show ?thesis
    by (cases p) (simp_all add: pts_update_and_apply_def Let_def payload_effect_def case_prod_beta)
qed

section \<open>The invariant\<close>

lemma pts_inv_clear: "pw_good s \<le> pw_last s \<Longrightarrow> pts_inv (pts_clear_skipped s)"
  by (simp add: pts_inv_def pts_clear_skipped_def)

lemma pts_inv_init: "pts_inv (pts_init pts s)"
  unfolding pts_init_def by (rule pts_inv_clear) simp

lemma pts_inv_flushed: "pw_good s \<le> pw_last s \<Longrightarrow> pts_inv (pts_flushed s)"
  unfolding pts_flushed_def by (rule pts_inv_clear) simp

lemma pts_inv_counted: "pts_inv s \<Longrightarrow> pts_inv (pts_counted pts cnt s)"
  by (auto simp: pts_inv_def pts_counted_def)

lemma pts_inv_waiting: "pts_inv s \<Longrightarrow> pts_inv (s\<lparr>pw_waiting_skipped := True\<rparr>)"
  by (simp add: pts_inv_def)

lemma pts_inv_good:
  assumes "pts_inv s"
  shows "pts_inv (s\<lparr>pw_good := pw_last s\<rparr>)"
  using assms pts_inv_simple(2) [OF assms] by (auto simp: pts_inv_def)

lemma pts_inv_apply_skipped:
  assumes "pts_inv s"
  shows "pts_inv (fst (pts_apply_skipped s))"
proof (cases "pw_queue s = []")
  case True
  then have "fst (pts_apply_skipped s) = s\<lparr>pw_waiting_skipped := False\<rparr>"
    by (intro pts_apply_skipped_spec(3)) auto
  with True assms show ?thesis by (simp add: pts_inv_def)
next
  case False
  with pts_inv_queue [OF assms] have "fst (pts_apply_skipped s) = pts_flushed s"
    by (intro pts_apply_skipped_spec(2)) auto
  with pts_inv_simple [OF assms] show ?thesis by (simp add: pts_inv_flushed)
qed

lemma pts_check_facts:
  assumes inv: "pts_inv s" and r: "\<not> pw_requesting s" and c: "pts_check pts cnt s = (ok, s1, timers)"
  shows "pts_inv s1" and "pts_pending s1 = pts_pending s" and "pts_applied timers = []"
    and "pw_skipped_key s1 = pw_skipped_key s" and "\<not> pw_requesting s1"
    and "\<not> ok \<Longrightarrow> pw_waiting_skipped s1 \<and> 0 < pw_good s1"
    and "pw_last s1 = (if pts_inited s then max (pw_last s) pts else pts)"
    and "pw_count s1 = (if pts_inited s then pw_count s + cnt else pts)"
    and "pw_good s1 = (if pts_inited s \<and> pw_last s1 \<noteq> pw_count s1 then pw_good s else pw_last s1)"
    and "ok \<longleftrightarrow> \<not> pts_inited s \<or> pw_last s1 = pw_count s1 \<or> cnt = 0"
proof -
  have empty: "pts_pending s = []" if "\<not> pts_inited s"
    using pts_inv_queue(2) [OF inv] that by (auto simp: pts_pending_def pts_inited_def)
  note eq = c [unfolded pts_check_eq Let_def]
  show "pts_inv s1"
    using eq pts_inv_init [of pts s] pts_inv_good [OF pts_inv_counted [OF inv], of pts cnt]
      pts_inv_waiting [OF pts_inv_counted [OF inv], of pts cnt]
    by (auto split: if_splits)
  show "pts_pending s1 = pts_pending s"
    using eq empty by (auto simp: pts_counted_def pts_init_def split: if_splits)
  show "pts_applied timers = []" using eq by (auto split: if_splits)
  show "pw_skipped_key s1 = pw_skipped_key s" and "\<not> pw_requesting s1"
    and "\<not> ok \<Longrightarrow> pw_waiting_skipped s1 \<and> 0 < pw_good s1"
    and "pw_last s1 = (if pts_inited s then max (pw_last s) pts else pts)"
    and "pw_count s1 = (if pts_inited s then pw_count s + cnt else pts)"
    and "pw_good s1 = (if pts_inited s \<and> pw_last s1 \<noteq> pw_count s1 then pw_good s else pw_last s1)"
    and "ok \<longleftrightarrow> \<not> pts_inited s \<or> pw_last s1 = pw_count s1 \<or> cnt = 0"
    using eq r
    by (auto simp: pts_counted_def pts_init_def pts_clear_skipped_def pts_inited_def split: if_splits)
qed

lemma pts_pending_empty: "pts_pending s = [] \<longleftrightarrow> pw_queue s = []"
  by (simp add: pts_pending_def)

lemma payload_effect_hd: "p \<noteq> NoPayload \<Longrightarrow> payload_effect p = [hd (payload_effect p)]"
  by (cases p) (simp_all add: payload_effect_def)

text \<open>One update that is neither old nor superseded by a request: the waiting ones with it are
  applied all together in key order, or it joins the queue.\<close>

lemma pts_update_spec:
  assumes inv: "pts_inv s" and left: "pts_serial_left s" and p: "p \<noteq> NoPayload"
    and r: "\<not> pw_requesting s" and n: "\<not> (pts \<le> pw_good s \<and> 0 < cnt)"
    and c: "pts_check pts cnt s = (ok, s1, timers)"
    and u: "pts_update_and_apply pts cnt p s = (ok', s', effects)"
    and M: "M = amap_emplace (pts_next_key pts s) (hd (payload_effect p)) (pts_pending s)"
  shows "pts_inv s'" and "ok' = ok" and "pts_pending s' = (if ok then [] else M)"
    and "pts_applied effects = (if ok then map snd M else [])"
    and "pw_good s' = pw_good s1" and "pw_last s' = pw_last s1" and "pw_count s' = pw_count s1"
    and "pw_skipped_key s' = pw_skipped_key s \<or> pw_skipped_key s' = pw_skipped_key s + 1"
    and "\<not> pw_requesting s'"
proof -
  note cf = pts_check_facts [OF inv r c]
  have left1: "pts_serial_left s1" using left cf(4) by (simp add: pts_serial_left_def)
  have key: "pts_next_key pts s1 = pts_next_key pts s" using cf(4) by (simp add: pts_next_key_def)
  let ?e = "pts_enqueue pts p s1"
  have M1: "pts_pending ?e = M"
    using pts_enqueue_pending [OF cf(1) left1 p] by (simp add: key cf(2) M)
  note u' = u [unfolded pts_update_new [OF inv r n p c]]
  consider (gap) "\<not> ok" | (direct) "ok" "pw_queue s1 = []" | (flush) "ok" "pw_queue s1 \<noteq> []" by blast
  then have all: "pts_inv s' \<and> ok' = ok \<and> pts_pending s' = (if ok then [] else M) \<and>
      pts_applied effects = (if ok then map snd M else []) \<and> pw_good s' = pw_good s1 \<and>
      pw_last s' = pw_last s1 \<and> pw_count s' = pw_count s1 \<and>
      (pw_skipped_key s' = pw_skipped_key s \<or> pw_skipped_key s' = pw_skipped_key s + 1) \<and>
      \<not> pw_requesting s'"
  proof cases
    case gap
    then have "s' = ?e" "effects = timers" "\<not> ok'" using u' by simp_all
    moreover have "pts_inv ?e" using cf(6) [OF gap] by (intro pts_enqueue_inv cf(1) left1 cf(5)) auto
    ultimately show ?thesis
      using gap M1 cf(3,4,5) p by (simp add: pts_enqueue_fields)
  next
    case direct
    then have "s' = s1" "effects = timers @ payload_effect p" "ok'" using u' by simp_all
    moreover have "pts_pending s = []" using direct cf(2) by (simp add: pts_pending_empty [symmetric])
    ultimately show ?thesis
      using direct cf(1-5) payload_effect_hd [OF p] M by simp
  next
    case flush
    note q = pts_inv_queue [OF cf(1) flush(2)]
    have e: "pts_inv ?e" by (intro pts_enqueue_inv cf(1) left1 q)
    have ne: "pw_queue ?e \<noteq> []"
    proof -
      have "M \<noteq> []" unfolding M by simp
      then show ?thesis using M1 by (simp add: pts_pending_empty [symmetric])
    qed
    from flush q u' have "s' = fst (pts_apply_skipped ?e)" "effects = timers @ snd (pts_apply_skipped ?e)" "ok'"
      by simp_all
    moreover have "fst (pts_apply_skipped ?e) = pts_flushed ?e"
      by (rule pts_apply_skipped_spec(2)) (use q ne in auto)
    moreover have "pts_applied (snd (pts_apply_skipped ?e)) = map snd M"
      unfolding M1 [symmetric] by (rule pts_apply_skipped_spec(1)) (use q in auto)
    moreover have "pts_inv (pts_flushed ?e)" using pts_inv_simple [OF e] by (simp add: pts_inv_flushed)
    ultimately show ?thesis
      using flush(1) cf(3,4,5) p
      by (simp add: pts_flushed_def pts_clear_skipped_def pts_enqueue_fields pts_pending_def)
  qed
  then show "pts_inv s'" and "ok' = ok" and "pts_pending s' = (if ok then [] else M)"
    and "pts_applied effects = (if ok then map snd M else [])"
    and "pw_good s' = pw_good s1" and "pw_last s' = pw_last s1" and "pw_count s' = pw_count s1"
    and "pw_skipped_key s' = pw_skipped_key s \<or> pw_skipped_key s' = pw_skipped_key s + 1"
    and "\<not> pw_requesting s'" by blast+
qed

section \<open>Runs\<close>

lemma pts_update_nopayload:
  assumes inv: "pts_inv s" and u: "pts_update_and_apply pts cnt NoPayload s = (ok, s', effects)"
  shows "pts_inv s'"
    and "mset (pts_applied effects) + mset (map snd (pts_pending s')) = mset (map snd (pts_pending s))"
proof -
  have flush: "pts_inv (fst (pts_apply_skipped t)) \<and>
      mset (pts_applied (snd (pts_apply_skipped t))) + mset (map snd (pts_pending (fst (pts_apply_skipped t))))
        = mset (map snd (pts_pending t))" if "pts_inv t" for t
  proof -
    have q: "pw_queue t = [] \<or> pw_waiting_skipped t" using pts_inv_queue(1) [OF that] by blast
    have "pts_pending (fst (pts_apply_skipped t)) = []"
      using pts_apply_skipped_spec(2,3) [OF q] by (cases "pw_queue t = []")
        (simp_all add: pts_flushed_def pts_pending_empty pts_clear_skipped_def)
    then show ?thesis
      using pts_apply_skipped_spec(1) [OF q] pts_inv_apply_skipped [OF that] by simp
  qed
  obtain ok1 s1 e1 where c: "pts_updated pts cnt NoPayload s = (ok1, s1, e1)" by (cases "pts_updated pts cnt NoPayload s")
  have s1: "pts_inv s1 \<and> pts_pending s1 = pts_pending s \<and> pts_applied e1 = []"
  proof (cases "pw_requesting s \<or> (pts \<le> pw_good s \<and> 0 < cnt)")
    case True
    with c inv show ?thesis by (auto simp: pts_updated_def split: if_splits)
  next
    case False
    obtain k s2 e2 where k: "pts_check pts cnt s = (k, s2, e2)" by (cases "pts_check pts cnt s")
    have "\<not> pw_requesting s" using False by simp
    note cf = pts_check_facts [OF inv this k]
    have "s1 = s2 \<and> e1 = e2"
      using c False pts_inv_simple(1) [OF inv] by (auto simp: pts_updated_def k split: if_splits)
    with cf show ?thesis by simp
  qed
  have r: "(s', effects) = (if ok1 then (fst (pts_apply_skipped s1), e1 @ snd (pts_apply_skipped s1)) else (s1, e1))"
    using u by (auto simp: pts_update_and_apply_def c Let_def case_prod_beta split: if_splits)
  show "pts_inv s'" using r s1 flush [of s1] by (auto split: if_splits)
  show "mset (pts_applied effects) + mset (map snd (pts_pending s')) = mset (map snd (pts_pending s))"
    using r s1 flush [of s1] by (auto split: if_splits)
qed

lemma mset_map_snd_emplace:
  "k \<notin> fst ` set m \<Longrightarrow> mset (map snd (amap_emplace k v m)) = add_mset v (mset (map snd m))"
  by (induction m) auto

text \<open>Nothing is lost or applied twice: an update is dropped only if it is old.\<close>

lemma pts_update_conserves:
  assumes inv: "pts_inv s" and left: "pts_serial_left s"
    and u: "pts_update_and_apply pts cnt p s = (ok, s', effects)"
  shows "pts_inv s'"
    and "mset (pts_applied effects) + mset (map snd (pts_pending s')) = mset (map snd (pts_pending s))
      + (if pw_requesting s \<or> \<not> (pts \<le> pw_good s \<and> 0 < cnt) then mset (payload_effect p) else {#})"
proof -
  have "pts_inv s' \<and> mset (pts_applied effects) + mset (map snd (pts_pending s')) = mset (map snd (pts_pending s))
      + (if pw_requesting s \<or> \<not> (pts \<le> pw_good s \<and> 0 < cnt) then mset (payload_effect p) else {#})"
  proof (cases "p = NoPayload")
    case True
    with pts_update_nopayload [OF inv] u show ?thesis by (simp add: payload_effect_def)
  next
    case p: False
    consider (req) "pw_requesting s" | (old) "\<not> pw_requesting s" "pts \<le> pw_good s" "0 < cnt"
      | (new) "\<not> pw_requesting s" "\<not> (pts \<le> pw_good s \<and> 0 < cnt)" by blast
    then show ?thesis
    proof cases
      case req
      then have "s' = s" "effects = payload_effect p"
        using u pts_update_requesting [OF inv req p, of pts cnt] by simp_all
      with inv req show ?thesis by (simp add: add.commute)
    next
      case old
      with u pts_update_old [OF inv old] inv show ?thesis by simp
    next
      case new
      obtain ok1 s1 e1 where c: "pts_check pts cnt s = (ok1, s1, e1)" by (cases "pts_check pts cnt s")
      define M where "M = amap_emplace (pts_next_key pts s) (hd (payload_effect p)) (pts_pending s)"
      note spec = pts_update_spec [OF inv left p new c u M_def]
      have keys: "map fst (pts_pending s) = map fst (pw_queue s)" by (simp add: pts_pending_def comp_def)
      have "pts_next_key pts s \<notin> fst ` set (pts_pending s)"
        using pts_next_key_fresh [OF inv left, of pts] by (simp add: keys flip: set_map)
      then have "mset (map snd M) = add_mset (hd (payload_effect p)) (mset (map snd (pts_pending s)))"
        unfolding M_def by (rule mset_map_snd_emplace)
      then have "mset (map snd M) = mset (map snd (pts_pending s)) + mset (payload_effect p)"
        by (subst payload_effect_hd [OF p]) simp
      with spec(1,3,4) new show ?thesis by simp
    qed
  qed
  then show "pts_inv s'"
    and "mset (pts_applied effects) + mset (map snd (pts_pending s')) = mset (map snd (pts_pending s))
      + (if pw_requesting s \<or> \<not> (pts \<le> pw_good s \<and> 0 < cnt) then mset (payload_effect p) else {#})"
    by blast+
qed

lemma pts_inv_short_poll: "pts_inv s \<Longrightarrow> pts_inv (fst (pts_set_waiting_for_short_poll ms s))"
  by (simp add: pts_set_waiting_for_short_poll_def Let_def pts_inv_def)

lemma pts_inv_requesting: "pts_inv s \<Longrightarrow> pts_inv (pts_set_requesting r s)"
  by (auto simp: pts_set_requesting_def Let_def pts_clear_skipped_def pts_inv_def)

lemma pts_inv_step:
  assumes "pts_inv s" and "pts_serial_left s"
  shows "pts_inv (fst (pts_step s c))"
proof (cases c)
  case (OpUpdate pts cnt p)
  obtain ok s' e where u: "pts_update_and_apply pts cnt p s = (ok, s', e)"
    by (cases "pts_update_and_apply pts cnt p s")
  with pts_update_conserves(1) [OF assms u] OpUpdate show ?thesis by (simp add: pts_step_def)
qed (use assms in \<open>simp_all add: pts_step_def pts_inv_init pts_inv_requesting pts_inv_short_poll pts_inv_apply_skipped\<close>)

interpretation pts_machine: guarded_machine "\<lambda>s c. fst (pts_step s c)" "\<lambda>s c. pts_serial_left s" pts_inv
  by unfold_locales (rule pts_inv_step)

fun pts_run :: "('u, 'us) pts_waiter \<Rightarrow> ('u, 'us) pts_op list
    \<Rightarrow> ('u, 'us) pts_waiter \<times> ('u, 'us) pts_effect list" where
  "pts_run s [] = (s, [])"
| "pts_run s (c # cs) =
     (let (s1, e1) = pts_step s c; (s2, e2) = pts_run s1 cs in (s2, e1 @ e2))"

lemma pts_run_state: "fst (pts_run s cs) = foldl (\<lambda>s c. fst (pts_step s c)) s cs"
  by (induction cs arbitrary: s) (simp_all add: case_prod_beta)

section \<open>Updates in any order are applied in order\<close>

type_synonym ('u, 'us) pts_item = "int \<times> int \<times> ('u, 'us) pts_payload"

fun pts_feed :: "('u, 'us) pts_item list \<Rightarrow> ('u, 'us) pts_waiter
    \<Rightarrow> ('u, 'us) pts_waiter \<times> ('u, 'us) pts_effect list" where
  "pts_feed [] s = (s, [])"
| "pts_feed ((pts, cnt, p) # us) s =
     (let (ok, s1, e1) = pts_update_and_apply pts cnt p s; (s2, e2) = pts_feed us s1 in (s2, e1 @ e2))"

text \<open>A stretch of the server's history after counter value \<open>g\<close>, in order.\<close>

fun contiguous :: "int \<Rightarrow> ('u, 'us) pts_item list \<Rightarrow> bool" where
  "contiguous g [] = True"
| "contiguous g ((pts, cnt, p) # us) = (0 < cnt \<and> pts = g + cnt \<and> p \<noteq> NoPayload \<and> contiguous pts us)"

definition item_effect :: "('u, 'us) pts_item \<Rightarrow> ('u, 'us) pts_effect" where
  "item_effect u = hd (payload_effect (snd (snd u)))"

definition top_pts :: "int \<Rightarrow> ('u, 'us) pts_item list \<Rightarrow> int" where
  "top_pts g us = last (g # map fst us)"

definition sum_counts :: "('u, 'us) pts_item list \<Rightarrow> int" where
  "sum_counts us = sum_list (map (\<lambda>u. fst (snd u)) us)"

lemma top_pts_simps: "top_pts g [] = g" "top_pts g (u # us) = top_pts (fst u) us"
  by (simp_all add: top_pts_def)

lemma sum_counts_simps: "sum_counts [] = 0" "sum_counts (u # us) = fst (snd u) + sum_counts us"
  by (simp_all add: sum_counts_def)

lemma contiguous_above: "contiguous g us \<Longrightarrow> u \<in> set us \<Longrightarrow> g < fst u"
  by (induction g us rule: contiguous.induct) fastforce+

lemma contiguous_sorted: "contiguous g us \<Longrightarrow> sorted_wrt (\<lambda>a b. fst a < fst b) us"
  by (induction g us rule: contiguous.induct) (auto dest: contiguous_above)

lemma contiguous_append:
  "contiguous g (us @ vs) \<longleftrightarrow> contiguous g us \<and> contiguous (top_pts g us) vs"
  by (induction g us rule: contiguous.induct) (auto simp: top_pts_simps)

lemma contiguous_total: "contiguous g us \<Longrightarrow> g + sum_counts us = top_pts g us"
  by (induction g us rule: contiguous.induct) (auto simp: top_pts_simps sum_counts_simps)

lemma top_pts_mono: "us \<noteq> [] \<Longrightarrow> top_pts g us = top_pts g' us"
  by (cases us) (simp_all add: top_pts_simps)

text \<open>
  The test of the code: of the updates of a stretch, the counts of those received add up to
  the greatest \<open>pts\<close> received exactly if nothing in front of it is missing.
\<close>

lemma counts_reach_top:
  assumes "contiguous g us"
  shows "g + sum_counts (filter P us) \<le> top_pts g (filter P us)
    \<and> (g + sum_counts (filter P us) = top_pts g (filter P us) \<longleftrightarrow> prefix (filter P us) us)"
  using assms
proof (induction g us rule: contiguous.induct)
  case (1 g)
  show ?case by (simp add: top_pts_simps sum_counts_simps)
next
  case (2 g pts cnt p us)
  note IH = 2(1)
  have c: "0 < cnt" "pts = g + cnt" "contiguous pts us" using 2(2) by auto
  show ?case
  proof (cases "P (pts, cnt, p)")
    case True
    with IH [OF c(3)] c show ?thesis by (simp add: top_pts_simps sum_counts_simps algebra_simps)
  next
    case False
    show ?thesis
    proof (cases "filter P us = []")
      case True
      with False show ?thesis by (simp add: top_pts_simps sum_counts_simps)
    next
      case some: False
      then obtain v vs where vs: "filter P us = v # vs" by (cases "filter P us") auto
      then have "v \<in> set (filter P us)" by simp
      then have "v \<noteq> (pts, cnt, p)" using False by auto
      then have "\<not> prefix (filter P us) ((pts, cnt, p) # us)" by (simp add: vs)
      moreover have "g + sum_counts (filter P us) < top_pts g (filter P us)"
        using IH [OF c(3)] c top_pts_mono [OF some, of g pts] by linarith
      ultimately show ?thesis using False by simp
    qed
  qed
qed

text \<open>Inserting by key is inserting by \<open>pts\<close>: the serial number only separates equal ones.\<close>

definition key_pts :: "64 word \<Rightarrow> int" where
  "key_pts k = uint k div 2 ^ 32"

lemma key_pts_less: "key_pts k < key_pts k' \<Longrightarrow> k < k'"
  unfolding key_pts_def word_less_def
  by (metis linorder_not_le zdiv_mono1 zero_less_numeral zero_less_power)

lemma key_pts_next:
  assumes "0 \<le> pts" and "pts < 2 ^ 32"
  shows "key_pts (pts_next_key pts s) = pts"
proof -
  have "uint (pw_skipped_key s + 1) < 2 ^ 32" "0 \<le> uint (pw_skipped_key s + 1)"
    using uint_lt2p [of "pw_skipped_key s + 1"] by simp_all
  then show ?thesis by (simp add: key_pts_def pts_next_key_uint [OF assms])
qed

definition queue_of :: "(64 word \<times> ('u, 'us) pts_effect) list \<Rightarrow> ('u, 'us) pts_item list \<Rightarrow> bool" where
  "queue_of m us \<longleftrightarrow> map (\<lambda>e. (key_pts (fst e), snd e)) m = map (\<lambda>u. (fst u, item_effect u)) us"

lemma queue_of_simps:
  "queue_of [] us \<longleftrightarrow> us = []" "queue_of m [] \<longleftrightarrow> m = []"
  "queue_of m (u # us) \<longleftrightarrow> (\<exists>k m'. m = (k, item_effect u) # m' \<and> key_pts k = fst u \<and> queue_of m' us)"
  by (auto simp: queue_of_def map_eq_Cons_conv Cons_eq_map_conv)

lemma queue_of_effects: "queue_of m us \<Longrightarrow> map snd m = map item_effect us"
proof -
  assume "queue_of m us"
  then have "map snd (map (\<lambda>e. (key_pts (fst e), snd e)) m) = map snd (map (\<lambda>u. (fst u, item_effect u)) us)"
    unfolding queue_of_def by simp
  then show ?thesis by (simp add: comp_def)
qed

lemma queue_of_emplace:
  assumes "sorted_wrt (\<lambda>a b. fst a < fst b) us" and "x \<in> set us" and "x \<notin> S"
    and "queue_of m (filter (\<lambda>u. u \<in> S) us)" and "key_pts k = fst x"
  shows "queue_of (amap_emplace k (item_effect x) m) (filter (\<lambda>u. u \<in> insert x S) us)"
  using assms
proof (induction us arbitrary: m)
  case Nil
  then show ?case by simp
next
  case (Cons y us)
  show ?case
  proof (cases "y = x")
    case True
    then have out: "x \<notin> set us" using Cons.prems(1) by auto
    have same: "filter (\<lambda>u. u \<in> insert x S) us = filter (\<lambda>u. u \<in> S) us"
      using out by (intro filter_cong) auto
    have q: "queue_of m (filter (\<lambda>u. u \<in> S) us)" using Cons.prems(3,4) True by simp
    have "amap_emplace k (item_effect x) m = (k, item_effect x) # m"
    proof (cases "filter (\<lambda>u. u \<in> S) us")
      case Nil
      with q show ?thesis by (simp add: queue_of_simps)
    next
      case (Cons z zs)
      then have "z \<in> set us" by (metis filter_is_subset list.set_intros(1) subsetD)
      then have "fst x < fst z" using \<open>y = x\<close> Cons.prems(1) by auto
      moreover obtain k' m' where m: "m = (k', item_effect z) # m'" "key_pts k' = fst z"
        using q Cons by (auto simp: queue_of_simps)
      ultimately have "k < k'" using Cons.prems(5) by (intro key_pts_less) simp
      with m show ?thesis by simp
    qed
    with q same True Cons.prems(5) show ?thesis by (simp add: queue_of_simps)
  next
    case False
    then have x: "x \<in> set us" using Cons.prems(2) by simp
    show ?thesis
    proof (cases "y \<in> S")
      case True
      then obtain k' m' where m: "m = (k', item_effect y) # m'" "key_pts k' = fst y"
          "queue_of m' (filter (\<lambda>u. u \<in> S) us)"
        using Cons.prems(4) by (auto simp: queue_of_simps)
      have "fst y < fst x" using Cons.prems(1) x by auto
      then have "k' < k" using m(2) Cons.prems(5) by (intro key_pts_less) simp
      then have "\<not> k < k'" "k \<noteq> k'" by auto
      moreover have "queue_of (amap_emplace k (item_effect x) m') (filter (\<lambda>u. u \<in> insert x S) us)"
        using Cons.prems x m by (intro Cons.IH) auto
      ultimately show ?thesis using m True by (simp add: queue_of_simps)
    next
      case no: False
      have "queue_of (amap_emplace k (item_effect x) m) (filter (\<lambda>u. u \<in> insert x S) us)"
        using Cons.prems x no by (intro Cons.IH) auto
      with no False show ?thesis by simp
    qed
  qed
qed

text \<open>The state after the items of \<open>seen\<close> have arrived and those of \<open>done\<close> have been applied.\<close>

definition pts_progress ::
  "int \<Rightarrow> ('u, 'us) pts_item list \<Rightarrow> ('u, 'us) pts_item set \<Rightarrow> ('u, 'us) pts_item list
    \<Rightarrow> ('u, 'us) pts_item list \<Rightarrow> ('u, 'us) pts_waiter \<Rightarrow> bool" where
  "pts_progress g us S front rest s \<longleftrightarrow>
     us = front @ rest \<and> set front \<subseteq> S \<and> pts_inv s \<and> \<not> pw_requesting s
     \<and> queue_of (pts_pending s) (filter (\<lambda>u. u \<in> S) rest)
     \<and> pw_good s = top_pts g front
     \<and> pw_last s = top_pts g (filter (\<lambda>u. u \<in> S) us)
     \<and> pw_count s = g + sum_counts (filter (\<lambda>u. u \<in> S) us)
     \<and> (pts_pending s = [] \<or> pw_last s \<noteq> pw_count s)"

lemma sum_counts_add:
  assumes "distinct us" and "x \<in> set us" and "x \<notin> S"
  shows "sum_counts (filter (\<lambda>u. u \<in> insert x S) us) = sum_counts (filter (\<lambda>u. u \<in> S) us) + fst (snd x)"
  using assms
proof (induction us)
  case Nil
  then show ?case by simp
next
  case (Cons y us)
  show ?case
  proof (cases "y = x")
    case True
    then have "filter (\<lambda>u. u \<in> insert x S) us = filter (\<lambda>u. u \<in> S) us"
      using Cons.prems(1) by (intro filter_cong) auto
    with True Cons.prems(3) show ?thesis by (simp add: sum_counts_simps)
  next
    case False
    with Cons.prems have "sum_counts (filter (\<lambda>u. u \<in> insert x S) us) =
        sum_counts (filter (\<lambda>u. u \<in> S) us) + fst (snd x)" by (intro Cons.IH) auto
    with False show ?thesis by (simp add: sum_counts_simps)
  qed
qed

lemma top_pts_ge: "contiguous g us \<Longrightarrow> g \<le> top_pts g us"
proof (induction g us rule: contiguous.induct)
  case (2 g pts cnt p us)
  then have "pts \<le> top_pts pts us" and "g < pts" by auto
  then show ?case by (simp add: top_pts_simps)
qed (simp add: top_pts_simps)

text \<open>The top of a selection of a sorted list is its maximum.\<close>

lemma top_pts_max:
  assumes "sorted_wrt (\<lambda>a b. fst a < fst b) us" and "\<And>u. u \<in> set us \<Longrightarrow> g < fst u"
  shows "top_pts g us = Max (insert g (fst ` set us))"
  using assms
proof (induction us arbitrary: g)
  case Nil
  then show ?case by (simp add: top_pts_simps)
next
  case (Cons u us)
  have "top_pts (fst u) us = Max (insert (fst u) (fst ` set us))"
    using Cons.prems by (intro Cons.IH) auto
  moreover have "Max (insert g (insert (fst u) (fst ` set us))) = max g (Max (insert (fst u) (fst ` set us)))"
    by (rule Max_insert) auto
  moreover have "fst u \<le> Max (insert (fst u) (fst ` set us))" by (rule Max_ge) auto
  moreover have "g < fst u" using Cons.prems(2) by simp
  ultimately have "top_pts (fst u) us = Max (insert g (insert (fst u) (fst ` set us)))" by linarith
  then show ?case by (simp only: top_pts_simps list.set image_insert)
qed

lemma top_pts_add:
  assumes us: "contiguous g us" and x: "x \<in> set us"
  shows "top_pts g (filter (\<lambda>u. u \<in> insert x S) us) = max (top_pts g (filter (\<lambda>u. u \<in> S) us)) (fst x)"
proof -
  have top: "top_pts g (filter P us) = Max (insert g (fst ` set (filter P us)))" for P
    using contiguous_sorted [OF us] contiguous_above [OF us]
    by (intro top_pts_max) (auto intro: sorted_wrt_filter)
  have "set (filter (\<lambda>u. u \<in> insert x S) us) = insert x (set (filter (\<lambda>u. u \<in> S) us))" using x by auto
  then have "insert g (fst ` set (filter (\<lambda>u. u \<in> insert x S) us)) =
      insert (fst x) (insert g (fst ` set (filter (\<lambda>u. u \<in> S) us)))" by auto
  then have "top_pts g (filter (\<lambda>u. u \<in> insert x S) us) =
      Max (insert (fst x) (insert g (fst ` set (filter (\<lambda>u. u \<in> S) us))))" by (simp only: top)
  also have "\<dots> = max (fst x) (Max (insert g (fst ` set (filter (\<lambda>u. u \<in> S) us))))"
    by (rule Max_insert) auto
  finally show ?thesis by (simp only: top max.commute)
qed

lemma pts_progress_step:
  assumes us: "contiguous g us" and g: "0 < g" "top_pts g us < 2 ^ 32"
    and prog: "pts_progress g us S front rest s" and left: "pts_serial_left s"
    and x: "x \<in> set us" "x \<notin> S" "x = (pts, cnt, p)"
    and u: "pts_update_and_apply pts cnt p s = (ok, s', effects)"
  shows "\<exists>front' rest'. pts_progress g us (insert x S) front' rest' s'
    \<and> map item_effect front' = map item_effect front @ pts_applied effects"
    and "pw_skipped_key s' = pw_skipped_key s \<or> pw_skipped_key s' = pw_skipped_key s + 1"
proof -
  have split: "us = front @ rest" and front: "set front \<subseteq> S" and inv: "pts_inv s"
    and r: "\<not> pw_requesting s" and q: "queue_of (pts_pending s) (filter (\<lambda>u. u \<in> S) rest)"
    and good: "pw_good s = top_pts g front"
    and last: "pw_last s = top_pts g (filter (\<lambda>u. u \<in> S) us)"
    and count: "pw_count s = g + sum_counts (filter (\<lambda>u. u \<in> S) us)"
    using prog by (simp_all add: pts_progress_def)
  have sorted: "sorted_wrt (\<lambda>a b. fst a < fst b) us" by (rule contiguous_sorted [OF us])
  then have distinct: "distinct us" by (simp add: distinct_conv_nth sorted_wrt_iff_nth_less) (metis nat_neq_iff less_irrefl)
  have cf: "contiguous g front" "contiguous (top_pts g front) rest"
    using us split by (simp_all add: contiguous_append)
  have xr: "x \<in> set rest" using x front split by auto
  have above: "pw_good s < pts" using contiguous_above [OF cf(2) xr] good x(3) by simp
  have item: "0 < cnt" "p \<noteq> NoPayload"
    using us x(1) unfolding x(3) by (induction g us rule: contiguous.induct) auto
  have inited: "pts_inited s" using good g(1) top_pts_ge [OF cf(1)] by (simp add: pts_inited_def)
  have "pts \<le> top_pts g us"
  proof -
    have "top_pts g us = Max (insert g (fst ` set us))"
      using sorted contiguous_above [OF us] by (intro top_pts_max) auto
    moreover have "pts \<in> insert g (fst ` set us)" using x(1,3) by force
    ultimately show ?thesis by (metis List.finite_set Max_ge finite_imageI finite_insert)
  qed
  then have range: "0 \<le> pts" "pts < 2 ^ 32"
    using g(2) g(1) above inited by (simp_all add: pts_inited_def)
  let ?S = "insert x S" and ?T = "filter (\<lambda>u. u \<in> insert x S) us"
  obtain ok1 s1 timers where c: "pts_check pts cnt s = (ok1, s1, timers)" by (cases "pts_check pts cnt s")
  have new: "\<not> (pts \<le> pw_good s \<and> 0 < cnt)" using above by simp
  define M where "M = amap_emplace (pts_next_key pts s) (hd (payload_effect p)) (pts_pending s)"
  note spec = pts_update_spec [OF inv left item(2) r new c u M_def]
  show "pw_skipped_key s' = pw_skipped_key s \<or> pw_skipped_key s' = pw_skipped_key s + 1" by (rule spec(8))
  note cfacts = pts_check_facts [OF inv r c]
  have last1: "pw_last s1 = top_pts g ?T"
    using cfacts(7) inited last top_pts_add [OF us x(1), of S] x(3) by simp
  have count1: "pw_count s1 = g + sum_counts ?T"
    using cfacts(8) inited count sum_counts_add [OF distinct x(1,2)] x(3) by simp
  have ok: "ok1 \<longleftrightarrow> prefix ?T us"
    using cfacts(10) inited item(1) counts_reach_top [OF us, of "\<lambda>u. u \<in> insert x S"]
    by (auto simp: last1 count1)
  have "sorted_wrt (\<lambda>a b. fst a < fst b) rest" using sorted split by (simp add: sorted_wrt_append)
  moreover have "item_effect x = hd (payload_effect p)" by (simp add: item_effect_def x(3))
  ultimately have M: "queue_of M (filter (\<lambda>u. u \<in> ?S) rest)"
    unfolding M_def using queue_of_emplace [OF _ xr x(2) q, of "pts_next_key pts s"] key_pts_next [OF range, of s]
    by (simp add: x(3))
  have T: "?T = front @ filter (\<lambda>u. u \<in> ?S) rest"
    using front unfolding split by (auto intro!: filter_True)
  show "\<exists>front' rest'. pts_progress g us (insert x S) front' rest' s'
    \<and> map item_effect front' = map item_effect front @ pts_applied effects"
  proof (cases ok1)
    case True
    then obtain zs where zs: "us = ?T @ zs" using ok by (auto simp: prefix_def)
    have "filter (\<lambda>u. u \<in> ?S) (?T @ zs) = ?T" using zs by metis
    then have none: "filter (\<lambda>u. u \<in> ?S) zs = []" by simp
    have "pw_last s1 = pw_count s1"
      using cfacts(10) True inited item(1) by simp
    then have "pw_good s' = top_pts g ?T" using spec(5) cfacts(9) last1 by simp
    then have "pts_progress g us (insert x S) ?T zs s'"
      unfolding pts_progress_def using zs spec(1,3,6,7,9) True last1 count1 none
      by (auto simp: queue_of_simps)
    moreover have "map item_effect ?T = map item_effect front @ pts_applied effects"
      unfolding T map_append using spec(4) True queue_of_effects [OF M] by simp
    ultimately show ?thesis by blast
  next
    case False
    have "pw_last s1 \<noteq> pw_count s1" using cfacts(10) False by blast
    moreover from this have "pw_good s' = top_pts g front" using spec(5) cfacts(9) inited good by simp
    ultimately have "pts_progress g us (insert x S) front rest s'"
      unfolding pts_progress_def using split front spec(1,3,6,7,9) False last1 count1 M by auto
    moreover have "pts_applied effects = []" using spec(4) False by simp
    ultimately show ?thesis by force
  qed
qed

lemma pts_serial_uint:
  assumes "uint (pw_skipped_key s) + int (Suc n) < 2 ^ 32"
  shows "pts_serial_left s" and "uint (pw_skipped_key s + 1) = uint (pw_skipped_key s) + 1"
proof -
  show succ: "uint (pw_skipped_key s + 1) = uint (pw_skipped_key s) + 1"
    using assms by (simp add: uint_word_ariths)
  show "pts_serial_left s"
    unfolding pts_serial_left_def
  proof
    assume "pw_skipped_key s = - 1"
    then have "uint (pw_skipped_key s + 1) = 0" by simp
    with succ show False using uint_ge_0 [of "pw_skipped_key s"] by linarith
  qed
qed

lemma pts_feed_progress:
  assumes us: "contiguous g us" "0 < g" "top_pts g us < 2 ^ 32"
    and "distinct as" "set as \<inter> S = {}" "set as \<subseteq> set us"
    and "pts_progress g us S front rest s" and "uint (pw_skipped_key s) + int (length as) < 2 ^ 32"
    and "pts_feed as s = (s', effects)"
  shows "\<exists>front' rest'. pts_progress g us (S \<union> set as) front' rest' s'
    \<and> map item_effect front' = map item_effect front @ pts_applied effects"
  using assms(4-)
proof (induction as arbitrary: S front rest s effects)
  case Nil
  then show ?case by auto
next
  case (Cons a as)
  obtain pts cnt p where a: "a = (pts, cnt, p)" by (cases a)
  obtain ok s1 e1 where u: "pts_update_and_apply pts cnt p s = (ok, s1, e1)"
    by (cases "pts_update_and_apply pts cnt p s")
  obtain e2 where e2: "pts_feed as s1 = (s', e2)" "effects = e1 @ e2"
    using Cons.prems(6) by (auto simp: a u split: prod.splits)
  have n: "uint (pw_skipped_key s) + int (Suc (length as)) < 2 ^ 32" using Cons.prems(5) by simp
  note serial = pts_serial_uint [OF n]
  have x: "a \<in> set us" "a \<notin> S" using Cons.prems(2,3) by auto
  note step = pts_progress_step [OF us Cons.prems(4) serial(1) x a u]
  obtain f1 r1 where f1: "pts_progress g us (insert a S) f1 r1 s1"
      "map item_effect f1 = map item_effect front @ pts_applied e1"
    using step(1) by blast
  have "uint (pw_skipped_key s1) + int (length as) < 2 ^ 32"
    using step(2) serial(2) n by auto
  then have "\<exists>front' rest'. pts_progress g us (insert a S \<union> set as) front' rest' s'
      \<and> map item_effect front' = map item_effect f1 @ pts_applied e2"
    using Cons.prems(1-3) f1(1) e2(1) by (intro Cons.IH) auto
  then show ?case using f1(2) e2(2) by auto
qed

definition pts_in_sync :: "int \<Rightarrow> ('u, 'us) pts_waiter \<Rightarrow> bool" where
  "pts_in_sync g s \<longleftrightarrow> pts_inv s \<and> \<not> pw_requesting s \<and> pw_queue s = []
     \<and> pw_good s = g \<and> pw_last s = g \<and> pw_count s = g"

text \<open>C23: however the updates of a contiguous stretch of the server's history are
  reordered on the way, feeding them to the waiter applies each of them exactly once, in the
  server's order, and leaves the waiter in sync at the end of the stretch with nothing queued.\<close>

theorem updates_in_order:
  assumes "pts_in_sync g s" and "0 < g" and "contiguous g us" and "top_pts g us < 2 ^ 32"
    and "mset arrival = mset us"
    and "uint (pw_skipped_key s) + int (length arrival) < 2 ^ 32"
    and "pts_feed arrival s = (s', effects)"
  shows "pts_applied effects = map item_effect us \<and> pts_in_sync (g + sum_counts us) s'"
proof -
  have distinct: "distinct us"
    using contiguous_sorted [OF assms(3)] by (simp add: distinct_conv_nth sorted_wrt_iff_nth_less)
      (metis nat_neq_iff less_irrefl)
  then have arrival: "distinct arrival" "set arrival = set us"
    using assms(5) by (metis mset_eq_imp_distinct_iff, metis mset_eq_setD)
  have "pts_progress g us {} [] us s"
    using assms(1) by (simp add: pts_progress_def pts_in_sync_def queue_of_simps pts_pending_empty
        top_pts_simps sum_counts_simps)
  then obtain front rest where p: "pts_progress g us (set us) front rest s'"
      and e: "map item_effect front = pts_applied effects"
    using pts_feed_progress [OF assms(3,2,4) arrival(1) _ _ _ assms(6,7), of "{}" "[]" us] arrival(2) by auto
  have all: "filter (\<lambda>u. u \<in> set us) us = us" by simp
  have "pw_last s' = pw_count s'"
    using p contiguous_total [OF assms(3)] by (simp add: pts_progress_def)
  then have "pts_pending s' = []" using p by (simp add: pts_progress_def)
  moreover have "queue_of (pts_pending s') (filter (\<lambda>u. u \<in> set us) rest)"
    using p unfolding pts_progress_def by blast
  ultimately have "filter (\<lambda>u. u \<in> set us) rest = []" by (simp only: queue_of_simps)
  moreover have "filter (\<lambda>u. u \<in> set us) rest = rest"
    using p unfolding pts_progress_def by (intro filter_True) auto
  ultimately have "rest = []" by metis
  then have "front = us" using p by (simp add: pts_progress_def)
  moreover have "pts_in_sync (g + sum_counts us) s'"
    using p \<open>pts_pending s' = []\<close> \<open>front = us\<close> contiguous_total [OF assms(3)]
    by (simp add: pts_in_sync_def pts_progress_def pts_pending_empty)
  ultimately show ?thesis using e by simp
qed

definition fresh_waiter :: "int \<Rightarrow> ('u, 'us) pts_waiter" where
  "fresh_waiter g = \<lparr>pw_queue = [], pw_update_queue = [], pw_updates_queue = [], pw_good = g,
     pw_last = g, pw_count = g, pw_level = 0, pw_requesting = False, pw_waiting_skipped = False,
     pw_waiting_short_poll = False, pw_skipped_key = 0\<rparr>"

lemma fresh_inv: "pts_inv (fresh_waiter g)"
  by (simp add: fresh_waiter_def pts_inv_def)

lemma fresh_in_sync: "pts_in_sync g (fresh_waiter g)"
  by (simp add: pts_in_sync_def fresh_waiter_def pts_inv_def)

theorem updates_in_order_witness:
  "pts_applied (snd (pts_feed [(9, 2, OneUpdate ''c''), (6, 1, OneUpdate ''a''), (7, 1, ManyUpdates ''b'')]
      (fresh_waiter 5)))
    = [ApplyUpdate (Some ''a''), ApplyUpdates (Some ''b''), ApplyUpdate (Some ''c'')]"
proof -
  let ?us = "[(6, 1, OneUpdate ''a''), (7, 1, ManyUpdates ''b''), (9, 2, OneUpdate ''c'')] :: (string, string) pts_item list"
  let ?as = "[(9, 2, OneUpdate ''c''), (6, 1, OneUpdate ''a''), (7, 1, ManyUpdates ''b'')] :: (string, string) pts_item list"
  have "contiguous 5 ?us" and "top_pts 5 ?us < 2 ^ 32" and "mset ?as = mset ?us"
    and "uint (pw_skipped_key (fresh_waiter 5 :: (string, string) pts_waiter)) + int (length ?as) < 2 ^ 32"
    by (simp_all add: top_pts_def fresh_waiter_def)
  from updates_in_order [OF fresh_in_sync _ this surjective_pairing]
  show ?thesis by (simp add: item_effect_def payload_effect_def)
qed

text \<open>An update is applied, waits in the queue, or is dropped because its \<open>pts\<close>
  has already been reached; nothing waiting is ever lost or applied twice.\<close>

theorem update_conserved:
  assumes "pts_inv s" and "pts_serial_left s"
    and "pts_update_and_apply pts cnt p s = (ok, s', effects)"
  shows "pts_inv s'
    \<and> mset (pts_applied effects) + mset (map snd (pts_pending s'))
      = mset (map snd (pts_pending s))
        + (if pw_requesting s \<or> \<not> (pts \<le> pw_good s \<and> 0 < cnt) then mset (payload_effect p) else {#})"
  using pts_update_conserves [OF assms] by blast

theorem update_conserved_witness:
  "let r = pts_update_and_apply 9 2 (OneUpdate ''c'') (fresh_waiter 5 :: (string, string) pts_waiter) in
   mset (pts_applied (snd (snd r))) + mset (map snd (pts_pending (fst (snd r))))
     = {# ApplyUpdate (Some ''c'') #}"
proof -
  note fresh_inv [of 5, where 'a = string and 'b = string]
  moreover have "pts_serial_left (fresh_waiter 5 :: (string, string) pts_waiter)"
    by (simp add: pts_serial_left_def fresh_waiter_def)
  moreover obtain ok s' effects where u:
    "pts_update_and_apply 9 2 (OneUpdate ''c'') (fresh_waiter 5 :: (string, string) pts_waiter) = (ok, s', effects)"
    by (cases "pts_update_and_apply 9 2 (OneUpdate ''c'') (fresh_waiter 5 :: (string, string) pts_waiter)")
  ultimately have "mset (pts_applied effects) + mset (map snd (pts_pending s'))
      = mset (map snd (pts_pending (fresh_waiter 5 :: (string, string) pts_waiter)))
        + mset (payload_effect (OneUpdate ''c''))"
    using update_conserved [OF _ _ u] by (simp add: fresh_waiter_def)
  moreover have "pts_pending (fresh_waiter 5 :: (string, string) pts_waiter) = []"
    by (simp add: fresh_waiter_def pts_pending_def)
  ultimately show ?thesis by (simp add: u Let_def payload_effect_def)
qed

lemma pts_pending_present:
  assumes "pts_inv s" and "e \<in> set (map snd (pts_pending s))"
  shows "e \<noteq> ApplyUpdate None \<and> e \<noteq> ApplyUpdates None"
proof -
  obtain k t where kt: "(k, t) \<in> set (pw_queue s)" "e = pts_apply_entry s (k, t)"
    using assms(2) by (auto simp: pts_pending_def)
  have "distinct (map fst (pw_queue s))" using pts_inv_keys(1) [OF assms(1)] by (simp add: strict_sorted_iff)
  with kt(1) have "map_of (pw_queue s) k = Some t" by simp
  moreover have "map_of (pw_queue s) k = Some SkippedUpdate \<longleftrightarrow> map_of (pw_update_queue s) k \<noteq> None"
    "map_of (pw_queue s) k = Some SkippedUpdates \<longleftrightarrow> map_of (pw_updates_queue s) k \<noteq> None"
    using assms(1) unfolding pts_inv_def by blast+
  ultimately show ?thesis using kt(2) by (cases t) (auto simp: pts_apply_entry_def)
qed

definition effect_present :: "('u, 'us) pts_effect \<Rightarrow> bool" where
  "effect_present e = (case e of StartTimer _ \<Rightarrow> True | ApplyUpdate u \<Rightarrow> u \<noteq> None | ApplyUpdates u \<Rightarrow> u \<noteq> None)"

lemma effects_presentI: "(\<And>e. e \<in> set (pts_applied es) \<Longrightarrow> effect_present e) \<Longrightarrow> \<forall>e\<in>set es. effect_present e"
  by (force simp: pts_applied_def effect_present_def split: pts_effect.splits)

lemma pending_effects_present: "pts_inv s \<Longrightarrow> e \<in> set (map snd (pts_pending s)) \<Longrightarrow> effect_present e"
  using pts_pending_present [of s e] by (auto simp: effect_present_def split: pts_effect.splits)

lemma pts_step_present:
  assumes inv: "pts_inv s" and left: "pts_serial_left s" and step: "pts_step s c = (s', effects)"
  shows "\<forall>e\<in>set effects. effect_present e"
proof (cases c)
  case (OpUpdate pts cnt p)
  obtain ok where u: "pts_update_and_apply pts cnt p s = (ok, s', effects)"
    using step by (auto simp: OpUpdate pts_step_def split: prod.splits)
  have "set (pts_applied effects) \<subseteq> set (map snd (pts_pending s)) \<union> set (payload_effect p)"
    using arg_cong [OF pts_update_conserves(2) [OF inv left u], of set_mset] by (auto split: if_splits)
  moreover have "\<forall>e\<in>set (payload_effect p). effect_present e"
    by (cases p) (simp_all add: payload_effect_def effect_present_def)
  ultimately show ?thesis
    by (intro effects_presentI) (use pending_effects_present [OF inv] in blast)
next
  case OpApplySkipped
  have q: "pw_queue s = [] \<or> pw_waiting_skipped s" using pts_inv_queue(1) [OF inv] by blast
  have "effects = snd (pts_apply_skipped s)" using step by (simp add: OpApplySkipped pts_step_def)
  then have "pts_applied effects = map snd (pts_pending s)" using pts_apply_skipped_spec(1) [OF q] by simp
  then show ?thesis
    by (intro effects_presentI) (simp only: pending_effects_present [OF inv])
next
  case (OpShortPoll ms)
  then show ?thesis
    using step by (auto simp: pts_step_def pts_set_waiting_for_short_poll_def pts_check_for_waiting_def
        effect_present_def Let_def split: if_splits)
qed (use step in \<open>auto simp: pts_step_def\<close>)

text \<open>In every run of the waiter's operations, whatever their order, the
  queue and the two payload maps stay consistent, so that no handler is ever called with the default
  value that a lookup of a missing key would produce.\<close>

theorem run_applies_real_updates:
  assumes "pts_inv s" and "pts_machine.legal s cs" and "pts_run s cs = (s', effects)"
  shows "pts_inv s' \<and> (\<forall>e\<in>set effects. effect_present e)"
proof
  have "s' = foldl (\<lambda>s c. fst (pts_step s c)) s cs"
    using pts_run_state [of s cs] assms(3) by simp
  with pts_machine.inv_run [OF assms(1,2)] show "pts_inv s'" by simp
  show "\<forall>e\<in>set effects. effect_present e"
    using assms
  proof (induction cs arbitrary: s effects)
    case Nil
    then show ?case by simp
  next
    case (Cons c cs)
    obtain s1 e1 where c: "pts_step s c = (s1, e1)" by (cases "pts_step s c")
    obtain e2 where e2: "pts_run s1 cs = (s', e2)" "effects = e1 @ e2"
      using Cons.prems(3) by (auto simp: c split: prod.splits)
    have left: "pts_serial_left s" and legal: "pts_machine.legal s1 cs"
      using Cons.prems(2) by (simp_all add: c)
    have "pts_inv s1" using pts_inv_step [OF Cons.prems(1) left, of c] by (simp add: c)
    then have "\<forall>e\<in>set e2. effect_present e" using legal e2(1) by (rule Cons.IH)
    with pts_step_present [OF Cons.prems(1) left c] e2(2) show ?case by auto
  qed
qed

theorem run_applies_real_updates_witness:
  "let r = pts_run (fresh_waiter 5 :: (string, string) pts_waiter)
     [OpUpdate 9 2 (OneUpdate ''c''), OpApplySkipped, OpRequesting True] in
   pts_inv (fst r) \<and> (\<forall>e\<in>set (snd r). effect_present e)"
proof -
  let ?s = "fresh_waiter 5 :: (string, string) pts_waiter"
  let ?cs = "[OpUpdate 9 2 (OneUpdate ''c''), OpApplySkipped, OpRequesting True]"
  have "pts_machine.legal ?s ?cs" unfolding pts_machine.legal.simps by code_simp
  moreover have "pts_inv ?s" by (rule fresh_inv)
  ultimately show ?thesis
    using run_applies_real_updates [OF _ _ surjective_pairing] unfolding Let_def by blast
qed

end
