(* ===== verification/ReceivedIds.thy ===== *)
theory ReceivedIds
  imports Prelude
begin

text \<open>
  The window of received message ids (\<open>ReceivedIdsManager\<close>,
  \<open>mtproto/details/mtproto_received_ids_manager\<close>): the defence of the protocol session against
  messages that are replayed or far too old.

  \<open>_idsNeedAck\<close> is the key/value list in ascending key order; logging is left out.
\<close>

type_synonym msg_id = "64 word"
type_synonym received_ids = "(msg_id \<times> bool) list"

datatype id_state = NotFound | NeedsAck | NoAckNeeded
datatype id_result = RegisterSuccess | RegisterDuplicate | RegisterTooOld

definition ids_buffer_size :: nat where
  "ids_buffer_size = 400"

definition ids_min :: "received_ids \<Rightarrow> msg_id" where
  "ids_min m = (if m = [] then 0 else fst (hd m))"

definition ids_max :: "received_ids \<Rightarrow> msg_id" where
  "ids_max m = (if m = [] then 0 else fst (last m))"

definition register_msg_id :: "msg_id \<Rightarrow> bool \<Rightarrow> received_ids \<Rightarrow> id_result \<times> received_ids" where
  "register_msg_id i need_ack m =
     (case map_of m i of
        Some _ \<Rightarrow> (RegisterDuplicate, m)
      | None \<Rightarrow>
          if length m < ids_buffer_size \<or> ids_min m < i
          then (RegisterSuccess, amap_emplace i need_ack m)
          else (RegisterTooOld, m))"

definition lookup_id :: "msg_id \<Rightarrow> received_ids \<Rightarrow> id_state" where
  "lookup_id i m =
     (case map_of m i of
        None \<Rightarrow> NotFound
      | Some need_ack \<Rightarrow> if need_ack then NeedsAck else NoAckNeeded)"

text \<open>\<open>while (size-- > kIdsBufferSize) erase(begin())\<close>\<close>

function shrink_loop :: "nat \<Rightarrow> received_ids \<Rightarrow> received_ids" where
  "shrink_loop n m = (if n > ids_buffer_size then shrink_loop (n - 1) (tl m) else m)"
  by pat_completeness auto
termination
  by (relation "measure fst") (auto simp: ids_buffer_size_def)

declare shrink_loop.simps [simp del]

definition shrink_ids :: "received_ids \<Rightarrow> received_ids" where
  "shrink_ids m = shrink_loop (length m) m"

definition clear_ids :: "received_ids \<Rightarrow> received_ids" where
  "clear_ids m = []"

section \<open>Single operations\<close>

lemma shrink_loop_drop: "shrink_loop n m = drop (n - ids_buffer_size) m"
proof (induction n m rule: shrink_loop.induct)
  case (1 n m)
  show ?case
  proof (cases "n > ids_buffer_size")
    case True
    then have "shrink_loop n m = drop (n - 1 - ids_buffer_size) (tl m)"
      using 1 by (subst shrink_loop.simps) simp
    also have "\<dots> = drop (Suc (n - 1 - ids_buffer_size)) m" by (simp add: drop_Suc)
    also have "Suc (n - 1 - ids_buffer_size) = n - ids_buffer_size" using True by simp
    finally show ?thesis .
  next
    case False
    then show ?thesis by (subst shrink_loop.simps) simp
  qed
qed

lemma shrink_ids_eq: "shrink_ids m = drop (length m - ids_buffer_size) m"
  by (simp add: shrink_ids_def shrink_loop_drop)

lemma register_asc: "asc_keys m \<Longrightarrow> asc_keys (snd (register_msg_id i a m))"
  by (auto simp: register_msg_id_def asc_keys_emplace split: option.split)

lemma asc_drop: "asc_keys m \<Longrightarrow> asc_keys (drop n m)"
  by (metis drop_map sorted_wrt_drop)

lemma ids_min_least:
  assumes "asc_keys m" and "k \<in> fst ` set m"
  shows "ids_min m \<le> k"
  using assms by (cases m) (auto simp: ids_min_def)

lemma ids_max_greatest:
  assumes "asc_keys m" and "k \<in> fst ` set m"
  shows "k \<le> ids_max m"
proof (cases m rule: rev_cases)
  case Nil
  then show ?thesis using assms(2) by simp
next
  case (snoc ys y)
  with assms show ?thesis by (auto simp: ids_max_def sorted_wrt_append)
qed

section \<open>Runs: an id is accepted once\<close>

datatype id_op = Register msg_id bool | Shrink

definition id_step :: "id_op \<Rightarrow> received_ids \<Rightarrow> received_ids" where
  "id_step c m = (case c of Register i a \<Rightarrow> snd (register_msg_id i a m) | Shrink \<Rightarrow> shrink_ids m)"

text \<open>The ids a run accepts, in order.\<close>

fun accepted :: "id_op list \<Rightarrow> received_ids \<Rightarrow> msg_id list" where
  "accepted [] m = []"
| "accepted (c # cs) m =
     (case c of
        Register i a \<Rightarrow> (if fst (register_msg_id i a m) = RegisterSuccess then [i] else [])
      | Shrink \<Rightarrow> []) @ accepted cs (id_step c m)"

text \<open>
  The invariant of a run that has accepted the ids \<open>seen\<close>: the window holds only such ids, and
  those it has let go are older than everything in a window that is full.
\<close>

definition ids_inv :: "msg_id set \<Rightarrow> received_ids \<Rightarrow> bool" where
  "ids_inv seen m \<longleftrightarrow> asc_keys m \<and> fst ` set m \<subseteq> seen
     \<and> (seen \<noteq> fst ` set m \<longrightarrow> ids_buffer_size \<le> length m)
     \<and> (\<forall>i\<in>seen - fst ` set m. \<forall>k\<in>fst ` set m. i < k)"

lemma ids_inv_older: "ids_inv seen m \<Longrightarrow> i \<in> seen - fst ` set m \<Longrightarrow> k \<in> fst ` set m \<Longrightarrow> i < k"
  unfolding ids_inv_def by blast

lemma ids_inv_register:
  assumes inv: "ids_inv seen m" and r: "register_msg_id i a m = (res, m')"
  shows "res = RegisterSuccess \<Longrightarrow> i \<notin> seen \<and> ids_inv (insert i seen) m'"
    and "res \<noteq> RegisterSuccess \<Longrightarrow> m' = m"
proof -
  have asc: "asc_keys m" and sub: "fst ` set m \<subseteq> seen" using inv by (simp_all add: ids_inv_def)
  show "res \<noteq> RegisterSuccess \<Longrightarrow> m' = m"
    using r by (auto simp: register_msg_id_def split: option.splits if_splits)
  assume "res = RegisterSuccess"
  with r have new: "map_of m i = None" and cond: "length m < ids_buffer_size \<or> ids_min m < i"
    and m': "m' = amap_emplace i a m"
    by (auto simp: register_msg_id_def split: option.splits if_splits)
  then have fresh: "i \<notin> fst ` set m" by (simp add: map_of_eq_None_iff)
  have set': "fst ` set m' = insert i (fst ` set m)"
    by (simp add: m' set_amap_emplace_new [OF fresh])
  have len': "length m' = Suc (length m)" using length_amap_emplace [OF asc, of i a] fresh by (simp add: m')
  have gone: "ids_min m < i \<and> m \<noteq> []" if "seen \<noteq> fst ` set m"
    using inv that cond by (auto simp: ids_inv_def ids_buffer_size_def)
  have "i \<notin> seen"
  proof
    assume seen: "i \<in> seen"
    then have "seen \<noteq> fst ` set m" using fresh by blast
    with gone have "ids_min m < i" "m \<noteq> []" by blast+
    moreover from \<open>m \<noteq> []\<close> have "ids_min m \<in> fst ` set m" by (simp add: ids_min_def)
    ultimately show False using ids_inv_older [OF inv, of i "ids_min m"] seen fresh by simp
  qed
  moreover have "j < k" if "j \<in> insert i seen - fst ` set m'" and "k \<in> fst ` set m'" for j k
  proof -
    have j: "j \<in> seen - fst ` set m" using that(1) set' by auto
    show ?thesis
    proof (cases "k = i")
      case True
      from j have "ids_min m < i \<and> m \<noteq> []" using gone by blast
      moreover from this have "ids_min m \<in> fst ` set m" by (simp add: ids_min_def)
      then have "j < ids_min m" using ids_inv_older [OF inv j] by blast
      ultimately show ?thesis using True less_trans by metis
    next
      case False
      with that(2) set' have "k \<in> fst ` set m" by auto
      then show ?thesis by (rule ids_inv_older [OF inv j])
    qed
  qed
  moreover have "ids_buffer_size \<le> length m'" if "insert i seen \<noteq> fst ` set m'"
  proof -
    have "seen \<noteq> fst ` set m" using that set' by blast
    with inv len' show ?thesis by (auto simp: ids_inv_def)
  qed
  ultimately show "i \<notin> seen \<and> ids_inv (insert i seen) m'"
    using asc sub set' by (auto simp: ids_inv_def m' asc_keys_emplace)
qed

lemma ids_inv_shrink:
  assumes inv: "ids_inv seen m"
  shows "ids_inv seen (shrink_ids m)"
proof -
  let ?n = "length m - ids_buffer_size"
  have asc: "asc_keys m" and sub: "fst ` set m \<subseteq> seen" using inv by (simp_all add: ids_inv_def)
  have "asc_keys (take ?n m @ drop ?n m)" using asc by simp
  then have split: "j < k" if "j \<in> fst ` set (take ?n m)" "k \<in> fst ` set (drop ?n m)" for j k
    using that unfolding map_append sorted_wrt_append by auto
  have keys: "fst ` set m = fst ` set (take ?n m) \<union> fst ` set (drop ?n m)"
    by (metis append_take_drop_id image_Un set_append)
  have full: "ids_buffer_size \<le> length (drop ?n m)" if "seen \<noteq> fst ` set (drop ?n m)"
  proof (cases "?n = 0")
    case True
    with that inv show ?thesis by (simp add: ids_inv_def)
  qed simp
  have "j < k" if "j \<in> seen - fst ` set (drop ?n m)" "k \<in> fst ` set (drop ?n m)" for j k
  proof (cases "j \<in> fst ` set (take ?n m)")
    case True
    with split that show ?thesis by blast
  next
    case False
    with that keys have "j \<in> seen - fst ` set m" "k \<in> fst ` set m" by blast+
    then show ?thesis by (rule ids_inv_older [OF inv])
  qed
  note older = this
  have "fst ` set (drop ?n m) \<subseteq> seen" using sub keys by simp
  then show ?thesis
    unfolding ids_inv_def shrink_ids_eq using asc_drop [OF asc, of ?n] full older by simp
qed

lemma accepted_once:
  assumes "ids_inv seen m"
  shows "distinct (accepted cs m) \<and> set (accepted cs m) \<inter> seen = {}"
  using assms
proof (induction cs arbitrary: seen m)
  case Nil
  show ?case by simp
next
  case (Cons c cs)
  show ?case
  proof (cases c)
    case (Register i a)
    obtain res m' where r: "register_msg_id i a m = (res, m')" by (cases "register_msg_id i a m")
    note reg = ids_inv_register [OF Cons.prems r]
    show ?thesis
    proof (cases "res = RegisterSuccess")
      case True
      with reg(1) Cons.IH [of "insert i seen" m'] show ?thesis by (simp add: Register id_step_def r)
    next
      case False
      with reg(2) Cons.IH [OF Cons.prems] show ?thesis by (simp add: Register id_step_def r)
    qed
  next
    case Shrink
    with Cons.IH [OF ids_inv_shrink [OF Cons.prems]] show ?thesis by (simp add: id_step_def)
  qed
qed

interpretation ids_machine: guarded_machine "\<lambda>m c. id_step c m" "\<lambda>m c. True" "\<lambda>m. sorted_wrt (<) (map fst m)"
proof unfold_locales
  fix m :: received_ids and c
  assume "asc_keys m"
  then show "asc_keys (id_step c m)"
    by (cases c) (auto simp: id_step_def register_asc shrink_ids_eq asc_drop)
qed

section \<open>Properties\<close>

text \<open>C24: whatever messages arrive and whenever the window is shrunk, no message id is
  accepted twice, not even one that the window has already forgotten.\<close>

theorem no_replay: "distinct (accepted cs [])"
  using accepted_once [of "{}" "[]" cs] by (simp add: ids_inv_def)

text \<open>The exact decision on an id: known ids are duplicates, and while the window is
  full an unknown id is accepted if and only if it is newer than the oldest id held; accepting it
  makes it known without touching the others.\<close>

theorem register_decides:
  assumes "asc_keys m"
  shows "case register_msg_id i a m of (res, m') \<Rightarrow>
    (res = RegisterDuplicate \<longleftrightarrow> lookup_id i m \<noteq> NotFound)
    \<and> (res = RegisterTooOld \<longleftrightarrow> lookup_id i m = NotFound \<and> ids_buffer_size \<le> length m \<and> i < ids_min m)
    \<and> (res \<noteq> RegisterSuccess \<longrightarrow> m' = m)
    \<and> (res = RegisterSuccess \<longrightarrow> asc_keys m'
        \<and> (\<forall>k. lookup_id k m' = (if k = i then (if a then NeedsAck else NoAckNeeded) else lookup_id k m)))"
proof -
  have neq: "i \<noteq> ids_min m" if "map_of m i = None" "ids_buffer_size \<le> length m"
  proof -
    have "m \<noteq> []" using that(2) by (auto simp: ids_buffer_size_def)
    then have "ids_min m \<in> fst ` set m" by (simp add: ids_min_def)
    with that(1) show ?thesis by (auto simp: map_of_eq_None_iff)
  qed
  show ?thesis
    using neq assms
    by (auto simp: register_msg_id_def lookup_id_def amap_emplace_lookup asc_keys_emplace
        split: option.splits if_splits)
qed

theorem register_decides_witness:
  "fst (register_msg_id 7 True [(7, False)]) = RegisterDuplicate"
  using register_decides [of "[(7, False)]" 7 True] by (simp add: lookup_id_def split: prod.splits)

text \<open>Shrinking leaves at most 400 ids, and those are the newest ones.\<close>

theorem shrink_keeps_newest:
  assumes "asc_keys m"
  shows "length (shrink_ids m) = min (length m) 400 \<and> set (shrink_ids m) \<subseteq> set m
    \<and> (\<forall>a\<in>set m - set (shrink_ids m). \<forall>b\<in>set (shrink_ids m). fst a < fst b)"
proof -
  let ?n = "length m - ids_buffer_size"
  have m: "set m = set (take ?n m) \<union> set (drop ?n m)" by (metis append_take_drop_id set_append)
  have "asc_keys (take ?n m @ drop ?n m)" using assms by simp
  then have "\<forall>a\<in>set (take ?n m). \<forall>b\<in>set (drop ?n m). fst a < fst b"
    unfolding map_append sorted_wrt_append by auto
  with m have "\<forall>a\<in>set m - set (drop ?n m). \<forall>b\<in>set (drop ?n m). fst a < fst b" by blast
  moreover have "length (drop ?n m) = min (length m) 400" by (simp add: ids_buffer_size_def)
  ultimately show ?thesis
    unfolding shrink_ids_eq by (simp add: set_drop_subset)
qed

theorem shrink_keeps_newest_witness: "length (shrink_ids [(3, True), (8, False)]) = 2"
  using shrink_keeps_newest [of "[(3, True), (8, False)]"] by simp

end
