(* ===== verification/Slices.thy ===== *)
theory Slices
  imports Prelude
begin

text \<open>
  Slices of a long ordered list that is only known in parts: the representation shared by
  \<open>Storage::SparseIdsList\<close> and \<open>Data::MessagesList\<close>. A slice is a range of positions
  without holes, with the elements that exist in it; the set of slices is the list of them in
  the order of their \<open>range.from\<close>.

  The C++ templates of both classes have the same text for merging slices; the definitions here
  follow \<open>data/data_messages.cpp\<close>. The locale \<open>known_parts\<close> states what a client relies on: what is
  covered and what is known after each operation, from which it follows that the known elements
  stay truthful to the server's list.
\<close>

record 'a slice =
  sl_msgs :: "'a list"
  sl_from :: 'a
  sl_till :: 'a

definition slice_merge :: "'a::linorder list \<Rightarrow> 'a \<Rightarrow> 'a \<Rightarrow> 'a slice \<Rightarrow> 'a slice" where
  "slice_merge msgs f t s =
     \<lparr>sl_msgs = asc_merge (sl_msgs s) msgs, sl_from = min (sl_from s) f, sl_till = max (sl_till s) t\<rparr>"

text \<open>What an operation reports: the slice that changed and the number of elements it gained.\<close>

record 'a unite_result =
  ur_slices :: "'a slice list"
  ur_changed :: "'a slice option"
  ur_added :: nat

definition unite_and_add ::
  "nat \<Rightarrow> nat \<Rightarrow> 'a::linorder list \<Rightarrow> 'a \<Rightarrow> 'a \<Rightarrow> 'a slice list \<Rightarrow> 'a unite_result" where
  "unite_and_add unite_from unite_till msgs f t slices =
     (let was = length (sl_msgs (slices ! unite_from));
        first_to_erase = unite_from + 1;
        merged = foldl (\<lambda>s it. slice_merge (sl_msgs it) (sl_from it) (sl_till it) s)
          (slice_merge msgs f t (slices ! unite_from))
          (take (unite_till - first_to_erase) (drop first_to_erase slices)) in
      \<lparr>ur_slices = take unite_from slices @ merged # drop unite_till slices,
       ur_changed = Some merged,
       ur_added = length (sl_msgs merged) - was\<rparr>)"

text \<open>\<open>flat_set<Slice>::emplace\<close>: slices compare by \<open>range.from\<close>; an equal one stays.\<close>

fun slice_emplace :: "'a::linorder slice \<Rightarrow> 'a slice list \<Rightarrow> 'a slice list \<times> 'a slice" where
  "slice_emplace s [] = ([s], s)"
| "slice_emplace s (r # rs) =
     (if sl_from s < sl_from r then (s # r # rs, s)
      else if sl_from s = sl_from r then (r # rs, r)
      else let (rs', x) = slice_emplace s rs in (r # rs', x))"

definition add_range_items :: "'a::linorder list \<Rightarrow> 'a \<Rightarrow> 'a \<Rightarrow> 'a slice list \<Rightarrow> 'a unite_result" where
  "add_range_items msgs f t slices =
     (let unite_from = lower_bound_by sl_till f slices;
        unite_till = upper_bound_by sl_from t slices in
      if unite_from < unite_till then unite_and_add unite_from unite_till msgs f t slices
      else let (slices', s) = slice_emplace \<lparr>sl_msgs = asc_merge [] msgs, sl_from = f, sl_till = t\<rparr> slices in
        \<lparr>ur_slices = slices', ur_changed = Some s, ur_added = length (sl_msgs s)\<rparr>)"

text \<open>The slice that holds a position, as its index.\<close>

definition slice_index :: "'a::linorder \<Rightarrow> 'a slice list \<Rightarrow> nat option" where
  "slice_index p slices =
     (let i = lower_bound_by sl_till p slices in
      if i < length slices \<and> sl_from (slices ! i) \<le> p then Some i else None)"

definition slices_remove_one :: "'a::linorder \<Rightarrow> 'a slice list \<Rightarrow> 'a slice list" where
  "slices_remove_one p slices =
     (case slice_index p slices of
        None \<Rightarrow> slices
      | Some i \<Rightarrow> slices[i := (slices ! i)\<lparr>sl_msgs := asc_remove p (sl_msgs (slices ! i))\<rparr>])"

text \<open>\<open>invalidateBottom\<close>: what follows the last known element is no longer known.\<close>

definition slices_invalidate_bottom :: "'a::linorder \<Rightarrow> 'a slice list \<Rightarrow> 'a slice list" where
  "slices_invalidate_bottom final slices =
     (if slices \<noteq> [] \<and> sl_till (last slices) = final
      then butlast slices @
        [(last slices)\<lparr>sl_till :=
           (if sl_msgs (last slices) = [] then sl_from (last slices)
            else last (sl_msgs (last slices)))\<rparr>]
      else slices)"

section \<open>What the slices stand for\<close>

definition slice_range :: "'a::linorder slice \<Rightarrow> 'a set" where
  "slice_range s = {sl_from s..sl_till s}"

definition covered :: "'a::linorder slice list \<Rightarrow> 'a set" where
  "covered slices = (\<Union>s\<in>set slices. slice_range s)"

definition known :: "'a slice list \<Rightarrow> 'a set" where
  "known slices = (\<Union>s\<in>set slices. set (sl_msgs s))"

definition slice_ok :: "'a::linorder slice \<Rightarrow> bool" where
  "slice_ok s \<longleftrightarrow> sl_from s \<le> sl_till s \<and> strict_asc (sl_msgs s) \<and> set (sl_msgs s) \<subseteq> slice_range s"

definition slices_ok :: "'a::linorder slice list \<Rightarrow> bool" where
  "slices_ok slices \<longleftrightarrow> sorted_wrt (\<lambda>a b. sl_till a < sl_from b) slices \<and> (\<forall>s\<in>set slices. slice_ok s)"

named_theorems slice_simps

lemma covered_simps [slice_simps]:
  "covered [] = {}" "covered (s # ss) = slice_range s \<union> covered ss"
  "covered (xs @ ys) = covered xs \<union> covered ys"
  by (auto simp: covered_def)

lemma known_simps [slice_simps]:
  "known [] = {}" "known (s # ss) = set (sl_msgs s) \<union> known ss"
  "known (xs @ ys) = known xs \<union> known ys"
  by (auto simp: known_def)

lemma slices_ok_append [slice_simps]:
  "slices_ok (xs @ ys) \<longleftrightarrow> slices_ok xs \<and> slices_ok ys
     \<and> (\<forall>x\<in>set xs. \<forall>y\<in>set ys. sl_till x < sl_from y)"
  by (auto simp: slices_ok_def sorted_wrt_append)

lemma slices_ok_Cons [slice_simps]:
  "slices_ok (s # ss) \<longleftrightarrow> slice_ok s \<and> slices_ok ss \<and> (\<forall>y\<in>set ss. sl_till s < sl_from y)"
  by (auto simp: slices_ok_def)

lemma slices_ok_Nil [slice_simps]: "slices_ok []"
  by (simp add: slices_ok_def)

lemma known_covered: "slices_ok slices \<Longrightarrow> known slices \<subseteq> covered slices"
  by (auto simp: slices_ok_def slice_ok_def known_def covered_def)

lemma slices_sorted:
  assumes "slices_ok slices"
  shows "sorted_wrt (\<lambda>a b. sl_till a \<le> sl_till b) slices" and "sorted_wrt (\<lambda>a b. sl_from a \<le> sl_from b) slices"
proof -
  have gaps: "sorted_wrt (\<lambda>a b. sl_till a < sl_from b) slices"
    and ends: "s \<in> set slices \<Longrightarrow> sl_from s \<le> sl_till s" for s
    using assms by (simp_all add: slices_ok_def slice_ok_def)
  show "sorted_wrt (\<lambda>a b. sl_till a \<le> sl_till b) slices"
    by (rule sorted_wrt_mono_rel [OF _ gaps]) (use ends in \<open>meson less_imp_le order_trans\<close>)
  show "sorted_wrt (\<lambda>a b. sl_from a \<le> sl_from b) slices"
    by (rule sorted_wrt_mono_rel [OF _ gaps]) (use ends in \<open>meson less_imp_le order_trans\<close>)
qed

text \<open>The binary searches split the slices into those before a range, those that meet it and those after.\<close>

lemma slices_split:
  assumes ok: "slices_ok slices" and ft: "f \<le> t"
    and i: "i = lower_bound_by sl_till f slices" and j: "j = upper_bound_by sl_from t slices"
  shows "\<forall>s\<in>set (take i slices). sl_till s < f"
    and "\<forall>s\<in>set (drop i slices). f \<le> sl_till s"
    and "\<forall>s\<in>set (take j slices). sl_from s \<le> t"
    and "\<forall>s\<in>set (drop j slices). t < sl_from s"
    and "i \<le> length slices" and "j \<le> length slices"
  using bound_splits(1,2) [OF slices_sorted(1) [OF ok], of _ f]
    bound_splits(3,4) [OF slices_sorted(2) [OF ok], of _ t]
  by (auto simp: i j lower_bound_le upper_bound_le)

section \<open>Merging\<close>

lemma slice_merge_ok:
  assumes s: "slice_ok s" and ft: "f \<le> t" and ms: "set msgs \<subseteq> {f..t}"
    and meets: "f \<le> sl_till s" "sl_from s \<le> t"
  shows "slice_ok (slice_merge msgs f t s)"
    and "slice_range (slice_merge msgs f t s) = slice_range s \<union> {f..t}"
    and "set (sl_msgs (slice_merge msgs f t s)) = set (sl_msgs s) \<union> set msgs"
proof -
  have range: "sl_from s \<le> sl_till s" "set (sl_msgs s) \<subseteq> {sl_from s..sl_till s}"
    using s by (simp_all add: slice_ok_def slice_range_def)
  show union: "slice_range (slice_merge msgs f t s) = slice_range s \<union> {f..t}"
    using range(1) ft meets by (auto simp: slice_merge_def slice_range_def min_le_iff_disj le_max_iff_disj)
  show msgs: "set (sl_msgs (slice_merge msgs f t s)) = set (sl_msgs s) \<union> set msgs"
    by (simp add: slice_merge_def set_asc_merge)
  have "sl_from (slice_merge msgs f t s) \<le> sl_till (slice_merge msgs f t s)"
    using ft by (simp add: slice_merge_def min_le_iff_disj le_max_iff_disj)
  moreover have "strict_asc (sl_msgs (slice_merge msgs f t s))"
    using s by (simp add: slice_merge_def slice_ok_def strict_asc_merge)
  ultimately show "slice_ok (slice_merge msgs f t s)"
    unfolding slice_ok_def union msgs using range(2) ms by (auto simp: slice_range_def)
qed

lemma merge_all:
  assumes "slice_ok s" and "{f..t} \<subseteq> slice_range s" and "f \<le> t"
    and "\<forall>r\<in>set rs. slice_ok r \<and> f \<le> sl_till r \<and> sl_from r \<le> t"
  defines "m \<equiv> foldl (\<lambda>s it. slice_merge (sl_msgs it) (sl_from it) (sl_till it) s) s rs"
  shows "slice_ok m" and "slice_range m = slice_range s \<union> covered rs"
    and "set (sl_msgs m) = set (sl_msgs s) \<union> known rs"
proof -
  have "slice_ok m \<and> slice_range m = slice_range s \<union> covered rs
      \<and> set (sl_msgs m) = set (sl_msgs s) \<union> known rs"
    using assms(1-4) unfolding m_def
  proof (induction rs arbitrary: s)
    case Nil
    then show ?case by (simp add: slice_simps)
  next
    case (Cons r rs)
    let ?s = "slice_merge (sl_msgs r) (sl_from r) (sl_till r) s"
    have r: "slice_ok r" "f \<le> sl_till r" "sl_from r \<le> t" using Cons.prems(4) by simp_all
    have "sl_from s \<le> f" "t \<le> sl_till s" using Cons.prems(2,3) by (auto simp: slice_range_def)
    with r have "sl_from r \<le> sl_till s" "sl_from s \<le> sl_till r" by auto
    moreover have "sl_from r \<le> sl_till r" "set (sl_msgs r) \<subseteq> {sl_from r..sl_till r}"
      using r(1) by (simp_all add: slice_ok_def slice_range_def)
    ultimately have m: "slice_ok ?s" "slice_range ?s = slice_range s \<union> slice_range r"
        "set (sl_msgs ?s) = set (sl_msgs s) \<union> set (sl_msgs r)"
      using slice_merge_ok [OF Cons.prems(1)] by (simp_all add: slice_range_def [of r])
    have "slice_ok (foldl (\<lambda>s it. slice_merge (sl_msgs it) (sl_from it) (sl_till it) s) ?s rs)
        \<and> slice_range (foldl (\<lambda>s it. slice_merge (sl_msgs it) (sl_from it) (sl_till it) s) ?s rs)
          = slice_range ?s \<union> covered rs
        \<and> set (sl_msgs (foldl (\<lambda>s it. slice_merge (sl_msgs it) (sl_from it) (sl_till it) s) ?s rs))
          = set (sl_msgs ?s) \<union> known rs"
      using m Cons.prems by (intro Cons.IH) auto
    then show ?case by (simp add: slice_simps m Un_assoc)
  qed
  then show "slice_ok m" and "slice_range m = slice_range s \<union> covered rs"
    and "set (sl_msgs m) = set (sl_msgs s) \<union> known rs" by blast+
qed

lemma slice_ok_extremes: "slice_ok s \<Longrightarrow> sl_from s \<in> slice_range s \<and> sl_till s \<in> slice_range s"
  by (simp add: slice_ok_def slice_range_def)

section \<open>Adding a range\<close>

text \<open>The slices that a range meets are a contiguous part of the list.\<close>

definition meeting :: "'a::linorder \<Rightarrow> 'a \<Rightarrow> 'a slice list \<Rightarrow> 'a slice list" where
  "meeting f t slices = filter (\<lambda>s. f \<le> sl_till s \<and> sl_from s \<le> t) slices"

lemma slices_parts:
  assumes ok: "slices_ok slices" and ft: "f \<le> t"
    and i: "i = lower_bound_by sl_till f slices" and j: "j = upper_bound_by sl_from t slices"
  obtains xs ys where "slices = xs @ meeting f t slices @ ys"
    and "take i slices = xs" and "drop (max i j) slices = ys" and "i < j \<longrightarrow> drop j slices = ys"
    and "i < j \<longrightarrow> meeting f t slices = slices ! i # take (j - (i + 1)) (drop (i + 1) slices)"
    and "\<not> i < j \<longrightarrow> meeting f t slices = []"
    and "\<forall>s\<in>set xs. sl_till s < f" and "\<forall>s\<in>set ys. t < sl_from s"
proof -
  note split = slices_split [OF ok ft i j]
  have ends: "sl_from s \<le> sl_till s" if "s \<in> set slices" for s
    using ok that by (simp add: slices_ok_def slice_ok_def)
  define B where "B = take (j - i) (drop i slices)"
  define ys where "ys = drop (max i j) slices"
  have parts: "slices = take i slices @ B @ ys"
  proof (cases "i < j")
    case True
    then have "ys = drop (j - i) (drop i slices)" by (simp add: ys_def)
    then show ?thesis by (simp add: B_def del: drop_drop)
  qed (simp add: B_def ys_def max_def)
  have inB: "f \<le> sl_till s \<and> sl_from s \<le> t" if "s \<in> set B" for s
  proof -
    have "s \<in> set (drop i slices)" using that unfolding B_def by (meson in_set_takeD)
    moreover have "take j slices = take i slices @ B" if "i < j"
      using that by (simp add: B_def flip: take_add)
    then have "s \<in> set (take j slices)" using that by (cases "i < j") (auto simp: B_def)
    ultimately show ?thesis using split(2,3) by blast
  qed
  have ys: "\<forall>s\<in>set ys. t < sl_from s"
  proof (cases "j \<le> i")
    case False
    then show ?thesis using split(4) by (simp add: ys_def max_def)
  next
    case True
    then have "set (drop i slices) \<subseteq> set (drop j slices)" by (rule set_drop_subset_set_drop)
    with True split(4) show ?thesis by (auto simp: ys_def max_def)
  qed
  have none: "filter (\<lambda>s. f \<le> sl_till s \<and> sl_from s \<le> t) (take i slices) = []"
    "filter (\<lambda>s. f \<le> sl_till s \<and> sl_from s \<le> t) ys = []"
    using split(1) ys by (fastforce simp: filter_empty_conv)+
  have "filter (\<lambda>s. f \<le> sl_till s \<and> sl_from s \<le> t) slices =
      filter (\<lambda>s. f \<le> sl_till s \<and> sl_from s \<le> t) (take i slices @ B @ ys)"
    using parts by simp
  also have "\<dots> = B" using none inB by (simp add: filter_id_conv)
  finally have meet: "meeting f t slices = B" by (simp add: meeting_def)
  show thesis
  proof (rule that [of "take i slices" ys])
    show "slices = take i slices @ meeting f t slices @ ys" using parts meet by simp
    show "i < j \<longrightarrow> drop j slices = ys" by (simp add: ys_def)
    show "i < j \<longrightarrow> meeting f t slices = slices ! i # take (j - (i + 1)) (drop (i + 1) slices)"
      using split(6) by (simp add: meet B_def Cons_nth_drop_Suc [symmetric] take_Cons')
    show "\<not> i < j \<longrightarrow> meeting f t slices = []" by (simp add: meet B_def)
  qed (use split(1) ys in \<open>simp_all add: ys_def\<close>)
qed

lemma slice_emplace_between:
  assumes "\<forall>s\<in>set xs. sl_from s < sl_from n" and "\<forall>s\<in>set ys. sl_from n < sl_from s"
  shows "slice_emplace n (xs @ ys) = (xs @ n # ys, n)"
  using assms
proof (induction xs)
  case Nil
  then show ?case by (cases ys) auto
next
  case (Cons x xs)
  then have "slice_emplace n (xs @ ys) = (xs @ n # ys, n)" "sl_from x < sl_from n" by simp_all
  then show ?case by (auto simp: less_le_not_le)
qed

lemma add_range_items_spec:
  assumes ok: "slices_ok slices" and ft: "f \<le> t" and ms: "set msgs \<subseteq> {f..t}"
    and r: "r = add_range_items msgs f t slices"
  shows "slices_ok (ur_slices r)"
    and "covered (ur_slices r) = covered slices \<union> {f..t}"
    and "known (ur_slices r) = known slices \<union> set msgs"
    and "\<exists>s. ur_changed r = Some s \<and> s \<in> set (ur_slices r) \<and> {f..t} \<subseteq> slice_range s
      \<and> set (sl_msgs s) = known (meeting f t slices) \<union> set msgs
      \<and> ur_added r = length (sl_msgs s)
          - (case meeting f t slices of [] \<Rightarrow> 0 | m # _ \<Rightarrow> length (sl_msgs m))"
proof -
  let ?i = "lower_bound_by sl_till f slices" and ?j = "upper_bound_by sl_from t slices"
  obtain xs ys where p: "slices = xs @ meeting f t slices @ ys"
    "take ?i slices = xs" "drop (max ?i ?j) slices = ys" "?i < ?j \<longrightarrow> drop ?j slices = ys"
    "?i < ?j \<longrightarrow> meeting f t slices = slices ! ?i # take (?j - (?i + 1)) (drop (?i + 1) slices)"
    "\<not> ?i < ?j \<longrightarrow> meeting f t slices = []"
    and out: "\<forall>s\<in>set xs. sl_till s < f" "\<forall>s\<in>set ys. t < sl_from s"
    by (rule slices_parts [OF ok ft refl refl], rule that; assumption)
  let ?B = "meeting f t slices"
  have "slices_ok (xs @ ?B @ ys)" using ok p(1) by metis
  then have oks: "slices_ok xs" "slices_ok ?B" "slices_ok ys"
    "\<forall>x\<in>set xs. \<forall>b\<in>set ?B \<union> set ys. sl_till x < sl_from b"
    "\<forall>b\<in>set ?B. \<forall>y\<in>set ys. sl_till b < sl_from y"
    by (auto simp: slices_ok_append)
  have B: "\<forall>b\<in>set ?B. slice_ok b \<and> f \<le> sl_till b \<and> sl_from b \<le> t"
    using oks(2) by (auto simp: slices_ok_def meeting_def)
  have cov: "covered slices = covered xs \<union> covered ?B \<union> covered ys"
    and kno: "known slices = known xs \<union> known ?B \<union> known ys"
    using arg_cong [OF p(1), of covered] arg_cong [OF p(1), of known] by (simp_all add: slice_simps Un_assoc)
  have "\<exists>m. ur_slices r = xs @ m # ys \<and> ur_changed r = Some m
    \<and> ur_added r = length (sl_msgs m) - (case ?B of [] \<Rightarrow> 0 | b # _ \<Rightarrow> length (sl_msgs b))
    \<and> slice_ok m \<and> slice_range m = covered ?B \<union> {f..t} \<and> set (sl_msgs m) = known ?B \<union> set msgs"
  proof (cases "?i < ?j")
    case True
    define b where "b = slices ! ?i"
    define bs where "bs = take (?j - (?i + 1)) (drop (?i + 1) slices)"
    have Bb: "?B = b # bs" using p(5) True by (simp add: b_def bs_def)
    have b: "slice_ok b" "f \<le> sl_till b" "sl_from b \<le> t" using B Bb by simp_all
    let ?s = "slice_merge msgs f t b"
    note s = slice_merge_ok [OF b(1) ft ms b(2,3)]
    define m where "m = foldl (\<lambda>s it. slice_merge (sl_msgs it) (sl_from it) (sl_till it) s) ?s bs"
    have m: "slice_ok m" "slice_range m = slice_range ?s \<union> covered bs"
        "set (sl_msgs m) = set (sl_msgs ?s) \<union> known bs"
      unfolding m_def using merge_all [OF s(1) _ ft, of bs] s(2) B Bb by auto
    have "r = \<lparr>ur_slices = xs @ m # ys, ur_changed = Some m,
        ur_added = length (sl_msgs m) - length (sl_msgs b)\<rparr>"
      using True p(2,4)
      by (simp add: r add_range_items_def unite_and_add_def Let_def b_def bs_def m_def)
    with m s Bb show ?thesis by (auto simp: slice_simps)
  next
    case False
    have none: "?B = []" using p(6) False by simp
    let ?n = "\<lparr>sl_msgs = asc_merge [] msgs, sl_from = f, sl_till = t\<rparr>"
    have "\<forall>s\<in>set xs. sl_from s < sl_from ?n"
      using out(1) oks(1) by (auto simp: slices_ok_def slice_ok_def intro: le_less_trans)
    moreover have "\<forall>s\<in>set ys. sl_from ?n < sl_from s" using out(2) ft by (auto intro: le_less_trans)
    moreover have "slices = xs @ ys" using p(1) none by simp
    ultimately have "slice_emplace ?n slices = (xs @ ?n # ys, ?n)"
      using slice_emplace_between [of xs ?n ys] by simp
    then have "r = \<lparr>ur_slices = xs @ ?n # ys, ur_changed = Some ?n, ur_added = length (sl_msgs ?n)\<rparr>"
      using False by (simp add: r add_range_items_def Let_def)
    moreover have "slice_ok ?n" "slice_range ?n = {f..t}" "set (sl_msgs ?n) = set msgs"
      using ft ms by (auto simp: slice_ok_def slice_range_def set_asc_merge strict_asc_merge)
    ultimately show ?thesis by (simp add: none slice_simps)
  qed
  then obtain m where m: "ur_slices r = xs @ m # ys" "ur_changed r = Some m"
    "ur_added r = length (sl_msgs m) - (case ?B of [] \<Rightarrow> 0 | b # _ \<Rightarrow> length (sl_msgs b))"
    "slice_ok m" "slice_range m = covered ?B \<union> {f..t}" "set (sl_msgs m) = known ?B \<union> set msgs"
    by blast
  have ends: "sl_from m \<in> covered ?B \<union> {f..t}" "sl_till m \<in> covered ?B \<union> {f..t}"
    using slice_ok_extremes [OF m(4)] m(5) by auto
  have left: "sl_till x < p" if "x \<in> set xs" "p \<in> covered ?B \<union> {f..t}" for x p
  proof (cases "p \<in> covered ?B")
    case True
    then obtain b where b: "b \<in> set ?B" "sl_from b \<le> p" by (auto simp: covered_def slice_range_def)
    have "sl_till x < sl_from b" using oks(4) that(1) b(1) by blast
    with b(2) show ?thesis by (rule less_le_trans [rotated])
  next
    case False
    with that have "f \<le> p" "sl_till x < f" using out(1) by auto
    then show ?thesis by (rule less_le_trans [rotated])
  qed
  have right: "p < sl_from y" if "y \<in> set ys" "p \<in> covered ?B \<union> {f..t}" for y p
  proof (cases "p \<in> covered ?B")
    case True
    then obtain b where b: "b \<in> set ?B" "p \<le> sl_till b" by (auto simp: covered_def slice_range_def)
    have "sl_till b < sl_from y" using oks(5) that(1) b(1) by blast
    with b(2) show ?thesis by (rule le_less_trans)
  next
    case False
    with that have "p \<le> t" "t < sl_from y" using out(2) by auto
    then show ?thesis by (rule le_less_trans)
  qed
  show "slices_ok (ur_slices r)"
    using oks(1,3,4) m(4) left [OF _ ends(1)] right [OF _ ends(2)]
    by (auto simp: m(1) slice_simps)
  show "covered (ur_slices r) = covered slices \<union> {f..t}" by (auto simp: m(1,5) slice_simps cov)
  show "known (ur_slices r) = known slices \<union> set msgs" by (auto simp: m(1,6) slice_simps kno)
  show "\<exists>s. ur_changed r = Some s \<and> s \<in> set (ur_slices r) \<and> {f..t} \<subseteq> slice_range s
      \<and> set (sl_msgs s) = known ?B \<union> set msgs
      \<and> ur_added r = length (sl_msgs s) - (case ?B of [] \<Rightarrow> 0 | m # _ \<Rightarrow> length (sl_msgs m))"
    using m by (intro exI [of _ m]) simp
qed

section \<open>Finding and removing a position\<close>

lemma slice_index_covered:
  assumes ok: "slices_ok slices"
  shows "case slice_index p slices of
      None \<Rightarrow> p \<notin> covered slices
    | Some i \<Rightarrow> i < length slices \<and> p \<in> slice_range (slices ! i)
        \<and> (\<forall>j<length slices. j \<noteq> i \<longrightarrow> p \<notin> slice_range (slices ! j))"
proof -
  define i where "i = lower_bound_by sl_till p slices"
  note split = slices_split(1,2) [OF ok order_refl i_def refl]
  have gap: "sl_till (slices ! a) < sl_from (slices ! b)" if "a < b" "b < length slices" for a b
    using ok that by (simp add: slices_ok_def sorted_wrt_iff_nth_less)
  have below: "p \<notin> slice_range (slices ! j)" if "j < i" "j < length slices" for j
  proof -
    have "slices ! j \<in> set (take i slices)" using that by (auto simp: in_set_conv_nth)
    then show ?thesis using split(1) by (auto simp: slice_range_def)
  qed
  have at: "p \<le> sl_till (slices ! i)" if "i < length slices"
  proof -
    have "slices ! i \<in> set (drop i slices)" using that by (metis Cons_nth_drop_Suc list.set_intros(1))
    then show ?thesis using split(2) by blast
  qed
  have above: "p \<notin> slice_range (slices ! j)" if "i < j" "j < length slices" for j
  proof -
    have "sl_till (slices ! i) < sl_from (slices ! j)" by (rule gap [OF that])
    moreover have "p \<le> sl_till (slices ! i)" using at that by simp
    ultimately have "p < sl_from (slices ! j)" by (rule le_less_trans [rotated])
    then show ?thesis by (auto simp: slice_range_def less_le_not_le)
  qed
  show ?thesis
  proof (cases "i < length slices \<and> sl_from (slices ! i) \<le> p")
    case True
    then have "slice_index p slices = Some i" by (simp add: slice_index_def i_def)
    with True at below above show ?thesis
      by (auto simp: slice_range_def [of "slices ! i"]) (metis nat_neq_iff)
  next
    case False
    then have none: "slice_index p slices = None" by (auto simp: slice_index_def i_def)
    have "p \<notin> slice_range (slices ! j)" if "j < length slices" for j
    proof (cases j i rule: linorder_cases)
      case equal
      with False that show ?thesis by (simp add: slice_range_def)
    qed (use below above that in blast)+
    then show ?thesis by (auto simp: none covered_def in_set_conv_nth)
  qed
qed

lemma slice_index_covers: "slices_ok slices \<Longrightarrow> p \<in> covered slices \<longleftrightarrow> slice_index p slices \<noteq> None"
  using slice_index_covered [of slices p] by (force simp: covered_def split: option.splits)

lemma slices_update_ok:
  assumes ok: "slices_ok slices" and i: "i < length slices"
    and s: "slice_ok s" "sl_from s = sl_from (slices ! i)" "sl_till s = sl_till (slices ! i)"
  shows "slices_ok (slices[i := s])" and "covered (slices[i := s]) = covered slices"
proof -
  have gap: "sl_till (slices ! a) < sl_from (slices ! b)" if "a < b" "b < length slices" for a b
    using ok that by (simp add: slices_ok_def sorted_wrt_iff_nth_less)
  have "sorted_wrt (\<lambda>a b. sl_till a < sl_from b) (slices[i := s])"
    unfolding sorted_wrt_iff_nth_less using gap s i by (simp add: nth_list_update)
  moreover have "\<forall>x\<in>set (slices[i := s]). slice_ok x"
    using ok s(1) set_update_subset_insert [of slices i s] by (auto simp: slices_ok_def)
  ultimately show "slices_ok (slices[i := s])" by (simp add: slices_ok_def)
  have cov: "covered xs = (\<Union>j<length xs. slice_range (xs ! j))" for xs :: "'a slice list"
    unfolding covered_def set_conv_nth by blast
  have "slice_range (slices[i := s] ! j) = slice_range (slices ! j)" if "j < length slices" for j
    using s(2,3) that by (cases "j = i") (simp_all add: slice_range_def)
  then show "covered (slices[i := s]) = covered slices" by (simp add: cov)
qed

lemma slices_remove_one_spec:
  assumes ok: "slices_ok slices"
  shows "slices_ok (slices_remove_one p slices)"
    and "covered (slices_remove_one p slices) = covered slices"
    and "known (slices_remove_one p slices) = known slices - {p}"
proof -
  note idx = slice_index_covered [OF ok, of p]
  show "slices_ok (slices_remove_one p slices)"
    and "covered (slices_remove_one p slices) = covered slices"
  proof (atomize (full), cases "slice_index p slices")
    case None
    then show "slices_ok (slices_remove_one p slices) \<and> covered (slices_remove_one p slices) = covered slices"
      using ok by (simp add: slices_remove_one_def)
  next
    case (Some i)
    then have i: "i < length slices" using idx by simp
    let ?s = "(slices ! i)\<lparr>sl_msgs := asc_remove p (sl_msgs (slices ! i))\<rparr>"
    have "slice_ok (slices ! i)" using ok i by (simp add: slices_ok_def)
    then have "slice_ok ?s"
      by (auto simp: slice_ok_def set_asc_remove strict_asc_remove slice_range_def)
    from slices_update_ok [OF ok i this] Some
    show "slices_ok (slices_remove_one p slices) \<and> covered (slices_remove_one p slices) = covered slices"
      by (simp add: slices_remove_one_def)
  qed
  have kno: "known xs = (\<Union>j<length xs. set (sl_msgs (xs ! j)))" for xs :: "'a slice list"
    unfolding known_def set_conv_nth [of xs] by blast
  have inr: "set (sl_msgs (slices ! j)) \<subseteq> slice_range (slices ! j)" if "j < length slices" for j
    using ok that by (simp add: slices_ok_def slice_ok_def)
  show "known (slices_remove_one p slices) = known slices - {p}"
  proof (cases "slice_index p slices")
    case None
    then show ?thesis using idx known_covered [OF ok] by (auto simp: slices_remove_one_def)
  next
    case (Some i)
    let ?xs = "slices_remove_one p slices"
    have xs: "?xs = slices[i := (slices ! i)\<lparr>sl_msgs := asc_remove p (sl_msgs (slices ! i))\<rparr>]"
      by (simp add: slices_remove_one_def Some)
    have "set (sl_msgs (?xs ! j)) = set (sl_msgs (slices ! j)) - {p}" if "j < length slices" for j
    proof (cases "j = i")
      case True
      then show ?thesis using that by (simp add: xs set_asc_remove)
    next
      case False
      then have "p \<notin> set (sl_msgs (slices ! j))" using idx Some inr that by auto
      then show ?thesis using False by (simp add: xs)
    qed
    then show ?thesis unfolding kno by (auto simp: xs)
  qed
qed

section \<open>The contract: what is known stays true\<close>

text \<open>
  The server's list is a set \<open>T\<close> of positions that changes. A client that only learns parts of it
  is truthful when inside the parts it covers it knows exactly what exists.
\<close>

datatype 'a part_event =
  Loaded "'a list" 'a 'a
| Appeared 'a 'a
| Vanished 'a

locale known_parts =
  fixes covers :: "'s \<Rightarrow> 'a::linorder set"
    and knows :: "'s \<Rightarrow> 'a set"
    and ok :: "'s \<Rightarrow> bool"
    and add :: "'a list \<Rightarrow> 'a \<Rightarrow> 'a \<Rightarrow> 's \<Rightarrow> 's"
    and del :: "'a \<Rightarrow> 's \<Rightarrow> 's"
  assumes knows_covers: "ok s \<Longrightarrow> knows s \<subseteq> covers s"
    and ok_add: "ok s \<Longrightarrow> f \<le> t \<Longrightarrow> set ms \<subseteq> {f..t} \<Longrightarrow> ok (add ms f t s)"
    and covers_add: "ok s \<Longrightarrow> f \<le> t \<Longrightarrow> set ms \<subseteq> {f..t} \<Longrightarrow> covers (add ms f t s) = covers s \<union> {f..t}"
    and knows_add: "ok s \<Longrightarrow> f \<le> t \<Longrightarrow> set ms \<subseteq> {f..t} \<Longrightarrow> knows (add ms f t s) = knows s \<union> set ms"
    and ok_del: "ok s \<Longrightarrow> ok (del p s)"
    and covers_del: "ok s \<Longrightarrow> covers (del p s) = covers s"
    and knows_del: "ok s \<Longrightarrow> knows (del p s) = knows s - {p}"
begin

definition truthful :: "'a set \<Rightarrow> 's \<Rightarrow> bool" where
  "truthful T s \<longleftrightarrow> ok s \<and> knows s = T \<inter> covers s"

lemma truthful_load:
  assumes "truthful T s" and "f \<le> t" and "set ms = T \<inter> {f..t}"
  shows "truthful T (add ms f t s)"
  using assms covers_add [of s f t ms] knows_add [of s f t ms] ok_add [of s f t ms]
  by (auto simp: truthful_def)

text \<open>A new last element: nothing else exists from it to the end of the range.\<close>

lemma truthful_appear:
  assumes "truthful T s" and "p \<le> t" and "T \<inter> {p..t} \<subseteq> {p}"
  shows "truthful (insert p T) (add [p] p t s)"
  using assms covers_add [of s p t "[p]"] knows_add [of s p t "[p]"] ok_add [of s p t "[p]"]
  by (auto simp: truthful_def)

lemma truthful_vanish: "truthful T s \<Longrightarrow> truthful (T - {p}) (del p s)"
  using covers_del [of s p] knows_del [of s p] ok_del [of s p] by (auto simp: truthful_def)

fun event_world :: "'a part_event \<Rightarrow> 'a set \<Rightarrow> 'a set" where
  "event_world (Loaded ms f t) T = T"
| "event_world (Appeared p t) T = insert p T"
| "event_world (Vanished p) T = T - {p}"

fun event_true :: "'a part_event \<Rightarrow> 'a set \<Rightarrow> bool" where
  "event_true (Loaded ms f t) T = (f \<le> t \<and> set ms = T \<inter> {f..t})"
| "event_true (Appeared p t) T = (p \<le> t \<and> T \<inter> {p..t} \<subseteq> {p})"
| "event_true (Vanished p) T = True"

fun event_step :: "'a part_event \<Rightarrow> 's \<Rightarrow> 's" where
  "event_step (Loaded ms f t) s = add ms f t s"
| "event_step (Appeared p t) s = add [p] p t s"
| "event_step (Vanished p) s = del p s"

fun events_true :: "'a part_event list \<Rightarrow> 'a set \<Rightarrow> bool" where
  "events_true [] T = True"
| "events_true (e # es) T = (event_true e T \<and> events_true es (event_world e T))"

lemma truthful_run:
  "truthful T s \<Longrightarrow> events_true es T \<Longrightarrow>
     truthful (fold event_world es T) (fold event_step es s)"
proof (induction es arbitrary: T s)
  case Nil
  then show ?case by simp
next
  case (Cons e es)
  have "truthful (event_world e T) (event_step e s)"
    using Cons.prems by (cases e) (auto intro: truthful_load truthful_appear truthful_vanish)
  with Cons show ?case by simp
qed

end

interpretation slice_parts: known_parts covered known slices_ok
  "\<lambda>ms f t s. ur_slices (add_range_items ms f t s)" slices_remove_one
  by unfold_locales
    (simp_all add: known_covered add_range_items_spec(1-3) slices_remove_one_spec)

section \<open>Truth of the single slices\<close>

lemma slice_truth:
  assumes "slices_ok slices" and "known slices = T \<inter> covered slices" and "s \<in> set slices"
  shows "set (sl_msgs s) = T \<inter> slice_range s"
proof -
  have gap: "r = s \<or> sl_till r < sl_from s \<or> sl_till s < sl_from r" if r: "r \<in> set slices" for r
  proof -
    obtain i where i: "i < length slices" "slices ! i = r" using r [unfolded in_set_conv_nth] by blast
    obtain j where j: "j < length slices" "slices ! j = s" using assms(3) [unfolded in_set_conv_nth] by blast
    have "sl_till (slices ! a) < sl_from (slices ! b)" if "a < b" "b < length slices" for a b
      using assms(1) that by (simp add: slices_ok_def sorted_wrt_iff_nth_less)
    with i j show ?thesis by (cases i j rule: linorder_cases) auto
  qed
  have sub: "set (sl_msgs r) \<subseteq> slice_range r" if "r \<in> set slices" for r
    using assms(1) that by (simp add: slices_ok_def slice_ok_def)
  show ?thesis
  proof (intro equalityI subsetI)
    fix x
    assume x: "x \<in> set (sl_msgs s)"
    then have "x \<in> known slices" using assms(3) by (auto simp: known_def)
    then show "x \<in> T \<inter> slice_range s" using assms(2) x sub [OF assms(3)] by blast
  next
    fix x
    assume x: "x \<in> T \<inter> slice_range s"
    then have "x \<in> known slices" using assms(2,3) by (auto simp: covered_def)
    then obtain r where r: "r \<in> set slices" "x \<in> set (sl_msgs r)" by (auto simp: known_def)
    moreover from r have "x \<in> slice_range r" using sub by blast
    ultimately show "x \<in> set (sl_msgs s)" using gap [of r] x by (force simp: slice_range_def)
  qed
qed

lemma slices_invalidate_truthful:
  assumes s: "slice_parts.truthful T slices"
  shows "slice_parts.truthful T (slices_invalidate_bottom final slices)"
proof (cases "slices \<noteq> [] \<and> sl_till (last (slices)) = final")
  case False
  then show ?thesis
    unfolding slices_invalidate_bottom_def if_not_P [OF False] using s by simp
next
  case True
  have p: "slices_ok slices" "known slices = T \<inter> covered slices"
    using s by (simp_all add: slice_parts.truthful_def)
  define l where "l = last (slices)"
  define b where "b = butlast (slices)"
  define till' where "till' = (if sl_msgs l = [] then sl_from l else last (sl_msgs l))"
  have bl: "slices = b @ [l]" using True by (simp add: b_def l_def)
  have ok: "slices_ok b" "slice_ok l" "\<forall>x\<in>set b. sl_till x < sl_from l"
    using p(1) by (simp_all add: bl slice_simps)
  have tr: "set (sl_msgs l) = T \<inter> slice_range l"
    using slice_truth [OF p, of l] by (simp add: bl)
  have asc: "strict_asc (sl_msgs l)" "set (sl_msgs l) \<subseteq> slice_range l" "sl_from l \<le> sl_till l"
    using ok(2) by (simp_all add: slice_ok_def)
  have top: "x \<le> till'" if "x \<in> set (sl_msgs l)" for x
    using strict_asc_last [OF asc(1) that] that by (auto simp: till'_def)
  have bounds: "sl_from l \<le> till'" "till' \<le> sl_till l"
    using asc(2,3) subsetD [OF asc(2) last_in_set [of "sl_msgs l"]]
    by (auto simp: till'_def slice_range_def)
  have l': "slice_ok (l\<lparr>sl_till := till'\<rparr>)"
    using asc top bounds by (auto simp: slice_ok_def slice_range_def)
  have range': "slice_range (l\<lparr>sl_till := till'\<rparr>) = {sl_from l..till'}" by (simp add: slice_range_def)
  have "set (sl_msgs l) = T \<inter> {sl_from l..till'}"
    using tr top bounds by (auto simp: slice_range_def)
  moreover have "known b = T \<inter> covered b"
  proof -
    have "set (sl_msgs r) = T \<inter> slice_range r" if "r \<in> set b" for r
      using slice_truth [OF p, of r] that by (simp add: bl)
    then show ?thesis by (auto simp: known_def covered_def)
  qed
  ultimately have "slice_parts.truthful T (b @ [l\<lparr>sl_till := till'\<rparr>])"
    using ok l' unfolding slice_parts.truthful_def by (auto simp: slice_simps range')
  moreover have "slices_invalidate_bottom final slices = b @ [l\<lparr>sl_till := till'\<rparr>]"
    unfolding slices_invalidate_bottom_def if_P [OF True] by (simp add: b_def l_def till'_def)
  ultimately show ?thesis by simp
qed

text \<open>The number of elements a new one adds.\<close>

lemma add_new_added:
  assumes ok: "slices_ok slices" and kn: "known slices = T \<inter> covered slices"
    and i: "i \<notin> T" "T \<inter> {i..t} = {}" "i \<le> t" and T: "T \<subseteq> {..t} \<or> t = i"
  shows "ur_added (add_range_items [i] i t slices) = 1"
proof -
  have sub: "set [i] \<subseteq> {i..t}" using i(3) by simp
  obtain s where s: "ur_changed (add_range_items [i] i t slices) = Some s"
    "s \<in> set (ur_slices (add_range_items [i] i t slices))"
    "set (sl_msgs s) = known (meeting i t slices) \<union> set [i]"
    "ur_added (add_range_items [i] i t slices) = length (sl_msgs s)
      - (case meeting i t slices of [] \<Rightarrow> 0 | m # _ \<Rightarrow> length (sl_msgs m))"
    using add_range_items_spec(4) [OF ok i(3) sub refl] by blast
  have "slice_ok s"
    using add_range_items_spec(1) [OF ok i(3) sub refl] s(2) by (simp add: slices_ok_def)
  then have len: "length (sl_msgs s) = card (insert i (known (meeting i t slices)))"
    using s(3) strict_asc_card [of "sl_msgs s"] by (simp add: slice_ok_def)
  have okm: "slices_ok (meeting i t slices)"
    using ok by (simp add: slices_ok_def meeting_def sorted_wrt_filter)
  have knT: "known (meeting i t slices) \<subseteq> T"
    using kn by (auto simp: known_def meeting_def)
  have out: "i \<notin> known (meeting i t slices)" using knT i(1) by blast
  show ?thesis
  proof (cases "meeting i t slices")
    case Nil
    with len s(4) show ?thesis by (simp add: slice_simps)
  next
    case (Cons m ms)
    have m: "slice_ok m" "\<forall>r\<in>set ms. sl_till m < sl_from r" using okm by (simp_all add: Cons slice_simps)
    have "m \<in> set (meeting i t slices)" by (simp add: Cons)
    then have meet: "i \<le> sl_till m" by (simp add: meeting_def)
    have "set (sl_msgs r) = {}" if r: "r \<in> set ms" for r
    proof (rule ccontr)
      assume "set (sl_msgs r) \<noteq> {}"
      then obtain x where x: "x \<in> set (sl_msgs r)" by (auto simp: ex_in_conv [symmetric] simp del: set_empty)
      have "slice_ok r" using okm r by (simp add: Cons slices_ok_def)
      then have "sl_from r \<le> x" using x by (auto simp: slice_ok_def slice_range_def)
      moreover have "sl_till m < sl_from r" using m(2) r by blast
      moreover have "sl_from r \<le> t" using r Cons by (auto simp: meeting_def filter_eq_Cons_iff)
      ultimately have "i < x" "t \<noteq> i" using meet by auto
      moreover have "x \<in> T" using knT x r by (auto simp: Cons known_def)
      ultimately have "x \<in> T \<inter> {i..t}" using T by auto
      with i(2) show False by simp
    qed
    then have "known ms = {}" by (simp add: known_def)
    then have "known (meeting i t slices) = set (sl_msgs m)" by (simp add: Cons slice_simps)
    with out len s(4) m(1) show ?thesis
      by (simp add: Cons slice_ok_def strict_asc_card)
  qed
qed

section \<open>Reading a window\<close>

record 'a query_result =
  qr_count :: "int option"
  qr_before :: "int option"
  qr_after :: "int option"
  qr_ids :: "'a list"

definition empty_result :: "'a query_result" where
  "empty_result = \<lparr>qr_count = None, qr_before = None, qr_after = None, qr_ids = []\<rparr>"

text \<open>\<open>queryFromSlice\<close>; \<open>first\<close> and \<open>final\<close> are the least and the greatest position of the list.\<close>

definition query_from_slice ::
  "'a::linorder \<Rightarrow> 'a \<Rightarrow> int option \<Rightarrow> 'a \<Rightarrow> int \<Rightarrow> int \<Rightarrow> 'a slice \<Rightarrow> 'a query_result" where
  "query_from_slice first final cnt around limit_before limit_after s =
     (let position = lower_bound_by (\<lambda>x. x) around (sl_msgs s);
        have_before = int position;
        have_equal_or_after = int (length (sl_msgs s) - position);
        before = min have_before limit_before;
        equal_or_after = min have_equal_or_after (limit_after + 1);
        ids = take (nat (before + equal_or_after)) (drop (nat (have_before - before)) (sl_msgs s));
        message_ids = asc_merge [] ids;
        skipped_before = (if sl_from s = first then Some (have_before - before) else None);
        skipped_after = (if sl_till s = final then Some (have_equal_or_after - equal_or_after) else None) in
      case cnt of
        None \<Rightarrow> \<lparr>qr_count = None, qr_before = skipped_before, qr_after = skipped_after, qr_ids = message_ids\<rparr>
      | Some c \<Rightarrow>
          (case (skipped_before, skipped_after) of
             (None, Some a) \<Rightarrow> \<lparr>qr_count = Some c, qr_before = Some (c - a - int (length message_ids)),
               qr_after = Some a, qr_ids = message_ids\<rparr>
           | (Some b, None) \<Rightarrow> \<lparr>qr_count = Some c, qr_before = Some b,
               qr_after = Some (c - b - int (length message_ids)), qr_ids = message_ids\<rparr>
           | _ \<Rightarrow> \<lparr>qr_count = Some c, qr_before = skipped_before, qr_after = skipped_after,
               qr_ids = message_ids\<rparr>))"

text \<open>
  What a window promises about the list \<open>T\<close>: it is a gapless part of it around the position, as
  long as the limits and the slice allow, and the numbers of skipped elements are exact.
\<close>

definition window_true :: "'a::linorder set \<Rightarrow> 'a set \<Rightarrow> 'a \<Rightarrow> int \<Rightarrow> int \<Rightarrow> 'a query_result \<Rightarrow> bool" where
  "window_true T part around limit_before limit_after r \<longleftrightarrow>
     (let W = set (qr_ids r); low = {w\<in>W. w < around}; high = {w\<in>W. around \<le> w} in
      strict_asc (qr_ids r) \<and> W \<subseteq> T
      \<and> (\<forall>w\<in>low. \<forall>z\<in>T. w \<le> z \<and> z < around \<longrightarrow> z \<in> W)
      \<and> (\<forall>w\<in>high. \<forall>z\<in>T. around \<le> z \<and> z \<le> w \<longrightarrow> z \<in> W)
      \<and> int (card low) = min (int (card {z\<in>T \<inter> part. z < around})) limit_before
      \<and> int (card high) = min (int (card {z\<in>T \<inter> part. around \<le> z})) (limit_after + 1)
      \<and> (\<forall>n. qr_before r = Some n \<longrightarrow> n = int (card {z\<in>T. z < around}) - int (card low))
      \<and> (\<forall>n. qr_after r = Some n \<longrightarrow> n = int (card {z\<in>T. around \<le> z}) - int (card high)))"

lemma asc_merge_id:
  assumes "strict_asc xs"
  shows "asc_merge [] xs = xs"
proof (rule strict_asc_unique)
  show "strict_asc (asc_merge [] xs)" by (rule strict_asc_merge) simp
qed (simp_all add: assms set_asc_merge)

text \<open>The lists behind the window: what is before the position, and what is not.\<close>

lemma window_ids:
  assumes asc: "strict_asc msgs" and lim: "0 \<le> lb" "0 \<le> la"
    and p: "position = lower_bound_by (\<lambda>x. x) around msgs"
  defines "L \<equiv> take position msgs" and "R \<equiv> drop position msgs"
  defines "before \<equiv> min (int position) lb" and "after \<equiv> min (int (length msgs - position)) (la + 1)"
  shows "take (nat (before + after)) (drop (nat (int position - before)) msgs)
      = drop (length L - nat before) L @ take (nat after) R"
    and "set L = {m\<in>set msgs. m < around}" and "set R = {m\<in>set msgs. around \<le> m}"
    and "length L = position" and "length R = length msgs - position"
    and "strict_asc L" and "strict_asc R" and "0 \<le> before" and "before \<le> int position"
    and "0 \<le> after" and "after \<le> int (length R)"
proof -
  have pos: "position \<le> length msgs" by (simp add: p lower_bound_le)
  have sorted: "sorted_wrt (\<lambda>a b. a \<le> b) msgs" using asc by (simp add: strict_sorted_iff)
  show "set L = {m\<in>set msgs. m < around}" "set R = {m\<in>set msgs. around \<le> m}"
    using bound_splits(1,2) [of "\<lambda>x. x" msgs _ around] sorted by (auto simp: L_def R_def p)
  show len: "length L = position" "length R = length msgs - position" using pos by (simp_all add: L_def R_def)
  show "strict_asc L" "strict_asc R" using asc by (simp_all add: L_def R_def sorted_wrt_take sorted_wrt_drop)
  show b: "0 \<le> before" "before \<le> int position" "0 \<le> after" "after \<le> int (length R)"
    using lim by (simp_all add: before_def after_def len)
  have n: "nat (int position - before) = length L - nat before" "nat before \<le> length L"
    using b len by linarith+
  have "msgs = L @ R" by (simp add: L_def R_def)
  then have "drop (nat (int position - before)) msgs = drop (length L - nat before) L @ R"
    by (simp add: n(1))
  moreover have "length (drop (length L - nat before) L) = nat before" using n(2) by simp
  moreover have "nat (before + after) = nat before + nat after" using b by (simp add: nat_add_distrib)
  ultimately show "take (nat (before + after)) (drop (nat (int position - before)) msgs)
      = drop (length L - nat before) L @ take (nat after) R" by simp
qed

lemma strict_asc_tail_closed:
  assumes "strict_asc xs" and "w \<in> set (drop n xs)" and "z \<in> set xs" and "w \<le> z"
  shows "z \<in> set (drop n xs)"
proof -
  have "strict_asc (take n xs @ drop n xs)" using assms(1) by simp
  then have "\<forall>a\<in>set (take n xs). \<forall>b\<in>set (drop n xs). a < b" unfolding sorted_wrt_append by blast
  moreover have "set xs = set (take n xs) \<union> set (drop n xs)" by (metis append_take_drop_id set_append)
  ultimately show ?thesis using assms(2-4) by (metis Un_iff leD)
qed

lemma strict_asc_head_closed:
  assumes "strict_asc xs" and "w \<in> set (take n xs)" and "z \<in> set xs" and "z \<le> w"
  shows "z \<in> set (take n xs)"
proof -
  have "strict_asc (take n xs @ drop n xs)" using assms(1) by simp
  then have "\<forall>a\<in>set (take n xs). \<forall>b\<in>set (drop n xs). a < b" unfolding sorted_wrt_append by blast
  moreover have "set xs = set (take n xs) \<union> set (drop n xs)" by (metis append_take_drop_id set_append)
  ultimately show ?thesis using assms(2-4) by (metis Un_iff leD)
qed

lemma split_at:
  fixes a :: "'a::linorder"
  assumes "A \<subseteq> {m. m < a}" and "B \<subseteq> {m. a \<le> m}"
  shows "{m\<in>A \<union> B. m < a} = A" and "{m\<in>A \<union> B. a \<le> m} = B"
  using assms by (fastforce simp: subset_iff not_less)+

lemma query_window:
  assumes s: "slice_ok s" and around: "around \<in> slice_range s"
    and T: "set (sl_msgs s) = T \<inter> slice_range s" "T \<subseteq> {first..final}" "finite T"
    and c: "\<And>c. cnt = Some c \<Longrightarrow> c = int (card T)" and lim: "0 \<le> lb" "0 \<le> la"
  shows "window_true T (slice_range s) around lb la (query_from_slice first final cnt around lb la s)"
    and "qr_count (query_from_slice first final cnt around lb la s) = cnt"
proof -
  define msgs where "msgs = sl_msgs s"
  define position where "position = lower_bound_by (\<lambda>x. x) around msgs"
  define L where "L = take position msgs"
  define R where "R = drop position msgs"
  define before where "before = min (int position) lb"
  define after where "after = min (int (length msgs - position)) (la + 1)"
  define ids where "ids = drop (length L - nat before) L @ take (nat after) R"
  have asc: "strict_asc msgs" using s by (simp add: slice_ok_def msgs_def)
  note w = window_ids [OF asc lim position_def, folded L_def R_def before_def after_def]
  have msgs: "set msgs = T \<inter> slice_range s" using T(1) by (simp add: msgs_def)
  have LR: "msgs = L @ R" by (simp add: L_def R_def)
  have sides: "set (drop n L) \<subseteq> {m. m < around}" "set (take n R) \<subseteq> {m. around \<le> m}" for n
    using w(2,3) set_drop_subset [of n L] set_take_subset [of n R] by blast+
  have asc_ids: "strict_asc ids"
    unfolding ids_def sorted_wrt_append
  proof (intro conjI ballI)
    fix x y
    assume "x \<in> set (drop (length L - nat before) L)" "y \<in> set (take (nat after) R)"
    with sides have "x < around" "around \<le> y" by blast+
    then show "x < y" by (rule less_le_trans)
  qed (simp_all add: w(6,7) sorted_wrt_take sorted_wrt_drop)
  have low: "{m\<in>set ids. m < around} = set (drop (length L - nat before) L)"
    and high: "{m\<in>set ids. around \<le> m} = set (take (nat after) R)"
    unfolding ids_def set_append using split_at [OF sides] by blast+
  have card_low: "int (card {m\<in>set ids. m < around}) = before"
    using w(4,6,8,9) by (simp add: low strict_asc_card sorted_wrt_drop)
  have card_high: "int (card {m\<in>set ids. around \<le> m}) = after"
    using w(7,10,11) by (simp add: high strict_asc_card sorted_wrt_take)
  have part: "{z\<in>T \<inter> slice_range s. z < around} = set L" "{z\<in>T \<inter> slice_range s. around \<le> z} = set R"
    using w(2,3) msgs by auto
  have cardLR: "card (set L) = position" "card (set R) = length msgs - position"
    using w(4-7) by (simp_all add: strict_asc_card)
  have len_ids: "int (length ids) = before + after"
    using w(4,8-11) by (simp add: ids_def)
  have T_split: "int (card T) = int (card {z\<in>T. z < around}) + int (card {z\<in>T. around \<le> z})"
  proof -
    have "T = {z\<in>T. z < around} \<union> {z\<in>T. around \<le> z}" by auto
    moreover have "card ({z\<in>T. z < around} \<union> {z\<in>T. around \<le> z})
        = card {z\<in>T. z < around} + card {z\<in>T. around \<le> z}"
      using T(3) by (intro card_Un_disjoint) auto
    ultimately have "card T = card {z\<in>T. z < around} + card {z\<in>T. around \<le> z}" by simp
    then show ?thesis by simp
  qed
  have from_first: "int (card {z\<in>T. z < around}) = int position" if "sl_from s = first"
  proof -
    have "{z\<in>T. z < around} = {z\<in>T \<inter> slice_range s. z < around}"
      using that T(2) around by (auto simp: slice_range_def)
    then show ?thesis using part(1) cardLR(1) by simp
  qed
  have till_final: "int (card {z\<in>T. around \<le> z}) = int (length msgs - position)" if "sl_till s = final"
  proof -
    have "{z\<in>T. around \<le> z} = {z\<in>T \<inter> slice_range s. around \<le> z}"
      using that T(2) around by (auto simp: slice_range_def)
    then show ?thesis using part(2) cardLR(2) by simp
  qed
  define r where "r = query_from_slice first final cnt around lb la s"
  have r: "r = (let sb = (if sl_from s = first then Some (int position - before) else None);
      sa = (if sl_till s = final then Some (int (length msgs - position) - after) else None) in
      case cnt of
        None \<Rightarrow> \<lparr>qr_count = None, qr_before = sb, qr_after = sa, qr_ids = ids\<rparr>
      | Some c \<Rightarrow>
          (case (sb, sa) of
             (None, Some a) \<Rightarrow> \<lparr>qr_count = Some c, qr_before = Some (c - a - int (length ids)),
               qr_after = Some a, qr_ids = ids\<rparr>
           | (Some b, None) \<Rightarrow> \<lparr>qr_count = Some c, qr_before = Some b,
               qr_after = Some (c - b - int (length ids)), qr_ids = ids\<rparr>
           | _ \<Rightarrow> \<lparr>qr_count = Some c, qr_before = sb, qr_after = sa, qr_ids = ids\<rparr>))"
    unfolding r_def query_from_slice_def Let_def
    by (simp only: msgs_def [symmetric] position_def [symmetric] before_def [symmetric] after_def [symmetric]
        w(1) ids_def [symmetric] asc_merge_id [OF asc_ids])
  have ids: "qr_ids r = ids" by (simp add: r Let_def split: option.split)
  have sb: "n = int (card {z\<in>T. z < around}) - before" if "qr_before r = Some n" for n
  proof (cases "sl_from s = first")
    case True
    with that from_first show ?thesis by (auto simp: r Let_def split: option.splits if_splits)
  next
    case False
    with that obtain k where "cnt = Some k" "sl_till s = final"
        "n = k - (int (length msgs - position) - after) - int (length ids)"
      by (auto simp: r Let_def split: option.splits if_splits)
    with c T_split till_final len_ids show ?thesis by simp
  qed
  have sa: "n = int (card {z\<in>T. around \<le> z}) - after" if "qr_after r = Some n" for n
  proof (cases "sl_till s = final")
    case True
    with that till_final show ?thesis by (auto simp: r Let_def split: option.splits if_splits)
  next
    case False
    with that obtain k where "cnt = Some k" "sl_from s = first"
        "n = k - (int position - before) - int (length ids)"
      by (auto simp: r Let_def split: option.splits if_splits)
    with c T_split from_first len_ids show ?thesis by simp
  qed
  have inL: "z \<in> set L \<longleftrightarrow> z \<in> T \<and> z \<in> slice_range s \<and> z < around"
    and inR: "z \<in> set R \<longleftrightarrow> z \<in> T \<and> z \<in> slice_range s \<and> around \<le> z" for z
    unfolding part [symmetric] by simp_all
  have between: "z \<in> slice_range s" if "v \<in> slice_range s" "(v \<le> z \<and> z < around) \<or> (around \<le> z \<and> z \<le> v)" for v z
    using that around by (auto simp: slice_range_def)
  have closed_low: "z \<in> set ids" if "v \<in> set ids" "v < around" "z \<in> T" "v \<le> z" "z < around" for v z
  proof -
    have v: "v \<in> set (drop (length L - nat before) L)" using that(1,2) low by blast
    then have "v \<in> set L" by (rule in_set_dropD)
    then have "z \<in> set L" using that between [of v z] by (simp add: inL)
    then have "z \<in> set (drop (length L - nat before) L)"
      by (rule strict_asc_tail_closed [OF w(6) v _ that(4)])
    then show ?thesis using low by blast
  qed
  have closed_high: "z \<in> set ids" if "v \<in> set ids" "around \<le> v" "z \<in> T" "around \<le> z" "z \<le> v" for v z
  proof -
    have v: "v \<in> set (take (nat after) R)" using that(1,2) high by blast
    then have "v \<in> set R" by (rule in_set_takeD)
    then have "z \<in> set R" using that between [of v z] by (simp add: inR)
    then have "z \<in> set (take (nat after) R)"
      by (rule strict_asc_head_closed [OF w(7) v _ that(5)])
    then show ?thesis using high by blast
  qed
  have sub: "set ids \<subseteq> T"
    unfolding ids_def set_append
  proof (intro Un_least subsetI)
    show "z \<in> T" if "z \<in> set (drop (length L - nat before) L)" for z
      using in_set_dropD [OF that] by (simp add: inL)
    show "z \<in> T" if "z \<in> set (take (nat after) R)" for z
      using in_set_takeD [OF that] by (simp add: inR)
  qed
  have "window_true T (slice_range s) around lb la r"
    unfolding window_true_def Let_def ids card_low card_high part cardLR
  proof (intro conjI)
    show "\<forall>v\<in>{v\<in>set ids. v < around}. \<forall>z\<in>T. v \<le> z \<and> z < around \<longrightarrow> z \<in> set ids"
      using closed_low by blast
    show "\<forall>v\<in>{v\<in>set ids. around \<le> v}. \<forall>z\<in>T. around \<le> z \<and> z \<le> v \<longrightarrow> z \<in> set ids"
      using closed_high by blast
    show "before = min (int position) lb" by (rule before_def)
    show "after = min (int (length msgs - position)) (la + 1)" by (rule after_def)
    show "\<forall>n. qr_before r = Some n \<longrightarrow> n = int (card {z\<in>T. z < around}) - before" using sb by blast
    show "\<forall>n. qr_after r = Some n \<longrightarrow> n = int (card {z\<in>T. around \<le> z}) - after" using sa by blast
  qed (rule asc_ids, rule sub)
  then show "window_true T (slice_range s) around lb la (query_from_slice first final cnt around lb la s)"
    by (simp add: r_def)
  show "qr_count (query_from_slice first final cnt around lb la s) = cnt"
    unfolding r_def [symmetric] r by (simp add: Let_def split: option.split)
qed

end
