(* ===== verification/SparseIds.thy ===== *)
theory SparseIds
  imports Slices
begin

text \<open>
  The partially known list of message ids behind shared media, pinned messages and the like
  (\<open>Storage::SparseIdsList\<close>, \<open>storage/storage_sparse_ids_list\<close>): slices of ids that are known
  without holes, and the total count when the server told it.

  A \<open>MsgId\<close> is an integer, \<open>optional<int>\<close> an option. What \<open>_sliceUpdated\<close> fires is returned as
  the second component; subscriptions themselves (\<open>rpl\<close>) are not modelled, except that \<open>query\<close>
  gives the list of values it puts.
\<close>

type_synonym ids_slice = "int slice"

record sparse_ids =
  si_count :: "int option"
  si_slices :: "ids_slice list"

record sparse_update =
  su_messages :: "int list option"
  su_range :: "int \<times> int"
  su_count :: "int option"

definition server_max_msg_id :: int where
  "server_max_msg_id = 2 ^ 56"

section \<open>Operations\<close>

text \<open>\<open>Slice::merge\<close> of this class inserts a single message directly; the result is the same set.\<close>

definition sparse_slice_merge :: "int list \<Rightarrow> int \<Rightarrow> int \<Rightarrow> ids_slice \<Rightarrow> ids_slice" where
  "sparse_slice_merge msgs f t s =
     \<lparr>sl_msgs = (case msgs of
        [] \<Rightarrow> sl_msgs s
      | [m] \<Rightarrow> asc_insert m (sl_msgs s)
      | _ \<Rightarrow> asc_merge (sl_msgs s) msgs),
      sl_from = min (sl_from s) f, sl_till = max (sl_till s) t\<rparr>"

definition sparse_unite_and_add ::
  "nat \<Rightarrow> nat \<Rightarrow> int list \<Rightarrow> int \<Rightarrow> int \<Rightarrow> ids_slice list \<Rightarrow> int unite_result" where
  "sparse_unite_and_add unite_from unite_till msgs f t slices =
     (let was = length (sl_msgs (slices ! unite_from));
        first_to_erase = unite_from + 1;
        merged = foldl (\<lambda>s it. sparse_slice_merge (sl_msgs it) (sl_from it) (sl_till it) s)
          (sparse_slice_merge msgs f t (slices ! unite_from))
          (take (unite_till - first_to_erase) (drop first_to_erase slices)) in
      \<lparr>ur_slices = take unite_from slices @ merged # drop unite_till slices,
       ur_changed = Some merged,
       ur_added = length (sl_msgs merged) - was\<rparr>)"

definition sparse_add_range_items ::
  "int list \<Rightarrow> int \<Rightarrow> int \<Rightarrow> ids_slice list \<Rightarrow> int unite_result" where
  "sparse_add_range_items msgs f t slices =
     (if f = t \<and> msgs = [] then \<lparr>ur_slices = slices, ur_changed = None, ur_added = 0\<rparr>
      else let unite_from = lower_bound_by sl_till f slices;
        unite_till = upper_bound_by sl_from t slices in
      if unite_from < unite_till then sparse_unite_and_add unite_from unite_till msgs f t slices
      else let (slices', s) = slice_emplace \<lparr>sl_msgs = asc_merge [] msgs, sl_from = f, sl_till = t\<rparr> slices in
        \<lparr>ur_slices = slices', ur_changed = Some s, ur_added = length (sl_msgs s)\<rparr>)"

text \<open>The single slice of \<open>addRange\<close>: it is widened when it holds as many ids as exist.\<close>

definition sparse_close_single :: "ids_slice list \<Rightarrow> int option \<Rightarrow> ids_slice list \<times> int option" where
  "sparse_close_single slices cnt =
     (case slices of
        [only] \<Rightarrow>
          let only' = (case cnt of
                Some c \<Rightarrow>
                  if int (length (sl_msgs only)) \<ge> c
                  then only\<lparr>sl_from := 0, sl_till := server_max_msg_id\<rparr> else only
              | None \<Rightarrow> only) in
          ([only'],
           if sl_from only' = 0 \<and> sl_till only' = server_max_msg_id
           then Some (int (length (sl_msgs only'))) else cnt)
      | _ \<Rightarrow> (slices, cnt))"

definition sparse_add_range ::
  "int list \<Rightarrow> int \<Rightarrow> int \<Rightarrow> int option \<Rightarrow> bool \<Rightarrow> sparse_ids \<Rightarrow> sparse_ids \<times> sparse_update" where
  "sparse_add_range msgs f t cnt increment s =
     (let r = sparse_add_range_items msgs f t (si_slices s);
        count1 = (case cnt of
            Some c \<Rightarrow> Some c
          | None \<Rightarrow>
              (case si_count s of
                 Some c \<Rightarrow> Some (if increment \<and> ur_added r > 0 then c + int (ur_added r) else c)
               | None \<Rightarrow> None));
        (slices, count2) = sparse_close_single (ur_slices r) count1;
        count3 = (case (count2, ur_changed r) of
            (Some c, Some m) \<Rightarrow> Some (max c (int (length (sl_msgs m))))
          | _ \<Rightarrow> count2) in
      (\<lparr>si_count = count3, si_slices = slices\<rparr>,
       \<lparr>su_messages = map_option sl_msgs (ur_changed r),
        su_range = (case ur_changed r of Some m \<Rightarrow> (sl_from m, sl_till m) | None \<Rightarrow> (0, 0)),
        su_count = count3\<rparr>))"

definition sparse_add_new :: "int \<Rightarrow> sparse_ids \<Rightarrow> sparse_ids \<times> sparse_update" where
  "sparse_add_new i s = sparse_add_range [i] i server_max_msg_id None True s"

definition sparse_add_existing :: "int \<Rightarrow> int \<Rightarrow> int \<Rightarrow> sparse_ids \<Rightarrow> sparse_ids \<times> sparse_update" where
  "sparse_add_existing i f t s = sparse_add_range [i] f t None False s"

definition sparse_add_slice ::
  "int list \<Rightarrow> int \<Rightarrow> int \<Rightarrow> int option \<Rightarrow> sparse_ids \<Rightarrow> sparse_ids \<times> sparse_update" where
  "sparse_add_slice ids f t cnt s = sparse_add_range ids f t cnt False s"

definition sparse_remove_one :: "int \<Rightarrow> sparse_ids \<Rightarrow> sparse_ids" where
  "sparse_remove_one i s =
     \<lparr>si_count = (case si_count s of Some c \<Rightarrow> Some (if c > 0 then c - 1 else c) | None \<Rightarrow> None),
      si_slices = slices_remove_one i (si_slices s)\<rparr>"

definition sparse_remove_all :: "sparse_ids \<Rightarrow> sparse_ids" where
  "sparse_remove_all s =
     \<lparr>si_count = Some 0, si_slices = [\<lparr>sl_msgs = [], sl_from = 0, sl_till = server_max_msg_id\<rparr>]\<rparr>"

definition sparse_count_after :: "int \<Rightarrow> int \<Rightarrow> (int \<Rightarrow> bool) \<Rightarrow> sparse_ids \<Rightarrow> int option" where
  "sparse_count_after till_id limit counts s =
     (if si_slices s = [] then None
      else let bottom = last (si_slices s) in
      if sl_till bottom \<noteq> server_max_msg_id then None
      else if sl_from bottom > till_id \<and> sl_from bottom \<noteq> 0 then None
      else let rest = drop (upper_bound_by (\<lambda>x. x) till_id (sl_msgs bottom)) (sl_msgs bottom) in
      if int (length rest) > limit then None
      else Some (int (length (filter counts rest))))"

definition sparse_invalidate_bottom :: "sparse_ids \<Rightarrow> sparse_ids" where
  "sparse_invalidate_bottom s =
     \<lparr>si_count = None, si_slices = slices_invalidate_bottom server_max_msg_id (si_slices s)\<rparr>"

definition sparse_snapshot :: "int \<Rightarrow> int \<Rightarrow> int \<Rightarrow> sparse_ids \<Rightarrow> int query_result" where
  "sparse_snapshot around limit_before limit_after s =
     (case (if around \<noteq> 0 then slice_index around (si_slices s) else None) of
        Some i \<Rightarrow> query_from_slice 0 server_max_msg_id (si_count s) around limit_before limit_after (si_slices s ! i)
      | None \<Rightarrow>
          (case si_count s of
             Some c \<Rightarrow> empty_result\<lparr>qr_count := Some c\<rparr>
           | None \<Rightarrow> empty_result))"

definition sparse_query :: "int \<Rightarrow> int \<Rightarrow> int \<Rightarrow> sparse_ids \<Rightarrow> int query_result list" where
  "sparse_query around limit_before limit_after s =
     (let now = sparse_snapshot around limit_before limit_after s in
      if qr_ids now \<noteq> [] \<or> qr_count now \<noteq> None then [now] else [])"

definition sparse_empty :: "sparse_ids \<Rightarrow> bool" where
  "sparse_empty s = list_all (\<lambda>r. sl_msgs r = []) (si_slices s)"

section \<open>The operations on slices are those of the contract\<close>

lemma sparse_slice_merge_eq: "sparse_slice_merge = slice_merge"
  by (intro ext) (simp add: sparse_slice_merge_def slice_merge_def asc_merge_def split: list.split)

lemma sparse_add_range_items_eq:
  "\<not> (f = t \<and> msgs = []) \<Longrightarrow> sparse_add_range_items msgs f t slices = add_range_items msgs f t slices"
  unfolding sparse_add_range_items_def add_range_items_def sparse_unite_and_add_def unite_and_add_def
    sparse_slice_merge_eq by (rule if_not_P)

text \<open>
  The list is truthful about the ids \<open>T\<close> that exist: where it covers it knows exactly them, and the
  count, once known, is their number.
\<close>

definition sparse_true :: "int set \<Rightarrow> sparse_ids \<Rightarrow> bool" where
  "sparse_true T s \<longleftrightarrow> finite T \<and> T \<subseteq> {0..server_max_msg_id}
     \<and> slice_parts.truthful T (si_slices s)
     \<and> (\<forall>c. si_count s = Some c \<longrightarrow> c = int (card T))"

lemma sparse_true_parts:
  assumes "sparse_true T s"
  shows "finite T" "T \<subseteq> {0..server_max_msg_id}" "slices_ok (si_slices s)"
    "known (si_slices s) = T \<inter> covered (si_slices s)" "\<And>c. si_count s = Some c \<Longrightarrow> c = int (card T)"
  using assms by (simp_all add: sparse_true_def slice_parts.truthful_def)

text \<open>The last steps of \<open>addRange\<close>: they only use what is known, so they keep the truth.\<close>

lemma sparse_finish_true:
  assumes T: "finite T" "T \<subseteq> {0..server_max_msg_id}" and t: "slice_parts.truthful T slices"
    and c: "\<And>c. count1 = Some c \<Longrightarrow> c = int (card T)"
    and ch: "\<And>m. changed = Some m \<Longrightarrow> set (sl_msgs m) \<subseteq> T \<and> strict_asc (sl_msgs m)"
  defines "p \<equiv> sparse_close_single slices count1"
  shows "sparse_true T \<lparr>si_count = (case (snd p, changed) of
            (Some c, Some m) \<Rightarrow> Some (max c (int (length (sl_msgs m)))) | _ \<Rightarrow> snd p), si_slices = fst p\<rparr>"
proof -
  have ok: "slices_ok slices" "known slices = T \<inter> covered slices"
    using t by (simp_all add: slice_parts.truthful_def)
  have p: "slice_parts.truthful T (fst p) \<and> (\<forall>c. snd p = Some c \<longrightarrow> c = int (card T))"
  proof (cases "\<exists>only. slices = [only]")
    case False
    then have "p = (slices, count1)" by (auto simp: p_def sparse_close_single_def split: list.split)
    with t c show ?thesis by simp
  next
    case True
    then obtain only where only: "slices = [only]" by blast
    have o1: "slice_ok only" "set (sl_msgs only) = T \<inter> slice_range only"
      using ok by (simp_all add: only slice_simps)
    have o2: "int (length (sl_msgs only)) = int (card (set (sl_msgs only)))"
      using o1(1) by (simp add: slice_ok_def strict_asc_card)
    define only' where "only' = (case count1 of
        Some c \<Rightarrow> if int (length (sl_msgs only)) \<ge> c
          then only\<lparr>sl_from := 0, sl_till := server_max_msg_id\<rparr> else only
      | None \<Rightarrow> only)"
    have p': "p = ([only'], if sl_from only' = 0 \<and> sl_till only' = server_max_msg_id
        then Some (int (length (sl_msgs only'))) else count1)"
      by (simp add: p_def only only'_def sparse_close_single_def Let_def)
    have full: "slice_range only' = {0..server_max_msg_id}" if "sl_from only' = 0" "sl_till only' = server_max_msg_id"
      using that by (simp add: slice_range_def)
    have "slice_ok only' \<and> set (sl_msgs only') = T \<inter> slice_range only'"
    proof (cases "only' = only")
      case False
      then obtain k where k: "count1 = Some k" "int (length (sl_msgs only)) \<ge> k"
        "only' = only\<lparr>sl_from := 0, sl_till := server_max_msg_id\<rparr>"
        by (auto simp: only'_def split: option.splits if_splits)
      then have "card T \<le> card (set (sl_msgs only))" using c o2 by simp
      moreover have "set (sl_msgs only) \<subseteq> T" using o1(2) by blast
      ultimately have all: "set (sl_msgs only) = T" using T(1) by (metis card_seteq)
      with k(3) T(2) o1(1) show ?thesis
        by (auto simp: slice_ok_def slice_range_def server_max_msg_id_def)
    qed (use o1 in simp)
    note o' = this
    have "T \<inter> {0..server_max_msg_id} = T" using T(2) by blast
    with o' full have "int (length (sl_msgs only')) = int (card T)"
      if "sl_from only' = 0" "sl_till only' = server_max_msg_id"
      using that strict_asc_card [of "sl_msgs only'"] by (simp add: slice_ok_def)
    with o' c show ?thesis
      by (simp add: p' slice_parts.truthful_def slice_simps)
  qed
  have small: "int (length (sl_msgs m)) \<le> int (card T)" if "changed = Some m" for m
    using ch [OF that] T(1) card_mono strict_asc_card by (metis of_nat_le_iff)
  show ?thesis
    using p small T by (auto simp: sparse_true_def split: option.split)
qed

section \<open>Every operation keeps the truth\<close>

lemma sparse_add_range_true:
  assumes old: "sparse_true T s" and T': "finite T'" "T' \<subseteq> {0..server_max_msg_id}"
    and t: "slice_parts.truthful T' (ur_slices (sparse_add_range_items msgs f t (si_slices s)))"
    and ch: "\<And>m. ur_changed (sparse_add_range_items msgs f t (si_slices s)) = Some m \<Longrightarrow>
      m \<in> set (ur_slices (sparse_add_range_items msgs f t (si_slices s)))"
    and c: "\<And>c. cnt = Some c \<Longrightarrow> c = int (card T')"
    and inc: "\<And>c. cnt = None \<Longrightarrow> si_count s = Some c \<Longrightarrow>
      int (card T') = c + (if inc then int (ur_added (sparse_add_range_items msgs f t (si_slices s))) else 0)"
  shows "sparse_true T' (fst (sparse_add_range msgs f t cnt inc s))"
proof -
  define r where "r = sparse_add_range_items msgs f t (si_slices s)"
  define count1 where "count1 = (case cnt of
            Some c \<Rightarrow> Some c
          | None \<Rightarrow>
              (case si_count s of
                 Some c \<Rightarrow> Some (if inc \<and> ur_added r > 0 then c + int (ur_added r) else c)
               | None \<Rightarrow> None))"
  have c1: "c = int (card T')" if "count1 = Some c" for c
  proof (cases cnt)
    case None
    with that obtain k where k: "si_count s = Some k"
        "c = (if inc \<and> ur_added r > 0 then k + int (ur_added r) else k)"
      by (auto simp: count1_def split: option.splits)
    with inc [OF None k(1)] show ?thesis by (auto simp: r_def)
  next
    case (Some k)
    with that c show ?thesis by (simp add: count1_def)
  qed
  have ch': "set (sl_msgs m) \<subseteq> T' \<and> strict_asc (sl_msgs m)" if m: "ur_changed r = Some m" for m
  proof -
    have m': "m \<in> set (ur_slices r)" using ch m by (simp add: r_def)
    moreover have t': "slices_ok (ur_slices r)" "known (ur_slices r) = T' \<inter> covered (ur_slices r)"
      using t by (simp_all add: r_def slice_parts.truthful_def)
    ultimately have "set (sl_msgs m) \<subseteq> known (ur_slices r)" "slice_ok m"
      by (auto simp: known_def slices_ok_def)
    with t' show ?thesis by (auto simp: slice_ok_def)
  qed
  have t1: "slice_parts.truthful T' (ur_slices r)" using t by (simp add: r_def)
  note fin = sparse_finish_true [OF T' t1, of count1 "ur_changed r", OF c1 ch']
  have "fst (sparse_add_range msgs f t cnt inc s) = \<lparr>si_count = (case (snd p, ur_changed r) of
            (Some c, Some m) \<Rightarrow> Some (max c (int (length (sl_msgs m)))) | _ \<Rightarrow> snd p), si_slices = fst p\<rparr>"
    if "p = sparse_close_single (ur_slices r) count1" for p
    using that unfolding sparse_add_range_def Let_def r_def [symmetric] count1_def [symmetric]
    by (simp add: case_prod_beta cong: option.case_cong)
  from this [OF refl] fin show ?thesis by simp
qed

lemma sparse_items_changed:
  assumes "slices_ok slices" and "f \<le> t" and "set msgs \<subseteq> {f..t}"
    and "ur_changed (sparse_add_range_items msgs f t slices) = Some m"
  shows "m \<in> set (ur_slices (sparse_add_range_items msgs f t slices))"
proof (cases "f = t \<and> msgs = []")
  case True
  with assms(4) show ?thesis by (simp add: sparse_add_range_items_def)
next
  case False
  with assms(4) add_range_items_spec(4) [OF assms(1-3) refl] show ?thesis
    by (auto simp: sparse_add_range_items_eq [OF False])
qed

text \<open>A slice of the server's answer: all the ids in a range, perhaps with the total.\<close>

lemma sparse_add_slice_true:
  assumes s: "sparse_true T s" and ft: "f \<le> t" and ms: "set msgs = T \<inter> {f..t}"
    and c: "\<And>c. cnt = Some c \<Longrightarrow> c = int (card T)"
  shows "sparse_true T (fst (sparse_add_range msgs f t cnt False s))"
proof (rule sparse_add_range_true [OF s sparse_true_parts(1,2) [OF s]])
  note p = sparse_true_parts [OF s]
  have sub: "set msgs \<subseteq> {f..t}" using ms by blast
  show "slice_parts.truthful T (ur_slices (sparse_add_range_items msgs f t (si_slices s)))"
  proof (cases "f = t \<and> msgs = []")
    case True
    then show ?thesis using s by (simp add: sparse_add_range_items_def sparse_true_def)
  next
    case False
    then show ?thesis
      using slice_parts.truthful_load [of T "si_slices s" f t msgs] s ft ms
      by (simp add: sparse_add_range_items_eq [OF False] sparse_true_def)
  qed
  show "m \<in> set (ur_slices (sparse_add_range_items msgs f t (si_slices s)))"
    if "ur_changed (sparse_add_range_items msgs f t (si_slices s)) = Some m" for m
    by (rule sparse_items_changed [OF p(3) ft sub that])
qed (use sparse_true_parts(5) [OF s] c in auto)

text \<open>A new message, later than all others.\<close>

lemma sparse_add_new_true:
  assumes s: "sparse_true T s" and i: "0 \<le> i" "i \<le> server_max_msg_id" "T \<inter> {i..server_max_msg_id} = {}"
  shows "sparse_true (insert i T) (fst (sparse_add_new i s))"
  unfolding sparse_add_new_def
proof (rule sparse_add_range_true [OF s])
  note p = sparse_true_parts [OF s]
  have iT: "i \<notin> T" using i by auto
  have top: "T \<subseteq> {..server_max_msg_id}" using p(2) by auto
  have eq: "sparse_add_range_items [i] i server_max_msg_id (si_slices s)
      = add_range_items [i] i server_max_msg_id (si_slices s)"
    by (rule sparse_add_range_items_eq) simp
  show "finite (insert i T)" "insert i T \<subseteq> {0..server_max_msg_id}" using p(1,2) i by auto
  show "slice_parts.truthful (insert i T)
      (ur_slices (sparse_add_range_items [i] i server_max_msg_id (si_slices s)))"
    unfolding eq using slice_parts.truthful_appear [of T "si_slices s" i server_max_msg_id] s i
    by (simp add: sparse_true_def)
  show "m \<in> set (ur_slices (sparse_add_range_items [i] i server_max_msg_id (si_slices s)))"
    if "ur_changed (sparse_add_range_items [i] i server_max_msg_id (si_slices s)) = Some m" for m
    by (rule sparse_items_changed [OF p(3) i(2) _ that]) (use i in simp)
  show "int (card (insert i T)) = c + (if True
      then int (ur_added (sparse_add_range_items [i] i server_max_msg_id (si_slices s))) else 0)"
    if "si_count s = Some c" for c
    using p(5) [OF that] p(1) iT add_new_added [OF p(3,4) iT i(3) i(2) disjI1 [OF top]]
    by (simp add: eq)
qed simp

lemma sparse_remove_one_true:
  assumes s: "sparse_true T s" and i: "i \<in> T"
  shows "sparse_true (T - {i}) (sparse_remove_one i s)"
proof -
  note p = sparse_true_parts [OF s]
  have "card T > 0" using p(1) i by (auto simp: card_gt_0_iff)
  with p i show ?thesis
    using slice_parts.truthful_vanish [of T "si_slices s" i] s
    by (auto simp: sparse_true_def sparse_remove_one_def card_Diff_singleton of_nat_diff split: option.splits)
qed

lemma sparse_remove_all_true: "sparse_true {} (sparse_remove_all s)"
  by (simp add: sparse_true_def sparse_remove_all_def slice_parts.truthful_def slice_simps slice_ok_def
      server_max_msg_id_def)

lemma sparse_invalidate_bottom_true:
  assumes "sparse_true T s"
  shows "sparse_true T (sparse_invalidate_bottom s)"
  using assms slices_invalidate_truthful [of T "si_slices s" server_max_msg_id]
  by (simp add: sparse_true_def sparse_invalidate_bottom_def)

section \<open>Runs\<close>

text \<open>An operation, what it says about the ids that exist, and when it says the truth.\<close>

datatype sparse_op =
  SparseNew int
| SparseExisting int int int
| SparseSlice "int list" int int "int option"
| SparseRemove int
| SparseRemoveAll
| SparseInvalidateBottom

fun sparse_world :: "sparse_op \<Rightarrow> int set \<Rightarrow> int set" where
  "sparse_world (SparseNew i) T = insert i T"
| "sparse_world (SparseRemove i) T = T - {i}"
| "sparse_world SparseRemoveAll T = {}"
| "sparse_world _ T = T"

fun sparse_op_true :: "sparse_op \<Rightarrow> int set \<Rightarrow> bool" where
  "sparse_op_true (SparseNew i) T =
     (0 \<le> i \<and> i \<le> server_max_msg_id \<and> T \<inter> {i..server_max_msg_id} = {})"
| "sparse_op_true (SparseExisting i f t) T = (f \<le> t \<and> T \<inter> {f..t} = {i})"
| "sparse_op_true (SparseSlice ids f t cnt) T =
     (f \<le> t \<and> set ids = T \<inter> {f..t} \<and> (case cnt of Some c \<Rightarrow> c = int (card T) | None \<Rightarrow> True))"
| "sparse_op_true (SparseRemove i) T = (i \<in> T)"
| "sparse_op_true _ T = True"

fun sparse_step :: "sparse_op \<Rightarrow> sparse_ids \<Rightarrow> sparse_ids" where
  "sparse_step (SparseNew i) s = fst (sparse_add_new i s)"
| "sparse_step (SparseExisting i f t) s = fst (sparse_add_existing i f t s)"
| "sparse_step (SparseSlice ids f t cnt) s = fst (sparse_add_slice ids f t cnt s)"
| "sparse_step (SparseRemove i) s = sparse_remove_one i s"
| "sparse_step SparseRemoveAll s = sparse_remove_all s"
| "sparse_step SparseInvalidateBottom s = sparse_invalidate_bottom s"

lemma sparse_step_true:
  assumes "sparse_true T s" and "sparse_op_true c T"
  shows "sparse_true (sparse_world c T) (sparse_step c s)"
  using assms
proof (cases c)
  case (SparseNew i)
  with assms show ?thesis by (simp add: sparse_add_new_true)
next
  case (SparseExisting i f t)
  with assms show ?thesis
    using sparse_add_slice_true [OF assms(1), of f t "[i]" None] by (simp add: sparse_add_existing_def)
next
  case (SparseSlice ids f t cnt)
  with assms show ?thesis
    by (auto simp: sparse_add_slice_def intro!: sparse_add_slice_true)
qed (simp_all add: sparse_remove_one_true sparse_remove_all_true sparse_invalidate_bottom_true)

interpretation sparse_machine: guarded_machine
  "\<lambda>p c. (sparse_world c (fst p), sparse_step c (snd p))" "\<lambda>p c. sparse_op_true c (fst p)"
  "\<lambda>p. sparse_true (fst p) (snd p)"
  by unfold_locales (simp add: sparse_step_true)

definition sparse_run :: "sparse_op list \<Rightarrow> int set \<times> sparse_ids \<Rightarrow> int set \<times> sparse_ids" where
  "sparse_run cs p = foldl (\<lambda>p c. (sparse_world c (fst p), sparse_step c (snd p))) p cs"

fun sparse_run_true :: "sparse_op list \<Rightarrow> int set \<Rightarrow> bool" where
  "sparse_run_true [] T = True"
| "sparse_run_true (c # cs) T = (sparse_op_true c T \<and> sparse_run_true cs (sparse_world c T))"

lemma sparse_run_legal: "sparse_machine.legal p cs \<longleftrightarrow> sparse_run_true cs (fst p)"
  by (induction cs arbitrary: p) simp_all

definition no_ids :: sparse_ids where
  "no_ids = \<lparr>si_count = None, si_slices = []\<rparr>"

lemma sparse_run_keeps:
  assumes "finite T" and "T \<subseteq> {0..server_max_msg_id}" and "sparse_run_true cs T"
  shows "sparse_true (fst (sparse_run cs (T, no_ids))) (snd (sparse_run cs (T, no_ids)))"
proof -
  have "sparse_true T no_ids"
    using assms(1,2) by (simp add: sparse_true_def no_ids_def slice_parts.truthful_def slice_simps)
  with sparse_machine.inv_run [of "(T, no_ids)" cs] assms(3) show ?thesis
    by (simp add: sparse_run_def sparse_run_legal)
qed

lemma sparse_snapshot_true:
  assumes s: "sparse_true T s" and a: "around \<noteq> 0" and lim: "0 \<le> lb" "0 \<le> la"
  shows "if around \<in> covered (si_slices s)
    then \<exists>part\<subseteq>covered (si_slices s). around \<in> part
      \<and> window_true T part around lb la (sparse_snapshot around lb la s)
    else qr_ids (sparse_snapshot around lb la s) = []"
    and "qr_count (sparse_snapshot around lb la s) = si_count s"
proof -
  note p = sparse_true_parts [OF s] and idx = slice_index_covered [OF sparse_true_parts(3) [OF s], of around]
  have "(if around \<in> covered (si_slices s)
    then \<exists>part\<subseteq>covered (si_slices s). around \<in> part
      \<and> window_true T part around lb la (sparse_snapshot around lb la s)
    else qr_ids (sparse_snapshot around lb la s) = [])
    \<and> qr_count (sparse_snapshot around lb la s) = si_count s"
  proof (cases "slice_index around (si_slices s)")
    case None
    with idx a show ?thesis
      by (simp add: sparse_snapshot_def empty_result_def split: option.split)
  next
    case (Some i)
    define sl where "sl = si_slices s ! i"
    have sl: "sl \<in> set (si_slices s)" "around \<in> slice_range sl"
      using idx Some by (simp_all add: sl_def)
    have part: "slice_range sl \<subseteq> covered (si_slices s)" using sl(1) by (auto simp: covered_def)
    have "slice_ok sl" using p(3) sl(1) by (simp add: slices_ok_def)
    note q = query_window [OF this sl(2) slice_truth [OF p(3,4) sl(1)] p(2,1) p(5) lim, of "si_count s"]
    have "sparse_snapshot around lb la s =
        query_from_slice 0 server_max_msg_id (si_count s) around lb la sl"
      using a Some by (simp add: sparse_snapshot_def sl_def)
    with q part sl(2) show ?thesis by auto
  qed
  then show "if around \<in> covered (si_slices s)
    then \<exists>part\<subseteq>covered (si_slices s). around \<in> part
      \<and> window_true T part around lb la (sparse_snapshot around lb la s)
    else qr_ids (sparse_snapshot around lb la s) = []"
    and "qr_count (sparse_snapshot around lb la s) = si_count s" by blast+
qed

section \<open>Properties\<close>



text \<open>If the number of counted ids after a given one is answered at all,
  the answer is exact.\<close>

theorem sparse_count_after_true:
  assumes "sparse_true T s" and "sparse_count_after till_id limit counts s = Some n"
  shows "n = int (card {z\<in>T. till_id < z \<and> counts z})"
proof -
  note p = sparse_true_parts [OF assms(1)]
  define b where "b = last (si_slices s)"
  define rest where "rest = drop (upper_bound_by (\<lambda>x. x) till_id (sl_msgs b)) (sl_msgs b)"
  have ne: "si_slices s \<noteq> []" and till: "sl_till b = server_max_msg_id"
    and from': "sl_from b \<le> till_id \<or> sl_from b = 0"
    and n: "n = int (length (filter counts rest))"
    using assms(2) by (auto simp: sparse_count_after_def b_def rest_def Let_def split: if_splits)
  have b: "b \<in> set (si_slices s)" using ne by (simp add: b_def)
  then have ok: "slice_ok b" using p(3) by (simp add: slices_ok_def)
  have msgs: "set (sl_msgs b) = T \<inter> slice_range b" by (rule slice_truth [OF p(3,4) b])
  have asc: "strict_asc (sl_msgs b)" using ok by (simp add: slice_ok_def)
  have "set rest = {m\<in>set (sl_msgs b). till_id < m}"
    using bound_splits(4) [of "\<lambda>x. x" "sl_msgs b" _ till_id] asc
    by (auto simp: rest_def strict_sorted_iff)
  also have "\<dots> = {z\<in>T. till_id < z}"
    using msgs from' till p(2) by (auto simp: slice_range_def)
  finally have "set (filter counts rest) = {z\<in>T. till_id < z \<and> counts z}" by auto
  moreover have "distinct (filter counts rest)" using asc by (simp add: rest_def strict_sorted_iff)
  ultimately show ?thesis using n by (metis distinct_card)
qed

theorem sparse_count_after_true_witness:
  "card {z\<in>({} :: int set). 3 < z} = 0 \<and> sparse_count_after 3 10 (\<lambda>_. True) (sparse_remove_all no_ids) = Some 0"
proof -
  have "sparse_count_after 3 10 (\<lambda>_. True) (sparse_remove_all no_ids) = Some 0" by code_simp
  with sparse_count_after_true [OF sparse_remove_all_true this] show ?thesis by simp
qed

end
