(* ===== verification/MessagesList.thy ===== *)
theory MessagesList
  imports Slices
begin

text \<open>
  Positions of messages and the partially known list of them (\<open>Data::MessagePosition\<close> and
  \<open>Data::MessagesList\<close>, \<open>data/data_messages.h\<close> and \<open>.cpp\<close>).

  A position is its date, then the peer (an unsigned 64-bit value), then the message id; the
  comparison operators make it a linear order, so the theory of slices applies. What
  \<open>_sliceUpdated\<close> fires is returned with the new state. Subscriptions (\<open>query\<close> apart, which
  gives the list of values put) and \<open>viewer\<close> are not modelled.
\<close>

datatype message_position = MessagePosition (mp_date: int) (mp_peer: "64 word") (mp_msg: int)

definition position_less :: "message_position \<Rightarrow> message_position \<Rightarrow> bool" where
  "position_less a b =
     (if mp_date a < mp_date b then True
      else if mp_date b < mp_date a then False
      else mp_peer a < mp_peer b \<or> mp_peer a = mp_peer b \<and> mp_msg a < mp_msg b)"

instantiation message_position :: linorder
begin

definition less_message_position :: "message_position \<Rightarrow> message_position \<Rightarrow> bool" where
  "less_message_position a b = position_less a b"

definition less_eq_message_position :: "message_position \<Rightarrow> message_position \<Rightarrow> bool" where
  "less_eq_message_position a b = (\<not> position_less b a)"

instance
proof
  fix x y z :: message_position
  note defs = less_message_position_def less_eq_message_position_def position_less_def
  show "x < y \<longleftrightarrow> x \<le> y \<and> \<not> y \<le> x"
    by (cases x; cases y) (auto simp: defs)
  show "x \<le> x" by (cases x) (auto simp: defs)
  show "x \<le> y \<Longrightarrow> y \<le> z \<Longrightarrow> x \<le> z"
    by (cases x; cases y; cases z) (auto simp: defs split: if_splits)
  show "x \<le> y \<Longrightarrow> y \<le> x \<Longrightarrow> x = y"
    by (cases x; cases y) (auto simp: defs split: if_splits)
  show "x \<le> y \<or> y \<le> x" by (cases x; cases y) (auto simp: defs)
qed

end

definition min_message_position :: message_position where
  "min_message_position = MessagePosition 0 0 1"

definition max_message_position :: message_position where
  "max_message_position = MessagePosition 2147483647 0 (2 ^ 56 - 1)"

text \<open>\<open>operator bool\<close> of a position, and the position of \<open>MessagePosition()\<close>.\<close>

definition position_set :: "message_position \<Rightarrow> bool" where
  "position_set p = (mp_msg p \<noteq> 0)"

definition no_position :: message_position where
  "no_position = MessagePosition 0 0 0"

type_synonym messages_slice = "message_position slice"

record messages_list =
  ml_count :: "int option"
  ml_slices :: "messages_slice list"

record messages_update =
  mu_messages :: "message_position list option"
  mu_range :: "message_position \<times> message_position"
  mu_count :: "int option"

section \<open>Operations\<close>

definition ml_add_range ::
  "message_position list \<Rightarrow> message_position \<Rightarrow> message_position \<Rightarrow> int option \<Rightarrow> bool \<Rightarrow> messages_list
    \<Rightarrow> messages_list \<times> messages_update" where
  "ml_add_range msgs f t cnt increment s =
     (let r = add_range_items msgs f t (ml_slices s);
        count1 = (case cnt of
            Some c \<Rightarrow> Some c
          | None \<Rightarrow>
              (case ml_count s of
                 Some c \<Rightarrow> Some (if increment \<and> ur_added r > 0 then c + int (ur_added r) else c)
               | None \<Rightarrow> None));
        count2 = (case ur_slices r of
            [only] \<Rightarrow>
              if sl_from only = min_message_position \<and> sl_till only = max_message_position
              then Some (int (length (sl_msgs only))) else count1
          | _ \<Rightarrow> count1) in
      (\<lparr>ml_count = count2, ml_slices = ur_slices r\<rparr>,
       \<lparr>mu_messages = map_option sl_msgs (ur_changed r),
        mu_range = (case ur_changed r of
            Some m \<Rightarrow> (sl_from m, sl_till m) | None \<Rightarrow> (no_position, no_position)),
        mu_count = count2\<rparr>))"

definition ml_add_one :: "message_position \<Rightarrow> messages_list \<Rightarrow> messages_list \<times> messages_update" where
  "ml_add_one p s = ml_add_range [p] p p None True s"

definition ml_add_new :: "message_position \<Rightarrow> messages_list \<Rightarrow> messages_list \<times> messages_update" where
  "ml_add_new p s = ml_add_range [p] p max_message_position None True s"

definition ml_add_slice ::
  "message_position list \<Rightarrow> message_position \<Rightarrow> message_position \<Rightarrow> int option \<Rightarrow> messages_list
    \<Rightarrow> messages_list \<times> messages_update" where
  "ml_add_slice msgs f t cnt s = ml_add_range msgs f t cnt False s"

definition ml_remove_one :: "message_position \<Rightarrow> messages_list \<Rightarrow> messages_list \<times> messages_update option" where
  "ml_remove_one p s =
     (let slices = slices_remove_one p (ml_slices s);
        cnt = map_option (\<lambda>c. c - 1) (ml_count s) in
      (\<lparr>ml_count = cnt, ml_slices = slices\<rparr>,
       case slice_index p (ml_slices s) of
         Some i \<Rightarrow> Some \<lparr>mu_messages = Some (sl_msgs (slices ! i)),
           mu_range = (sl_from (slices ! i), sl_till (slices ! i)), mu_count = cnt\<rparr>
       | None \<Rightarrow> None))"

text \<open>The loop of \<open>removeLessThan\<close>: what is left and how many messages went.\<close>

fun ml_drop_less :: "message_position \<Rightarrow> messages_slice list \<Rightarrow> messages_slice list \<times> nat" where
  "ml_drop_less p [] = ([], 0)"
| "ml_drop_less p (s # ss) =
     (if sl_till s \<le> p then
        (let (ss', removed) = ml_drop_less p ss in (ss', length (sl_msgs s) + removed))
      else if sl_from s \<le> p then
        (let till = lower_bound_by (\<lambda>x. x) p (sl_msgs s) in
         (s\<lparr>sl_from := min_message_position, sl_msgs := drop till (sl_msgs s)\<rparr> # ss, till))
      else (s # ss, 0))"

definition ml_remove_less_than :: "message_position \<Rightarrow> messages_list \<Rightarrow> messages_list" where
  "ml_remove_less_than p s =
     (let (slices, removed) = ml_drop_less p (ml_slices s) in
      \<lparr>ml_count = (case ml_count s of
           Some c \<Rightarrow> Some (if removed \<noteq> 0 then c - int removed else c) | None \<Rightarrow> None),
       ml_slices = slices\<rparr>)"

definition ml_invalidate :: "messages_list \<Rightarrow> messages_list" where
  "ml_invalidate s = \<lparr>ml_count = None, ml_slices = []\<rparr>"

definition ml_invalidate_bottom :: "messages_list \<Rightarrow> messages_list" where
  "ml_invalidate_bottom s =
     \<lparr>ml_count = None, ml_slices = slices_invalidate_bottom max_message_position (ml_slices s)\<rparr>"

definition ml_query_current ::
  "message_position \<Rightarrow> int \<Rightarrow> int \<Rightarrow> messages_list \<Rightarrow> message_position query_result" where
  "ml_query_current around limit_before limit_after s =
     (if \<not> position_set around then empty_result
      else case slice_index around (ml_slices s) of
        Some i \<Rightarrow> query_from_slice min_message_position max_message_position (ml_count s)
          around limit_before limit_after (ml_slices s ! i)
      | None \<Rightarrow> empty_result)"

definition ml_query ::
  "message_position \<Rightarrow> int \<Rightarrow> int \<Rightarrow> messages_list \<Rightarrow> message_position query_result list" where
  "ml_query around limit_before limit_after s =
     (let current = ml_query_current around limit_before limit_after s in
      if qr_count current \<noteq> None \<or> qr_ids current \<noteq> [] then [current] else [])"

definition ml_empty :: "messages_list \<Rightarrow> bool" where
  "ml_empty s = list_all (\<lambda>r. sl_msgs r = []) (ml_slices s)"

section \<open>Truth\<close>

abbreviation all_positions :: "message_position set" where
  "all_positions \<equiv> {min_message_position..max_message_position}"

definition ml_true :: "message_position set \<Rightarrow> messages_list \<Rightarrow> bool" where
  "ml_true T s \<longleftrightarrow> finite T \<and> T \<subseteq> all_positions \<and> slice_parts.truthful T (ml_slices s)
     \<and> (\<forall>c. ml_count s = Some c \<longrightarrow> c = int (card T))"

lemma ml_true_parts:
  assumes "ml_true T s"
  shows "finite T" "T \<subseteq> all_positions" "slices_ok (ml_slices s)"
    "known (ml_slices s) = T \<inter> covered (ml_slices s)" "\<And>c. ml_count s = Some c \<Longrightarrow> c = int (card T)"
    "slice_parts.truthful T (ml_slices s)"
  using assms by (simp_all add: ml_true_def slice_parts.truthful_def)

lemma ml_add_range_true:
  assumes T': "finite T'" "T' \<subseteq> all_positions"
    and t: "slice_parts.truthful T' (ur_slices (add_range_items msgs f t (ml_slices s)))"
    and c: "\<And>c. cnt = Some c \<Longrightarrow> c = int (card T')"
    and inc: "\<And>c. cnt = None \<Longrightarrow> ml_count s = Some c \<Longrightarrow>
      int (card T') = c + (if inc then int (ur_added (add_range_items msgs f t (ml_slices s))) else 0)"
  shows "ml_true T' (fst (ml_add_range msgs f t cnt inc s))"
proof -
  define r where "r = add_range_items msgs f t (ml_slices s)"
  define count1 where "count1 = (case cnt of
            Some c \<Rightarrow> Some c
          | None \<Rightarrow>
              (case ml_count s of
                 Some c \<Rightarrow> Some (if inc \<and> ur_added r > 0 then c + int (ur_added r) else c)
               | None \<Rightarrow> None))"
  have c1: "c = int (card T')" if "count1 = Some c" for c
  proof (cases cnt)
    case None
    with that obtain k where k: "ml_count s = Some k"
        "c = (if inc \<and> ur_added r > 0 then k + int (ur_added r) else k)"
      by (auto simp: count1_def split: option.splits)
    with inc [OF None k(1)] show ?thesis by (auto simp: r_def)
  next
    case (Some k)
    with that c show ?thesis by (simp add: count1_def)
  qed
  have c2: "int (length (sl_msgs only)) = int (card T')"
    if "ur_slices r = [only]" "sl_from only = min_message_position" "sl_till only = max_message_position" for only
  proof -
    have "slice_ok only" "set (sl_msgs only) = T' \<inter> slice_range only"
      using t that(1) by (simp_all add: r_def slice_parts.truthful_def slice_simps)
    moreover have "T' \<inter> slice_range only = T'" using T'(2) that(2,3) by (auto simp: slice_range_def)
    ultimately show ?thesis using strict_asc_card [of "sl_msgs only"] by (simp add: slice_ok_def)
  qed
  have eq: "fst (ml_add_range msgs f t cnt inc s) = \<lparr>ml_count = (case ur_slices r of
            [only] \<Rightarrow>
              if sl_from only = min_message_position \<and> sl_till only = max_message_position
              then Some (int (length (sl_msgs only))) else count1
          | _ \<Rightarrow> count1), ml_slices = ur_slices r\<rparr>"
    unfolding ml_add_range_def Let_def r_def [symmetric] count1_def [symmetric] by simp
  show ?thesis
    unfolding eq ml_true_def using T' t c1 c2 by (auto simp: r_def split: list.splits if_splits)
qed

lemma ml_add_slice_true:
  assumes s: "ml_true T s" and ft: "f \<le> t" and ms: "set msgs = T \<inter> {f..t}"
    and c: "\<And>c. cnt = Some c \<Longrightarrow> c = int (card T)"
  shows "ml_true T (fst (ml_add_slice msgs f t cnt s))"
  unfolding ml_add_slice_def
  by (rule ml_add_range_true)
    (use ml_true_parts [OF s] slice_parts.truthful_load [OF _ ft ms] c in auto)

text \<open>A single new message: \<open>t\<close> is itself, or the end of the list.\<close>

lemma ml_add_appear_true:
  assumes s: "ml_true T s" and p: "p \<in> all_positions" "p \<le> t" "T \<inter> {p..t} = {}"
    and t: "t = p \<or> t = max_message_position"
  shows "ml_true (insert p T) (fst (ml_add_range [p] p t None True s))"
proof (rule ml_add_range_true)
  note parts = ml_true_parts [OF s]
  show "finite (insert p T)" "insert p T \<subseteq> all_positions" using parts(1,2) p(1) by auto
  show "slice_parts.truthful (insert p T) (ur_slices (add_range_items [p] p t (ml_slices s)))"
    using slice_parts.truthful_appear [OF parts(6) p(2)] p(3) by simp
  have pT: "p \<notin> T" using p(2,3) by auto
  have "T \<subseteq> {..t} \<or> t = p" using t parts(2) by auto
  then have added: "ur_added (add_range_items [p] p t (ml_slices s)) = 1"
    by (rule add_new_added [OF parts(3,4) pT p(3,2)])
  show "int (card (insert p T)) = c
      + (if True then int (ur_added (add_range_items [p] p t (ml_slices s))) else 0)"
    if "ml_count s = Some c" for c
    using parts(5) [OF that] parts(1) pT by (simp add: added)
qed simp

lemma ml_remove_one_true:
  assumes s: "ml_true T s" and p: "p \<in> T"
  shows "ml_true (T - {p}) (fst (ml_remove_one p s))"
proof -
  note parts = ml_true_parts [OF s]
  have "card T > 0" using parts(1) p by (auto simp: card_gt_0_iff)
  with parts p slice_parts.truthful_vanish [OF parts(6), of p] show ?thesis
    by (auto simp: ml_true_def ml_remove_one_def Let_def card_Diff_singleton of_nat_diff)
qed

lemma ml_drop_less_truthful:
  assumes "slices_ok slices" and "known slices = T \<inter> covered slices"
    and "T \<subseteq> {min_message_position..}" and "covered slices \<subseteq> {min_message_position..}"
  shows "slice_parts.truthful {z\<in>T. p \<le> z} (fst (ml_drop_less p slices))"
    and "covered (fst (ml_drop_less p slices)) \<subseteq> {min_message_position..}"
proof -
  have parts: "\<forall>s\<in>set slices. set (sl_msgs s) = T \<inter> slice_range s"
    using slice_truth [OF assms(1,2)] by blast
  have from_sets: "slice_parts.truthful U ss" if "slices_ok ss" "\<forall>s\<in>set ss. set (sl_msgs s) = U \<inter> slice_range s" for U ss
    using that by (auto simp: slice_parts.truthful_def known_def covered_def)
  have "slices_ok (fst (ml_drop_less p slices))
    \<and> (\<forall>s\<in>set (fst (ml_drop_less p slices)). set (sl_msgs s) = {z\<in>T. p \<le> z} \<inter> slice_range s)
    \<and> covered (fst (ml_drop_less p slices)) \<subseteq> {min_message_position..}"
    using assms(1,4) parts
  proof (induction slices)
    case Nil
    then show ?case by (simp add: slice_simps)
  next
    case (Cons s ss)
    have ok: "slice_ok s" "slices_ok ss" "\<forall>y\<in>set ss. sl_till s < sl_from y"
      using Cons.prems(1) by (simp_all add: slice_simps)
    have cov: "slice_range s \<subseteq> {min_message_position..}" "covered ss \<subseteq> {min_message_position..}"
      using Cons.prems(2) by (simp_all add: slice_simps)
    have msgs: "set (sl_msgs s) = T \<inter> slice_range s" using Cons.prems(3) by simp
    have rest: "set (sl_msgs r) = {z\<in>T. p \<le> z} \<inter> slice_range r" if "r \<in> set ss" "p < sl_till s" for r
    proof -
      have "sl_till s < sl_from r" using ok(3) that(1) by blast
      with that(2) have "p < sl_from r" by (rule less_trans)
      then have "slice_range r \<subseteq> {z. p \<le> z}" by (auto simp: slice_range_def)
      moreover have "set (sl_msgs r) = T \<inter> slice_range r" using Cons.prems(3) that(1) by simp
      ultimately show ?thesis by blast
    qed
    consider (gone) "sl_till s \<le> p" | (cut) "p < sl_till s" "sl_from s \<le> p" | (stay) "p < sl_till s" "p < sl_from s"
      by (meson not_le)
    then show ?case
    proof cases
      case gone
      with Cons.IH ok(2) cov(2) Cons.prems(3) show ?thesis by (simp add: case_prod_beta)
    next
      case cut
      let ?s = "s\<lparr>sl_from := min_message_position,
        sl_msgs := drop (lower_bound_by (\<lambda>x. x) p (sl_msgs s)) (sl_msgs s)\<rparr>"
      have n: "(sl_till s \<le> p) = False" using cut(1) by auto
      have eq: "fst (ml_drop_less p (s # ss)) = ?s # ss" by (simp add: Let_def n cut(2))
      have asc: "strict_asc (sl_msgs s)" using ok(1) by (simp add: slice_ok_def)
      have new: "set (sl_msgs ?s) = {m\<in>set (sl_msgs s). p \<le> m}"
        using bound_splits(2) [of "\<lambda>x. x" "sl_msgs s" _ p] asc by (auto simp: strict_sorted_iff)
      have from': "min_message_position \<le> sl_from s"
        using cov(1) slice_ok_extremes [OF ok(1)] by auto
      have range': "slice_range ?s = {min_message_position..sl_till s}" by (simp add: slice_range_def)
      have "slice_ok ?s"
        unfolding slice_ok_def range' new
      proof (intro conjI)
        show "sl_from ?s \<le> sl_till ?s" using ok(1) from' by (auto simp: slice_ok_def)
        show "strict_asc (sl_msgs ?s)" using asc by (simp add: sorted_wrt_drop)
        show "{m\<in>set (sl_msgs s). p \<le> m} \<subseteq> {min_message_position..sl_till s}"
          using msgs from' by (auto simp: slice_range_def)
      qed
      moreover have "set (sl_msgs ?s) = {z\<in>T. p \<le> z} \<inter> slice_range ?s"
        unfolding new range' msgs using cut from' assms(3) by (auto simp: slice_range_def)
      moreover have "slice_range ?s \<subseteq> {min_message_position..}" by (auto simp: range')
      ultimately show ?thesis unfolding eq using ok rest cut(1) cov by (simp add: slice_simps)
    next
      case stay
      then have n: "(sl_till s \<le> p) = False" "(sl_from s \<le> p) = False" by auto
      have eq: "fst (ml_drop_less p (s # ss)) = s # ss" by (simp add: n)
      have "slice_range s \<subseteq> {z. p \<le> z}" using stay(2) by (auto simp: slice_range_def)
      with msgs have "set (sl_msgs s) = {z\<in>T. p \<le> z} \<inter> slice_range s" by blast
      then show ?thesis unfolding eq using ok rest stay(1) cov by (simp add: slice_simps)
    qed
  qed
  then show "slice_parts.truthful {z\<in>T. p \<le> z} (fst (ml_drop_less p slices))"
    and "covered (fst (ml_drop_less p slices)) \<subseteq> {min_message_position..}"
    using from_sets by blast+
qed

section \<open>Runs\<close>

datatype ml_op =
  MlOne message_position
| MlNew message_position
| MlSlice "message_position list" message_position message_position "int option"
| MlRemove message_position
| MlInvalidate
| MlInvalidateBottom

fun ml_world :: "ml_op \<Rightarrow> message_position set \<Rightarrow> message_position set" where
  "ml_world (MlOne p) T = insert p T"
| "ml_world (MlNew p) T = insert p T"
| "ml_world (MlRemove p) T = T - {p}"
| "ml_world _ T = T"

fun ml_op_true :: "ml_op \<Rightarrow> message_position set \<Rightarrow> bool" where
  "ml_op_true (MlOne p) T = (p \<in> all_positions \<and> p \<notin> T)"
| "ml_op_true (MlNew p) T = (p \<in> all_positions \<and> T \<inter> {p..max_message_position} = {})"
| "ml_op_true (MlSlice ms f t cnt) T =
     (f \<le> t \<and> set ms = T \<inter> {f..t} \<and> (case cnt of Some c \<Rightarrow> c = int (card T) | None \<Rightarrow> True))"
| "ml_op_true (MlRemove p) T = (p \<in> T)"
| "ml_op_true _ T = True"

fun ml_step :: "ml_op \<Rightarrow> messages_list \<Rightarrow> messages_list" where
  "ml_step (MlOne p) s = fst (ml_add_one p s)"
| "ml_step (MlNew p) s = fst (ml_add_new p s)"
| "ml_step (MlSlice ms f t cnt) s = fst (ml_add_slice ms f t cnt s)"
| "ml_step (MlRemove p) s = fst (ml_remove_one p s)"
| "ml_step MlInvalidate s = ml_invalidate s"
| "ml_step MlInvalidateBottom s = ml_invalidate_bottom s"

lemma ml_step_true:
  assumes "ml_true T s" and "ml_op_true c T"
  shows "ml_true (ml_world c T) (ml_step c s)"
proof (cases c)
  case (MlOne p)
  with assms show ?thesis
    using ml_add_appear_true [OF assms(1), of p p] by (simp add: ml_add_one_def)
next
  case (MlNew p)
  with assms show ?thesis
    using ml_add_appear_true [OF assms(1), of p max_message_position] by (simp add: ml_add_new_def)
next
  case (MlSlice ms f t cnt)
  with assms show ?thesis by (auto intro!: ml_add_slice_true)
next
  case (MlRemove p)
  with assms show ?thesis by (simp add: ml_remove_one_true)
next
  case MlInvalidate
  with ml_true_parts [OF assms(1)] show ?thesis
    by (simp add: ml_true_def ml_invalidate_def slice_parts.truthful_def slice_simps)
next
  case MlInvalidateBottom
  with ml_true_parts [OF assms(1)] show ?thesis
    by (simp add: ml_true_def ml_invalidate_bottom_def slices_invalidate_truthful)
qed

interpretation ml_machine: guarded_machine
  "\<lambda>p c. (ml_world c (fst p), ml_step c (snd p))" "\<lambda>p c. ml_op_true c (fst p)"
  "\<lambda>p. ml_true (fst p) (snd p)"
  by unfold_locales (simp add: ml_step_true)

definition ml_run :: "ml_op list \<Rightarrow> message_position set \<times> messages_list
    \<Rightarrow> message_position set \<times> messages_list" where
  "ml_run cs p = foldl (\<lambda>p c. (ml_world c (fst p), ml_step c (snd p))) p cs"

fun ml_run_true :: "ml_op list \<Rightarrow> message_position set \<Rightarrow> bool" where
  "ml_run_true [] T = True"
| "ml_run_true (c # cs) T = (ml_op_true c T \<and> ml_run_true cs (ml_world c T))"

lemma ml_run_legal: "ml_machine.legal p cs \<longleftrightarrow> ml_run_true cs (fst p)"
  by (induction cs arbitrary: p) simp_all

definition no_messages :: messages_list where
  "no_messages = \<lparr>ml_count = None, ml_slices = []\<rparr>"

lemma ml_run_keeps:
  assumes "finite T" and "T \<subseteq> all_positions" and "ml_run_true cs T"
  shows "ml_true (fst (ml_run cs (T, no_messages))) (snd (ml_run cs (T, no_messages)))"
proof -
  have "ml_true T no_messages"
    using assms(1,2) by (simp add: ml_true_def no_messages_def slice_parts.truthful_def slice_simps)
  with ml_machine.inv_run [of "(T, no_messages)" cs] assms(3) show ?thesis
    by (simp add: ml_run_def ml_run_legal)
qed

lemma ml_query_true:
  assumes s: "ml_true T s" and a: "position_set around" and lim: "0 \<le> lb" "0 \<le> la"
  shows "if around \<in> covered (ml_slices s)
    then \<exists>part\<subseteq>covered (ml_slices s). around \<in> part
      \<and> window_true T part around lb la (ml_query_current around lb la s)
    else ml_query_current around lb la s = empty_result"
proof (cases "slice_index around (ml_slices s)")
  case None
  with slice_index_covers [OF ml_true_parts(3) [OF s], of around] show ?thesis
    by (simp add: ml_query_current_def)
next
  case (Some i)
  note parts = ml_true_parts [OF s] and idx = slice_index_covered [OF ml_true_parts(3) [OF s], of around]
  define sl where "sl = ml_slices s ! i"
  have sl: "sl \<in> set (ml_slices s)" "around \<in> slice_range sl" using idx Some by (simp_all add: sl_def)
  have "slice_ok sl" using parts(3) sl(1) by (simp add: slices_ok_def)
  note q = query_window [OF this sl(2) slice_truth [OF parts(3,4) sl(1)] parts(2,1) parts(5) lim, of "ml_count s"]
  have "ml_query_current around lb la s = query_from_slice min_message_position max_message_position
      (ml_count s) around lb la sl"
    using a Some by (simp add: ml_query_current_def sl_def)
  moreover have "slice_range sl \<subseteq> covered (ml_slices s)" using sl(1) by (auto simp: covered_def)
  moreover have "around \<in> covered (ml_slices s)"
    using slice_index_covers [OF parts(3), of around] Some by simp
  ultimately show ?thesis using q(1) sl(2) by auto
qed

section \<open>Properties\<close>



text \<open>Removing what is older than a position leaves slices that are truthful
  about the messages from that position on.\<close>

theorem remove_less_than_true:
  assumes "ml_true T s" and "covered (ml_slices s) \<subseteq> {min_message_position..}"
  shows "slices_ok (ml_slices (ml_remove_less_than p s))
    \<and> known (ml_slices (ml_remove_less_than p s))
      = {z\<in>T. p \<le> z} \<inter> covered (ml_slices (ml_remove_less_than p s))"
proof -
  note parts = ml_true_parts [OF assms(1)]
  have "T \<subseteq> {min_message_position..}" using parts(2) by auto
  note ml_drop_less_truthful(1) [OF parts(3,4) this assms(2), of p]
  moreover have "ml_slices (ml_remove_less_than p s) = fst (ml_drop_less p (ml_slices s))"
    by (simp add: ml_remove_less_than_def case_prod_beta Let_def)
  ultimately show ?thesis by (simp add: slice_parts.truthful_def)
qed

theorem remove_less_than_true_witness:
  "let a = MessagePosition 5 0 3; b = MessagePosition 9 0 8;
     s = \<lparr>ml_count = Some 2, ml_slices = [\<lparr>sl_msgs = [a, b], sl_from = min_message_position, sl_till = max_message_position\<rparr>]\<rparr> in
   known (ml_slices (ml_remove_less_than b s)) = {b}"
proof -
  define a where "a = MessagePosition 5 0 3"
  define b where "b = MessagePosition 9 0 8"
  define s where "s = \<lparr>ml_count = Some 2,
    ml_slices = [\<lparr>sl_msgs = [a, b], sl_from = min_message_position, sl_till = max_message_position\<rparr>]\<rparr>"
  have order: "min_message_position < a" "a < b" "b < max_message_position" "min_message_position < b"
    unfolding a_def b_def by code_simp+
  have true': "ml_true {a, b} s"
    using order by (auto simp: ml_true_def s_def slice_parts.truthful_def slice_simps slice_ok_def slice_range_def)
  have cover: "covered (ml_slices s) \<subseteq> {min_message_position..}"
    by (auto simp: s_def slice_simps slice_range_def)
  have "ml_slices (ml_remove_less_than b s)
      = [\<lparr>sl_msgs = [b], sl_from = min_message_position, sl_till = max_message_position\<rparr>]"
    unfolding s_def a_def b_def by code_simp
  moreover from this have "covered (ml_slices (ml_remove_less_than b s)) = {min_message_position..max_message_position}"
    by (auto simp: slice_simps slice_range_def)
  moreover have "known (ml_slices (ml_remove_less_than b s))
      = {z \<in> {a, b}. b \<le> z} \<inter> covered (ml_slices (ml_remove_less_than b s))"
    by (rule remove_less_than_true [OF true' cover, THEN conjunct2])
  moreover have "{z \<in> {a, b}. b \<le> z} = {b}" using order(2) by (auto simp: not_le)
  ultimately have "known (ml_slices (ml_remove_less_than b s)) = {b}"
    using order(3,4) by (simp add: less_imp_le)
  then show ?thesis unfolding Let_def a_def [symmetric] b_def [symmetric] s_def [symmetric] .
qed

text \<open>A slice that ends at the very position goes with the message at this position, although it is not
  older, and the message is taken off the total.\<close>

lemma remove_less_than_takes_the_bound:
  "let a = MessagePosition 5 0 3; b = MessagePosition 9 0 8;
     s = \<lparr>ml_count = Some 2, ml_slices = [\<lparr>sl_msgs = [a, b], sl_from = a, sl_till = b\<rparr>]\<rparr> in
   ml_slices (ml_remove_less_than b s) = [] \<and> ml_count (ml_remove_less_than b s) = Some 0"
  by code_simp

end
