(* ===== verification/SliceBuilder.thy ===== *)
theory SliceBuilder
  imports MessagesList
begin

text \<open>
  The window of messages a view shows (\<open>Data::MessagesSliceBuilder\<close>, \<open>data/data_messages.cpp\<close>): it
  collects what the list reports around a key, cuts it to its limits and asks for more.

  \<open>_insufficientAround\<close> events are the list of requests each operation returns, in order. The
  \<open>Assert\<close>s of the source (an id that was in the set is still found in it) hold by
  \<open>index_of_present\<close>. The member \<open>_range\<close> is only written by \<open>removeAll\<close>.
\<close>

datatype load_direction = LoadAround | LoadBefore | LoadAfter

type_synonym around_data = "message_position \<times> load_direction"

record slice_builder =
  sb_key :: message_position
  sb_ids :: "message_position list"
  sb_range :: "message_position \<times> message_position"
  sb_full_count :: "int option"
  sb_skipped_before :: "int option"
  sb_skipped_after :: "int option"
  sb_limit_before :: int
  sb_limit_after :: int

definition new_builder :: "message_position \<Rightarrow> int \<Rightarrow> int \<Rightarrow> slice_builder" where
  "new_builder key limit_before limit_after =
     \<lparr>sb_key = key, sb_ids = [], sb_range = (no_position, no_position), sb_full_count = None,
      sb_skipped_before = None, sb_skipped_after = None,
      sb_limit_before = limit_before, sb_limit_after = limit_after\<rparr>"

definition request_before :: "slice_builder \<Rightarrow> around_data" where
  "request_before b = (if sb_ids b = [] then (sb_key b, LoadAround) else (hd (sb_ids b), LoadBefore))"

definition request_after :: "slice_builder \<Rightarrow> around_data" where
  "request_after b = (if sb_ids b = [] then (sb_key b, LoadAround) else (last (sb_ids b), LoadAfter))"

definition request_count :: around_data where
  "request_count = (no_position, LoadAround)"

definition slice_to_limits :: "slice_builder \<Rightarrow> slice_builder \<times> around_data list" where
  "slice_to_limits b =
     (if \<not> position_set (sb_key b) then
        (b, if sb_full_count b = None then [request_count] else [])
      else let
        around = lower_bound_by (\<lambda>x. x) (sb_key b) (sb_ids b);
        remove_begin = int around - sb_limit_before b;
        remove_end = int (length (sb_ids b) - around) - sb_limit_after b - 1;
        (b1, requests1) =
          (if remove_begin > 0 then
             (b\<lparr>sb_ids := drop (nat remove_begin) (sb_ids b),
                sb_skipped_before := map_option (\<lambda>n. n + remove_begin) (sb_skipped_before b)\<rparr>, [])
           else if remove_begin < 0
               \<and> (case sb_skipped_before b of None \<Rightarrow> True | Some n \<Rightarrow> n > 0)
             then (b, [request_before b])
           else (b, []));
        (b2, requests2) =
          (if remove_end > 0 then
             (b1\<lparr>sb_ids := take (length (sb_ids b1) - nat remove_end) (sb_ids b1),
                 sb_skipped_after := map_option (\<lambda>n. n + remove_end) (sb_skipped_after b1)\<rparr>, [])
           else if remove_end < 0
               \<and> (case sb_skipped_after b1 of None \<Rightarrow> True | Some n \<Rightarrow> n > 0)
             then (b1, [request_after b1])
           else (b1, [])) in
      (b2, requests1 @ requests2 @
        (if sb_full_count b2 = None \<and> requests1 @ requests2 = [] then [request_count] else [])))"

definition fill_skipped :: "slice_builder \<Rightarrow> slice_builder" where
  "fill_skipped b =
     (case sb_full_count b of
        None \<Rightarrow> b
      | Some c \<Rightarrow>
          (case (sb_skipped_before b, sb_skipped_after b) of
             (Some n, None) \<Rightarrow> b\<lparr>sb_skipped_after := Some (c - n - int (length (sb_ids b)))\<rparr>
           | (None, Some n) \<Rightarrow> b\<lparr>sb_skipped_before := Some (c - n - int (length (sb_ids b)))\<rparr>
           | _ \<Rightarrow> b))"

definition fill_skipped_and_slice :: "slice_builder \<Rightarrow> slice_builder \<times> around_data list" where
  "fill_skipped_and_slice b = slice_to_limits (fill_skipped b)"

definition position_index :: "message_position \<Rightarrow> message_position list \<Rightarrow> nat" where
  "position_index p ids = length (takeWhile (\<lambda>q. q \<noteq> p) ids)"

definition merge_slice_data ::
  "int option \<Rightarrow> message_position list \<Rightarrow> int option \<Rightarrow> int option \<Rightarrow> slice_builder
    \<Rightarrow> slice_builder \<times> around_data list" where
  "merge_slice_data cnt message_ids skipped_before skipped_after b =
     (if message_ids = [] then
        fill_skipped_and_slice
          (case cnt of
             Some c \<Rightarrow>
               if sb_full_count b \<noteq> cnt then
                 (if c \<le> int (length (sb_ids b))
                  then b\<lparr>sb_full_count := Some (int (length (sb_ids b))),
                         sb_skipped_before := Some 0, sb_skipped_after := Some 0\<rparr>
                  else b\<lparr>sb_full_count := Some c\<rparr>)
               else b
           | None \<Rightarrow> b)
      else let
        ids = asc_merge (sb_ids b) message_ids;
        adjust_before = (\<lambda>old_id old. Some (max (old - int (position_index old_id ids)) 0));
        adjust_after = (\<lambda>old_id old. Some (max (old - (int (length ids) - int (position_index old_id ids) - 1)) 0));
        before = (case skipped_before of
            Some n \<Rightarrow> adjust_before (hd message_ids) n
          | None \<Rightarrow>
              (case sb_skipped_before b of
                 Some n \<Rightarrow> if sb_ids b \<noteq> [] then adjust_before (hd (sb_ids b)) n else None
               | None \<Rightarrow> None));
        after = (case skipped_after of
            Some n \<Rightarrow> adjust_after (last message_ids) n
          | None \<Rightarrow>
              (case sb_skipped_after b of
                 Some n \<Rightarrow> if sb_ids b \<noteq> [] then adjust_after (last (sb_ids b)) n else None
               | None \<Rightarrow> None)) in
      fill_skipped_and_slice
        (b\<lparr>sb_ids := ids,
           sb_full_count := (case cnt of Some c \<Rightarrow> Some c | None \<Rightarrow> sb_full_count b),
           sb_skipped_before := before, sb_skipped_after := after\<rparr>))"

definition apply_initial ::
  "message_position query_result \<Rightarrow> slice_builder \<Rightarrow> bool \<times> slice_builder \<times> around_data list" where
  "apply_initial r b =
     (True, merge_slice_data (qr_count r) (qr_ids r) (qr_before r) (qr_after r) b)"

definition need_merge_messages :: "messages_update \<Rightarrow> slice_builder \<Rightarrow> bool" where
  "need_merge_messages u b \<longleftrightarrow> mu_messages u \<noteq> None
     \<and> (let front = (if sb_ids b = [] then sb_key b else hd (sb_ids b));
          back = (if sb_ids b = [] then sb_key b else last (sb_ids b)) in
        fst (mu_range u) \<le> back \<and> front \<le> snd (mu_range u))"

definition apply_update ::
  "messages_update \<Rightarrow> slice_builder \<Rightarrow> bool \<times> slice_builder \<times> around_data list" where
  "apply_update u b =
     (if \<not> need_merge_messages u b \<and> mu_count u = None then (False, b, [])
      else (True, merge_slice_data (mu_count u)
        (if need_merge_messages u b then the (mu_messages u) else [])
        (if fst (mu_range u) = min_message_position then Some 0 else None)
        (if snd (mu_range u) = max_message_position then Some 0 else None) b))"

definition builder_remove_one :: "message_position \<Rightarrow> slice_builder \<Rightarrow> bool \<times> slice_builder" where
  "builder_remove_one p b =
     (let (changed, b1) =
          (case sb_full_count b of
             Some c \<Rightarrow> if c > 0 then (True, b\<lparr>sb_full_count := Some (c - 1)\<rparr>) else (False, b)
           | None \<Rightarrow> (False, b)) in
      if p \<in> set (sb_ids b1) then (True, b1\<lparr>sb_ids := asc_remove p (sb_ids b1)\<rparr>)
      else if sb_ids b1 \<noteq> [] then
        (case (sb_skipped_before b1, sb_skipped_after b1) of
           (before, after) \<Rightarrow>
             if p < hd (sb_ids b1) \<and> (case before of Some n \<Rightarrow> n > 0 | None \<Rightarrow> False)
             then (True, b1\<lparr>sb_skipped_before := map_option (\<lambda>n. n - 1) before\<rparr>)
             else if last (sb_ids b1) < p \<and> (case after of Some n \<Rightarrow> n > 0 | None \<Rightarrow> False)
             then (True, b1\<lparr>sb_skipped_after := map_option (\<lambda>n. n - 1) after\<rparr>)
             else (changed, b1))
      else (changed, b1))"

definition builder_remove_all :: "slice_builder \<Rightarrow> bool \<times> slice_builder" where
  "builder_remove_all b =
     (True, b\<lparr>sb_ids := [], sb_range := (min_message_position, max_message_position),
        sb_full_count := Some 0, sb_skipped_before := Some 0, sb_skipped_after := Some 0\<rparr>)"

definition builder_invalidated :: "slice_builder \<Rightarrow> bool \<times> slice_builder \<times> around_data list" where
  "builder_invalidated b =
     (False, slice_to_limits (b\<lparr>sb_full_count := None, sb_skipped_before := None,
        sb_skipped_after := None, sb_ids := []\<rparr>))"

definition builder_bottom_invalidated :: "slice_builder \<Rightarrow> bool \<times> slice_builder \<times> around_data list" where
  "builder_bottom_invalidated b =
     (True, slice_to_limits (b\<lparr>sb_full_count := None, sb_skipped_after := None\<rparr>))"

record messages_slice_view =
  ms_ids :: "(64 word \<times> int) list"
  ms_nearest :: "64 word \<times> int"
  ms_skipped_before :: "int option"
  ms_skipped_after :: "int option"
  ms_full_count :: "int option"

definition full_id :: "message_position \<Rightarrow> 64 word \<times> int" where
  "full_id p = (mp_peer p, mp_msg p)"

definition builder_snapshot :: "slice_builder \<Rightarrow> messages_slice_view" where
  "builder_snapshot b =
     \<lparr>ms_ids = map full_id (sb_ids b),
      ms_nearest = (case filter (\<lambda>p. p \<ge> sb_key b) (sb_ids b) of
          p # _ \<Rightarrow> full_id p
        | [] \<Rightarrow> if sb_ids b = [] then (0, 0) else full_id (last (sb_ids b))),
      ms_skipped_before = sb_skipped_before b,
      ms_skipped_after = sb_skipped_after b,
      ms_full_count = sb_full_count b\<rparr>"

section \<open>Windows without gaps\<close>

definition gapless :: "'a::linorder set \<Rightarrow> 'a set \<Rightarrow> bool" where
  "gapless T W \<longleftrightarrow> W \<subseteq> T \<and> (\<forall>x\<in>W. \<forall>y\<in>W. \<forall>z\<in>T. x \<le> z \<and> z \<le> y \<longrightarrow> z \<in> W)"

lemma gapless_mem: "gapless T W \<Longrightarrow> x \<in> W \<Longrightarrow> y \<in> W \<Longrightarrow> z \<in> T \<Longrightarrow> x \<le> z \<Longrightarrow> z \<le> y \<Longrightarrow> z \<in> W"
  unfolding gapless_def by blast

text \<open>A non-empty gapless ascending list splits the whole into what is before, it, and what is after.\<close>

lemma gapless_parts:
  assumes T: "finite T" and g: "gapless T (set ids)" and asc: "strict_asc ids" and ne: "ids \<noteq> []"
  shows "card T = card {z\<in>T. z < hd ids} + length ids + card {z\<in>T. last ids < z}"
proof -
  have sub: "set ids \<subseteq> T" using g by (simp add: gapless_def)
  have hl: "hd ids \<in> set ids" "last ids \<in> set ids" using ne by simp_all
  have mid: "set ids = {z\<in>T. hd ids \<le> z \<and> z \<le> last ids}"
  proof (intro equalityI subsetI)
    show "z \<in> {z\<in>T. hd ids \<le> z \<and> z \<le> last ids}" if "z \<in> set ids" for z
      using strict_asc_hd [OF asc that] strict_asc_last [OF asc that] subsetD [OF sub that] by simp
    show "z \<in> set ids" if "z \<in> {z\<in>T. hd ids \<le> z \<and> z \<le> last ids}" for z
      using gapless_mem [OF g hl] that by simp
  qed
  have T_eq: "T = ({z\<in>T. z < hd ids} \<union> {z\<in>T. hd ids \<le> z \<and> z \<le> last ids}) \<union> {z\<in>T. last ids < z}"
    by auto
  have le: "hd ids \<le> last ids" using strict_asc_hd [OF asc hl(2)] .
  have "card (({z\<in>T. z < hd ids} \<union> {z\<in>T. hd ids \<le> z \<and> z \<le> last ids}) \<union> {z\<in>T. last ids < z})
      = card ({z\<in>T. z < hd ids} \<union> {z\<in>T. hd ids \<le> z \<and> z \<le> last ids}) + card {z\<in>T. last ids < z}"
    using T le by (intro card_Un_disjoint) auto
  also have "card ({z\<in>T. z < hd ids} \<union> {z\<in>T. hd ids \<le> z \<and> z \<le> last ids})
      = card {z\<in>T. z < hd ids} + card {z\<in>T. hd ids \<le> z \<and> z \<le> last ids}"
    using T by (intro card_Un_disjoint) auto
  finally show ?thesis using T_eq strict_asc_card [OF asc] mid by metis
qed

lemma card_below:
  assumes T: "finite T" and g: "gapless T (set ids)" and asc: "strict_asc ids" and p: "p \<in> set ids"
  shows "card {z\<in>T. z < p} = card {z\<in>T. z < hd ids} + card {z\<in>set ids. z < p}"
proof -
  have ne: "ids \<noteq> []" using p by auto
  then have h: "hd ids \<in> set ids" by simp
  have sub: "set ids \<subseteq> T" using g by (simp add: gapless_def)
  have "hd ids \<le> p" by (rule strict_asc_hd [OF asc p])
  then have "{z\<in>T. z < p} = {z\<in>T. z < hd ids} \<union> {z\<in>set ids. z < p}"
    using subsetD [OF sub] gapless_mem [OF g h p] less_le_trans [of _ "hd ids" p]
    by (intro equalityI subsetI; simp) (metis less_imp_le not_le, blast)
  moreover have "{z\<in>T. z < hd ids} \<inter> {z\<in>set ids. z < p} = {}"
    by (auto dest: strict_asc_hd [OF asc] simp flip: not_le)
  ultimately show ?thesis using T by (simp add: card_Un_disjoint)
qed

lemma card_above:
  assumes T: "finite T" and g: "gapless T (set ids)" and asc: "strict_asc ids" and p: "p \<in> set ids"
  shows "card {z\<in>T. p < z} = card {z\<in>T. last ids < z} + card {z\<in>set ids. p < z}"
proof -
  have ne: "ids \<noteq> []" using p by auto
  then have h: "last ids \<in> set ids" by simp
  have sub: "set ids \<subseteq> T" using g by (simp add: gapless_def)
  have "p \<le> last ids" by (rule strict_asc_last [OF asc p])
  then have "{z\<in>T. p < z} = {z\<in>T. last ids < z} \<union> {z\<in>set ids. p < z}"
    using subsetD [OF sub] gapless_mem [OF g p h] le_less_trans [of p "last ids"]
    by (intro equalityI subsetI; simp) (metis less_imp_le not_le, blast)
  moreover have "{z\<in>T. last ids < z} \<inter> {z\<in>set ids. p < z} = {}"
    by (auto dest: strict_asc_last [OF asc] simp flip: not_le)
  ultimately show ?thesis using T by (simp add: card_Un_disjoint)
qed

lemma position_index_card:
  assumes "strict_asc ids" and "p \<in> set ids"
  shows "position_index p ids = card {z\<in>set ids. z < p}"
    and "length ids - position_index p ids - 1 = card {z\<in>set ids. p < z}"
    and "position_index p ids < length ids"
proof -
  obtain xs ys where split: "ids = xs @ p # ys" "p \<notin> set xs" using split_list_first [OF assms(2)] by blast
  have i: "position_index p ids = length xs"
    unfolding position_index_def split(1) by (subst takeWhile_append2) (use split(2) in auto)
  have asc: "strict_asc xs" "strict_asc ys" "\<forall>x\<in>set xs. x < p" "\<forall>y\<in>set ys. p < y"
    using assms(1) unfolding split(1) by (auto simp: sorted_wrt_append)
  have "{z\<in>set ids. z < p} = set xs" "{z\<in>set ids. p < z} = set ys"
    using asc(3,4) unfolding split(1) by auto
  then show "position_index p ids = card {z\<in>set ids. z < p}"
    and "length ids - position_index p ids - 1 = card {z\<in>set ids. p < z}"
    and "position_index p ids < length ids"
    using i asc(1,2) by (simp_all add: strict_asc_card split(1))
qed

lemma index_of_present: "p \<in> set ids \<Longrightarrow> position_index p ids < length ids"
  by (induction ids) (auto simp: position_index_def)

text \<open>What the builder promises about the messages \<open>T\<close> that exist.\<close>

definition builder_true :: "message_position set \<Rightarrow> slice_builder \<Rightarrow> bool" where
  "builder_true T b \<longleftrightarrow> finite T \<and> strict_asc (sb_ids b) \<and> gapless T (set (sb_ids b))
     \<and> 0 \<le> sb_limit_before b \<and> 0 \<le> sb_limit_after b
     \<and> (\<forall>c. sb_full_count b = Some c \<longrightarrow> c = int (card T))
     \<and> (sb_ids b \<noteq> [] \<longrightarrow>
         (\<forall>n. sb_skipped_before b = Some n \<longrightarrow> n = int (card {z\<in>T. z < hd (sb_ids b)}))
       \<and> (\<forall>n. sb_skipped_after b = Some n \<longrightarrow> n = int (card {z\<in>T. last (sb_ids b) < z})))"

lemma builder_parts:
  assumes "builder_true T b"
  shows "finite T" "strict_asc (sb_ids b)" "gapless T (set (sb_ids b))"
    "0 \<le> sb_limit_before b" "0 \<le> sb_limit_after b"
    "\<And>c. sb_full_count b = Some c \<Longrightarrow> c = int (card T)"
    "\<And>n. sb_ids b \<noteq> [] \<Longrightarrow> sb_skipped_before b = Some n \<Longrightarrow> n = int (card {z\<in>T. z < hd (sb_ids b)})"
    "\<And>n. sb_ids b \<noteq> [] \<Longrightarrow> sb_skipped_after b = Some n \<Longrightarrow> n = int (card {z\<in>T. last (sb_ids b) < z})"
  using assms unfolding builder_true_def by blast+

lemma gapless_sub:
  assumes "gapless T (set ids)" and "strict_asc ids"
  shows "gapless T (set (drop k ids))" and "gapless T (set (take k ids))"
proof -
  have sub: "set (drop k ids) \<subseteq> set ids" "set (take k ids) \<subseteq> set ids"
    by (simp_all add: set_drop_subset set_take_subset)
  have mid: "z \<in> set ids" if "x \<in> set ids" "y \<in> set ids" "z \<in> T" "x \<le> z" "z \<le> y" for x y z
    using assms(1) that unfolding gapless_def by blast
  show "gapless T (set (drop k ids))"
    unfolding gapless_def
  proof (intro conjI ballI impI)
    show "set (drop k ids) \<subseteq> T" using assms(1) sub by (auto simp: gapless_def)
    fix x y z
    assume xyz: "x \<in> set (drop k ids)" "y \<in> set (drop k ids)" "z \<in> T" "x \<le> z \<and> z \<le> y"
    then have "z \<in> set ids" using mid [of x y z] sub(1) by blast
    with xyz show "z \<in> set (drop k ids)" using strict_asc_tail_closed [OF assms(2) xyz(1)] by blast
  qed
  show "gapless T (set (take k ids))"
    unfolding gapless_def
  proof (intro conjI ballI impI)
    show "set (take k ids) \<subseteq> T" using assms(1) sub by (auto simp: gapless_def)
    fix x y z
    assume xyz: "x \<in> set (take k ids)" "y \<in> set (take k ids)" "z \<in> T" "x \<le> z \<and> z \<le> y"
    then have "z \<in> set ids" using mid [of x y z] sub(2) by blast
    with xyz show "z \<in> set (take k ids)" using strict_asc_head_closed [OF assms(2) xyz(2)] by blast
  qed
qed

lemma builder_drop_true:
  assumes b: "builder_true T b" and k: "k \<le> length (sb_ids b)"
  shows "builder_true T (b\<lparr>sb_ids := drop k (sb_ids b),
    sb_skipped_before := map_option (\<lambda>n. n + int k) (sb_skipped_before b)\<rparr>)"
proof -
  note p = builder_parts [OF b]
  have "n = int (card {z\<in>T. z < hd (drop k (sb_ids b))})"
    if "drop k (sb_ids b) \<noteq> []" "map_option (\<lambda>n. n + int k) (sb_skipped_before b) = Some n" for n
  proof -
    let ?h = "hd (drop k (sb_ids b))"
    have h: "?h \<in> set (sb_ids b)" using that(1) by (meson in_set_dropD hd_in_set)
    have "{z\<in>set (sb_ids b). z < ?h} = set (take k (sb_ids b))"
    proof -
      have "sb_ids b = take k (sb_ids b) @ ?h # tl (drop k (sb_ids b))" using that(1) by simp
      then have "strict_asc (take k (sb_ids b) @ ?h # tl (drop k (sb_ids b)))"
        and s: "set (sb_ids b) = set (take k (sb_ids b)) \<union> insert ?h (set (tl (drop k (sb_ids b))))"
        using p(2) by (metis, metis list.set(2) set_append)
      then have "\<forall>x\<in>set (take k (sb_ids b)). x < ?h" "\<forall>y\<in>set (tl (drop k (sb_ids b))). ?h < y"
        by (simp_all add: sorted_wrt_append)
      with s show ?thesis by auto
    qed
    moreover have "card (set (take k (sb_ids b))) = k"
      using k p(2) by (simp add: strict_asc_card sorted_wrt_take)
    ultimately have "card {z\<in>T. z < ?h} = card {z\<in>T. z < hd (sb_ids b)} + k"
      using card_below [OF p(1,3,2) h] by simp
    moreover have "sb_ids b \<noteq> []" using that(1) by auto
    ultimately show ?thesis using that(2) p(7) by auto
  qed
  moreover have "n = int (card {z\<in>T. last (drop k (sb_ids b)) < z})"
    if "drop k (sb_ids b) \<noteq> []" "sb_skipped_after b = Some n" for n
  proof -
    have "sb_ids b \<noteq> []" using that(1) by auto
    with that p(8) [of n] show ?thesis by (simp add: last_drop)
  qed
  ultimately show ?thesis
    using p(1,2,4-6) gapless_sub(1) [OF p(3,2), of k]
    unfolding builder_true_def by (simp add: sorted_wrt_drop)
qed

lemma builder_take_true:
  assumes b: "builder_true T b" and k: "k \<le> length (sb_ids b)"
  shows "builder_true T (b\<lparr>sb_ids := take (length (sb_ids b) - k) (sb_ids b),
    sb_skipped_after := map_option (\<lambda>n. n + int k) (sb_skipped_after b)\<rparr>)"
proof -
  note p = builder_parts [OF b]
  let ?m = "length (sb_ids b) - k"
  let ?t = "take ?m (sb_ids b)"
  have "n = int (card {z\<in>T. last ?t < z})"
    if "?t \<noteq> []" "map_option (\<lambda>n. n + int k) (sb_skipped_after b) = Some n" for n
  proof -
    let ?h = "last ?t"
    have h: "?h \<in> set (sb_ids b)" using that(1) by (meson in_set_takeD last_in_set)
    have "{z\<in>set (sb_ids b). ?h < z} = set (drop ?m (sb_ids b))"
    proof -
      have "sb_ids b = (butlast ?t @ [?h]) @ drop ?m (sb_ids b)" using that(1) by simp
      then have "strict_asc ((butlast ?t @ [?h]) @ drop ?m (sb_ids b))"
        and s: "set (sb_ids b) = set (butlast ?t @ [?h]) \<union> set (drop ?m (sb_ids b))"
        using p(2) by (metis, metis set_append)
      then have "\<forall>x\<in>set (butlast ?t). x < ?h" "\<forall>y\<in>set (drop ?m (sb_ids b)). ?h < y"
        unfolding sorted_wrt_append by auto
      with s show ?thesis by auto
    qed
    moreover have "card (set (drop ?m (sb_ids b))) = k"
      using k p(2) by (simp add: strict_asc_card sorted_wrt_drop)
    ultimately have "card {z\<in>T. ?h < z} = card {z\<in>T. last (sb_ids b) < z} + k"
      using card_above [OF p(1,3,2) h] by simp
    moreover have "sb_ids b \<noteq> []" using that(1) by auto
    ultimately show ?thesis using that(2) p(8) by auto
  qed
  moreover have "n = int (card {z\<in>T. z < hd ?t})"
    if "?t \<noteq> []" "sb_skipped_before b = Some n" for n
  proof -
    have "sb_ids b \<noteq> []" using that(1) by auto
    with that p(7) [of n] show ?thesis by (simp add: hd_take)
  qed
  ultimately show ?thesis
    using p(1,2,4-6) gapless_sub(2) [OF p(3,2), of ?m]
    unfolding builder_true_def by (simp add: sorted_wrt_take)
qed

section \<open>Every operation keeps the promise\<close>

lemma slice_to_limits_true:
  assumes b: "builder_true T b"
  shows "builder_true T (fst (slice_to_limits b))"
proof (cases "position_set (sb_key b)")
  case False
  with b show ?thesis by (simp add: slice_to_limits_def)
next
  case True
  note p = builder_parts [OF b]
  define around where "around = lower_bound_by (\<lambda>x. x) (sb_key b) (sb_ids b)"
  define rb where "rb = int around - sb_limit_before b"
  define re where "re = int (length (sb_ids b) - around) - sb_limit_after b - 1"
  have around: "around \<le> length (sb_ids b)" by (simp add: around_def lower_bound_le)
  define b1 where "b1 = (if rb > 0 then b\<lparr>sb_ids := drop (nat rb) (sb_ids b),
      sb_skipped_before := map_option (\<lambda>n. n + rb) (sb_skipped_before b)\<rparr> else b)"
  define b2 where "b2 = (if re > 0 then b1\<lparr>sb_ids := take (length (sb_ids b1) - nat re) (sb_ids b1),
      sb_skipped_after := map_option (\<lambda>n. n + re) (sb_skipped_after b1)\<rparr> else b1)"
  have "fst (slice_to_limits b) = b2"
    using True unfolding slice_to_limits_def Let_def around_def [symmetric] rb_def [symmetric] re_def [symmetric]
    by (simp add: b1_def b2_def)
  moreover have "builder_true T b1"
  proof (cases "rb > 0")
    case True
    then have "int (nat rb) = rb" "nat rb \<le> length (sb_ids b)" using p(4) around by (simp_all add: rb_def)
    then have "b1 = b\<lparr>sb_ids := drop (nat rb) (sb_ids b),
        sb_skipped_before := map_option (\<lambda>n. n + int (nat rb)) (sb_skipped_before b)\<rparr>"
      and k: "nat rb \<le> length (sb_ids b)" using True unfolding b1_def by (simp_all only: if_True)
    then show ?thesis using builder_drop_true [OF b k] by (simp only:)
  next
    case False
    with b show ?thesis by (simp add: b1_def)
  qed
  moreover have "nat re \<le> length (sb_ids b1)" if "re > 0"
    using that p(4,5) around by (auto simp: b1_def rb_def re_def)
  moreover have "builder_true T b2" if b1: "builder_true T b1"
    and k: "re > 0 \<Longrightarrow> nat re \<le> length (sb_ids b1)"
  proof (cases "re > 0")
    case True
    then have "int (nat re) = re" by simp
    then have "b2 = b1\<lparr>sb_ids := take (length (sb_ids b1) - nat re) (sb_ids b1),
        sb_skipped_after := map_option (\<lambda>n. n + int (nat re)) (sb_skipped_after b1)\<rparr>"
      using True unfolding b2_def by (simp only: if_True)
    then show ?thesis using builder_take_true [OF b1 k [OF True]] by (simp only:)
  next
    case False
    with b1 show ?thesis by (simp add: b2_def)
  qed
  ultimately show ?thesis by simp
qed

lemma fill_skipped_true:
  assumes b: "builder_true T b"
  shows "builder_true T (fill_skipped b)"
proof -
  note p = builder_parts [OF b]
  have "int (card T) = int (card {z\<in>T. z < hd (sb_ids b)}) + int (length (sb_ids b))
      + int (card {z\<in>T. last (sb_ids b) < z})" if "sb_ids b \<noteq> []"
    using gapless_parts [OF p(1,3,2) that] by simp
  then show ?thesis
    using p unfolding builder_true_def fill_skipped_def
    by (auto split: option.splits)
qed

lemma fill_and_slice_true: "builder_true T b \<Longrightarrow> builder_true T (fst (fill_skipped_and_slice b))"
  by (simp add: fill_skipped_and_slice_def fill_skipped_true slice_to_limits_true)

lemma merge_empty_true:
  assumes b: "builder_true T b" and c: "\<And>c. cnt = Some c \<Longrightarrow> c = int (card T)"
  shows "builder_true T (fst (merge_slice_data cnt [] sb sa b))"
proof -
  note p = builder_parts [OF b]
  have sub: "set (sb_ids b) \<subseteq> T" using p(3) by (simp add: gapless_def)
  have len: "length (sb_ids b) = card (set (sb_ids b))" using p(2) by (simp add: strict_asc_card)
  define b1 where "b1 = (case cnt of
             Some c \<Rightarrow>
               if sb_full_count b \<noteq> cnt then
                 (if c \<le> int (length (sb_ids b))
                  then b\<lparr>sb_full_count := Some (int (length (sb_ids b))),
                         sb_skipped_before := Some 0, sb_skipped_after := Some 0\<rparr>
                  else b\<lparr>sb_full_count := Some c\<rparr>)
               else b
           | None \<Rightarrow> b)"
  have "builder_true T b1"
  proof (cases "\<exists>c. cnt = Some c \<and> sb_full_count b \<noteq> cnt \<and> c \<le> int (length (sb_ids b))")
    case True
    then obtain d where d: "cnt = Some d" "sb_full_count b \<noteq> cnt" "d \<le> int (length (sb_ids b))" by blast
    then have b1: "b1 = b\<lparr>sb_full_count := Some (int (length (sb_ids b))),
        sb_skipped_before := Some 0, sb_skipped_after := Some 0\<rparr>"
      by (simp add: b1_def)
    have le: "card T \<le> length (sb_ids b)" using d(3) c [OF d(1)] by simp
    have eq: "set (sb_ids b) = T" using le len sub p(1) by (metis card_seteq)
    have "{z\<in>set (sb_ids b). z < hd (sb_ids b)} = {}" "{z\<in>set (sb_ids b). last (sb_ids b) < z} = {}"
      using strict_asc_hd [OF p(2)] strict_asc_last [OF p(2)] leD by blast+
    then have "{z\<in>T. z < hd (sb_ids b)} = {}" "{z\<in>T. last (sb_ids b) < z} = {}"
      unfolding eq .
    then have "card {z\<in>T. z < hd (sb_ids b)} = 0" "card {z\<in>T. last (sb_ids b) < z} = 0"
      by (simp_all only: card.empty)
    moreover have "int (length (sb_ids b)) = int (card T)" using len eq by simp
    ultimately show ?thesis using p(1-5) unfolding b1 builder_true_def by simp
  next
    case False
    then have "b1 = b \<or> (\<exists>d. cnt = Some d \<and> b1 = b\<lparr>sb_full_count := Some d\<rparr>)"
      by (cases cnt) (auto simp: b1_def)
    with b show ?thesis
    proof (elim disjE exE conjE)
      fix d
      assume "cnt = Some d" and b1: "b1 = b\<lparr>sb_full_count := Some d\<rparr>"
      with c have "d = int (card T)" by blast
      with p show ?thesis unfolding b1 builder_true_def by simp
    qed simp
  qed
  then show ?thesis
    unfolding merge_slice_data_def b1_def [symmetric] by (simp add: fill_and_slice_true)
qed

text \<open>Merging a gapless part that joins the window.\<close>

lemma merge_true:
  assumes fin: "finite T" and asc: "strict_asc (sb_ids b)" and lim: "0 \<le> sb_limit_before b" "0 \<le> sb_limit_after b"
    and full: "\<And>c. cnt = None \<Longrightarrow> sb_full_count b = Some c \<Longrightarrow> c = int (card T)"
    and c: "\<And>c. cnt = Some c \<Longrightarrow> c = int (card T)"
    and ms: "ms \<noteq> []" "strict_asc ms"
    and g: "gapless T (set (sb_ids b) \<union> set ms)"
    and before: "\<And>n. skb = Some n \<Longrightarrow> n = int (card {z\<in>T. z < hd ms})"
    and old_before: "\<And>n. skb = None \<Longrightarrow> sb_ids b \<noteq> [] \<Longrightarrow> sb_skipped_before b = Some n \<Longrightarrow>
      n = int (card {z\<in>T. z < hd (sb_ids b)})"
    and after: "\<And>n. ska = Some n \<Longrightarrow> n = int (card {z\<in>T. last ms < z})"
    and old_after: "\<And>n. ska = None \<Longrightarrow> sb_ids b \<noteq> [] \<Longrightarrow> sb_skipped_after b = Some n \<Longrightarrow>
      n = int (card {z\<in>T. last (sb_ids b) < z})"
  shows "builder_true T (fst (merge_slice_data cnt ms skb ska b))"
proof -
  define ids where "ids = asc_merge (sb_ids b) ms"
  have ids: "set ids = set (sb_ids b) \<union> set ms" "strict_asc ids"
    by (simp_all add: ids_def set_asc_merge strict_asc_merge asc)
  have g': "gapless T (set ids)" using g by (simp add: ids)
  define adjb where "adjb old_id old = Some (max (old - int (position_index old_id ids)) (0::int))" for old_id old
  define adja where "adja old_id old =
    Some (max (old - (int (length ids) - int (position_index old_id ids) - 1)) (0::int))" for old_id old
  have adjb: "adjb p n = Some (int (card {z\<in>T. z < hd ids}))"
    if "p \<in> set ids" "n = int (card {z\<in>T. z < p})" for p n
    using that position_index_card(1) [OF ids(2) that(1)] card_below [OF fin g' ids(2) that(1)]
    by (simp add: adjb_def)
  have adja: "adja p n = Some (int (card {z\<in>T. last ids < z}))"
    if "p \<in> set ids" "n = int (card {z\<in>T. p < z})" for p n
  proof -
    have "int (length ids) - int (position_index p ids) - 1 = int (card {z\<in>set ids. p < z})"
      using position_index_card(2,3) [OF ids(2) that(1)] by linarith
    then show ?thesis
      using that(2) card_above [OF fin g' ids(2) that(1)] by (simp add: adja_def)
  qed
  define skb' where "skb' = (case skb of
            Some n \<Rightarrow> adjb (hd ms) n
          | None \<Rightarrow>
              (case sb_skipped_before b of
                 Some n \<Rightarrow> if sb_ids b \<noteq> [] then adjb (hd (sb_ids b)) n else None
               | None \<Rightarrow> None))"
  define ska' where "ska' = (case ska of
            Some n \<Rightarrow> adja (last ms) n
          | None \<Rightarrow>
              (case sb_skipped_after b of
                 Some n \<Rightarrow> if sb_ids b \<noteq> [] then adja (last (sb_ids b)) n else None
               | None \<Rightarrow> None))"
  have mem: "hd ms \<in> set ids" "last ms \<in> set ids"
    "sb_ids b \<noteq> [] \<Longrightarrow> hd (sb_ids b) \<in> set ids" "sb_ids b \<noteq> [] \<Longrightarrow> last (sb_ids b) \<in> set ids"
    using ms(1) by (simp_all add: ids)
  have skb': "n = int (card {z\<in>T. z < hd ids})" if "skb' = Some n" for n
    using that before adjb [OF mem(1)] old_before adjb [OF mem(3)]
    by (auto simp: skb'_def split: option.splits if_splits)
  have ska': "n = int (card {z\<in>T. last ids < z})" if "ska' = Some n" for n
    using that after adja [OF mem(2)] old_after adja [OF mem(4)]
    by (auto simp: ska'_def split: option.splits if_splits)
  let ?b = "b\<lparr>sb_ids := ids,
           sb_full_count := (case cnt of Some c \<Rightarrow> Some c | None \<Rightarrow> sb_full_count b),
           sb_skipped_before := skb', sb_skipped_after := ska'\<rparr>"
  have "builder_true T ?b"
    unfolding builder_true_def using fin ids(2) g' lim full c skb' ska'
    by (auto split: option.splits)
  moreover have "merge_slice_data cnt ms skb ska b = fill_skipped_and_slice ?b"
    using ms(1) unfolding merge_slice_data_def Let_def ids_def [symmetric]
      adjb_def [symmetric] adja_def [symmetric] skb'_def [symmetric] ska'_def [symmetric]
    by simp
  ultimately show ?thesis by (simp add: fill_and_slice_true)
qed

lemma gapless_union:
  fixes T :: "'a::linorder set"
  assumes "gapless T (set ids)" and "ids \<noteq> []" and "strict_asc ids"
    and "T \<subseteq> T'" and "T' - T \<subseteq> {f..t}"
    and "W = T' \<inter> {f..t}" and "f \<le> last ids" and "hd ids \<le> t"
  shows "gapless T' (set ids \<union> W)"
  unfolding gapless_def
proof (intro conjI ballI impI)
  show "set ids \<union> W \<subseteq> T'" using assms(1,4,6) by (auto simp: gapless_def)
  fix x y z
  assume x: "x \<in> set ids \<union> W" and y: "y \<in> set ids \<union> W" and z: "z \<in> T'" and xyz: "x \<le> z \<and> z \<le> y"
  have h: "hd ids \<in> set ids" "last ids \<in> set ids" using assms(2) by simp_all
  note mem = gapless_mem [OF assms(1)] and first = strict_asc_hd [OF assms(3)]
    and final = strict_asc_last [OF assms(3)]
  show "z \<in> set ids \<union> W"
  proof (cases "hd ids \<le> z \<and> z \<le> last ids")
    case True
    then show ?thesis using mem [OF h, of z] z assms(5,6) by (cases "z \<in> T") auto
  next
    case False
    then consider "z < hd ids" | "last ids < z" by fastforce
    then have "f \<le> z \<and> z \<le> t"
    proof cases
      case 1
      then have "x \<in> W" using x xyz first by (meson UnE leD order_trans)
      with assms(6) xyz have "f \<le> z" by auto
      with 1 assms(8) show ?thesis by auto
    next
      case 2
      then have "y \<in> W" using y xyz final by (meson UnE leD order_trans)
      with assms(6) xyz have "z \<le> t" by auto
      with 2 assms(7) show ?thesis by auto
    qed
    with z assms(6) show ?thesis by simp
  qed
qed

text \<open>A window the list answers with is gapless, and what it says it skipped is what lies beyond it.\<close>

lemma window_parts:
  assumes w: "window_true T part around lb la r"
  shows "strict_asc (qr_ids r)" "set (qr_ids r) \<subseteq> T"
    "\<And>x z. x \<in> set (qr_ids r) \<Longrightarrow> x < around \<Longrightarrow> z \<in> T \<Longrightarrow> x \<le> z \<Longrightarrow> z < around \<Longrightarrow> z \<in> set (qr_ids r)"
    "\<And>y z. y \<in> set (qr_ids r) \<Longrightarrow> around \<le> y \<Longrightarrow> z \<in> T \<Longrightarrow> around \<le> z \<Longrightarrow> z \<le> y \<Longrightarrow> z \<in> set (qr_ids r)"
    "\<And>n. qr_before r = Some n \<Longrightarrow>
      n = int (card {z\<in>T. z < around}) - int (card {w\<in>set (qr_ids r). w < around})"
    "\<And>n. qr_after r = Some n \<Longrightarrow>
      n = int (card {z\<in>T. around \<le> z}) - int (card {w\<in>set (qr_ids r). around \<le> w})"
proof -
  note parts = w [unfolded window_true_def Let_def]
  note tail = parts [THEN conjunct2, THEN conjunct2]
  show "strict_asc (qr_ids r)" by (rule parts [THEN conjunct1])
  show "set (qr_ids r) \<subseteq> T" by (rule parts [THEN conjunct2, THEN conjunct1])
  note low = tail [THEN conjunct1] and high = tail [THEN conjunct2, THEN conjunct1]
  show "z \<in> set (qr_ids r)" if "x \<in> set (qr_ids r)" "x < around" "z \<in> T" "x \<le> z" "z < around" for x z
    by (rule low [THEN bspec, THEN bspec, THEN mp, of x z]) (use that in simp_all)
  show "z \<in> set (qr_ids r)" if "y \<in> set (qr_ids r)" "around \<le> y" "z \<in> T" "around \<le> z" "z \<le> y" for y z
    by (rule high [THEN bspec, THEN bspec, THEN mp, of y z]) (use that in simp_all)
  show "n = int (card {z\<in>T. z < around}) - int (card {w\<in>set (qr_ids r). w < around})"
    if "qr_before r = Some n" for n
    by (rule tail [THEN conjunct2, THEN conjunct2, THEN conjunct2, THEN conjunct2, THEN conjunct1, rule_format])
      (rule that)
  show "n = int (card {z\<in>T. around \<le> z}) - int (card {w\<in>set (qr_ids r). around \<le> w})"
    if "qr_after r = Some n" for n
    by (rule tail [THEN conjunct2, THEN conjunct2, THEN conjunct2, THEN conjunct2, THEN conjunct2, rule_format])
      (rule that)
qed

lemma window_gapless:
  assumes w: "window_true T part around lb la r"
  shows "gapless T (set (qr_ids r))" and "strict_asc (qr_ids r)"
proof -
  note sub = window_parts(2) [OF w] and low = window_parts(3) [OF w] and high = window_parts(4) [OF w]
  show "strict_asc (qr_ids r)" by (rule window_parts(1) [OF w])
  show "gapless T (set (qr_ids r))"
    unfolding gapless_def
  proof (intro conjI ballI impI)
    show "set (qr_ids r) \<subseteq> T" by (rule sub)
    fix x y z
    assume x: "x \<in> set (qr_ids r)" and y: "y \<in> set (qr_ids r)" and z: "z \<in> T" and xyz: "x \<le> z \<and> z \<le> y"
    show "z \<in> set (qr_ids r)"
    proof (cases "z < around")
      case True
      then have "x < around" using xyz by (meson le_less_trans)
      with True low [OF x _ z] xyz show ?thesis by blast
    next
      case False
      then have "around \<le> z" by (simp add: not_less)
      moreover from this have "around \<le> y" using xyz by (meson order_trans)
      ultimately show ?thesis using high [OF y _ z] xyz by blast
    qed
  qed
qed

lemma window_skipped:
  assumes w: "window_true T part around lb la r" and T: "finite T" and ne: "qr_ids r \<noteq> []"
  shows "qr_before r = Some n \<Longrightarrow> n = int (card {z\<in>T. z < hd (qr_ids r)})"
    and "qr_after r = Some n \<Longrightarrow> n = int (card {z\<in>T. last (qr_ids r) < z})"
proof -
  let ?W = "set (qr_ids r)" and ?h = "hd (qr_ids r)" and ?l = "last (qr_ids r)"
  note g = window_gapless [OF w]
  have sub: "?W \<subseteq> T" using g(1) by (simp add: gapless_def)
  have mem: "?h \<in> ?W" "?l \<in> ?W" using ne by simp_all
  have first: "\<not> z < ?h" and final: "\<not> ?l < z" if "z \<in> ?W" for z
    using strict_asc_hd [OF g(2) that] strict_asc_last [OF g(2) that] by (simp_all add: not_less)
  note low = window_parts(3) [OF w] and high = window_parts(4) [OF w]
  have below: "{z\<in>T. z < around} = {z\<in>T. z < ?h} \<union> {z\<in>?W. z < around}"
  proof (intro equalityI subsetI)
    fix z assume z: "z \<in> {z\<in>T. z < around}"
    show "z \<in> {z\<in>T. z < ?h} \<union> {z\<in>?W. z < around}"
    proof (cases "z < ?h")
      case False
      then have "?h \<le> z" by (simp add: not_less)
      moreover from this z have "?h < around" by (auto intro: le_less_trans)
      ultimately show ?thesis using low [OF mem(1)] z by auto
    qed (use z in simp)
  next
    fix z assume z: "z \<in> {z\<in>T. z < ?h} \<union> {z\<in>?W. z < around}"
    show "z \<in> {z\<in>T. z < around}"
    proof (cases "z < around")
      case False
      then have "around \<le> z" by (simp add: not_less)
      moreover have z': "z < ?h" "z \<in> T" using z False by auto
      moreover have "around \<le> ?h" using calculation(1) z'(1) by (meson less_imp_le order_trans)
      ultimately have "z \<in> ?W" using high [OF mem(1)] by (auto intro: less_imp_le)
      with first z'(1) show ?thesis by blast
    qed (use z sub in auto)
  qed
  have above: "{z\<in>T. around \<le> z} = {z\<in>T. ?l < z} \<union> {z\<in>?W. around \<le> z}"
  proof (intro equalityI subsetI)
    fix z assume z: "z \<in> {z\<in>T. around \<le> z}"
    show "z \<in> {z\<in>T. ?l < z} \<union> {z\<in>?W. around \<le> z}"
    proof (cases "?l < z")
      case False
      then have "z \<le> ?l" by (simp add: not_less)
      moreover from this z have "around \<le> ?l" by (auto intro: order_trans)
      ultimately show ?thesis using high [OF mem(2)] z by auto
    qed (use z in simp)
  next
    fix z assume z: "z \<in> {z\<in>T. ?l < z} \<union> {z\<in>?W. around \<le> z}"
    show "z \<in> {z\<in>T. around \<le> z}"
    proof (cases "around \<le> z")
      case False
      then have lt: "z < around" by (simp add: not_le)
      moreover have z': "?l < z" "z \<in> T" using z False by auto
      moreover have "?l < around" using lt z'(1) by (meson less_trans)
      ultimately have "z \<in> ?W" using low [OF mem(2)] by (auto intro: less_imp_le)
      with final z'(1) show ?thesis by blast
    qed (use z sub in auto)
  qed
  have fin: "finite ?W" by simp
  have "card ({z\<in>T. z < ?h} \<union> {z\<in>?W. z < around}) = card {z\<in>T. z < ?h} + card {z\<in>?W. z < around}"
    using T first by (intro card_Un_disjoint) auto
  then show "qr_before r = Some n \<Longrightarrow> n = int (card {z\<in>T. z < ?h})"
    using window_parts(5) [OF w] unfolding below by simp
  have "card ({z\<in>T. ?l < z} \<union> {z\<in>?W. around \<le> z}) = card {z\<in>T. ?l < z} + card {z\<in>?W. around \<le> z}"
    using T final by (intro card_Un_disjoint) auto
  then show "qr_after r = Some n \<Longrightarrow> n = int (card {z\<in>T. ?l < z})"
    using window_parts(6) [OF w] unfolding above by simp
qed

lemma builder_initial_true:
  assumes b: "builder_true T b" "sb_ids b = []"
    and r: "qr_ids r \<noteq> [] \<Longrightarrow> window_true T part around lb la r"
    and c: "\<And>c. qr_count r = Some c \<Longrightarrow> c = int (card T)"
  shows "builder_true T (fst (snd (apply_initial r b)))"
proof (cases "qr_ids r = []")
  case True
  then show ?thesis using merge_empty_true [OF b(1) c] by (simp add: apply_initial_def)
next
  case False
  note p = builder_parts [OF b(1)] and w = r [OF False]
  have "builder_true T (fst (merge_slice_data (qr_count r) (qr_ids r) (qr_before r) (qr_after r) b))"
    by (rule merge_true)
      (use p b(2) c False window_gapless [OF w] window_skipped [OF w p(1) False] in auto)
  then show ?thesis by (simp add: apply_initial_def)
qed

text \<open>The range of the update is known: its messages are those that exist in it.\<close>

definition update_true :: "message_position set \<Rightarrow> messages_update \<Rightarrow> bool" where
  "update_true T u \<longleftrightarrow>
     (\<forall>ms. mu_messages u = Some ms \<longrightarrow> strict_asc ms \<and> set ms = T \<inter> {fst (mu_range u)..snd (mu_range u)})
     \<and> (\<forall>c. mu_count u = Some c \<longrightarrow> c = int (card T))"

lemma apply_update_merge:
  assumes "need_merge_messages u b"
  shows "fst (snd (apply_update u b)) = fst (merge_slice_data (mu_count u) (the (mu_messages u))
    (if fst (mu_range u) = min_message_position then Some 0 else None)
    (if snd (mu_range u) = max_message_position then Some 0 else None) b)"
  using assms by (simp add: apply_update_def)

lemma update_merge_true:
  assumes b: "builder_true T b" and T: "finite T'" "T' \<subseteq> all_positions" "T \<subseteq> T'"
    and u: "update_true T' u" and need: "need_merge_messages u b"
    and new: "T' - T \<subseteq> {fst (mu_range u)..snd (mu_range u)}"
    and count: "T' = T \<or> mu_count u \<noteq> None"
    and low: "sb_ids b \<noteq> [] \<Longrightarrow> {z\<in>T'. z < hd (sb_ids b)} = {z\<in>T. z < hd (sb_ids b)}"
    and high: "sb_ids b \<noteq> [] \<Longrightarrow> snd (mu_range u) = max_message_position
      \<or> {z\<in>T'. last (sb_ids b) < z} = {z\<in>T. last (sb_ids b) < z}"
  shows "builder_true T' (fst (snd (apply_update u b)))"
proof -
  note p = builder_parts [OF b]
  define f where "f = fst (mu_range u)"
  define t where "t = snd (mu_range u)"
  obtain ms where ms: "mu_messages u = Some ms" using need by (auto simp: need_merge_messages_def)
  have m: "strict_asc ms" "set ms = T' \<inter> {f..t}" using u ms by (simp_all add: update_true_def f_def t_def)
  have c: "c = int (card T')" if "mu_count u = Some c" for c using u that by (simp add: update_true_def)
  define skb where "skb = (if f = min_message_position then Some (0::int) else None)"
  define ska where "ska = (if t = max_message_position then Some (0::int) else None)"
  have eq: "fst (snd (apply_update u b)) = fst (merge_slice_data (mu_count u) ms skb ska b)"
    using apply_update_merge [OF need] by (simp add: ms skb_def ska_def f_def t_def)
  show ?thesis
  proof (cases "ms = []")
    case True
    then have "T' = T" using m(2) new T(3) by (auto simp: f_def t_def)
    with merge_empty_true [OF b, of "mu_count u"] c show ?thesis unfolding eq True by blast
  next
    case False
    have hl: "hd ms \<in> set ms" "last ms \<in> set ms" using False by simp_all
    have meet: "f \<le> last (sb_ids b)" "hd (sb_ids b) \<le> t" if "sb_ids b \<noteq> []"
      using need that by (simp_all add: need_merge_messages_def f_def t_def)
    show ?thesis
      unfolding eq
    proof (rule merge_true)
      show "finite T'" "strict_asc (sb_ids b)" "0 \<le> sb_limit_before b" "0 \<le> sb_limit_after b"
        "ms \<noteq> []" "strict_asc ms"
        by (rule T(1) p(2,4,5) False m(1))+
      show "k = int (card T')" if "mu_count u = None" "sb_full_count b = Some k" for k
        using p(6) [OF that(2)] count that(1) by simp
      show "k = int (card T')" if "mu_count u = Some k" for k by (rule c [OF that])
      show "gapless T' (set (sb_ids b) \<union> set ms)"
      proof (cases "sb_ids b = []")
        case True
        then show ?thesis using m(2) by (auto simp: gapless_def)
      next
        case False
        show ?thesis
          by (rule gapless_union [OF p(3) False p(2) T(3) _ m(2) meet [OF False]])
            (use new in \<open>simp add: f_def t_def\<close>)
      qed
      show "n = int (card {z\<in>T'. z < hd ms})" if "skb = Some n" for n
      proof -
        have f: "f = min_message_position" "n = 0" using that by (simp_all add: skb_def split: if_splits)
        have "z \<in> set ms" if "z \<in> T'" "z < hd ms" for z
          using that T(2) hl(1) f(1) unfolding m(2) by (auto intro: order_trans less_imp_le)
        then have "{z\<in>T'. z < hd ms} = {}" using strict_asc_hd [OF m(1)] leD by blast
        with f(2) show ?thesis by (simp only: card.empty)
      qed
      show "n = int (card {z\<in>T'. last ms < z})" if "ska = Some n" for n
      proof -
        have t: "t = max_message_position" "n = 0" using that by (simp_all add: ska_def split: if_splits)
        have "z \<in> set ms" if "z \<in> T'" "last ms < z" for z
          using that T(2) hl(2) t(1) unfolding m(2) by (auto intro: order_trans less_imp_le)
        then have "{z\<in>T'. last ms < z} = {}" using strict_asc_last [OF m(1)] leD by blast
        with t(2) show ?thesis by (simp only: card.empty)
      qed
      show "n = int (card {z\<in>T'. z < hd (sb_ids b)})"
        if "sb_ids b \<noteq> []" "sb_skipped_before b = Some n" for n
        unfolding low [OF that(1)] by (rule p(7) [OF that])
      show "n = int (card {z\<in>T'. last (sb_ids b) < z})"
        if "ska = None" "sb_ids b \<noteq> []" "sb_skipped_after b = Some n" for n
      proof -
        have "{z\<in>T'. last (sb_ids b) < z} = {z\<in>T. last (sb_ids b) < z}"
          using high [OF that(2)] that(1) by (auto simp: ska_def t_def)
        then show ?thesis using p(8) [OF that(2,3)] by simp
      qed
    qed
  qed
qed

text \<open>An update that loads a range changes nothing about what exists.\<close>

lemma update_load_true:
  assumes b: "builder_true T b" and T: "T \<subseteq> all_positions" and u: "update_true T u"
  shows "builder_true T (fst (snd (apply_update u b)))"
proof (cases "need_merge_messages u b")
  case True
  show ?thesis
    by (rule update_merge_true [OF b builder_parts(1) [OF b] T order_refl u True]) simp_all
next
  case False
  then have "fst (snd (apply_update u b)) = b \<or> (\<exists>sb sa. fst (snd (apply_update u b))
      = fst (merge_slice_data (mu_count u) [] sb sa b))"
    by (auto simp: apply_update_def)
  moreover have "c = int (card T)" if "mu_count u = Some c" for c using u that by (simp add: update_true_def)
  ultimately show ?thesis using merge_empty_true [OF b, of "mu_count u"] b by auto
qed

lemma card_less_one:
  assumes "finite A" and "x \<in> A"
  shows "int (card A) > 0 \<and> int (card A) - 1 = int (card (A - {x}))"
proof -
  have "card A > 0" using assms by (auto simp: card_gt_0_iff)
  with assms show ?thesis by (simp add: card_Diff_singleton of_nat_diff)
qed

text \<open>What lies beyond the window does not change when one of its own messages goes.\<close>

lemma remove_ends:
  assumes g: "gapless T (set ids)" and asc: "strict_asc ids" and x: "x \<in> set ids"
    and ne: "asc_remove x ids \<noteq> []"
  shows "{z\<in>T - {x}. z < hd (asc_remove x ids)} = {z\<in>T. z < hd ids}"
    and "{z\<in>T - {x}. last (asc_remove x ids) < z} = {z\<in>T. last ids < z}"
proof -
  let ?r = "asc_remove x ids"
  have r: "set ?r = set ids - {x}" "strict_asc ?r" using strict_asc_remove [OF asc] by (simp_all add: container_simps)
  have sub: "set ?r \<subseteq> set ids" unfolding r(1) by blast
  have "ids \<noteq> []" using x by auto
  then have hl: "hd ?r \<in> set ids" "last ?r \<in> set ids" "hd ids \<in> set ids" "last ids \<in> set ids"
    using subsetD [OF sub hd_in_set [OF ne]] subsetD [OF sub last_in_set [OF ne]] by simp_all
  have first: "hd ids \<le> z" and final: "z \<le> last ids" if "z \<in> set ids" for z
    using strict_asc_hd [OF asc that] strict_asc_last [OF asc that] by simp_all
  have first': "hd ?r \<le> z" and final': "z \<le> last ?r" if "z \<in> set ids" "z \<noteq> x" for z
    using strict_asc_hd [OF r(2)] strict_asc_last [OF r(2)] that r(1) by simp_all
  show "{z\<in>T - {x}. z < hd ?r} = {z\<in>T. z < hd ids}"
  proof (intro equalityI subsetI)
    fix z assume z: "z \<in> {z\<in>T - {x}. z < hd ?r}"
    show "z \<in> {z\<in>T. z < hd ids}"
    proof (cases "z < hd ids")
      case False
      then have "hd ids \<le> z" by (simp add: not_less)
      then have "z \<in> set ids" using gapless_mem [OF g hl(3,1)] z by (auto intro: less_imp_le)
      with first' z show ?thesis by (auto dest: leD)
    qed (use z in simp)
  next
    fix z assume z: "z \<in> {z\<in>T. z < hd ids}"
    then have "z < hd ?r" using first [OF hl(1)] by (auto intro: less_le_trans)
    moreover have "z \<noteq> x" using z first [OF x] by (auto dest: leD)
    ultimately show "z \<in> {z\<in>T - {x}. z < hd ?r}" using z by simp
  qed
  show "{z\<in>T - {x}. last ?r < z} = {z\<in>T. last ids < z}"
  proof (intro equalityI subsetI)
    fix z assume z: "z \<in> {z\<in>T - {x}. last ?r < z}"
    show "z \<in> {z\<in>T. last ids < z}"
    proof (cases "last ids < z")
      case False
      then have "z \<le> last ids" by (simp add: not_less)
      then have "z \<in> set ids" using gapless_mem [OF g hl(2,4)] z by (auto intro: less_imp_le)
      with final' z show ?thesis by (auto dest: leD)
    qed (use z in simp)
  next
    fix z assume z: "z \<in> {z\<in>T. last ids < z}"
    then have "last ?r < z" using final [OF hl(2)] by (auto intro: le_less_trans)
    moreover have "z \<noteq> x" using z final [OF x] by (auto dest: leD)
    ultimately show "z \<in> {z\<in>T - {x}. last ?r < z}" using z by simp
  qed
qed

lemma builder_remove_true:
  assumes b: "builder_true T b" and x: "x \<in> T"
  shows "builder_true (T - {x}) (snd (builder_remove_one x b))"
proof -
  note p = builder_parts [OF b]
  define b1 where "b1 = b\<lparr>sb_full_count := map_option (\<lambda>c. c - 1) (sb_full_count b)\<rparr>"
  have pos: "card T > 0" using p(1) x by (auto simp: card_gt_0_iff)
  have card': "int (card (T - {x})) = int (card T) - 1"
    using pos p(1) x by (simp add: card_Diff_singleton of_nat_diff)
  have ch: "(case sb_full_count b of
             Some c \<Rightarrow> if c > 0 then (True, b\<lparr>sb_full_count := Some (c - 1)\<rparr>) else (False, b)
           | None \<Rightarrow> (False, b)) = (sb_full_count b \<noteq> None, b1)"
  proof (cases "sb_full_count b")
    case (Some c)
    have "c > 0" using p(6) [OF Some] pos by simp
    with Some show ?thesis by (simp add: b1_def)
  qed (simp add: b1_def)
  have same: "sb_ids b1 = sb_ids b" "sb_skipped_before b1 = sb_skipped_before b"
    "sb_skipped_after b1 = sb_skipped_after b" "sb_limit_before b1 = sb_limit_before b"
    "sb_limit_after b1 = sb_limit_after b"
    by (simp_all add: b1_def)
  have full: "c = int (card (T - {x}))" if "sb_full_count b1 = Some c" for c
    using that p(6) card' by (auto simp: b1_def)
  have fin: "finite (T - {x})" using p(1) by simp
  show ?thesis
  proof (cases "x \<in> set (sb_ids b)")
    case True
    define ids where "ids = asc_remove x (sb_ids b)"
    have ids: "set ids = set (sb_ids b) - {x}" "strict_asc ids"
      by (simp_all add: ids_def container_simps strict_asc_remove [OF p(2)])
    have eq: "snd (builder_remove_one x b) = b1\<lparr>sb_ids := ids\<rparr>"
      unfolding builder_remove_one_def ch using True by (simp add: same ids_def)
    have g: "gapless (T - {x}) (set ids)"
      using p(3) unfolding ids gapless_def by blast
    have ends: "{z\<in>T - {x}. z < hd ids} = {z\<in>T. z < hd (sb_ids b)}"
      "{z\<in>T - {x}. last ids < z} = {z\<in>T. last (sb_ids b) < z}" if "ids \<noteq> []"
      using remove_ends [OF p(3,2) True] that by (simp_all add: ids_def)
    have ne: "sb_ids b \<noteq> []" using True by auto
    show ?thesis
      unfolding eq builder_true_def
      using fin ids(2) g p(4,5) full p(7,8) [OF ne] ends by (simp add: same)
  next
    case False
    have out: "x < hd (sb_ids b) \<or> last (sb_ids b) < x" if ne: "sb_ids b \<noteq> []"
      using gapless_mem [OF p(3) _ _ x, of "hd (sb_ids b)" "last (sb_ids b)"] False ne
      by (auto simp: not_less [symmetric])
    have g: "gapless (T - {x}) (set (sb_ids b))" using p(3) False unfolding gapless_def by blast
    have base: "builder_true (T - {x}) b2"
      if b2: "sb_ids b2 = sb_ids b" "sb_full_count b2 = sb_full_count b1" "sb_limit_before b2 = sb_limit_before b"
        "sb_limit_after b2 = sb_limit_after b"
        and before: "\<And>n. sb_ids b \<noteq> [] \<Longrightarrow> sb_skipped_before b2 = Some n \<Longrightarrow>
          n = int (card ({z\<in>T. z < hd (sb_ids b)} - {x}))"
        and after: "\<And>n. sb_ids b \<noteq> [] \<Longrightarrow> sb_skipped_after b2 = Some n \<Longrightarrow>
          n = int (card ({z\<in>T. last (sb_ids b) < z} - {x}))" for b2
    proof -
      have "{z\<in>T - {x}. z < hd (sb_ids b)} = {z\<in>T. z < hd (sb_ids b)} - {x}"
        "{z\<in>T - {x}. last (sb_ids b) < z} = {z\<in>T. last (sb_ids b) < z} - {x}" by auto
      then show ?thesis
        unfolding builder_true_def b2 using fin p(2) g p(4,5) full before after by simp
    qed
    show ?thesis
    proof (cases "sb_ids b = []")
      case True
      have "snd (builder_remove_one x b) = b1"
        unfolding builder_remove_one_def ch using True by (simp add: same)
      then show ?thesis using base [of b1] True by (simp add: same)
    next
      case ne: False
      show ?thesis
      proof (cases "x < hd (sb_ids b)")
        case True
        then have no: "\<not> last (sb_ids b) < x"
          using strict_asc_hd [OF p(2) last_in_set [OF ne]] by (auto dest: less_trans)
        have inb: "x \<in> {z\<in>T. z < hd (sb_ids b)}" using x True by simp
        have ina: "{z\<in>T. last (sb_ids b) < z} - {x} = {z\<in>T. last (sb_ids b) < z}" using no by auto
        have pos': "n > 0 \<and> n - 1 = int (card ({z\<in>T. z < hd (sb_ids b)} - {x}))"
          if "sb_skipped_before b = Some n" for n
          using card_less_one [OF _ inb] p(1) p(7) [OF ne that] by simp
        have "snd (builder_remove_one x b) = b1\<lparr>sb_skipped_before := map_option (\<lambda>n. n - 1) (sb_skipped_before b)\<rparr>"
        proof (cases "sb_skipped_before b")
          case None
          then show ?thesis unfolding builder_remove_one_def ch using False ne True no by (simp add: same)
        next
          case (Some n)
          then show ?thesis unfolding builder_remove_one_def ch using False ne True pos' by (simp add: same)
        qed
        moreover have "builder_true (T - {x}) (b1\<lparr>sb_skipped_before := map_option (\<lambda>n. n - 1) (sb_skipped_before b)\<rparr>)"
          by (rule base) (use pos' p(8) [OF ne] ina in \<open>auto simp: same\<close>)
        ultimately show ?thesis by simp
      next
        case no: False
        then have above: "last (sb_ids b) < x" using out [OF ne] by blast
        have ina: "x \<in> {z\<in>T. last (sb_ids b) < z}" using x above by simp
        have inb: "{z\<in>T. z < hd (sb_ids b)} - {x} = {z\<in>T. z < hd (sb_ids b)}" using no by auto
        have pos': "n > 0 \<and> n - 1 = int (card ({z\<in>T. last (sb_ids b) < z} - {x}))"
          if "sb_skipped_after b = Some n" for n
          using card_less_one [OF _ ina] p(1) p(8) [OF ne that] by simp
        have "snd (builder_remove_one x b) = b1\<lparr>sb_skipped_after := map_option (\<lambda>n. n - 1) (sb_skipped_after b)\<rparr>"
        proof (cases "sb_skipped_after b")
          case None
          then show ?thesis unfolding builder_remove_one_def ch using False ne no by (simp add: same)
        next
          case (Some n)
          then show ?thesis unfolding builder_remove_one_def ch using False ne no above pos' by (simp add: same)
        qed
        moreover have "builder_true (T - {x}) (b1\<lparr>sb_skipped_after := map_option (\<lambda>n. n - 1) (sb_skipped_after b)\<rparr>)"
          by (rule base) (use pos' p(7) [OF ne] inb in \<open>auto simp: same\<close>)
        ultimately show ?thesis by simp
      qed
    qed
  qed
qed

section \<open>Runs\<close>

datatype builder_event =
  SbInitial "message_position query_result"
| SbUpdate "message_position list" messages_update
| SbRemove message_position
| SbRemoveAll
| SbInvalidate
| SbInvalidateBottom

text \<open>
  The messages that exist after an event, and what the event has to report truthfully. An update may
  bring new messages: then they lie in its range, which reaches the end of the list, and the window
  merges it.
\<close>

fun builder_world :: "builder_event \<Rightarrow> message_position set \<Rightarrow> message_position set" where
  "builder_world (SbUpdate new u) T = T \<union> set new"
| "builder_world (SbRemove p) T = T - {p}"
| "builder_world SbRemoveAll T = {}"
| "builder_world _ T = T"

fun builder_event_true :: "builder_event \<Rightarrow> message_position set \<Rightarrow> slice_builder \<Rightarrow> bool" where
  "builder_event_true (SbInitial r) T b =
     (sb_ids b = [] \<and> (qr_ids r \<noteq> [] \<longrightarrow> (\<exists>part. window_true T part (sb_key b) (sb_limit_before b) (sb_limit_after b) r))
      \<and> (case qr_count r of Some c \<Rightarrow> c = int (card T) | None \<Rightarrow> True))"
| "builder_event_true (SbUpdate new u) T b =
     (T \<union> set new \<subseteq> all_positions \<and> update_true (T \<union> set new) u
      \<and> (set new \<subseteq> T
         \<or> (need_merge_messages u b \<and> mu_count u \<noteq> None \<and> snd (mu_range u) = max_message_position
            \<and> set new \<subseteq> {fst (mu_range u)..snd (mu_range u)}
            \<and> (sb_ids b = [] \<or> list_all (\<lambda>z. hd (sb_ids b) \<le> z) new))))"
| "builder_event_true (SbRemove p) T b = (p \<in> T)"
| "builder_event_true _ T b = True"

fun builder_step :: "builder_event \<Rightarrow> slice_builder \<Rightarrow> slice_builder" where
  "builder_step (SbInitial r) b = fst (snd (apply_initial r b))"
| "builder_step (SbUpdate new u) b = fst (snd (apply_update u b))"
| "builder_step (SbRemove p) b = snd (builder_remove_one p b)"
| "builder_step SbRemoveAll b = snd (builder_remove_all b)"
| "builder_step SbInvalidate b = fst (snd (builder_invalidated b))"
| "builder_step SbInvalidateBottom b = fst (snd (builder_bottom_invalidated b))"

lemma builder_update_true:
  assumes b: "builder_true T b" and e: "builder_event_true (SbUpdate new u) T b"
  shows "builder_true (T \<union> set new) (fst (snd (apply_update u b)))"
proof (cases "set new \<subseteq> T")
  case True
  then have "T \<union> set new = T" by blast
  with update_load_true [OF b] e show ?thesis by simp
next
  case False
  with e have e: "T \<union> set new \<subseteq> all_positions" "update_true (T \<union> set new) u" "need_merge_messages u b"
    "mu_count u \<noteq> None" "snd (mu_range u) = max_message_position"
    "set new \<subseteq> {fst (mu_range u)..snd (mu_range u)}" "sb_ids b = [] \<or> (\<forall>z\<in>set new. hd (sb_ids b) \<le> z)"
    unfolding builder_event_true.simps by (blast, blast, blast, blast, blast, blast, simp only: list_all_iff, blast)
  have fin: "finite (T \<union> set new)" using builder_parts(1) [OF b] by simp
  show ?thesis
  proof (rule update_merge_true [OF b fin e(1) _ e(2,3)])
    show "T \<union> set new - T \<subseteq> {fst (mu_range u)..snd (mu_range u)}" using e(6) by blast
    show "{z \<in> T \<union> set new. z < hd (sb_ids b)} = {z \<in> T. z < hd (sb_ids b)}" if "sb_ids b \<noteq> []"
      using e(7) that leD by blast
  qed (use e(4,5) in simp_all)
qed

lemma builder_clear_true:
  assumes "builder_true T b"
  shows "builder_true {} (snd (builder_remove_all b))"
    and "builder_true T (b\<lparr>sb_full_count := None, sb_skipped_before := None, sb_skipped_after := None, sb_ids := []\<rparr>)"
    and "builder_true T (b\<lparr>sb_full_count := None, sb_skipped_after := None\<rparr>)"
proof -
  note p = builder_parts [OF assms]
  show "builder_true {} (snd (builder_remove_all b))"
    using p(4,5) by (simp add: builder_remove_all_def builder_true_def gapless_def)
  show "builder_true T (b\<lparr>sb_full_count := None, sb_skipped_before := None, sb_skipped_after := None, sb_ids := []\<rparr>)"
    using p(1,4,5) by (simp add: builder_true_def gapless_def)
  show "builder_true T (b\<lparr>sb_full_count := None, sb_skipped_after := None\<rparr>)"
    using p(1-5,7) by (simp add: builder_true_def)
qed

lemma builder_step_true:
  assumes b: "builder_true T b" and e: "builder_event_true e T b"
  shows "builder_true (builder_world e T) (builder_step e b)"
proof (cases e)
  case (SbInitial r)
  have c: "c = int (card T)" if "qr_count r = Some c" for c using e that by (simp add: SbInitial)
  obtain part where r: "sb_ids b = []"
    "qr_ids r \<noteq> [] \<Longrightarrow> window_true T part (sb_key b) (sb_limit_before b) (sb_limit_after b) r"
    using e unfolding SbInitial builder_event_true.simps by blast
  show ?thesis unfolding SbInitial builder_step.simps builder_world.simps
    by (rule builder_initial_true [OF b r]) (use c in simp_all)
next
  case (SbUpdate new u)
  with builder_update_true [OF b] e show ?thesis by simp
next
  case (SbRemove p)
  with builder_remove_true [OF b] e show ?thesis by simp
next
  case SbRemoveAll
  with builder_clear_true [OF b] show ?thesis by simp
next
  case SbInvalidate
  with slice_to_limits_true [OF builder_clear_true(2) [OF b]] show ?thesis by (simp add: builder_invalidated_def)
next
  case SbInvalidateBottom
  with slice_to_limits_true [OF builder_clear_true(3) [OF b]] show ?thesis
    by (simp add: builder_bottom_invalidated_def)
qed

interpretation sb_machine: guarded_machine
  "\<lambda>p e. (builder_world e (fst p), builder_step e (snd p))" "\<lambda>p e. builder_event_true e (fst p) (snd p)"
  "\<lambda>p. builder_true (fst p) (snd p)"
  by unfold_locales (simp add: builder_step_true)

fun builder_run :: "builder_event list \<Rightarrow> message_position set \<times> slice_builder
    \<Rightarrow> message_position set \<times> slice_builder" where
  "builder_run [] p = p"
| "builder_run (e # es) p = builder_run es (builder_world e (fst p), builder_step e (snd p))"

fun builder_run_legal :: "builder_event list \<Rightarrow> message_position set \<times> slice_builder \<Rightarrow> bool" where
  "builder_run_legal [] p = True"
| "builder_run_legal (e # es) p = (builder_event_true e (fst p) (snd p)
     \<and> builder_run_legal es (builder_world e (fst p), builder_step e (snd p)))"

lemma builder_run_machine:
  "builder_run es p = foldl (\<lambda>p e. (builder_world e (fst p), builder_step e (snd p))) p es"
  "sb_machine.legal p es \<longleftrightarrow> builder_run_legal es p"
  by (induction es arbitrary: p) simp_all

lemma new_builder_true:
  "finite T \<Longrightarrow> 0 \<le> lb \<Longrightarrow> 0 \<le> la \<Longrightarrow> builder_true T (new_builder key lb la)"
  by (simp add: builder_true_def new_builder_def gapless_def)

lemma builder_run_keeps:
  assumes "finite T" "0 \<le> lb" "0 \<le> la" "builder_run_legal es (T, new_builder key lb la)"
  shows "builder_true (fst (builder_run es (T, new_builder key lb la)))
    (snd (builder_run es (T, new_builder key lb la)))"
  using sb_machine.inv_run [of "(T, new_builder key lb la)" es] assms new_builder_true
  by (simp add: builder_run_machine)

section \<open>Properties\<close>



text \<open>What a view shows is consistent: the messages shown are in order, and when all
  three numbers are known the total is the messages before, in and after the window.\<close>

theorem snapshot_adds_up:
  assumes "builder_true T b" and "ms_full_count (builder_snapshot b) = Some c"
    and "ms_skipped_before (builder_snapshot b) = Some before"
    and "ms_skipped_after (builder_snapshot b) = Some after" and "ms_ids (builder_snapshot b) \<noteq> []"
  shows "c = before + int (length (ms_ids (builder_snapshot b))) + after
    \<and> 0 \<le> before \<and> 0 \<le> after \<and> ms_nearest (builder_snapshot b) \<in> set (ms_ids (builder_snapshot b))"
proof -
  note p = builder_parts [OF assms(1)]
  have ne: "sb_ids b \<noteq> []" using assms(5) by (simp add: builder_snapshot_def)
  have near: "ms_nearest (builder_snapshot b) \<in> set (ms_ids (builder_snapshot b))"
  proof (cases "filter (\<lambda>p. p \<ge> sb_key b) (sb_ids b)")
    case Nil
    with ne show ?thesis by (simp add: builder_snapshot_def)
  next
    case (Cons x xs)
    then have "x \<in> set (sb_ids b)" by (metis filter_is_subset list.set_intros(1) subsetD)
    with Cons show ?thesis by (simp add: builder_snapshot_def)
  qed
  have "c = int (card T)" "before = int (card {z\<in>T. z < hd (sb_ids b)})"
    "after = int (card {z\<in>T. last (sb_ids b) < z})"
    using assms(2-4) p(6-8) ne by (simp_all add: builder_snapshot_def)
  moreover have "length (ms_ids (builder_snapshot b)) = length (sb_ids b)" by (simp add: builder_snapshot_def)
  ultimately show ?thesis using gapless_parts [OF p(1,3,2) ne] near by simp
qed

theorem snapshot_adds_up_witness:
  "ms_full_count (builder_snapshot ((new_builder no_position 1 1)\<lparr>sb_ids := [MessagePosition 5 0 3],
      sb_full_count := Some 1, sb_skipped_before := Some 0, sb_skipped_after := Some 0\<rparr>)) = Some (0 + 1 + 0)"
proof -
  let ?b = "(new_builder no_position 1 1)\<lparr>sb_ids := [MessagePosition 5 0 3],
      sb_full_count := Some 1, sb_skipped_before := Some 0, sb_skipped_after := Some 0\<rparr>"
  have none: "{z. z = MessagePosition 5 0 3 \<and> z < MessagePosition 5 0 3} = {}"
    "{z. z = MessagePosition 5 0 3 \<and> MessagePosition 5 0 3 < z} = {}" by auto
  have "builder_true {MessagePosition 5 0 3} ?b"
    by (simp add: builder_true_def new_builder_def gapless_def none)
  then show ?thesis
    using snapshot_adds_up [of "{MessagePosition 5 0 3}" ?b 1 0 0] by (simp add: builder_snapshot_def)
qed

text \<open>
  An update with a new total whose range misses the window leaves a known number of messages after
  the window as it was, although the list has grown behind it.
\<close>

lemma update_beyond_window_keeps_after:
  "let p = MessagePosition 5 0 3; q = MessagePosition 9 0 8;
     b = (new_builder p 1 1)\<lparr>sb_ids := [p], sb_full_count := Some 3, sb_skipped_before := Some 0,
       sb_skipped_after := Some 2\<rparr>;
     b' = fst (snd (apply_update \<lparr>mu_messages = Some [q], mu_range = (q, max_message_position),
       mu_count = Some 4\<rparr> b)) in
   sb_full_count b' = Some 4 \<and> sb_skipped_before b' = Some 0 \<and> length (sb_ids b') = 1
     \<and> sb_skipped_after b' = Some 2"
  by code_simp

end
