(* ===== verification/MergedSlices.thy ===== *)
theory MergedSlices
  imports PeerIds "HOL-Library.Monad_Syntax"
begin

text \<open>
  Windows of shared media ids as the views see them (\<open>data/data_abstract_sparse_ids.h\<close>,
  \<open>data/data_sparse_ids.h\<close>, \<open>data/data_sparse_ids.cpp\<close>): a slice with its counts, and the merged slice of a
  chat and of the group it was migrated from, whose messages come first and have negative universal ids.

  An accessor that dereferences an empty \<open>std::optional\<close> or breaks an \<open>Expects\<close> is \<open>None\<close>; an optional
  result is an option inside. The peers are 64-bit words and the message ids integers, as in \<open>PeerIds\<close>;
  \<open>base::flat_set\<close> is a sorted list.
\<close>

section \<open>A slice of ids\<close>

record id_slice =
  is_ids :: "int list"
  is_full :: "int option"
  is_before :: "int option"
  is_after :: "int option"

definition empty_id_slice :: id_slice where
  "empty_id_slice = \<lparr>is_ids = [], is_full = None, is_before = None, is_after = None\<rparr>"

fun index_in :: "'a \<Rightarrow> 'a list \<Rightarrow> nat option" where
  "index_in x [] = None"
| "index_in x (y # ys) = (if y = x then Some 0 else map_option Suc (index_in x ys))"

definition slice_index_of :: "int \<Rightarrow> id_slice \<Rightarrow> int option" where
  "slice_index_of i s = map_option int (index_in i (is_ids s))"

definition slice_size :: "id_slice \<Rightarrow> int" where
  "slice_size s = int (length (is_ids s))"

definition slice_at :: "id_slice \<Rightarrow> int \<Rightarrow> int option" where
  "slice_at s i = (if 0 \<le> i \<and> i < slice_size s then Some (is_ids s ! nat i) else None)"

definition slice_distance :: "int \<Rightarrow> int \<Rightarrow> id_slice \<Rightarrow> int option" where
  "slice_distance a b s =
     (case slice_index_of a s of
        None \<Rightarrow> None
      | Some i \<Rightarrow> (case slice_index_of b s of None \<Rightarrow> None | Some j \<Rightarrow> Some (j - i)))"

definition slice_nearest :: "int \<Rightarrow> id_slice \<Rightarrow> int option" where
  "slice_nearest i s =
     (case find (\<lambda>x. i \<le> x) (is_ids s) of
        Some x \<Rightarrow> Some x
      | None \<Rightarrow> if is_ids s = [] then None else Some (last (is_ids s)))"

definition slice_reverse :: "id_slice \<Rightarrow> id_slice" where
  "slice_reverse s = s\<lparr>is_ids := rev (is_ids s), is_before := is_after s, is_after := is_before s\<rparr>"

section \<open>The merged slice\<close>

record merged_key =
  mk_peer :: peer_id
  mk_topic_root :: int
  mk_monoforum :: peer_id
  mk_migrated :: peer_id
  mk_universal :: int

definition make_merged_key :: "peer_id \<Rightarrow> int \<Rightarrow> peer_id \<Rightarrow> peer_id \<Rightarrow> int \<Rightarrow> merged_key" where
  "make_merged_key peer topic_root monoforum migrated universal =
     \<lparr>mk_peer = peer, mk_topic_root = topic_root, mk_monoforum = monoforum,
      mk_migrated = (if topic_root \<noteq> 0 \<or> monoforum \<noteq> 0 then 0 else migrated), mk_universal = universal\<rparr>"

type_synonym full_msg_id = "peer_id \<times> int"

record merged_slice =
  mg_key :: merged_key
  mg_part :: id_slice
  mg_migrated :: "id_slice option"
  mg_unsorted :: "id_slice option"

definition new_merged :: "merged_key \<Rightarrow> merged_slice" where
  "new_merged key = \<lparr>mg_key = key, mg_part = empty_id_slice,
     mg_migrated = (if mk_migrated key \<noteq> 0 then Some empty_id_slice else None), mg_unsorted = None\<rparr>"

definition merged_part_key :: "merged_key \<Rightarrow> int" where
  "merged_part_key key = (if mk_universal key < 0 then 1 else mk_universal key)"

definition merged_migrated_key :: "merged_key \<Rightarrow> int" where
  "merged_migrated_key key =
     (if mk_universal key < 0 then server_max_msg + mk_universal key
      else if mk_universal key > 0 then server_max_msg - 1 else 0)"

definition merged_compute_id :: "merged_key \<Rightarrow> full_msg_id" where
  "merged_compute_id key =
     (if mk_universal key \<ge> 0 then (mk_peer key, mk_universal key)
      else (mk_migrated key, server_max_msg + mk_universal key))"

definition add_counts :: "int option \<Rightarrow> int option \<Rightarrow> int option" where
  "add_counts a b = (case a of None \<Rightarrow> None | Some x \<Rightarrow> (case b of None \<Rightarrow> None | Some y \<Rightarrow> Some (x + y)))"

definition isolated_in_part :: "merged_slice \<Rightarrow> bool" where
  "isolated_in_part m \<longleftrightarrow> is_server_msg_id (mk_universal (mg_key m))
     \<and> (mg_migrated m = None \<or> is_before (mg_part m) \<noteq> Some 0)"

definition isolated_in_migrated :: "merged_slice \<Rightarrow> bool option" where
  "isolated_in_migrated m =
     (if is_server_msg_id (server_max_msg + mk_universal (mg_key m))
      then do { g \<leftarrow> mg_migrated m; Some (is_after g \<noteq> Some 0) }
      else Some False)"

definition merged_migrated_size :: "merged_slice \<Rightarrow> int option" where
  "merged_migrated_size m = (if isolated_in_part m then Some 0 else do { g \<leftarrow> mg_migrated m; Some (slice_size g) })"

definition merged_full :: "merged_slice \<Rightarrow> int option" where
  "merged_full m =
     (case mg_unsorted m of
        Some u \<Rightarrow> is_full u
      | None \<Rightarrow> add_counts (is_full (mg_part m)) (case mg_migrated m of Some g \<Rightarrow> is_full g | None \<Rightarrow> Some 0))"

definition merged_before :: "merged_slice \<Rightarrow> int option option" where
  "merged_before m =
     (case mg_unsorted m of
        Some u \<Rightarrow> Some (is_before u)
      | None \<Rightarrow> do {
          iso \<leftarrow> isolated_in_migrated m;
          Some (add_counts
            (if iso then Some 0 else is_before (mg_part m))
            (case mg_migrated m of
               Some g \<Rightarrow> if isolated_in_part m then is_full g else is_before g
             | None \<Rightarrow> Some 0)) })"

definition merged_after :: "merged_slice \<Rightarrow> int option option" where
  "merged_after m =
     (case mg_unsorted m of
        Some u \<Rightarrow> Some (is_after u)
      | None \<Rightarrow> do {
          iso \<leftarrow> isolated_in_migrated m;
          after \<leftarrow> (if isolated_in_part m then Some (Some 0) else do { g \<leftarrow> mg_migrated m; Some (is_after g) });
          Some (add_counts (if iso then is_full (mg_part m) else is_after (mg_part m)) after) })"

definition merged_size :: "merged_slice \<Rightarrow> int option" where
  "merged_size m =
     (case mg_unsorted m of
        Some u \<Rightarrow> Some (slice_size u)
      | None \<Rightarrow> do {
          migrated \<leftarrow> merged_migrated_size m;
          iso \<leftarrow> isolated_in_migrated m;
          Some (migrated + (if iso then 0 else slice_size (mg_part m))) })"

definition merged_index_of :: "full_msg_id \<Rightarrow> merged_slice \<Rightarrow> int option option" where
  "merged_index_of i m =
     (case mg_unsorted m of
        Some u \<Rightarrow> Some (slice_index_of (snd i) u)
      | None \<Rightarrow>
          if mk_peer (mg_key m) = fst i then do {
            migrated \<leftarrow> merged_migrated_size m;
            Some (map_option (\<lambda>k. k + migrated) (slice_index_of (snd i) (mg_part m))) }
          else if isolated_in_part m then Some None
          else (case mg_migrated m of
             Some g \<Rightarrow> Some (if mk_migrated (mg_key m) = fst i then slice_index_of (snd i) g else None)
           | None \<Rightarrow> Some None))"

definition merged_at :: "merged_slice \<Rightarrow> int \<Rightarrow> full_msg_id option" where
  "merged_at m i = do {
     size \<leftarrow> merged_size m;
     if \<not> (0 \<le> i \<and> i < size) then None
     else (case mg_unsorted m of
        Some u \<Rightarrow> do { x \<leftarrow> slice_at u i; Some (mk_peer (mg_key m), x) }
      | None \<Rightarrow> do {
          migrated \<leftarrow> merged_migrated_size m;
          if migrated \<noteq> 0 \<and> i < migrated
          then do { g \<leftarrow> mg_migrated m; x \<leftarrow> slice_at g i; Some (mk_migrated (mg_key m), x) }
          else do { x \<leftarrow> slice_at (mg_part m) (i - migrated); Some (mk_peer (mg_key m), x) } }) }"

definition merged_distance :: "merged_key \<Rightarrow> merged_key \<Rightarrow> merged_slice \<Rightarrow> int option option" where
  "merged_distance a b m = do {
     i \<leftarrow> merged_index_of (merged_compute_id a) m;
     (case i of
        None \<Rightarrow> Some None
      | Some i \<Rightarrow> do {
          j \<leftarrow> merged_index_of (merged_compute_id b) m;
          Some (map_option (\<lambda>j. j - i) j) }) }"

definition merged_nearest :: "int \<Rightarrow> merged_slice \<Rightarrow> full_msg_id option option" where
  "merged_nearest i m =
     (let part = (\<lambda>x. (mk_peer (mg_key m), x)); migrated = (\<lambda>x. (mk_migrated (mg_key m), x)) in
      case mg_unsorted m of
        Some u \<Rightarrow>
          if slice_index_of i u \<noteq> None then Some (Some (part i))
          else if slice_size u \<noteq> 0 then Some (map_option part (slice_at u (slice_size u div 2)))
          else Some None
      | None \<Rightarrow>
          if is_server_msg_id i then
            (case slice_nearest i (mg_part m) of
               Some x \<Rightarrow> Some (Some (part x))
             | None \<Rightarrow>
                 if isolated_in_part m then Some None
                 else do { g \<leftarrow> mg_migrated m; Some (map_option migrated (slice_nearest (server_max_msg - 1) g)) })
          else
            (case (case mg_migrated m of Some g \<Rightarrow> slice_nearest (i + server_max_msg) g | None \<Rightarrow> None) of
               Some x \<Rightarrow> Some (Some (migrated x))
             | None \<Rightarrow> do {
                 iso \<leftarrow> isolated_in_migrated m;
                 Some (if iso then None else map_option part (slice_nearest 0 (mg_part m))) }))"

section \<open>The merged slice as one list\<close>

text \<open>What the viewer guarantees: the universal id is one of a message of the chat, or of the group it was
  migrated from if there is one; ids do not repeat.\<close>

definition merged_ok :: "merged_slice \<Rightarrow> bool" where
  "merged_ok m \<longleftrightarrow> mg_unsorted m = None
     \<and> (is_server_msg_id (mk_universal (mg_key m))
        \<or> (is_server_msg_id (server_max_msg + mk_universal (mg_key m)) \<and> mk_migrated (mg_key m) \<noteq> 0))
     \<and> (mg_migrated m \<noteq> None \<longleftrightarrow> mk_migrated (mg_key m) \<noteq> 0) \<and> mk_peer (mg_key m) \<noteq> mk_migrated (mg_key m)
     \<and> distinct (is_ids (mg_part m)) \<and> (case mg_migrated m of Some g \<Rightarrow> distinct (is_ids g) | None \<Rightarrow> True)"

definition from_migrated :: "merged_slice \<Rightarrow> full_msg_id list" where
  "from_migrated m =
     (case mg_migrated m of
        Some g \<Rightarrow> if isolated_in_part m then [] else map (Pair (mk_migrated (mg_key m))) (is_ids g)
      | None \<Rightarrow> [])"

definition from_part :: "merged_slice \<Rightarrow> full_msg_id list" where
  "from_part m =
     (if isolated_in_migrated m = Some True then [] else map (Pair (mk_peer (mg_key m))) (is_ids (mg_part m)))"

definition merged_list :: "merged_slice \<Rightarrow> full_msg_id list" where
  "merged_list m = from_migrated m @ from_part m"

lemma server_ranges:
  "is_server_msg_id u \<Longrightarrow> \<not> is_server_msg_id (server_max_msg + u)"
  by (simp add: is_server_msg_id_def)

lemma merged_ok_key:
  assumes "merged_ok m"
  shows "is_server_msg_id (mk_universal (mg_key m)) \<or> mg_migrated m \<noteq> None"
  using assms unfolding merged_ok_def by (elim conjE disjE) simp_all

lemma isolated_in_migrated_part:
  "isolated_in_part m \<Longrightarrow> isolated_in_migrated m = Some False"
  unfolding isolated_in_part_def isolated_in_migrated_def using server_ranges by simp

lemma isolated_in_migrated_some:
  "mg_migrated m = Some g \<Longrightarrow> \<exists>iso. isolated_in_migrated m = Some iso"
  by (simp add: isolated_in_migrated_def) blast

lemma not_isolated_has_migrated:
  assumes "merged_ok m" and "\<not> isolated_in_part m"
  shows "\<exists>g. mg_migrated m = Some g"
  using merged_ok_key [OF assms(1)] assms(2) unfolding isolated_in_part_def by (cases "mg_migrated m") simp_all

lemma isolated_in_migrated_defined:
  assumes "merged_ok m"
  shows "\<exists>iso. isolated_in_migrated m = Some iso"
proof (cases "isolated_in_part m")
  case True
  then show ?thesis using isolated_in_migrated_part by blast
next
  case False
  then show ?thesis using not_isolated_has_migrated [OF assms] isolated_in_migrated_some by blast
qed

lemma merged_migrated_size_list:
  assumes "merged_ok m"
  shows "merged_migrated_size m = Some (int (length (from_migrated m)))"
proof (cases "isolated_in_part m")
  case True
  have "from_migrated m = []"
    unfolding from_migrated_def by (cases "mg_migrated m") (simp_all add: True)
  then show ?thesis using True by (simp add: merged_migrated_size_def)
next
  case False
  then obtain g where "mg_migrated m = Some g" using not_isolated_has_migrated [OF assms] by blast
  then show ?thesis using False by (simp add: merged_migrated_size_def from_migrated_def slice_size_def)
qed

lemmas merged_defined = isolated_in_migrated_defined merged_migrated_size_list

lemma index_in_nth: "distinct xs \<Longrightarrow> index_in x xs = Some i \<longleftrightarrow> i < length xs \<and> xs ! i = x"
proof (induction xs arbitrary: i)
  case (Cons y ys)
  have ys: "distinct ys" "y \<notin> set ys" using Cons.prems by simp_all
  show ?case
  proof (cases i)
    case (Suc k)
    have "ys ! k \<noteq> y" if "k < length ys" using that ys(2) nth_mem by blast
    then show ?thesis using Suc Cons.IH [OF ys(1), of k] by (cases "y = x") auto
  qed auto
qed simp

lemma index_in_none: "index_in x xs = None \<longleftrightarrow> x \<notin> set xs"
  by (induction xs) auto

lemma merged_size_list:
  assumes "merged_ok m"
  shows "merged_size m = Some (int (length (merged_list m)))"
proof -
  obtain iso where iso: "isolated_in_migrated m = Some iso" using merged_defined(1) [OF assms] ..
  have "mg_unsorted m = None" using assms by (simp add: merged_ok_def)
  then show ?thesis
    using iso merged_defined(2) [OF assms] by (simp add: merged_size_def merged_list_def from_part_def slice_size_def)
qed

lemma merged_at_list:
  assumes "merged_ok m" and "0 \<le> i" and "i < int (length (merged_list m))"
  shows "merged_at m i = Some (merged_list m ! nat i)"
proof -
  have unsorted: "mg_unsorted m = None" using assms(1) by (simp add: merged_ok_def)
  show ?thesis
  proof (cases "i < int (length (from_migrated m))")
    case True
    then obtain g where g: "mg_migrated m = Some g" "\<not> isolated_in_part m"
      using assms(2) by (auto simp: from_migrated_def split: option.splits if_splits)
    have at: "from_migrated m ! nat i = (mk_migrated (mg_key m), is_ids g ! nat i)" "i < slice_size g"
      using True assms(2) g by (auto simp: from_migrated_def slice_size_def)
    have "nat i < length (from_migrated m)" "from_migrated m \<noteq> []" using True assms(2) by auto
    then show ?thesis
      using True assms(2,3) g at unsorted merged_size_list [OF assms(1)] merged_defined(2) [OF assms(1)]
      by (simp add: merged_at_def slice_at_def merged_list_def nth_append)
  next
    case False
    then have part: "i - int (length (from_migrated m)) < int (length (from_part m))"
        "0 \<le> i - int (length (from_migrated m))"
      using assms(3) by (simp_all add: merged_list_def)
    then have iso: "from_part m = map (Pair (mk_peer (mg_key m))) (is_ids (mg_part m))"
      by (auto simp: from_part_def)
    have "\<not> nat i < length (from_migrated m)" using False assms(2) by linarith
    have "nat i - length (from_migrated m) = nat (i - int (length (from_migrated m)))" using assms(2) by simp
    then have "merged_list m ! nat i = (mk_peer (mg_key m), is_ids (mg_part m) ! nat (i - int (length (from_migrated m))))"
      using part \<open>\<not> nat i < length (from_migrated m)\<close> iso by (simp add: merged_list_def nth_append)
    then show ?thesis
      using False assms(2,3) part iso unsorted merged_size_list [OF assms(1)] merged_defined(2) [OF assms(1)]
      by (simp add: merged_at_def slice_at_def slice_size_def)
  qed
qed


lemma merged_index_part:
  assumes "merged_ok m" and "fst x = mk_peer (mg_key m)"
  shows "merged_index_of x m = Some (map_option (\<lambda>k. int k + int (length (from_migrated m)))
    (index_in (snd x) (is_ids (mg_part m))))"
  using assms merged_defined(2) [OF assms(1)]
  by (simp add: merged_index_of_def merged_ok_def slice_index_of_def option.map_comp comp_def)

lemma merged_index_migrated:
  assumes "merged_ok m" and "fst x \<noteq> mk_peer (mg_key m)"
  shows "merged_index_of x m = Some (if mk_migrated (mg_key m) = fst x
    then map_option int (index_in (snd x) (map snd (from_migrated m))) else None)"
  using assms
  by (auto simp: merged_index_of_def merged_ok_def slice_index_of_def from_migrated_def comp_def split: option.splits)

text \<open>The index of an id is defined, and inverse to the subscript: the id at an index has
  this index, and an id with an index in the slice is the one there. Only an id of the chat that the slice leaves
  out, as a gap to the old group is possible, gets an index beyond the size of the slice.\<close>

theorem merged_index_inverse:
  assumes "merged_ok m" and "merged_size m = Some n"
  shows "(\<forall>i\<in>{0..<n}. \<exists>x. merged_at m i = Some x \<and> merged_index_of x m = Some (Some i))
    \<and> (\<forall>x i. merged_index_of x m = Some (Some i) \<longrightarrow>
        (if i < n then merged_at m i = Some x
         else isolated_in_migrated m = Some True \<and> fst x = mk_peer (mg_key m)))"
proof -
  have n: "n = int (length (merged_list m))" using assms merged_size_list by simp
  have part: "distinct (is_ids (mg_part m))" "mk_peer (mg_key m) \<noteq> mk_migrated (mg_key m)"
    using assms(1) by (simp_all add: merged_ok_def)
  have migrated: "distinct (map snd (from_migrated m))"
    using assms(1) by (auto simp: merged_ok_def from_migrated_def comp_def split: option.splits)
  have peer: "fst x = mk_migrated (mg_key m)" if "x \<in> set (from_migrated m)" for x
    using that by (auto simp: from_migrated_def split: option.splits if_splits)
  have forward: "\<exists>x. merged_at m i = Some x \<and> merged_index_of x m = Some (Some i)" if i: "i \<in> {0..<n}" for i
  proof (intro exI conjI)
    let ?x = "merged_list m ! nat i"
    show "merged_at m i = Some ?x" using merged_at_list [OF assms(1)] i n by simp
    show "merged_index_of ?x m = Some (Some i)"
    proof (cases "nat i < length (from_migrated m)")
      case True
      then have x: "?x = from_migrated m ! nat i" by (simp add: merged_list_def nth_append)
      then have "fst ?x = mk_migrated (mg_key m)" using peer True by simp
      moreover have "index_in (snd ?x) (map snd (from_migrated m)) = Some (nat i)"
        using True x by (simp add: index_in_nth [OF migrated])
      ultimately show ?thesis using merged_index_migrated [OF assms(1), of ?x] part(2) i by simp
    next
      case False
      let ?k = "nat i - length (from_migrated m)"
      have k: "?k < length (from_part m)" using False i n by (simp add: merged_list_def) linarith
      then have from_part: "from_part m = map (Pair (mk_peer (mg_key m))) (is_ids (mg_part m))"
        by (auto simp: from_part_def)
      have x: "?x = (mk_peer (mg_key m), is_ids (mg_part m) ! ?k)"
        using False k from_part by (simp add: merged_list_def nth_append)
      have "index_in (snd ?x) (is_ids (mg_part m)) = Some ?k"
        using k x from_part by (simp add: index_in_nth [OF part(1)])
      then show ?thesis using merged_index_part [OF assms(1), of ?x] x False i by simp
    qed
  qed
  have backward: "if i < n then merged_at m i = Some x
       else isolated_in_migrated m = Some True \<and> fst x = mk_peer (mg_key m)"
    if index: "merged_index_of x m = Some (Some i)" for x i
  proof (cases "fst x = mk_peer (mg_key m)")
    case True
    then obtain k where k: "index_in (snd x) (is_ids (mg_part m)) = Some k" "i = int k + int (length (from_migrated m))"
      using index merged_index_part [OF assms(1) True] by auto
    then have at: "k < length (is_ids (mg_part m))" "is_ids (mg_part m) ! k = snd x"
      by (simp_all add: index_in_nth [OF part(1)])
    show ?thesis
    proof (cases "isolated_in_migrated m = Some True")
      case iso: True
      then show ?thesis using k(2) True n by (simp add: merged_list_def from_part_def)
    next
      case False
      then have "merged_list m ! nat i = x" "i < n"
        using k(2) at True n by (simp_all add: merged_list_def from_part_def nth_append nat_add_distrib prod_eq_iff)
      then show ?thesis using merged_at_list [OF assms(1), of i] k(2) n by simp
    qed
  next
    case False
    then obtain k where k: "index_in (snd x) (map snd (from_migrated m)) = Some k" "i = int k"
        and migr: "mk_migrated (mg_key m) = fst x"
      using index merged_index_migrated [OF assms(1) False] by (auto split: if_splits)
    then have at: "k < length (from_migrated m)" "snd (from_migrated m ! k) = snd x"
      using index_in_nth [OF migrated, of "snd x" k] by auto
    then have "from_migrated m ! k = x" using peer [of "from_migrated m ! k"] migr by (simp add: prod_eq_iff)
    then have "merged_list m ! nat i = x" "i < n" using k(2) at(1) n by (simp_all add: merged_list_def nth_append)
    then show ?thesis using merged_at_list [OF assms(1), of i] k(2) n by simp
  qed
  show ?thesis using forward backward by blast
qed

text \<open>A chat whose first photos are loaded, and the old group with its last ones: both without a gap.\<close>

definition sample_merged :: merged_slice where
  "sample_merged = \<lparr>mg_key = make_merged_key 7 0 0 9 3,
     mg_part = \<lparr>is_ids = [3, 5], is_full = Some 4, is_before = Some 0, is_after = Some 2\<rparr>,
     mg_migrated = Some \<lparr>is_ids = [2, 3], is_full = Some 3, is_before = Some 1, is_after = Some 0\<rparr>,
     mg_unsorted = None\<rparr>"

lemma sample_merged_ok: "merged_ok sample_merged" by code_simp


theorem merged_index_inverse_witness:
  "merged_index_of (7, 5) sample_merged = Some (Some 3) \<and> merged_at sample_merged 3 = Some (7, 5)"
proof -
  have size: "merged_size sample_merged = Some 4" by code_simp
  have index: "merged_index_of (7, 5) sample_merged = Some (Some 3)" by code_simp
  have "if (3::int) < 4 then merged_at sample_merged 3 = Some (7, 5)
      else isolated_in_migrated sample_merged = Some True \<and> fst ((7, 5) :: full_msg_id) = mk_peer (mg_key sample_merged)"
    using merged_index_inverse [OF sample_merged_ok size] index by blast
  then show ?thesis using index by simp
qed

section \<open>The counts of the merged slice\<close>

text \<open>The counts of a slice are known together with its ids: what comes before, is in, and comes after it is all.\<close>

definition counts_ok :: "id_slice \<Rightarrow> bool" where
  "counts_ok s \<longleftrightarrow> (case is_full s of None \<Rightarrow> False | Some full \<Rightarrow>
     case is_before s of None \<Rightarrow> False | Some before \<Rightarrow>
     case is_after s of None \<Rightarrow> False | Some after \<Rightarrow> before + slice_size s + after = full)"

lemma counts_okE:
  assumes "counts_ok s"
  obtains full before after where "is_full s = Some full" "is_before s = Some before" "is_after s = Some after"
    "before + slice_size s + after = full"
  using assms unfolding counts_ok_def by (auto split: option.splits)

text \<open>When the counts of both slices are known and add up, those of the merged slice are
  known and add up too, whichever of the two slices is left out because of a gap.\<close>

theorem merged_counts_add_up:
  assumes "merged_ok m" and "counts_ok (mg_part m)" and "mg_migrated m = Some g" and "counts_ok g"
  shows "\<exists>full before after size. merged_full m = Some full \<and> merged_before m = Some (Some before)
    \<and> merged_after m = Some (Some after) \<and> merged_size m = Some size \<and> before + size + after = full"
proof -
  obtain full before after where part: "is_full (mg_part m) = Some full" "is_before (mg_part m) = Some before"
    "is_after (mg_part m) = Some after" "before + slice_size (mg_part m) + after = full"
    using assms(2) by (rule counts_okE)
  obtain full' before' after' where migrated: "is_full g = Some full'" "is_before g = Some before'"
    "is_after g = Some after'" "before' + slice_size g + after' = full'"
    using assms(4) by (rule counts_okE)
  have unsorted: "mg_unsorted m = None" using assms(1) by (simp add: merged_ok_def)
  obtain iso where iso: "isolated_in_migrated m = Some iso" using isolated_in_migrated_defined [OF assms(1)] ..
  note defs = merged_full_def merged_before_def merged_after_def merged_size_def merged_migrated_size_def add_counts_def
  show ?thesis
  proof (cases "isolated_in_part m")
    case True
    then have "iso = False" using iso isolated_in_migrated_part by simp
    then show ?thesis using True part migrated iso unsorted assms(3) by (simp add: defs)
  next
    case False
    then show ?thesis using part migrated iso unsorted assms(3) by (cases iso) (simp_all add: defs)
  qed
qed

theorem merged_counts_add_up_witness:
  "\<exists>full before after size. merged_full sample_merged = Some full \<and> merged_before sample_merged = Some (Some before)
    \<and> merged_after sample_merged = Some (Some after) \<and> merged_size sample_merged = Some size
    \<and> before + size + after = full"
proof (rule merged_counts_add_up [OF sample_merged_ok])
  show "counts_ok (mg_part sample_merged)" by code_simp
  show "mg_migrated sample_merged = Some \<lparr>is_ids = [2, 3], is_full = Some 3, is_before = Some 1, is_after = Some 0\<rparr>"
    by (simp add: sample_merged_def)
  show "counts_ok \<lparr>is_ids = [2, 3], is_full = Some 3, is_before = Some 1, is_after = Some 0\<rparr>" by code_simp
qed

end
