(* ===== verification/Spec2Isabelle.thy ===== *)
theory Spec2Isabelle
  imports KeyboardHints ComposeProofs KeyLog CreditsAmounts PinnedOverlay StoreStates PtsWaiter ReceivedIds SparseIds SliceBuilder MergedSlices
begin

text \<open>
  Telegravim: a model of the logic of a Telegram Desktop fork with Vim keys. All paths below are
  relative to \<open>src/Telegram/SourceFiles/\<close>.

  \<^bold>\<open>The program.\<close> A C++/Qt messenger. This development covers three parts that carry its own logic.

  The \<^emph>\<open>Vim keymap\<close> (\<open>core/vim_keymap*.cpp\<close>), which this fork adds: a key event is matched against
  the configured bindings, drives a mode and small state machines, and ends in hints over the widgets
  of a window or in an edit of the message composer.

  The \<^emph>\<open>update and history core\<close>: the server numbers its updates, and \<open>data/data_pts_waiter.cpp\<close> puts
  them in order and notices gaps; \<open>mtproto/details/mtproto_received_ids_manager.cpp\<close> refuses replayed
  messages; \<open>data/data_messages.cpp\<close> and \<open>storage/storage_sparse_ids_list.cpp\<close> keep what is known of
  a long history as disjoint slices, and answer windows of it to the views, which follow the changes
  with a slice builder.

  The \<^emph>\<open>local data\<close> this fork keeps beside the data of the server: \<open>data/local_pinned_items.cpp\<close> lets the user
  pin chats without telling the server. Each change is shown at once and later made to JSON records in a store.

  \<^bold>\<open>Theories and code.\<close>

  \<^descr> \<open>Prelude\<close>: lemmas on lists and ordered association lists (\<open>base::flat_map\<close>, \<open>flat_set\<close>),
  \<open>std::clamp\<close>, and the locale of state machines with an invariant.

  \<^descr> \<open>VimBindings\<close> (\<open>core/vim_keymap_bindings.cpp\<close>): events, recognisers, the parser and matcher of
  binding strings. Qt's Unicode tables and the platform flag are the record \<open>qt_text\<close>.

  \<^descr> \<open>HintLabels\<close> (same file and \<open>core/vim_keymap.cpp\<close>): the label schemes; labels on screen together
  are prefix free, so that typing decides.

  \<^descr> \<open>KeyboardHints\<close> (\<open>core/vim_keymap_widgets.cpp\<close>): the hint mode of a scope as state passing;
  typing a label activates its target.

  \<^descr> \<open>VimGeometry\<close> (\<open>core/vim_keymap_geometry.cpp\<close>): placing badges, link rectangles, text cursors.

  \<^descr> \<open>VimKeys\<close> (\<open>core/vim_keymap_options.cpp\<close>, \<open>core/vim_keymap_config.cpp\<close>): the options and their JSON
  configuration; a refused configuration changes nothing, an accepted one keeps every option in its
  range, and the snapshot of a good store restores it.

  \<^descr> \<open>VimKeyPredicates\<close> (\<open>core/vim_keymap.cpp\<close>): the mode, the migration of old defaults, the predicates
  that recognise commands.

  \<^descr> \<open>ComposeText\<close>, \<open>ComposeEditor\<close>, \<open>ComposeProofs\<close> (\<open>core/vim_keymap_compose.cpp\<close>): the composer. The
  state is a record of the field, the clipboard, the mode, the four integers the handler keeps, the delete
  timer and the painted cursor; each lambda of \<open>HandleComposeTextKey\<close> is a definition, the chain of
  conditions is a list of groups of keys in the order of the code. The document is a parameter with the
  laws \<open>document_laws\<close>, which Qt documents and \<open>plain_library\<close> satisfies. The lemmas show which parts
  of the state each step leaves alone, then that each keeps the two invariants (the saved draft is the
  text; the cursor and the small integers are in range); the reachable states are an inductive set.

  \<^descr> \<open>KeyLog\<close> (\<open>core/vim_keymap_log.cpp\<close>): how keys are written down and the bounded log of them, which
  is shown to be the recent part of a history.

  \<^descr> \<open>CreditsAmounts\<close> (\<open>core/credits_amount.h\<close>, \<open>data/components/credits.cpp\<close>): amounts of Stars and Toncoin
  with their bit-fields; arithmetic is exact within bounds, and the server's format round trips.

  \<^descr> \<open>PeerIds\<close> (\<open>data/data_peer_id.cpp\<close>, \<open>data/data_msg_id.h\<close>): the bits of peer ids and their serializations,
  the ranges of message ids.

  \<^descr> \<open>MergedSlices\<close> (\<open>data/data_sparse_ids.cpp\<close>, \<open>data/data_abstract_sparse_ids.h\<close>): the slice of a chat and of
  the group it was migrated from, shown as one list; size, subscript, index and counts are those of the list.

  \<^descr> \<open>QtText\<close>, \<open>LocalJson\<close>: what the local data uses of \<open>QString\<close> (as a list of code points), \<open>QUuid\<close>,
  \<open>std::map\<close> and \<open>QJsonObject\<close> (sorted association lists); numbers of JSON are rational.

  \<^descr> \<open>PinnedItems\<close>, \<open>PinnedRecords\<close>, \<open>PinnedChanges\<close>, \<open>PinnedProofs\<close>, \<open>PinnedAgree\<close>
  (\<open>storage/local_pinned_items_format.cpp\<close>, \<open>data/local_pinned_items.cpp\<close>): the format of the records, the state read
  from them, and the four changes, each as the code has it twice: on the records and on the state. Records are
  grouped into slots, the part of the state a record decides; records of different slots commute, a later one of a
  slot absorbs an earlier one, and so a change of a record is a change of the state. The theorem is that the two
  versions of a change agree. The hash \<open>QUuid::createUuidV5\<close> is the parameter \<open>u5\<close>; the theorem assumes that no two of
  the few keys in play have one identity (\<open>no_clash\<close>), and that no order record is marked as deleted, which the
  code never writes.

  \<^descr> \<open>PinnedQueue\<close>, \<open>PinnedOverlay\<close> (\<open>data/local_pinned_items.cpp\<close>): the queue of changes as a state machine whose
  steps are the requests, the notice of a foreign change and the answers of the store, which are arbitrary; and the
  list of pins a view shows.

  \<^descr> \<open>StoreVersions\<close>, \<open>StoreMerge\<close>, \<open>StoreRecords\<close>, \<open>StoreBindings\<close> (\<open>storage/local_data_store.cpp\<close>): the store of local
  data. A record carries a version vector; the lemmas show that comparing vectors is a partial order, that a change
  makes the records it touches newer and keeps the ones it removes as deleted, that merging the metadata of two
  devices loses nothing, and that of several bindings of a saved tag to a message one stays active.

  \<^descr> \<open>StoreImport\<close>, \<open>StoreConverge\<close>, \<open>StoreArchives\<close> (\<open>storage/local_data_store.cpp\<close>): importing the data of another
  device, as the plan with its conflicts and as its application, and the archived versions that are left. The lemmas
  show that of every record the newest version wins, that two devices that import each other agree, that a resolved
  conflict is settled for both, and that restoring an archived version keeps the one there was.

  \<^descr> \<open>PtsWaiter\<close> (\<open>data/data_pts_waiter.cpp\<close>): the waiter with its two queues and its key counter at 32 bits.
  Updates that arrive in any order are applied once each, in the order of the server.

  \<^descr> \<open>ReceivedIds\<close> (\<open>mtproto/details/mtproto_received_ids_manager.cpp\<close>): no id is accepted twice.

  \<^descr> \<open>Slices\<close>, \<open>MessagesList\<close>, \<open>SparseIds\<close>: the sorted disjoint slices both lists share, as a locale
  over the order of the ids, and the two lists. The invariant relates the slices to the set \<open>T\<close> of the
  messages that really exist: the abstract specification of both.

  \<^descr> \<open>SliceBuilder\<close> (\<open>data/data_messages.cpp\<close>): the window of a view under updates.

  \<^bold>\<open>Bounds and fuel.\<close> Loops of the code are structural recursions, folds over the containers, or take the
  size of the container as fuel (\<open>shrink_loop\<close>, the badge sweeps), which each round of the loop uses up. The queue of local pins needs two answers more than it
  has changes to come to rest (\<open>queue_drains\<close>).
  Integers are unbounded where the code computes on sizes and coordinates far from the limits of \<open>int\<close>, and
  the theorems name the bound where one is needed; modifiers and the key counter of the waiter are words.

  \<^bold>\<open>Not modelled, and why.\<close> Widgets, painting, animation and event filters (Qt and the library submodules,
  whose sources are not in the repository); network sessions and cryptography around generated code;
  media playback, calls and the photo editor (external libraries); translations and tables. Of the
  modelled files: tracing of keys, the help box, the JSON schema, media speed in floating point, and the
  registries that dispatch keys to widgets; of the local data, the store of files, encryption and assets, the package of a transfer,
  and the modules for quick replies, saved tags, chat folders and navigation. The rest of \<open>data/\<close>, \<open>history/\<close>, \<open>dialogs/\<close> and \<open>iv/\<close> is listed
  component by component in the manifest.
\<close>

end
